(* ===== verification/Curvine_Prelude.thy ===== *)
theory Curvine_Prelude
  imports Main "HOL-Library.Word" "HOL-Library.Char_ord" "HOL-Library.List_Lexorder"
begin

text \<open>
  Shared vocabulary of the development: the types that stand for the machine integers and
  byte strings of the code, the error values of \<^verbatim>\<open>curvine-common/src/error/fs_error.rs\<close>, the two
  sequencing combinators that stand for the \<^verbatim>\<open>?\<close> operator, the string operations
  \<^verbatim>\<open>split\<close> and \<^verbatim>\<open>join\<close> the path code uses, and the sorted association lists that stand for
  \<^verbatim>\<open>BTreeMap\<close>.
\<close>

named_theorems op_simps \<open>unfolding of the sequencing combinators\<close>
named_theorems tree_map_simps \<open>laws of sorted association lists\<close>

subsection \<open>Types\<close>

text \<open>
  An \<^verbatim>\<open>i64\<close> or \<^verbatim>\<open>u64\<close> is an \<open>int\<close> whose wrap-around is written out where an operation can
  leave the range; a \<^verbatim>\<open>u32\<close> or \<^verbatim>\<open>u8\<close> is a word. A Rust string is its list of UTF-8 bytes, so
  the order of \<open>string\<close> (lexicographic, by byte) is the order of \<^verbatim>\<open>str\<close>.
\<close>

type_synonym u8 = "8 word"
type_synonym u32 = "32 word"
type_synonym i64 = int
type_synonym bytes = "u8 list"

datatype fs_error =
    Common string
  | FileAlreadyExists string
  | FileNotFound string
  | InProgress string
  | IoError string
  | NotLeaderMaster string
  | Panic string

type_synonym 'a res = "fs_error + 'a"

text \<open>
  A method with \<^verbatim>\<open>&mut self\<close> that returns \<^verbatim>\<open>Result\<close> changes its state whether it succeeds or
  not: what was written before the error stays written. The state is therefore returned
  on both branches.
\<close>

type_synonym ('s, 'a) op = "'s \<Rightarrow> 'a res \<times> 's"

definition bind_res :: "'a res \<Rightarrow> ('a \<Rightarrow> 'b res) \<Rightarrow> 'b res" where
  "bind_res m f = (case m of Inl e \<Rightarrow> Inl e | Inr x \<Rightarrow> f x)"

definition bind_op :: "('s, 'a) op \<Rightarrow> ('a \<Rightarrow> ('s, 'b) op) \<Rightarrow> ('s, 'b) op" where
  "bind_op m f s = (case m s of (Inl e, s') \<Rightarrow> (Inl e, s') | (Inr x, s') \<Rightarrow> f x s')"

definition lift_res :: "'a res \<Rightarrow> ('s, 'a) op" where
  "lift_res r s = (r, s)"

definition try_option :: "string \<Rightarrow> 'a option \<Rightarrow> 'a res" where
  "try_option msg v = (case v of None \<Rightarrow> Inl (Common msg) | Some x \<Rightarrow> Inr x)"

lemma bind_res_simps [simp, op_simps]:
  "bind_res (Inl e) f = Inl e"
  "bind_res (Inr x) f = f x"
  by (simp_all add: bind_res_def)

lemma bind_res_Inr_iff [simp, op_simps]:
  "bind_res m f = Inr y \<longleftrightarrow> (\<exists>x. m = Inr x \<and> f x = Inr y)"
  by (cases m) simp_all

lemma bind_op_eq [op_simps]:
  "m s = (Inl e, s') \<Longrightarrow> bind_op m f s = (Inl e, s')"
  "m s = (Inr x, s') \<Longrightarrow> bind_op m f s = f x s'"
  by (simp_all add: bind_op_def)

lemma bind_op_Inr_iff [op_simps]:
  "bind_op m f s = (Inr y, s'') \<longleftrightarrow> (\<exists>x s'. m s = (Inr x, s') \<and> f x s' = (Inr y, s''))"
  by (auto simp: bind_op_def split: prod.splits sum.splits)

lemma lift_res_simps [simp, op_simps]: "lift_res r s = (r, s)"
  by (simp add: lift_res_def)

lemma try_option_simps [simp, op_simps]:
  "try_option msg None = Inl (Common msg)"
  "try_option msg (Some x) = Inr x"
  by (simp_all add: try_option_def)

lemma try_option_Inr_iff [simp]: "try_option msg v = Inr x \<longleftrightarrow> v = Some x"
  by (cases v) simp_all

subsection \<open>Splitting and joining strings\<close>

text \<open>\<^verbatim>\<open>str::split(c)\<close>: the pieces between the separators, at least one.\<close>

fun split_on :: "'a \<Rightarrow> 'a list \<Rightarrow> 'a list list" where
  "split_on c [] = [[]]"
| "split_on c (x # xs) =
     (if x = c then [] # split_on c xs
      else (case split_on c xs of [] \<Rightarrow> [[x]] | y # ys \<Rightarrow> (x # y) # ys))"

text \<open>\<^verbatim>\<open>[String]::join(sep)\<close> for a separator of one character.\<close>

fun join_with :: "'a \<Rightarrow> 'a list list \<Rightarrow> 'a list" where
  "join_with c [] = []"
| "join_with c [x] = x"
| "join_with c (x # y # ys) = x @ c # join_with c (y # ys)"

lemma split_on_nonempty [simp]: "split_on c xs \<noteq> []"
  by (induction xs) (auto split: list.splits)

lemma join_with_Cons: "ys \<noteq> [] \<Longrightarrow> join_with c (x # ys) = x @ c # join_with c ys"
  by (cases ys) simp_all

lemma join_with_Cons_head:
  "join_with c ((x # y) # ys) = x # join_with c (y # ys)"
  by (cases ys) simp_all

lemma join_with_split_on [simp]: "join_with c (split_on c xs) = xs"
proof (induction xs)
  case Nil
  then show ?case by simp
next
  case (Cons x xs)
  then show ?case
    by (auto simp: join_with_Cons join_with_Cons_head split: list.splits)
qed

lemma split_on_no_sep: "c \<notin> set xs \<Longrightarrow> split_on c xs = [xs]"
  by (induction xs) auto

lemma split_on_append_sep:
  "c \<notin> set xs \<Longrightarrow> split_on c (xs @ c # ys) = xs # split_on c ys"
  by (induction xs) auto

lemma split_on_join_with:
  "xss \<noteq> [] \<Longrightarrow> \<forall>xs \<in> set xss. c \<notin> set xs \<Longrightarrow> split_on c (join_with c xss) = xss"
  by (induction xss rule: join_with.induct) (auto simp: split_on_no_sep split_on_append_sep)

lemma split_on_pieces: "xs \<in> set (split_on c ys) \<Longrightarrow> c \<notin> set xs"
  by (induction ys arbitrary: xs) (fastforce split: if_splits list.splits)+

subsection \<open>Sorted association lists\<close>

text \<open>
  A \<^verbatim>\<open>BTreeMap\<close> is the list of its entries in key order; insertion of a key that is present
  replaces the value.
\<close>

definition keys_sorted :: "('k::linorder \<times> 'v) list \<Rightarrow> bool" where
  "keys_sorted m \<longleftrightarrow> sorted_wrt (<) (map fst m)"

fun bt_insert :: "'k::linorder \<Rightarrow> 'v \<Rightarrow> ('k \<times> 'v) list \<Rightarrow> ('k \<times> 'v) list" where
  "bt_insert k v [] = [(k, v)]"
| "bt_insert k v ((k', v') # m) =
     (if k < k' then (k, v) # (k', v') # m
      else if k = k' then (k, v) # m
      else (k', v') # bt_insert k v m)"

definition bt_remove :: "'k \<Rightarrow> ('k \<times> 'v) list \<Rightarrow> ('k \<times> 'v) list" where
  "bt_remove k m = filter (\<lambda>e. fst e \<noteq> k) m"

lemma keys_sorted_Nil [simp, tree_map_simps]: "keys_sorted []"
  by (simp add: keys_sorted_def)

lemma keys_sorted_Cons [tree_map_simps]:
  "keys_sorted (e # m) \<longleftrightarrow> (\<forall>e' \<in> set m. fst e < fst e') \<and> keys_sorted m"
  by (auto simp: keys_sorted_def)

lemma set_bt_insert_keys: "fst ` set (bt_insert k v m) = insert k (fst ` set m)"
  by (induction k v m rule: bt_insert.induct) auto

lemma set_bt_insert_subset: "set (bt_insert k v m) \<subseteq> insert (k, v) (set m)"
  by (induction k v m rule: bt_insert.induct) auto

lemma keys_sorted_bt_insert [tree_map_simps, simp]:
  "keys_sorted m \<Longrightarrow> keys_sorted (bt_insert k v m)"
proof (induction k v m rule: bt_insert.induct)
  case (1 k v)
  then show ?case by (simp add: keys_sorted_def)
next
  case (2 k v k' v' m)
  have keys: "fst e \<in> insert k (fst ` set m)" if "e \<in> set (bt_insert k v m)" for e
    using that set_bt_insert_keys [of k v m] by blast
  show ?case
  proof (cases "k < k'")
    case True
    with 2 show ?thesis by (force simp: keys_sorted_Cons)
  next
    case False
    with 2 show ?thesis
      by (cases "k = k'") (auto simp: keys_sorted_Cons dest!: keys)
  qed
qed

lemma map_of_bt_insert [tree_map_simps, simp]:
  "map_of (bt_insert k v m) = (map_of m)(k \<mapsto> v)"
  by (induction k v m rule: bt_insert.induct) (auto simp: fun_eq_iff)

lemma map_of_bt_remove [tree_map_simps, simp]:
  "map_of (bt_remove k m) = (map_of m)(k := None)"
  by (induction m) (auto simp: fun_eq_iff bt_remove_def)

lemma keys_sorted_bt_remove [tree_map_simps, simp]:
  "keys_sorted m \<Longrightarrow> keys_sorted (bt_remove k m)"
  by (induction m) (auto simp: keys_sorted_Cons bt_remove_def)

lemma keys_sorted_distinct: "keys_sorted m \<Longrightarrow> distinct (map fst m)"
  by (simp add: keys_sorted_def strict_sorted_iff)

lemma map_of_sorted_iff:
  "keys_sorted m \<Longrightarrow> map_of m k = Some v \<longleftrightarrow> (k, v) \<in> set m"
  using keys_sorted_distinct by (auto intro: map_of_is_SomeI dest: map_of_SomeD)

lemma map_of_rebuild:
  "distinct (map fst m) \<Longrightarrow> map (\<lambda>k. (k, the (map_of m k))) (map fst m) = m"
  by (auto intro!: map_idI simp: comp_def)

lemma keys_sorted_map_of_inject:
  assumes "keys_sorted m" "keys_sorted n" "map_of m = map_of n"
  shows "m = n"
proof -
  have "set (map fst m) = set (map fst n)"
    using assms(3) by (metis dom_map_of_conv_image_fst list.set_map)
  then have "map fst m = map fst n"
    using assms(1,2) unfolding keys_sorted_def strict_sorted_iff
    by (intro sorted_distinct_set_unique) simp_all
  then show ?thesis
    using map_of_rebuild [OF keys_sorted_distinct [OF assms(1)]]
      map_of_rebuild [OF keys_sorted_distinct [OF assms(2)]] assms(3) by metis
qed

subsection \<open>Invariants\<close>

text \<open>A state that every step keeps well formed stays so over every sequence of steps. The block store of a
  worker and the registry of workers are such systems.\<close>

locale invariant_system =
  fixes step :: "'s \<Rightarrow> 's \<Rightarrow> bool" and inv :: "'s \<Rightarrow> bool"
  assumes kept: "inv s \<Longrightarrow> step s s' \<Longrightarrow> inv s'"
begin

lemma kept_by_steps: "step\<^sup>*\<^sup>* s s' \<Longrightarrow> inv s \<Longrightarrow> inv s'"
  by (induction rule: rtranclp_induct) (auto intro: kept)

lemma kept_by_fold:
  assumes "\<And>x s. step s (f x s)" "inv s"
  shows "inv (fold f xs s)"
  using assms(2) by (induction xs arbitrary: s) (auto intro: kept[OF _ assms(1)])

end

end
