(* ===== verification/Rocks_Keys.thy ===== *)
theory Rocks_Keys
  imports Curvine_Prelude "HOL-Library.Sublist"
begin

text \<open>
  The key encodings of the metadata database, \<^verbatim>\<open>curvine-common/src/rocksdb/rocks_utils.rs\<close>:
  big-endian integers (the \<^verbatim>\<open>byteorder\<close> functions, which are the big-endian byte order of the
  standard integers), concatenations of them, and \<^verbatim>\<open>calculate_end_bytes\<close>, the exclusive upper
  bound of a prefix scan. The lemmas show that decoding inverts encoding, that distinct
  keys have distinct encodings, and that the bounds of a prefix scan select exactly the
  keys with the prefix.
\<close>

subsection \<open>Big-endian integers\<close>

fun be_bytes :: "nat \<Rightarrow> int \<Rightarrow> bytes" where
  "be_bytes 0 x = []"
| "be_bytes (Suc n) x = be_bytes n (x div 256) @ [word_of_int x]"

definition be_uint :: "bytes \<Rightarrow> int" where
  "be_uint bs = foldl (\<lambda>a b. 256 * a + uint b) 0 bs"

definition i64_of :: "int \<Rightarrow> i64" where
  "i64_of x = signed_take_bit 63 x"

definition is_i64 :: "int \<Rightarrow> bool" where
  "is_i64 x \<longleftrightarrow> - (2 ^ 63) \<le> x \<and> x < 2 ^ 63"

definition i64_to_bytes :: "i64 \<Rightarrow> bytes" where
  "i64_to_bytes val = be_bytes 8 val"

definition u32_to_bytes :: "u32 \<Rightarrow> bytes" where
  "u32_to_bytes val = be_bytes 4 (uint val)"

definition i64_from_bytes :: "bytes \<Rightarrow> i64 res" where
  "i64_from_bytes bs =
     (if length bs < 8 then Inl (Common ''Byte array has less than 8 bytes'')
      else Inr (i64_of (be_uint (take 8 bs))))"

definition u64_to_bytes :: "int \<Rightarrow> bytes" where
  "u64_to_bytes val = be_bytes 8 val"

definition u64_from_bytes :: "bytes \<Rightarrow> int res" where
  "u64_from_bytes bs =
     (if length bs < 8 then Inl (Common ''Byte array has less than 8 bytes'')
      else Inr (be_uint (take 8 bs)))"

definition i32_to_bytes :: "int \<Rightarrow> bytes" where
  "i32_to_bytes val = be_bytes 4 val"

definition i32_from_bytes :: "bytes \<Rightarrow> int res" where
  "i32_from_bytes bs =
     (if length bs < 4 then Inl (Common ''Byte array has less than 4 bytes'')
      else Inr (signed_take_bit 31 (be_uint (take 4 bs))))"

definition prefix_to_bytes :: "bytes \<Rightarrow> bytes \<Rightarrow> bytes" where
  "prefix_to_bytes pre key = pre @ key"

definition str_bytes :: "string \<Rightarrow> bytes" where
  "str_bytes s = map of_char s"

definition i64_str_to_bytes :: "i64 \<Rightarrow> string \<Rightarrow> bytes" where
  "i64_str_to_bytes pre key = i64_to_bytes pre @ str_bytes key"

definition u32_i64_to_bytes :: "u32 \<Rightarrow> i64 \<Rightarrow> bytes" where
  "u32_i64_to_bytes pre key = u32_to_bytes pre @ i64_to_bytes key"

definition i64_u32_to_bytes :: "i64 \<Rightarrow> u32 \<Rightarrow> bytes" where
  "i64_u32_to_bytes pre key = i64_to_bytes pre @ u32_to_bytes key"

definition i64_u32_from_bytes :: "bytes \<Rightarrow> (i64 \<times> u32) res" where
  "i64_u32_from_bytes bs =
     (if length bs < 12 then Inl (Common ''Byte array has less than 4 bytes'')
      else Inr (i64_of (be_uint (take 8 bs)), word_of_int (be_uint (take 4 (drop 8 bs)))))"

definition u64_u64_to_bytes :: "int \<Rightarrow> int \<Rightarrow> bytes" where
  "u64_u64_to_bytes id1 id2 = u64_to_bytes id1 @ u64_to_bytes id2"

definition u64_u64_from_bytes :: "bytes \<Rightarrow> (int \<times> int) res" where
  "u64_u64_from_bytes bs =
     (if length bs < 16 then Inl (Common ''Byte array has less than 16 bytes'')
      else Inr (be_uint (take 8 bs), be_uint (take 8 (drop 8 bs))))"

text \<open>
  \<^verbatim>\<open>calculate_end_bytes\<close>: the loop walks \<open>offset\<close> down over the trailing \<open>0xff\<close> bytes; the
  result is the first \<open>offset\<close> bytes with the last of them incremented.
\<close>

fun end_offset :: "bytes \<Rightarrow> nat \<Rightarrow> nat" where
  "end_offset start 0 = 0"
| "end_offset start (Suc n) = (if start ! n \<noteq> 0xff then Suc n else end_offset start n)"

definition calculate_end_bytes :: "bytes \<Rightarrow> bytes" where
  "calculate_end_bytes start =
     (let offset = end_offset start (length start)
      in if offset = 0 then []
         else (let end_b = take offset start; last_pos = length end_b - 1
               in end_b [last_pos := end_b ! last_pos + 1]))"

subsection \<open>Round trips\<close>

lemma length_be_bytes [simp]: "length (be_bytes n x) = n"
  by (induction n arbitrary: x) simp_all

lemma be_uint_snoc [simp]: "be_uint (bs @ [b]) = 256 * be_uint bs + uint b"
  by (simp add: be_uint_def)

lemma be_uint_Nil [simp]: "be_uint [] = 0"
  by (simp add: be_uint_def)

lemma uint_u8_of_int: "uint (word_of_int x :: u8) = x mod 256"
  by (simp add: uint_word_of_int)

lemma be_uint_be_bytes: "be_uint (be_bytes n x) = x mod 256 ^ n"
proof (induction n arbitrary: x)
  case 0
  then show ?case by simp
next
  case (Suc n)
  have "x mod (256 * 256 ^ n) = 256 * (x div 256 mod 256 ^ n) + x mod 256"
    by (rule zmod_zmult2_eq) simp
  with Suc show ?case by (simp add: uint_u8_of_int)
qed

lemma be_bytes_mod: "be_bytes n (x mod 256 ^ n) = be_bytes n x"
proof (induction n arbitrary: x)
  case 0
  then show ?case by simp
next
  case (Suc n)
  have split: "x mod (256 * 256 ^ n) = 256 * (x div 256 mod 256 ^ n) + x mod 256"
    by (rule zmod_zmult2_eq) simp
  have "x mod 256 ^ Suc n div 256 = x div 256 mod 256 ^ n"
    unfolding power_Suc split by simp
  moreover have "(word_of_int (x mod 256 ^ Suc n) :: u8) = word_of_int x"
    unfolding power_Suc by (rule word_uint_eqI) (simp add: uint_u8_of_int mod_mod_cancel)
  ultimately show ?case using Suc by simp
qed

lemma i64_of_id [simp]: "is_i64 x \<Longrightarrow> i64_of x = x"
  unfolding is_i64_def i64_of_def by (rule signed_take_bit_int_eq_self) simp_all

lemma i64_of_mod: "i64_of (x mod 2 ^ 64) = i64_of x"
  unfolding i64_of_def take_bit_eq_mod [symmetric] by (simp add: signed_take_bit_take_bit)

lemma i64_of_range: "is_i64 (i64_of x)"
  unfolding is_i64_def i64_of_def
  using signed_take_bit_int_greater_eq_minus_exp [of 63 x] signed_take_bit_int_less_exp [of 63 x]
  by simp

lemma be_uint_i64: "i64_of (be_uint (i64_to_bytes x)) = i64_of x"
proof -
  have "be_uint (i64_to_bytes x) = x mod 2 ^ 64"
    by (simp add: i64_to_bytes_def be_uint_be_bytes)
  then show ?thesis by (simp only: i64_of_mod)
qed

lemma be_uint_u32 [simp]: "be_uint (u32_to_bytes w) = uint w"
proof -
  have "uint w < 2 ^ 32" using uint_lt2p [of w] by simp
  then show ?thesis by (simp add: u32_to_bytes_def be_uint_be_bytes)
qed

lemma length_key_parts [simp]:
  "length (i64_to_bytes x) = 8" "length (u32_to_bytes w) = 4" "length (u64_to_bytes x) = 8"
  "length (i32_to_bytes x) = 4"
  by (simp_all add: i64_to_bytes_def u32_to_bytes_def u64_to_bytes_def i32_to_bytes_def)

lemma i64_bytes_roundtrip: "is_i64 x \<Longrightarrow> i64_from_bytes (i64_to_bytes x) = Inr x"
  by (simp add: i64_from_bytes_def be_uint_i64)

lemma u64_bytes_roundtrip: "0 \<le> x \<Longrightarrow> x < 2 ^ 64 \<Longrightarrow> u64_from_bytes (u64_to_bytes x) = Inr x"
  by (simp add: u64_from_bytes_def u64_to_bytes_def be_uint_be_bytes)

lemma u64_u64_bytes_roundtrip:
  "0 \<le> x \<Longrightarrow> x < 2 ^ 64 \<Longrightarrow> 0 \<le> y \<Longrightarrow> y < 2 ^ 64 \<Longrightarrow>
   u64_u64_from_bytes (u64_u64_to_bytes x y) = Inr (x, y)"
  by (simp add: u64_u64_from_bytes_def u64_u64_to_bytes_def u64_to_bytes_def be_uint_be_bytes)

lemma i64_u32_bytes_roundtrip:
  "is_i64 x \<Longrightarrow> i64_u32_from_bytes (i64_u32_to_bytes x w) = Inr (x, w)"
  by (simp add: i64_u32_from_bytes_def i64_u32_to_bytes_def be_uint_i64)

subsection \<open>Distinct keys have distinct encodings\<close>

lemma i64_to_bytes_inject [simp]:
  "is_i64 x \<Longrightarrow> is_i64 y \<Longrightarrow> i64_to_bytes x = i64_to_bytes y \<longleftrightarrow> x = y"
  by (metis i64_bytes_roundtrip sum.inject(2))

lemma u32_to_bytes_inject [simp]: "u32_to_bytes v = u32_to_bytes w \<longleftrightarrow> v = w"
  using be_uint_u32 by (metis word_uint_eq_iff)

lemma unat_of_char_u8: "unat (of_char c :: u8) = of_char c"
proof -
  have "(of_char c :: u8) = of_nat (of_char c)" by (simp only: of_nat_of_char)
  then show ?thesis by (simp only: unat_of_nat) simp
qed

lemma of_char_u8_inject [simp]: "(of_char c :: u8) = of_char d \<longleftrightarrow> c = d"
  by (metis unat_of_char_u8 of_char_eq_iff)

lemma str_bytes_inject [simp]: "str_bytes s = str_bytes t \<longleftrightarrow> s = t"
  by (simp add: str_bytes_def inj_map_eq_map inj_def)

lemma i64_str_to_bytes_inject [simp]:
  "is_i64 x \<Longrightarrow> is_i64 y \<Longrightarrow>
   i64_str_to_bytes x s = i64_str_to_bytes y t \<longleftrightarrow> x = y \<and> s = t"
  by (simp add: i64_str_to_bytes_def)

lemma i64_u32_to_bytes_inject [simp]:
  "is_i64 x \<Longrightarrow> is_i64 y \<Longrightarrow>
   i64_u32_to_bytes x v = i64_u32_to_bytes y w \<longleftrightarrow> x = y \<and> v = w"
  by (simp add: i64_u32_to_bytes_def)

lemma u32_i64_to_bytes_inject [simp]:
  "is_i64 x \<Longrightarrow> is_i64 y \<Longrightarrow>
   u32_i64_to_bytes v x = u32_i64_to_bytes w y \<longleftrightarrow> v = w \<and> x = y"
  by (simp add: u32_i64_to_bytes_def)

subsection \<open>Prefix scans\<close>

lemma prefix_same_length: "length p = length q \<Longrightarrow> prefix p (q @ r) \<longleftrightarrow> p = q"
  by (auto simp: prefix_def)

lemma prefix_i64_str [simp]:
  "is_i64 x \<Longrightarrow> is_i64 y \<Longrightarrow> prefix (i64_to_bytes x) (i64_str_to_bytes y s) \<longleftrightarrow> x = y"
  by (simp add: i64_str_to_bytes_def prefix_same_length)

lemma prefix_i64_u32 [simp]:
  "is_i64 x \<Longrightarrow> is_i64 y \<Longrightarrow> prefix (i64_to_bytes x) (i64_u32_to_bytes y w) \<longleftrightarrow> x = y"
  by (simp add: i64_u32_to_bytes_def prefix_same_length)

lemma prefix_u32_i64 [simp]:
  "prefix (u32_to_bytes v) (u32_i64_to_bytes w y) \<longleftrightarrow> v = w"
  by (simp add: u32_i64_to_bytes_def prefix_same_length)

lemma end_offset_bound: "end_offset start n \<le> n"
  by (induction n) auto

lemma end_offset_spec:
  "n \<le> length start \<Longrightarrow>
   (\<forall>i. end_offset start n \<le> i \<and> i < n \<longrightarrow> start ! i = 0xff) \<and>
   (0 < end_offset start n \<longrightarrow> start ! (end_offset start n - 1) \<noteq> 0xff)"
  by (induction n) (auto simp: less_Suc_eq)

lemma unat_u8_bound: "unat (b :: u8) < 256"
  by (rule order_less_le_trans [OF unsigned_less]) simp

lemma u8_max: "(b :: u8) \<le> 0xff"
  using unat_u8_bound [of b] by (simp add: word_le_nat_alt)

lemma replicate_ff_le: "replicate m (0xff :: u8) \<le> k \<longleftrightarrow> prefix (replicate m 0xff) k"
proof (induction m arbitrary: k)
  case 0
  then show ?case by simp
next
  case (Suc m)
  then show ?case
    by (cases k) (simp_all add: u8_max leD)
qed

lemma u8_less_succ:
  assumes "(b :: u8) \<noteq> 0xff"
  shows "c < b + 1 \<longleftrightarrow> c \<le> b"
proof -
  have "unat b \<noteq> 255" using assms by (simp add: word_unat_eq_iff)
  then have "unat (b + 1) = unat b + 1"
    using unat_u8_bound [of b] by (simp add: unat_word_ariths)
  then show ?thesis by (simp add: word_less_nat_alt word_le_nat_alt less_Suc_eq_le)
qed

lemma prefix_bounds:
  fixes b :: u8
  assumes "b \<noteq> 0xff"
  shows "q @ b # replicate m 0xff \<le> k \<and> k < q @ [b + 1] \<longleftrightarrow>
         prefix (q @ b # replicate m 0xff) k"
proof (induction q arbitrary: k)
  case Nil
  show ?case
    by (cases k) (auto simp: u8_less_succ [OF assms] replicate_ff_le)
next
  case (Cons x q)
  note IH = Cons.IH
  show ?case
  proof (cases k)
    case (Cons y ys)
    then show ?thesis using IH [of ys] by (cases "x = y") auto
  qed simp
qed

lemma calculate_end_bytes_split:
  assumes "calculate_end_bytes start \<noteq> []"
  obtains q b m where "start = q @ b # replicate m 0xff" "b \<noteq> 0xff"
    "calculate_end_bytes start = q @ [b + 1]"
proof -
  define off where "off = end_offset start (length start)"
  have off: "0 < off" "off \<le> length start"
    using assms end_offset_bound [of start "length start"]
    by (auto simp: calculate_end_bytes_def off_def Let_def split: if_splits)
  define q where "q = take (off - 1) start"
  define b where "b = start ! (off - 1)"
  have head: "take off start = q @ [b]"
    using off unfolding q_def b_def
    by (metis Suc_pred' diff_less le_less_trans less_numeral_extra(1) not_le take_Suc_conv_app_nth)
  have tail: "drop off start = replicate (length start - off) 0xff"
    using end_offset_spec [of "length start" start] off
    by (intro nth_equalityI) (auto simp: off_def)
  have "b \<noteq> 0xff"
    using end_offset_spec [of "length start" start] off by (simp add: off_def b_def)
  moreover have "start = q @ b # replicate (length start - off) 0xff"
    using head tail append_take_drop_id [of off start] by simp
  moreover have "calculate_end_bytes start = q @ [b + 1]"
    using off head by (simp add: calculate_end_bytes_def off_def [symmetric] Let_def)
  ultimately show ?thesis using that by blast
qed

lemma calculate_end_bytes_empty_iff:
  "calculate_end_bytes start = [] \<longleftrightarrow> (\<forall>b \<in> set start. b = 0xff)"
proof
  assume "calculate_end_bytes start = []"
  then have "end_offset start (length start) = 0"
    using end_offset_bound [of start "length start"]
    by (auto simp: calculate_end_bytes_def Let_def split: if_splits)
  then show "\<forall>b \<in> set start. b = 0xff"
    using end_offset_spec [of "length start" start] by (auto simp: in_set_conv_nth)
next
  assume all: "\<forall>b \<in> set start. b = 0xff"
  show "calculate_end_bytes start = []"
  proof (rule ccontr)
    assume "calculate_end_bytes start \<noteq> []"
    then obtain q b m where "start = q @ b # replicate m 0xff" "b \<noteq> 0xff"
      by (rule calculate_end_bytes_split)
    with all show False by simp
  qed
qed

lemma prefix_scan_range:
  assumes "\<exists>b \<in> set start. b \<noteq> 0xff"
  shows "start \<le> k \<and> k < calculate_end_bytes start \<longleftrightarrow> prefix start k"
proof -
  from assms have "calculate_end_bytes start \<noteq> []"
    by (auto simp: calculate_end_bytes_empty_iff)
  then show ?thesis
    by (rule calculate_end_bytes_split) (simp add: prefix_bounds)
qed

text \<open>
  C7: the bounds of a prefix scan are exact. For every start key that is not made of
  \<open>0xff\<close> bytes only, a key lies between the start key and the computed end key, the end
  excluded, exactly when it has the start key as a prefix.
\<close>

theorem prefix_scan_exact:
  assumes "\<exists>b \<in> set start. b \<noteq> 0xff"
  shows "start \<le> k \<and> k < calculate_end_bytes start \<longleftrightarrow> prefix start k"
  using assms by (rule prefix_scan_range)

theorem prefix_scan_exact_witness:
  "(\<exists>b \<in> set [1, 0xff :: u8]. b \<noteq> 0xff) \<and> calculate_end_bytes [1, 0xff] = [2] \<and>
   ([1, 0xff] \<le> [1, 0xff, 7 :: u8] \<and> [1, 0xff, 7] < calculate_end_bytes [1, 0xff])"
proof -
  have ex: "\<exists>b \<in> set [1, 0xff :: u8]. b \<noteq> 0xff" by simp
  have "calculate_end_bytes [1, 0xff] = [2]"
    by (simp add: calculate_end_bytes_def)
  with prefix_scan_exact [OF ex, of "[1, 0xff, 7]"] ex show ?thesis by simp
qed

text \<open>
  the location keys decode to what was encoded, for every block id in the range of
  \<open>i64\<close> and every worker id.
\<close>

theorem location_key_roundtrip:
  assumes "is_i64 block_id"
  shows "i64_u32_from_bytes (i64_u32_to_bytes block_id worker_id) = Inr (block_id, worker_id)"
  using assms by (rule i64_u32_bytes_roundtrip)

theorem location_key_roundtrip_witness:
  "is_i64 (-5) \<and> i64_u32_from_bytes (i64_u32_to_bytes (-5) 7) = Inr (-5, 7)"
proof -
  have "is_i64 (-5)" by (simp add: is_i64_def)
  with location_key_roundtrip [OF this, of 7] show ?thesis by simp
qed

end
