(* ===== verification/Inode_Id.thy ===== *)
theory Inode_Id
  imports Rocks_Keys
begin

unbundle bit_operations_syntax

text \<open>
  Inode ids and block ids, \<^verbatim>\<open>curvine-server/src/master/meta/inode_id.rs\<close>. An inode id has 40
  bits; a block id packs the id of its file into the upper 40 bits of an \<^verbatim>\<open>i64\<close> and a
  sequence number of 24 bits below them. The counter is the \<^verbatim>\<open>AtomicLong\<close> of
  \<^verbatim>\<open>orpc/src/sync/atomic.rs\<close>; every operation on it runs under the write lock of the
  directory tree, so a compare-and-set against the value just read succeeds.
\<close>

definition ROOT_INODE_ID :: i64 where
  "ROOT_INODE_ID = 1000"

definition ID_BYTES :: nat where "ID_BYTES = 40"
definition SEQ_BYTES :: nat where "SEQ_BYTES = 24"
definition ID_MASK :: i64 where "ID_MASK = push_bit ID_BYTES 1 - 1"
definition SEQ_MASK :: i64 where "SEQ_MASK = push_bit SEQ_BYTES 1 - 1"

text \<open>\<^verbatim>\<open>AtomicLong::next\<close> and \<^verbatim>\<open>InodeId::next\<close>: the counter moves even when the id is refused.\<close>

definition atomic_next :: "(i64, i64) op" where
  "atomic_next c = (Inr (i64_of (c + 1)), i64_of (c + 1))"

definition next_id :: "(i64, i64) op" where
  "next_id = bind_op atomic_next (\<lambda>i. lift_res
     (if i > ID_MASK then Inl (Common ''inode id exceeds maximum value'') else Inr i))"

definition create_block_id :: "i64 \<Rightarrow> i64 \<Rightarrow> i64 res" where
  "create_block_id i seq =
     (if i > ID_MASK then Inl (Common ''inode id exceeds maximum value'')
      else if seq > SEQ_MASK then Inl (Common ''seq id exceeds maximum value'')
      else Inr (i64_of (push_bit SEQ_BYTES (i AND ID_MASK)) OR (seq AND SEQ_MASK)))"

definition get_id :: "i64 \<Rightarrow> i64" where
  "get_id i = drop_bit SEQ_BYTES i AND ID_MASK"

definition get_seq :: "i64 \<Rightarrow> i64" where
  "get_seq i = i AND SEQ_MASK"

definition reset_id :: "i64 \<Rightarrow> (i64, unit) op" where
  "reset_id new_value c =
     (if new_value < c then (Inl (Common ''Cannot reset to less than the current value''), c)
      else (Inr (), new_value))"

subsection \<open>Bit-level facts\<close>

lemma ID_MASK_mask: "ID_MASK = mask 40"
  by (simp add: ID_MASK_def ID_BYTES_def mask_eq_exp_minus_1)

lemma SEQ_MASK_mask: "SEQ_MASK = mask 24"
  by (simp add: SEQ_MASK_def SEQ_BYTES_def mask_eq_exp_minus_1)

lemma ID_MASK_val: "ID_MASK = 2 ^ 40 - 1"
  by (simp add: ID_MASK_def ID_BYTES_def)

lemma SEQ_MASK_val: "SEQ_MASK = 2 ^ 24 - 1"
  by (simp add: SEQ_MASK_def SEQ_BYTES_def)

lemma get_id_take: "get_id b = take_bit 40 (drop_bit 24 b)"
  by (simp add: get_id_def ID_MASK_mask SEQ_BYTES_def take_bit_eq_mask)

lemma get_seq_take: "get_seq b = take_bit 24 b"
  by (simp add: get_seq_def SEQ_MASK_mask take_bit_eq_mask)

lemma create_block_id_take:
  "create_block_id i seq = Inr b \<Longrightarrow>
   b = signed_take_bit 63 (push_bit 24 (take_bit 40 i)) OR take_bit 24 seq"
  by (simp add: create_block_id_def ID_MASK_mask SEQ_MASK_mask SEQ_BYTES_def i64_of_def
      take_bit_eq_mask split: if_splits)

lemma get_id_create: "create_block_id i seq = Inr b \<Longrightarrow> get_id b = take_bit 40 i"
  unfolding get_id_take
  by (drule create_block_id_take)
     (auto intro!: bit_eqI simp: bit_simps min_absorb2 cong: conj_cong)

lemma get_seq_create: "create_block_id i seq = Inr b \<Longrightarrow> get_seq b = take_bit 24 seq"
  unfolding get_seq_take
  by (drule create_block_id_take)
     (auto intro!: bit_eqI simp: bit_simps min_def)

lemma take_bit_id_range: "0 \<le> i \<Longrightarrow> i \<le> ID_MASK \<Longrightarrow> take_bit 40 i = i"
  by (rule take_bit_int_eq_self) (simp_all add: ID_MASK_val)

lemma take_bit_seq_range: "0 \<le> seq \<Longrightarrow> seq \<le> SEQ_MASK \<Longrightarrow> take_bit 24 seq = seq"
  by (rule take_bit_int_eq_self) (simp_all add: SEQ_MASK_val)

lemma create_block_id_ok:
  "i \<le> ID_MASK \<Longrightarrow> seq \<le> SEQ_MASK \<Longrightarrow> \<exists>b. create_block_id i seq = Inr b"
  by (simp add: create_block_id_def)

lemma create_block_id_inject:
  assumes "create_block_id i seq = Inr b" "create_block_id j seq' = Inr b"
    and "0 \<le> i" "i \<le> ID_MASK" "0 \<le> j" "j \<le> ID_MASK"
    and "0 \<le> seq" "seq \<le> SEQ_MASK" "0 \<le> seq'" "seq' \<le> SEQ_MASK"
  shows "i = j \<and> seq = seq'"
proof -
  have "get_id b = i" "get_seq b = seq"
    using assms by (simp_all add: get_id_create [OF assms(1)] get_seq_create [OF assms(1)]
        take_bit_id_range take_bit_seq_range)
  moreover have "get_id b = j" "get_seq b = seq'"
    using assms by (simp_all add: get_id_create [OF assms(2)] get_seq_create [OF assms(2)]
        take_bit_id_range take_bit_seq_range)
  ultimately show ?thesis by simp
qed

lemma is_i64_create:
  assumes "create_block_id i seq = Inr b"
  shows "is_i64 b"
proof -
  have "b = signed_take_bit 63 b"
    unfolding create_block_id_take [OF assms]
    by (auto intro!: bit_eqI simp: bit_simps min_def)
  then show ?thesis by (metis i64_of_def i64_of_range)
qed

lemma next_id_eq:
  "next_id c = ((if i64_of (c + 1) > ID_MASK then Inl (Common ''inode id exceeds maximum value'')
     else Inr (i64_of (c + 1))), i64_of (c + 1))"
  by (simp add: next_id_def bind_op_def atomic_next_def)

lemma next_id_Inr:
  assumes "next_id c = (Inr i, c')" "0 \<le> c" "c \<le> ID_MASK"
  shows "i = c + 1 \<and> c' = c + 1 \<and> i \<le> ID_MASK"
proof -
  have "is_i64 (c + 1)" using assms(2,3) by (simp add: is_i64_def ID_MASK_val)
  then have "i64_of (c + 1) = c + 1" by (rule i64_of_id)
  with assms(1) show ?thesis by (auto simp: next_id_eq split: if_splits)
qed

text \<open>
  a block id determines the file and the sequence number it was made of, for every
  inode id and every sequence number in range, and it is a valid \<open>i64\<close> (it is negative for
  ids of the upper half of the range, and the arithmetic shift of the decoder still
  recovers the id).
\<close>

theorem block_id_roundtrip:
  assumes "0 \<le> i" "i \<le> ID_MASK" "0 \<le> seq" "seq \<le> SEQ_MASK"
  shows "\<exists>b. create_block_id i seq = Inr b \<and> get_id b = i \<and> get_seq b = seq \<and> is_i64 b"
proof -
  obtain b where b: "create_block_id i seq = Inr b"
    using create_block_id_ok assms by blast
  with assms show ?thesis
    by (simp add: get_id_create get_seq_create take_bit_id_range take_bit_seq_range is_i64_create)
qed

theorem block_id_roundtrip_witness:
  "\<exists>b. create_block_id (2 ^ 40 - 1) 5 = Inr b \<and> get_id b = 2 ^ 40 - 1 \<and> get_seq b = 5 \<and> is_i64 b"
  using block_id_roundtrip [of "2 ^ 40 - 1" 5] by (simp add: ID_MASK_val SEQ_MASK_val)

end
