(* ===== verification/Slice_Search.thy ===== *)
theory Slice_Search
  imports Curvine_Prelude
begin

text \<open>
  The binary search of Rust's slices, \<^verbatim>\<open>binary_search_by\<close>, and \<^verbatim>\<open>partition_point\<close>, which is
  defined through it. The child list of a directory and the block index of a file reader
  use them. The lemmas say what they return on a slice the comparison is monotone on.
\<close>

datatype ordering = Less | Equal | Greater

function bs_loop :: "(nat \<Rightarrow> ordering) \<Rightarrow> nat \<Rightarrow> nat \<Rightarrow> nat" where
  "bs_loop f base len =
     (if 1 < len
      then bs_loop f (if f (base + len div 2) = Greater then base else base + len div 2)
             (len - len div 2)
      else base)"
  by auto
termination by (relation "measure (\<lambda>(f, base, len). len)") auto

declare bs_loop.simps [simp del]

text \<open>The result \<^verbatim>\<open>Result<usize, usize>\<close>: \<open>Inr\<close> the index found, \<open>Inl\<close> where to insert.\<close>

definition binary_search_by :: "('a \<Rightarrow> ordering) \<Rightarrow> 'a list \<Rightarrow> nat + nat" where
  "binary_search_by f xs =
     (if xs = [] then Inl 0
      else let base = bs_loop (\<lambda>i. f (xs ! i)) 0 (length xs) in
        case f (xs ! base) of
          Equal \<Rightarrow> Inr base
        | Less \<Rightarrow> Inl (base + 1)
        | Greater \<Rightarrow> Inl base)"

definition partition_point :: "('a \<Rightarrow> bool) \<Rightarrow> 'a list \<Rightarrow> nat" where
  "partition_point p xs =
     (case binary_search_by (\<lambda>x. if p x then Less else Greater) xs of Inl i \<Rightarrow> i | Inr i \<Rightarrow> i)"

definition cmp_mono :: "('a \<Rightarrow> ordering) \<Rightarrow> 'a list \<Rightarrow> bool" where
  "cmp_mono f xs \<longleftrightarrow>
     sorted_wrt (\<lambda>x y. (f x = Greater \<longrightarrow> f y = Greater) \<and> (f y = Less \<longrightarrow> f x = Less)) xs"

lemma cmp_mono_nth:
  assumes "cmp_mono f xs" "i \<le> j" "j < length xs"
  shows "f (xs ! i) = Greater \<Longrightarrow> f (xs ! j) = Greater"
    and "f (xs ! j) = Less \<Longrightarrow> f (xs ! i) = Less"
proof -
  have "i = j \<or> (f (xs ! i) = Greater \<longrightarrow> f (xs ! j) = Greater) \<and>
    (f (xs ! j) = Less \<longrightarrow> f (xs ! i) = Less)"
    using assms unfolding cmp_mono_def sorted_wrt_iff_nth_less by (metis le_neq_implies_less)
  then show "f (xs ! i) = Greater \<Longrightarrow> f (xs ! j) = Greater"
    and "f (xs ! j) = Less \<Longrightarrow> f (xs ! i) = Less"
    by auto
qed

lemma bs_loop_bounds: "0 < len \<Longrightarrow> base \<le> bs_loop f base len \<and> bs_loop f base len < base + len"
proof (induction f base len rule: bs_loop.induct)
  case (1 f base len)
  show ?case
  proof (cases "1 < len")
    case True
    let ?b = "if f (base + len div 2) = Greater then base else base + len div 2"
    have "?b \<le> bs_loop f ?b (len - len div 2) \<and>
          bs_loop f ?b (len - len div 2) < ?b + (len - len div 2)"
      using 1 True by simp
    then show ?thesis
      using True by (subst (1 2) bs_loop.simps) (auto split: if_splits)
  next
    case False
    then show ?thesis
      using 1 by (simp add: bs_loop.simps)
  qed
qed

text \<open>The loop keeps: what is past the window is \<open>Greater\<close>, and so is nothing left of it.\<close>

lemma bs_loop_spec:
  assumes "cmp_mono f xs" "0 < len" "base + len \<le> length xs"
    and "\<forall>j<length xs. base + len \<le> j \<longrightarrow> f (xs ! j) = Greater"
    and "base = 0 \<or> f (xs ! base) \<noteq> Greater"
  defines "r \<equiv> bs_loop (\<lambda>i. f (xs ! i)) base len"
  shows "(\<forall>j<length xs. r < j \<longrightarrow> f (xs ! j) = Greater) \<and> (r = 0 \<or> f (xs ! r) \<noteq> Greater)"
  using assms(2-5) unfolding r_def
proof (induction len arbitrary: base rule: less_induct)
  case (less len)
  show ?case
  proof (cases "1 < len")
    case True
    let ?m = "base + len div 2"
    let ?b = "if f (xs ! ?m) = Greater then base else ?m"
    have hi: "\<forall>j<length xs. ?b + (len - len div 2) \<le> j \<longrightarrow> f (xs ! j) = Greater"
    proof (cases "f (xs ! ?m) = Greater")
      case g: True
      show ?thesis
        using cmp_mono_nth(1)[OF assms(1), of ?m] g True by auto
    next
      case False
      have "?b + (len - len div 2) = base + len"
        using False by simp
      then show ?thesis
        using less.prems(3) by metis
    qed
    have lo: "?b = 0 \<or> f (xs ! ?b) \<noteq> Greater"
      using less.prems(4) by (cases "f (xs ! ?m) = Greater") simp_all
    have le: "?b + (len - len div 2) \<le> length xs"
      using less.prems(2) by (cases "f (xs ! ?m) = Greater") simp_all
    have step: "bs_loop (\<lambda>i. f (xs ! i)) base len = bs_loop (\<lambda>i. f (xs ! i)) ?b (len - len div 2)"
      using True by (subst bs_loop.simps) simp
    have "len - len div 2 < len" "0 < len - len div 2"
      using True by simp_all
    from less.IH[OF this le hi lo] show ?thesis
      unfolding step .
  next
    case False
    then have "len = 1"
      using less.prems by simp
    then show ?thesis
      using less.prems by (simp add: bs_loop.simps)
  qed
qed

lemma bs_base_spec:
  assumes "cmp_mono f xs" "xs \<noteq> []"
  defines "r \<equiv> bs_loop (\<lambda>i. f (xs ! i)) 0 (length xs)"
  shows "r < length xs" "\<And>j. j < length xs \<Longrightarrow> r < j \<Longrightarrow> f (xs ! j) = Greater"
    "r = 0 \<or> f (xs ! r) \<noteq> Greater"
proof -
  have "0 < length xs"
    using assms(2) by simp
  then show "r < length xs"
    unfolding r_def using bs_loop_bounds[of "length xs" 0] by simp
  have "(\<forall>j<length xs. r < j \<longrightarrow> f (xs ! j) = Greater) \<and> (r = 0 \<or> f (xs ! r) \<noteq> Greater)"
    unfolding r_def by (rule bs_loop_spec[OF assms(1)]) (simp_all add: assms(2))
  then show "\<And>j. j < length xs \<Longrightarrow> r < j \<Longrightarrow> f (xs ! j) = Greater"
    "r = 0 \<or> f (xs ! r) \<noteq> Greater"
    by blast+
qed

lemma binary_search_Ok:
  assumes "binary_search_by f xs = Inr i"
  shows "i < length xs" "f (xs ! i) = Equal"
  using assms bs_loop_bounds[of "length xs" 0 "\<lambda>i. f (xs ! i)"]
  by (auto simp: binary_search_by_def Let_def split: if_splits ordering.splits)

lemma binary_search_Err:
  assumes "cmp_mono f xs" "binary_search_by f xs = Inl i"
  shows "i \<le> length xs" "\<And>j. j < i \<Longrightarrow> f (xs ! j) = Less"
    "\<And>j. i \<le> j \<Longrightarrow> j < length xs \<Longrightarrow> f (xs ! j) = Greater"
proof -
  let ?r = "bs_loop (\<lambda>i. f (xs ! i)) 0 (length xs)"
  have *: "i \<le> length xs \<and> (\<forall>j<i. f (xs ! j) = Less) \<and>
    (\<forall>j<length xs. i \<le> j \<longrightarrow> f (xs ! j) = Greater)"
  proof (cases "xs = []")
    case True
    then show ?thesis
      using assms(2) by (simp add: binary_search_by_def)
  next
    case False
    note spec = bs_base_spec[OF assms(1) False]
    consider "f (xs ! ?r) = Less" "i = ?r + 1" | "f (xs ! ?r) = Greater" "i = ?r"
      using assms(2) False by (auto simp: binary_search_by_def Let_def split: ordering.splits)
    then show ?thesis
    proof cases
      case 1
      then show ?thesis
        using spec cmp_mono_nth(2)[OF assms(1), of _ ?r] by auto
    next
      case 2
      then show ?thesis
        using spec by (metis le_neq_implies_less less_nat_zero_code nat_less_le)
    qed
  qed
  from * show "i \<le> length xs" by blast
  from * show "\<And>j. j < i \<Longrightarrow> f (xs ! j) = Less" by blast
  from * show "\<And>j. i \<le> j \<Longrightarrow> j < length xs \<Longrightarrow> f (xs ! j) = Greater" by blast
qed

lemma binary_search_Ok_ex:
  assumes "cmp_mono f xs" "i < length xs" "f (xs ! i) = Equal"
  shows "\<exists>j. binary_search_by f xs = Inr j"
proof (cases "binary_search_by f xs")
  case (Inl k)
  then show ?thesis
    using binary_search_Err[OF assms(1) Inl] assms by (metis linorder_not_less ordering.distinct(1,5))
qed simp

lemma partition_point_spec:
  assumes "sorted_wrt (\<lambda>x y. p y \<longrightarrow> p x) xs"
  shows "partition_point p xs \<le> length xs"
    and "\<And>j. j < partition_point p xs \<Longrightarrow> p (xs ! j)"
    and "\<And>j. partition_point p xs \<le> j \<Longrightarrow> j < length xs \<Longrightarrow> \<not> p (xs ! j)"
proof -
  let ?f = "\<lambda>x. if p x then Less else Greater"
  have mono: "cmp_mono ?f xs"
    using assms unfolding cmp_mono_def by (rule sorted_wrt_mono_rel[rotated]) simp
  obtain i where i: "binary_search_by ?f xs = Inl i"
  proof (cases "binary_search_by ?f xs")
    case (Inr j)
    then show ?thesis
      using binary_search_Ok(2)[OF Inr] by (simp split: if_splits)
  qed
  have pp: "partition_point p xs = i"
    by (simp add: partition_point_def i)
  show "partition_point p xs \<le> length xs"
    using binary_search_Err(1)[OF mono i] by (simp add: pp)
  show "\<And>j. j < partition_point p xs \<Longrightarrow> p (xs ! j)"
    using binary_search_Err(2)[OF mono i] by (metis pp ordering.distinct(3))
  show "\<And>j. partition_point p xs \<le> j \<Longrightarrow> j < length xs \<Longrightarrow> \<not> p (xs ! j)"
    using binary_search_Err(3)[OF mono i] by (metis pp ordering.distinct(3))
qed

end
