(* ===== verification/State_Types.thy ===== *)
theory State_Types
  imports Slice_Search
begin

text \<open>
  The value types of \<^verbatim>\<open>curvine-common/src/state\<close> that the master and its clients exchange, the
  option structures of the file-system calls, and the two ways a reader finds the block of
  a file position: the scan of \<^verbatim>\<open>FileBlocks\<close> and the indexed search of \<^verbatim>\<open>SearchFileBlocks\<close>,
  proved equal. A \<^verbatim>\<open>HashMap\<close> of extended attributes is kept as a sorted association list:
  its iteration order is never observed.
\<close>

unbundle bit_operations_syntax

subsection \<open>Storage, ttl and file types\<close>

datatype storage_type = Mem | Ssd | Hdd | UfsStorage | Disk

datatype ttl_action = TtlNone | TtlMove | TtlUfs | TtlDelete

datatype file_type = FtDir | FtFile | FtLink | FtStream | FtAgg | FtObject

type_synonym x_attr = "(string \<times> bytes) list"

record storage_policy =
  sp_storage_type :: storage_type
  sp_ttl_ms :: i64
  sp_ttl_action :: ttl_action
  sp_ufs_mtime :: i64

definition default_storage_policy :: storage_policy where
  "default_storage_policy =
     \<lparr>sp_storage_type = Disk, sp_ttl_ms = 0, sp_ttl_action = TtlNone, sp_ufs_mtime = 0\<rparr>"

subsection \<open>Blocks as the clients see them\<close>

record block_location =
  bl_worker_id :: u32
  bl_storage_type :: storage_type

definition location_with_id :: "u32 \<Rightarrow> block_location" where
  "location_with_id i = \<lparr>bl_worker_id = i, bl_storage_type = Disk\<rparr>"

record commit_blk =
  cb_block_id :: i64
  cb_block_len :: i64
  cb_locations :: "block_location list"

record extended_block =
  eb_id :: i64
  eb_len :: i64
  eb_storage_type :: storage_type
  eb_file_type :: file_type

record worker_address =
  wa_worker_id :: u32
  wa_hostname :: string
  wa_ip_addr :: string
  wa_rpc_port :: u32
  wa_web_port :: u32

text \<open>\<^verbatim>\<open>PartialEq for WorkerAddress\<close>: workers are the same when their ids are.\<close>

definition worker_eq :: "worker_address \<Rightarrow> worker_address \<Rightarrow> bool" where
  "worker_eq a b \<longleftrightarrow> wa_worker_id a = wa_worker_id b"

record located_block =
  lb_block :: extended_block
  lb_locs :: "worker_address list"

record file_status =
  fs_id :: i64
  fs_path :: string
  fs_name :: string
  fs_is_dir :: bool
  fs_mtime :: i64
  fs_atime :: i64
  fs_children_num :: int
  fs_is_complete :: bool
  fs_len :: i64
  fs_replicas :: int
  fs_block_size :: i64
  fs_file_type :: file_type
  fs_x_attr :: x_attr
  fs_storage_policy :: storage_policy
  fs_mode :: u32
  fs_owner :: string
  fs_group :: string
  fs_nlink :: u32
  fs_target :: "string option"

definition status_readable :: "file_status \<Rightarrow> bool" where
  "status_readable s =
     (if fs_is_dir s then False else fs_is_complete s \<or> fs_file_type s = FtStream)"

definition status_is_expired :: "i64 \<Rightarrow> file_status \<Rightarrow> bool" where
  "status_is_expired now s \<longleftrightarrow>
     sp_ttl_action (fs_storage_policy s) = TtlDelete \<and>
     now > fs_atime s + sp_ttl_ms (fs_storage_policy s)"

record file_blocks =
  fb_status :: file_status
  fb_block_locs :: "located_block list"

record search_file_blocks =
  sfb_status :: file_status
  sfb_block_locs :: "located_block list"
  sfb_search_off :: "(i64 \<times> i64) list"

fun scan_blocks :: "i64 \<Rightarrow> i64 \<Rightarrow> located_block list \<Rightarrow> (i64 \<times> located_block) res" where
  "scan_blocks file_pos start_pos [] = Inl (Common ''Not found block for pos'')"
| "scan_blocks file_pos start_pos (block # rest) =
     (let end_pos = start_pos + eb_len (lb_block block) in
      if file_pos \<ge> start_pos \<and> file_pos < end_pos
      then Inr (file_pos - start_pos, block)
      else scan_blocks file_pos end_pos rest)"

definition get_read_block :: "file_blocks \<Rightarrow> i64 \<Rightarrow> (i64 \<times> located_block) res" where
  "get_read_block fb file_pos = scan_blocks file_pos 0 (fb_block_locs fb)"

fun search_offsets :: "i64 \<Rightarrow> located_block list \<Rightarrow> (i64 \<times> i64) list" where
  "search_offsets off [] = []"
| "search_offsets off (block # rest) =
     (off, off + eb_len (lb_block block)) # search_offsets (off + eb_len (lb_block block)) rest"

definition search_file_blocks_new :: "file_blocks \<Rightarrow> search_file_blocks" where
  "search_file_blocks_new fb =
     \<lparr>sfb_status = fb_status fb, sfb_block_locs = fb_block_locs fb,
      sfb_search_off = search_offsets 0 (fb_block_locs fb)\<rparr>"

definition search_read_block :: "search_file_blocks \<Rightarrow> i64 \<Rightarrow> (i64 \<times> located_block) res" where
  "search_read_block sfb file_pos =
     (let index = partition_point (\<lambda>r. snd r \<le> file_pos) (sfb_search_off sfb) in
      if index < length (sfb_block_locs sfb)
      then Inr (file_pos - fst (sfb_search_off sfb ! index), sfb_block_locs sfb ! index)
      else Inl (Common ''Not found block for pos''))"

subsection \<open>Options of the file-system calls\<close>

definition CRATE :: int where "CRATE = 1"
definition OVERWRITE :: int where "OVERWRITE = 2"
definition APPEND :: int where "APPEND = 4"

definition DEFAULT_FILE_SYSTEM_MODE :: u32 where
  "DEFAULT_FILE_SYSTEM_MODE = 511"

record create_file_opts =
  co_create_flag :: int
  co_create_parent :: bool
  co_replicas :: nat
  co_block_size :: i64
  co_file_type :: file_type
  co_x_attr :: x_attr
  co_storage_policy :: storage_policy
  co_mode :: u32
  co_client_name :: string

definition flag_create :: "int \<Rightarrow> bool" where "flag_create v \<longleftrightarrow> v AND CRATE \<noteq> 0"
definition flag_overwrite :: "int \<Rightarrow> bool" where "flag_overwrite v \<longleftrightarrow> v AND OVERWRITE \<noteq> 0"
definition flag_append :: "int \<Rightarrow> bool" where "flag_append v \<longleftrightarrow> v AND APPEND \<noteq> 0"

definition create_with_create :: "bool \<Rightarrow> create_file_opts" where
  "create_with_create create_parent =
     \<lparr>co_create_flag = CRATE, co_create_parent = create_parent, co_replicas = 1,
      co_block_size = 2 ^ 20 * 64, co_file_type = FtFile, co_x_attr = [],
      co_storage_policy = default_storage_policy, co_mode = DEFAULT_FILE_SYSTEM_MODE,
      co_client_name = []\<rparr>"

definition create_with_append :: create_file_opts where
  "create_with_append = (create_with_create False)\<lparr>co_create_flag := APPEND\<rparr>"

record mkdir_opts =
  mo_create_parent :: bool
  mo_x_attr :: x_attr
  mo_storage_policy :: storage_policy
  mo_mode :: u32

definition mkdir_with_create :: "bool \<Rightarrow> mkdir_opts" where
  "mkdir_with_create create_parent =
     \<lparr>mo_create_parent = create_parent, mo_x_attr = [],
      mo_storage_policy = default_storage_policy, mo_mode = DEFAULT_FILE_SYSTEM_MODE\<rparr>"

definition dir_opts :: "create_file_opts \<Rightarrow> mkdir_opts" where
  "dir_opts o' = \<lparr>mo_create_parent = co_create_parent o', mo_x_attr = [],
     mo_storage_policy = default_storage_policy, mo_mode = co_mode o'\<rparr>"

definition parent_opts :: "mkdir_opts \<Rightarrow> mkdir_opts" where
  "parent_opts o' = \<lparr>mo_create_parent = mo_create_parent o', mo_x_attr = [],
     mo_storage_policy = default_storage_policy, mo_mode = mo_mode o'\<rparr>"

record set_attr_opts =
  so_recursive :: bool
  so_replicas :: "int option"
  so_owner :: "string option"
  so_group :: "string option"
  so_mode :: "u32 option"
  so_atime :: "i64 option"
  so_mtime :: "i64 option"
  so_ttl_ms :: "i64 option"
  so_ttl_action :: "ttl_action option"
  so_add_x_attr :: x_attr
  so_remove_x_attr :: "string list"

definition child_opts :: "set_attr_opts \<Rightarrow> set_attr_opts" where
  "child_opts o' =
     \<lparr>so_recursive = False, so_replicas = so_replicas o', so_owner = so_owner o',
      so_group = so_group o', so_mode = so_mode o', so_atime = None, so_mtime = None,
      so_ttl_ms = None, so_ttl_action = None, so_add_x_attr = [], so_remove_x_attr = []\<rparr>"

subsection \<open>Mount points\<close>

datatype mount_type = Cst | Orch

datatype consistency_strategy = CsNone | CsAlways

record mount_info =
  mi_cv_path :: string
  mi_ufs_path :: string
  mi_mount_id :: u32
  mi_properties :: "(string \<times> string) list"
  mi_ttl_ms :: i64
  mi_ttl_action :: ttl_action
  mi_consistency_strategy :: consistency_strategy
  mi_storage_type :: "storage_type option"
  mi_block_size :: "i64 option"
  mi_replicas :: "int option"
  mi_mount_type :: mount_type

subsection \<open>The indexed search finds what the scan finds\<close>

lemma search_offsets_length [simp]: "length (search_offsets off bs) = length bs"
  by (induction bs arbitrary: off) simp_all

lemma search_offsets_ge:
  "\<forall>b\<in>set bs. 0 \<le> eb_len (lb_block b) \<Longrightarrow> r \<in> set (search_offsets off bs) \<Longrightarrow>
   off \<le> fst r \<and> off \<le> snd r"
  by (induction bs arbitrary: off) fastforce+

lemma search_offsets_sorted:
  "\<forall>b\<in>set bs. 0 \<le> eb_len (lb_block b) \<Longrightarrow>
   sorted_wrt (\<lambda>x y. snd x \<le> snd y) (search_offsets off bs)"
proof (induction bs arbitrary: off)
  case (Cons b bs)
  then show ?case
    using search_offsets_ge[of bs _ "off + eb_len (lb_block b)"] by auto
qed simp

text \<open>The scan, in terms of the first range whose end lies past the position.\<close>

lemma scan_blocks_index:
  assumes "\<forall>b\<in>set bs. 0 \<le> eb_len (lb_block b)" "off \<le> pos" "i \<le> length bs"
    "\<forall>j<i. snd (search_offsets off bs ! j) \<le> pos"
    "i < length bs \<longrightarrow> pos < snd (search_offsets off bs ! i)"
  shows "scan_blocks pos off bs =
    (if i < length bs then Inr (pos - fst (search_offsets off bs ! i), bs ! i)
     else Inl (Common ''Not found block for pos''))"
  using assms
proof (induction bs arbitrary: off i)
  case (Cons b bs)
  let ?e = "off + eb_len (lb_block b)"
  show ?case
  proof (cases i)
    case 0
    then show ?thesis
      using Cons.prems by simp
  next
    case (Suc k)
    have "?e \<le> pos"
      using Cons.prems(4) Suc by auto
    moreover have "\<forall>j<k. snd (search_offsets ?e bs ! j) \<le> pos"
      using Cons.prems(4) Suc by (metis Suc_less_eq nth_Cons_Suc search_offsets.simps(2))
    ultimately show ?thesis
      using Cons.prems Cons.IH[of ?e k] Suc by simp
  qed
qed simp

lemma search_eq_scan:
  assumes "\<forall>b\<in>set (fb_block_locs fb). 0 \<le> eb_len (lb_block b)" "0 \<le> pos"
  shows "search_read_block (search_file_blocks_new fb) pos = get_read_block fb pos"
proof -
  let ?bs = "fb_block_locs fb" and ?p = "\<lambda>r::i64 \<times> i64. snd r \<le> pos"
  let ?offs = "search_offsets 0 ?bs"
  have "sorted_wrt (\<lambda>x y. ?p y \<longrightarrow> ?p x) ?offs"
    by (rule sorted_wrt_mono_rel[OF _ search_offsets_sorted[OF assms(1)]]) simp
  note spec = partition_point_spec[OF this]
  let ?i = "partition_point ?p ?offs"
  have "scan_blocks pos 0 ?bs =
    (if ?i < length ?bs then Inr (pos - fst (?offs ! ?i), ?bs ! ?i)
     else Inl (Common ''Not found block for pos''))"
    using spec(1) spec(2) spec(3)[of ?i] by (intro scan_blocks_index assms) auto
  then show ?thesis
    by (simp add: get_read_block_def search_read_block_def search_file_blocks_new_def Let_def)
qed

text \<open>The block found holds the position: the offset is inside the block.\<close>

lemma scan_blocks_sound:
  "scan_blocks pos off bs = Inr (o', b) \<Longrightarrow> b \<in> set bs \<and> 0 \<le> o' \<and> o' < eb_len (lb_block b)"
  by (induction bs arbitrary: off) (auto simp: Let_def split: if_splits)

lemma scan_blocks_total:
  assumes "\<forall>b\<in>set bs. 0 \<le> eb_len (lb_block b)" "off \<le> pos"
    "pos < off + sum_list (map (\<lambda>b. eb_len (lb_block b)) bs)"
  shows "\<exists>r. scan_blocks pos off bs = Inr r"
  using assms by (induction bs arbitrary: off) (auto simp: Let_def add.assoc)


definition ex_status :: file_status where
  "ex_status = \<lparr>fs_id = 1001, fs_path = ''/a'', fs_name = ''a'', fs_is_dir = False, fs_mtime = 0,
     fs_atime = 0, fs_children_num = 0, fs_is_complete = True, fs_len = 9, fs_replicas = 1,
     fs_block_size = 5, fs_file_type = FtFile, fs_x_attr = [],
     fs_storage_policy = default_storage_policy, fs_mode = 511, fs_owner = [], fs_group = [],
     fs_nlink = 1, fs_target = None\<rparr>"

definition ex_located :: "i64 \<Rightarrow> i64 \<Rightarrow> located_block" where
  "ex_located i n = \<lparr>lb_block = \<lparr>eb_id = i, eb_len = n, eb_storage_type = Disk,
     eb_file_type = FtFile\<rparr>, lb_locs = []\<rparr>"

definition ex_file_blocks :: file_blocks where
  "ex_file_blocks = \<lparr>fb_status = ex_status,
     fb_block_locs = [ex_located 1 4, ex_located 2 0, ex_located 3 5]\<rparr>"


end
