(* ===== verification/Inode_File.thy ===== *)
theory Inode_File
  imports Inode_Id State_Types
begin

text \<open>
  The file inode and its blocks: \<^verbatim>\<open>BlockMeta\<close> (\<^verbatim>\<open>master/meta/block_meta.rs\<close>), the features (\<^verbatim>\<open>master/meta/feature\<close>), \<^verbatim>\<open>InodeFile\<close>
  (\<^verbatim>\<open>master/meta/inode/inode_file.rs\<close>) and the two block-state functions of
  \<^verbatim>\<open>master/meta/fs_dir.rs\<close> that work on a file alone. The lemmas are about block allocation
  (fresh ids, idempotent retries) and the lengths a file reports.
\<close>

subsection \<open>Block metadata\<close>

datatype block_state = Complete | Committed | Writing | Recovering

record block_meta =
  bm_id :: i64
  bm_len :: i64
  bm_replicas :: nat
  bm_state :: block_state
  bm_locs :: "block_location list option"

definition block_new :: "i64 \<Rightarrow> i64 \<Rightarrow> block_meta" where
  "block_new i len =
     \<lparr>bm_id = i, bm_len = len, bm_replicas = 1, bm_state = Writing, bm_locs = None\<rparr>"

definition block_with_pre :: "i64 \<Rightarrow> worker_address list \<Rightarrow> block_meta" where
  "block_with_pre i workers =
     \<lparr>bm_id = i, bm_len = 0, bm_replicas = 1, bm_state = Writing,
      bm_locs = Some (map (\<lambda>w. location_with_id (wa_worker_id w)) workers)\<rparr>"

definition block_commit :: "commit_blk \<Rightarrow> block_meta \<Rightarrow> block_meta" where
  "block_commit c b = b\<lparr>bm_state := Committed, bm_len := cb_block_len c, bm_locs := None\<rparr>"

definition block_is_writing :: "block_meta \<Rightarrow> bool" where
  "block_is_writing b \<longleftrightarrow> bm_state b = Writing"

definition block_is_committed :: "block_meta \<Rightarrow> bool" where
  "block_is_committed b \<longleftrightarrow> bm_state b = Committed"

definition matching_block :: "block_meta option \<Rightarrow> commit_blk option \<Rightarrow> bool" where
  "matching_block a b \<longleftrightarrow> map_option bm_id a = map_option cb_block_id b"

subsection \<open>Features and the file inode\<close>

record acl_feature =
  acl_owner :: string
  acl_group :: string
  acl_mode :: u32

definition acl_with_mode :: "u32 \<Rightarrow> acl_feature" where
  "acl_with_mode m = \<lparr>acl_owner = [], acl_group = [], acl_mode = m\<rparr>"

definition default_acl :: acl_feature where
  "default_acl = acl_with_mode 511"

record write_feature =
  wf_client_name :: string

record file_feature =
  ff_x_attr :: x_attr
  ff_file_write :: "write_feature option"
  ff_acl :: acl_feature

definition file_feature_new :: file_feature where
  "file_feature_new = \<lparr>ff_x_attr = [], ff_file_write = None, ff_acl = default_acl\<rparr>"

definition set_writing :: "string \<Rightarrow> file_feature \<Rightarrow> file_feature" where
  "set_writing client_name ff = ff\<lparr>ff_file_write := Some \<lparr>wf_client_name = client_name\<rparr>\<rparr>"

definition complete_write :: "file_feature \<Rightarrow> file_feature" where
  "complete_write ff = ff\<lparr>ff_file_write := None\<rparr>"

definition add_attr :: "string \<Rightarrow> bytes \<Rightarrow> file_feature \<Rightarrow> file_feature" where
  "add_attr k v ff = ff\<lparr>ff_x_attr := bt_insert k v (ff_x_attr ff)\<rparr>"

definition remove_attr :: "string \<Rightarrow> file_feature \<Rightarrow> file_feature" where
  "remove_attr k ff = ff\<lparr>ff_x_attr := bt_remove k (ff_x_attr ff)\<rparr>"

definition set_attrs :: "x_attr \<Rightarrow> file_feature \<Rightarrow> file_feature" where
  "set_attrs m ff = ff\<lparr>ff_x_attr := m\<rparr>"

definition set_mode :: "u32 \<Rightarrow> file_feature \<Rightarrow> file_feature" where
  "set_mode m ff = ff\<lparr>ff_acl := (ff_acl ff)\<lparr>acl_mode := m\<rparr>\<rparr>"

record inode_file =
  f_id :: i64
  f_parent_id :: i64
  f_file_type :: file_type
  f_mtime :: i64
  f_atime :: i64
  f_len :: i64
  f_block_size :: i64
  f_replicas :: nat
  f_storage_policy :: storage_policy
  f_features :: file_feature
  f_blocks :: "block_meta list"
  f_nlink :: u32
  f_next_seq :: u32
  f_target :: "string option"

definition EMPTY_PARENT_ID :: i64 where
  "EMPTY_PARENT_ID = -1"

definition file_new :: "i64 \<Rightarrow> i64 \<Rightarrow> inode_file" where
  "file_new i time =
     \<lparr>f_id = i, f_parent_id = EMPTY_PARENT_ID, f_file_type = FtFile, f_mtime = time,
      f_atime = time, f_len = 0, f_block_size = 0, f_replicas = 0,
      f_storage_policy = default_storage_policy, f_features = file_feature_new,
      f_blocks = [], f_nlink = 1, f_next_seq = 0, f_target = None\<rparr>"

definition file_with_opts :: "i64 \<Rightarrow> i64 \<Rightarrow> create_file_opts \<Rightarrow> inode_file" where
  "file_with_opts i time opts =
     (let file = \<lparr>f_id = i, f_parent_id = EMPTY_PARENT_ID, f_file_type = co_file_type opts,
            f_mtime = time, f_atime = time, f_len = 0, f_block_size = co_block_size opts,
            f_replicas = co_replicas opts, f_storage_policy = co_storage_policy opts,
            f_features = file_feature_new, f_blocks = [], f_nlink = 1, f_next_seq = 0,
            f_target = None\<rparr>;
          ff = set_writing (co_client_name opts) (f_features file);
          ff = (if co_x_attr opts \<noteq> [] then set_attrs (co_x_attr opts) ff else ff);
          ff = set_mode (co_mode opts) ff
      in file\<lparr>f_features := ff\<rparr>)"

definition file_with_link :: "i64 \<Rightarrow> i64 \<Rightarrow> string \<Rightarrow> u32 \<Rightarrow> inode_file" where
  "file_with_link i time target mode =
     \<lparr>f_id = i, f_parent_id = EMPTY_PARENT_ID, f_file_type = FtLink,
      f_mtime = time, f_atime = time, f_len = 0, f_block_size = 0, f_replicas = 0,
      f_storage_policy = default_storage_policy,
      f_features = \<lparr>ff_x_attr = [], ff_file_write = None, ff_acl = acl_with_mode mode\<rparr>,
      f_blocks = [], f_nlink = 1, f_next_seq = 0, f_target = Some target\<rparr>"

definition block_ids :: "inode_file \<Rightarrow> i64 list" where
  "block_ids f = map bm_id (f_blocks f)"

definition is_complete :: "inode_file \<Rightarrow> bool" where
  "is_complete f \<longleftrightarrow> ff_file_write (f_features f) = None"

definition is_writing :: "inode_file \<Rightarrow> bool" where
  "is_writing f \<longleftrightarrow> ff_file_write (f_features f) \<noteq> None"

definition add_block :: "block_meta \<Rightarrow> inode_file \<Rightarrow> inode_file" where
  "add_block b f = f\<lparr>f_blocks := f_blocks f @ [b]\<rparr>"

text \<open>\<^verbatim>\<open>compute_len\<close>: the last block counts only when it is committed.\<close>

definition compute_len :: "inode_file \<Rightarrow> i64" where
  "compute_len f =
     foldl (\<lambda>sum (i, x). sum + (if i = length (f_blocks f) - 1 \<and> \<not> block_is_committed x
                               then 0 else bm_len x))
       0 (enumerate 0 (f_blocks f))"

definition commit_len :: "inode_file \<Rightarrow> commit_blk option \<Rightarrow> i64" where
  "commit_len f last_b = compute_len f + (case last_b of None \<Rightarrow> 0 | Some x \<Rightarrow> cb_block_len x)"

text \<open>\<^verbatim>\<open>(self.blocks.len() as i32 + pos) as usize\<close>: a negative result becomes a huge \<^verbatim>\<open>usize\<close>.\<close>

definition calc_pos :: "inode_file \<Rightarrow> int \<Rightarrow> nat" where
  "calc_pos f pos =
     nat ((if pos < 0 then signed_take_bit 31 (signed_take_bit 31 (int (length (f_blocks f))) + pos)
           else pos) mod 2 ^ 64)"

definition get_block :: "inode_file \<Rightarrow> int \<Rightarrow> block_meta option" where
  "get_block f pos =
     (let p = calc_pos f pos
      in if p < length (f_blocks f) then Some (f_blocks f ! p) else None)"

definition get_block_check :: "inode_file \<Rightarrow> int \<Rightarrow> block_meta res" where
  "get_block_check f pos = try_option ''Not found block'' (get_block f pos)"

definition append_to :: "string \<Rightarrow> inode_file \<Rightarrow> extended_block option \<times> inode_file" where
  "append_to client_name f =
     (let f1 = f\<lparr>f_features := (f_features f)\<lparr>ff_file_write := Some \<lparr>wf_client_name = client_name\<rparr>\<rparr>\<rparr>;
          p = calc_pos f1 (-1)
      in if p < length (f_blocks f1)
         then (let last_block = (f_blocks f1 ! p)\<lparr>bm_state := Writing\<rparr>
               in (Some \<lparr>eb_id = bm_id last_block, eb_len = bm_len last_block,
                     eb_storage_type = sp_storage_type (f_storage_policy f1),
                     eb_file_type = f_file_type f1\<rparr>,
                   f1\<lparr>f_blocks := (f_blocks f1)[p := last_block]\<rparr>))
         else (None, f1))"

text \<open>Positions are compared as integers when the definitions are evaluated.\<close>

abbreviation pos_int :: "inode_file \<Rightarrow> int \<Rightarrow> int" where
  "pos_int f pos \<equiv>
     (if pos < 0 then signed_take_bit 31 (signed_take_bit 31 (int (length (f_blocks f))) + pos) else pos) mod 2 ^ 64"

lemma get_block_code [code]:
  "get_block f pos =
     (let i = pos_int f pos in if i < int (length (f_blocks f)) then Some (f_blocks f ! nat i) else None)"
  unfolding get_block_def calc_pos_def Let_def by (simp add: nat_less_iff)

lemma append_to_code [code]:
  "append_to client_name f =
     (let f1 = f\<lparr>f_features := (f_features f)\<lparr>ff_file_write := Some \<lparr>wf_client_name = client_name\<rparr>\<rparr>\<rparr>;
          i = pos_int f1 (-1)
      in if i < int (length (f_blocks f1))
         then (let last_block = (f_blocks f1 ! nat i)\<lparr>bm_state := Writing\<rparr>
               in (Some \<lparr>eb_id = bm_id last_block, eb_len = bm_len last_block,
                     eb_storage_type = sp_storage_type (f_storage_policy f1),
                     eb_file_type = f_file_type f1\<rparr>,
                   f1\<lparr>f_blocks := (f_blocks f1)[nat i := last_block]\<rparr>))
         else (None, f1))"
  unfolding append_to_def calc_pos_def Let_def by (simp add: nat_less_iff)

definition next_block_id :: "(inode_file, i64) op" where
  "next_block_id f =
     (let seq = uint (f_next_seq f)
      in (create_block_id (f_id f) seq, f\<lparr>f_next_seq := f_next_seq f + 1\<rparr>))"

definition increment_nlink :: "inode_file \<Rightarrow> inode_file" where
  "increment_nlink f = f\<lparr>f_nlink := f_nlink f + 1\<rparr>"

definition decrement_nlink :: "inode_file \<Rightarrow> u32 \<times> inode_file" where
  "decrement_nlink f =
     (let f1 = (if 0 < f_nlink f then f\<lparr>f_nlink := f_nlink f - 1\<rparr> else f) in (f_nlink f1, f1))"

definition is_last_link :: "inode_file \<Rightarrow> bool" where
  "is_last_link f \<longleftrightarrow> f_nlink f \<le> 1"

definition overwrite_meta :: "create_file_opts \<Rightarrow> i64 \<Rightarrow> inode_file \<Rightarrow> inode_file" where
  "overwrite_meta opts mtime f =
     f\<lparr>f_blocks := [], f_len := 0, f_replicas := co_replicas opts,
       f_block_size := co_block_size opts, f_storage_policy := co_storage_policy opts,
       f_mtime := mtime, f_features := set_writing (co_client_name opts) (f_features f)\<rparr>"

subsection \<open>Committing and allocating blocks\<close>

text \<open>\<^verbatim>\<open>FsDir::commit_block\<close>: commits the last block, which must be the one the client names.\<close>

definition commit_block :: "commit_blk option \<Rightarrow> (inode_file, unit) op" where
  "commit_block commit f =
     (case commit of
        None \<Rightarrow> (Inr (), f)
      | Some c \<Rightarrow>
          (if f_blocks f = [] then (Inl (Common ''block status is abnormal, no blocks''), f)
           else let last_block = last (f_blocks f) in
             if bm_id last_block \<noteq> cb_block_id c
             then (Inl (Common ''block status is abnormal, unexpected last block id''), f)
             else if \<not> block_is_writing last_block
             then (Inl (Common ''block not writing status''), f)
             else (Inr (), f\<lparr>f_blocks := butlast (f_blocks f) @ [block_commit c last_block]\<rparr>)))"

text \<open>\<^verbatim>\<open>FsDir::analyze_block_state\<close>: the block to return again when the request is a retry.\<close>

definition analyze_block_state :: "inode_file \<Rightarrow> commit_blk option \<Rightarrow> block_meta option res" where
  "analyze_block_state f commit =
     (let last_block = get_block f (-1) in
      if matching_block last_block commit then Inr None
      else let penultimate = get_block f (-2) in
        if matching_block penultimate commit then
          (if last_block = None then Inl (Common ''Abnormal block status'') else Inr last_block)
        else Inr None)"

text \<open>The part of \<^verbatim>\<open>FsDir::acquire_new_block\<close> that works on the file: the flag tells whether the
  block is new (the request goes on to the store) or the answer to a retry.\<close>

definition acquire_on_file ::
  "commit_blk option \<Rightarrow> worker_address list \<Rightarrow> (inode_file, extended_block \<times> bool) op" where
  "acquire_on_file commit choose_workers =
     bind_op (\<lambda>f. (analyze_block_state f commit, f)) (\<lambda>retry_block f.
       case retry_block of
         Some b \<Rightarrow> (Inr (\<lparr>eb_id = bm_id b, eb_len = bm_len b,
                      eb_storage_type = sp_storage_type (f_storage_policy f),
                      eb_file_type = f_file_type f\<rparr>, False), f)
       | None \<Rightarrow>
           bind_op next_block_id (\<lambda>new_block_id.
           bind_op (commit_block commit) (\<lambda>_ f.
             (Inr (\<lparr>eb_id = new_block_id, eb_len = 0,
                    eb_storage_type = sp_storage_type (f_storage_policy f),
                    eb_file_type = f_file_type f\<rparr>, True),
              add_block (block_with_pre new_block_id choose_workers) f))) f)"

text \<open>The part of \<^verbatim>\<open>FsDir::complete_file\<close> that works on the file.\<close>

definition complete_on_file ::
  "i64 \<Rightarrow> i64 \<Rightarrow> commit_blk option \<Rightarrow> (inode_file, bool) op" where
  "complete_on_file now len commit f =
     (if is_complete f then (Inr False, f)
      else bind_op (commit_block commit) (\<lambda>_ f.
        (Inr True, f\<lparr>f_mtime := now, f_features := complete_write (f_features f),
                     f_len := len\<rparr>)) f)"

subsection \<open>Block allocation\<close>

text \<open>Every block id of a file decodes to the file's id and to a sequence number already used.\<close>

definition blocks_wf :: "inode_file \<Rightarrow> bool" where
  "blocks_wf f \<longleftrightarrow> 0 \<le> f_id f \<and> f_id f \<le> ID_MASK \<and> distinct (block_ids f) \<and>
     length (f_blocks f) \<le> unat (f_next_seq f) \<and> length (f_blocks f) \<le> 2 ^ 24 \<and>
     (\<forall>b\<in>set (block_ids f). get_id b = f_id f \<and> get_seq b < uint (f_next_seq f))"

lemma i32_small: "- (2 ^ 31) \<le> x \<Longrightarrow> x < 2 ^ 31 \<Longrightarrow> signed_take_bit 31 (x::int) = x"
  by (rule signed_take_bit_int_eq_self) simp_all

lemma get_block_last:
  assumes "length (f_blocks f) < 2 ^ 31"
  shows "get_block f (-1) = (if f_blocks f = [] then None else Some (last (f_blocks f)))"
proof (cases "f_blocks f")
  case Nil
  then show ?thesis by (simp add: get_block_def calc_pos_def)
next
  case (Cons b bs)
  then have "calc_pos f (-1) = length bs"
    using assms by (simp add: calc_pos_def i32_small)
  then show ?thesis
    using Cons by (simp add: get_block_def last_conv_nth)
qed

lemma get_block_penultimate:
  assumes "length (f_blocks f) < 2 ^ 31"
  shows "get_block f (-2) = (if length (f_blocks f) < 2 then None
                             else Some (last (butlast (f_blocks f))))"
proof (cases "length (f_blocks f) < 2")
  case True
  then consider "length (f_blocks f) = 0" | "length (f_blocks f) = 1" by linarith
  then show ?thesis
    by cases (auto simp: get_block_def calc_pos_def i32_small Let_def)
next
  case False
  then have "calc_pos f (-2) = length (f_blocks f) - 2"
    using assms by (simp add: calc_pos_def i32_small nat_diff_distrib)
  moreover have "butlast (f_blocks f) \<noteq> []"
    using False by (cases "f_blocks f" rule: rev_cases) auto
  then have "last (butlast (f_blocks f)) = f_blocks f ! (length (f_blocks f) - 2)"
    using False by (subst last_conv_nth) (auto simp: nth_butlast numeral_2_eq_2)
  ultimately show ?thesis
    using False by (auto simp: get_block_def Let_def)
qed

text \<open>A commit changes one block in place: no id moves.\<close>

lemma commit_block_cases:
  assumes "commit_block c f = (r, f')"
  obtains "f' = f" | pre lst cb where "f_blocks f = pre @ [lst]"
    "f' = f\<lparr>f_blocks := pre @ [block_commit cb lst]\<rparr>"
proof (cases "f_blocks f" rule: rev_cases)
  case Nil
  then show ?thesis
    using assms that(1) by (auto simp: commit_block_def split: option.splits)
next
  case (snoc pre lst)
  then show ?thesis
    using assms that(1) that(2)[of pre lst]
    by (auto simp: commit_block_def Let_def split: option.splits if_splits)
qed

lemma commit_block_frame:
  assumes "commit_block c f = (r, f')"
  shows "f' = f\<lparr>f_blocks := f_blocks f'\<rparr>" "block_ids f' = block_ids f"
    "length (f_blocks f') = length (f_blocks f)"
  using assms by (cases rule: commit_block_cases; simp add: block_ids_def block_commit_def)+

lemma commit_block_same:
  assumes "commit_block c f = (r, f')"
  shows "f_id f' = f_id f" "f_next_seq f' = f_next_seq f"
    "f_storage_policy f' = f_storage_policy f" "f_file_type f' = f_file_type f"
  by (subst commit_block_frame(1)[OF assms], simp)+

lemma commit_block_Some:
  assumes "commit_block (Some c) f = (Inr (), f')"
  shows "f_blocks f \<noteq> []" "bm_id (last (f_blocks f)) = cb_block_id c"
    "block_is_writing (last (f_blocks f))"
    "f' = f\<lparr>f_blocks := butlast (f_blocks f) @ [block_commit c (last (f_blocks f))]\<rparr>"
  using assms by (auto simp: commit_block_def Let_def split: if_splits)

lemma acquire_on_file_new:
  assumes "acquire_on_file c ws f = (Inr (b, True), f')"
  obtains f1 where
    "create_block_id (f_id f) (uint (f_next_seq f)) = Inr (eb_id b)"
    "commit_block c (f\<lparr>f_next_seq := f_next_seq f + 1\<rparr>) = (Inr (), f1)"
    "f' = add_block (block_with_pre (eb_id b) ws) f1"
    "eb_len b = 0" "eb_storage_type b = sp_storage_type (f_storage_policy f1)"
    "eb_file_type b = f_file_type f1"
  using assms
  by (auto simp: acquire_on_file_def bind_op_Inr_iff next_block_id_def Let_def split: option.splits)

lemma acquire_on_file_fresh:
  assumes wf: "blocks_wf f" and acq: "acquire_on_file c ws f = (Inr (b, True), f')"
  shows "get_id (eb_id b) = f_id f" "get_seq (eb_id b) = uint (f_next_seq f)"
    "eb_id b \<notin> set (block_ids f)" "block_ids f' = block_ids f @ [eb_id b]"
    "f_next_seq f' = f_next_seq f + 1" "uint (f_next_seq f) \<le> SEQ_MASK" "f_id f' = f_id f"
proof -
  obtain f1 where f1: "create_block_id (f_id f) (uint (f_next_seq f)) = Inr (eb_id b)"
      "commit_block c (f\<lparr>f_next_seq := f_next_seq f + 1\<rparr>) = (Inr (), f1)"
      "f' = add_block (block_with_pre (eb_id b) ws) f1"
    using acq by (rule acquire_on_file_new)
  show seq: "uint (f_next_seq f) \<le> SEQ_MASK"
    using f1(1) by (simp add: create_block_id_def split: if_splits)
  show "get_id (eb_id b) = f_id f"
    using get_id_create[OF f1(1)] wf by (simp add: blocks_wf_def take_bit_id_range)
  show gs: "get_seq (eb_id b) = uint (f_next_seq f)"
    using get_seq_create[OF f1(1)] seq by (simp add: take_bit_seq_range)
  show "eb_id b \<notin> set (block_ids f)"
    using wf gs unfolding blocks_wf_def by (metis less_irrefl)
  show "block_ids f' = block_ids f @ [eb_id b]"
    using commit_block_frame(2)[OF f1(2)]
    by (simp add: f1(3) add_block_def block_ids_def block_with_pre_def)
  show "f_next_seq f' = f_next_seq f + 1" "f_id f' = f_id f"
    using commit_block_same(1,2)[OF f1(2)] by (simp_all add: f1(3) add_block_def)
qed

lemma uint_succ_small: "uint (w::u32) \<le> SEQ_MASK \<Longrightarrow> uint (w + 1) = uint w + 1"
  by (simp add: SEQ_MASK_val uint_word_ariths)

lemma blocks_wf_acquire:
  assumes wf: "blocks_wf f" and acq: "acquire_on_file c ws f = (Inr (b, True), f')"
  shows "blocks_wf f'"
proof -
  note fresh = acquire_on_file_fresh[OF assms]
  have up: "uint (f_next_seq f') = uint (f_next_seq f) + 1"
    using fresh(5,6) by (simp add: uint_succ_small)
  have len: "length (f_blocks f') = Suc (length (f_blocks f))"
    using arg_cong[OF fresh(4), of length] by (simp add: block_ids_def)
  have "length (f_blocks f) \<le> unat (f_next_seq f)"
    using wf unfolding blocks_wf_def by blast
  moreover have "unat (f_next_seq f') = Suc (unat (f_next_seq f))"
    using up unfolding uint_nat by linarith
  moreover have "unat (f_next_seq f) < 2 ^ 24"
  proof -
    have "int (unat (f_next_seq f)) < int (2 ^ 24)"
      using fresh(6) unfolding uint_nat SEQ_MASK_val of_nat_power of_nat_numeral by linarith
    then show ?thesis by (simp only: of_nat_less_iff)
  qed
  ultimately have "length (f_blocks f') \<le> unat (f_next_seq f')" "length (f_blocks f') \<le> 2 ^ 24"
    unfolding len by linarith+
  moreover have "\<forall>i\<in>set (block_ids f'). get_id i = f_id f' \<and> get_seq i < uint (f_next_seq f')"
  proof
    fix i
    assume "i \<in> set (block_ids f')"
    then consider "i = eb_id b" | "i \<in> set (block_ids f)"
      using fresh(4) by auto
    then show "get_id i = f_id f' \<and> get_seq i < uint (f_next_seq f')"
    proof cases
      case 1
      then show ?thesis using fresh(1,2,7) up by simp
    next
      case 2
      then have "get_id i = f_id f" "get_seq i < uint (f_next_seq f)"
        using wf by (simp_all add: blocks_wf_def)
      then show ?thesis using fresh(7) up by simp
    qed
  qed
  moreover have "distinct (block_ids f')"
    using wf fresh(3,4) by (simp add: blocks_wf_def)
  ultimately show ?thesis
    using wf fresh(7) by (simp add: blocks_wf_def)
qed

lemma block_with_pre_simps [simp]:
  "bm_id (block_with_pre i ws) = i" "bm_len (block_with_pre i ws) = 0"
  by (simp_all add: block_with_pre_def)

lemma blocks_wf_length: "blocks_wf f \<Longrightarrow> length (f_blocks f) < 2 ^ 31"
  unfolding blocks_wf_def by (elim conjE) simp

lemma add_block_get:
  assumes "length (f_blocks f) < 2 ^ 31 - 1"
  shows "get_block (add_block b f) (-1) = Some b"
    and "get_block (add_block b f) (-2) =
      (if f_blocks f = [] then None else Some (last (f_blocks f)))"
  using assms get_block_last[of "add_block b f"] get_block_penultimate[of "add_block b f"]
  by (simp_all add: add_block_def)

text \<open>Repeating the request gives the same block again and changes nothing.\<close>

lemma acquire_on_file_retry:
  assumes wf: "blocks_wf f" and acq: "acquire_on_file c ws f = (Inr (b, True), f')"
    and match: "matching_block (get_block f (-1)) c"
  shows "acquire_on_file c ws' f' = (Inr (b, False), f')"
proof -
  obtain f1 where f1: "commit_block c (f\<lparr>f_next_seq := f_next_seq f + 1\<rparr>) = (Inr (), f1)"
      "f' = add_block (block_with_pre (eb_id b) ws) f1"
      "eb_len b = 0" "eb_storage_type b = sp_storage_type (f_storage_policy f1)"
      "eb_file_type b = f_file_type f1"
    using acq by (rule acquire_on_file_new)
  have ids: "map bm_id (f_blocks f1) = map bm_id (f_blocks f)"
    using commit_block_frame(2)[OF f1(1)] by (simp add: block_ids_def)
  have len: "length (f_blocks f1) < 2 ^ 31 - 1"
    using map_eq_imp_length_eq[OF ids] wf unfolding blocks_wf_def by (elim conjE) simp
  note get' = add_block_get[OF len, of "block_with_pre (eb_id b) ws"]
  have last: "map_option bm_id (get_block f (-1)) =
      (if f_blocks f1 = [] then None else Some (bm_id (last (f_blocks f1))))"
  proof (cases "f_blocks f1 = []")
    case True
    then show ?thesis using ids by (simp add: get_block_last[OF blocks_wf_length[OF wf]])
  next
    case False
    then have "f_blocks f \<noteq> []" using ids by auto
    then have "bm_id (last (f_blocks f)) = bm_id (last (f_blocks f1))"
      using False arg_cong[OF ids, of last] by (simp add: last_map)
    then show ?thesis
      using False \<open>f_blocks f \<noteq> []\<close> by (simp add: get_block_last[OF blocks_wf_length[OF wf]])
  qed
  have "\<not> matching_block (get_block f' (-1)) c"
  proof
    assume "matching_block (get_block f' (-1)) c"
    then have "map_option bm_id (get_block f (-1)) = Some (eb_id b)"
      using match by (simp add: matching_block_def f1(2) get')
    then have "f_blocks f \<noteq> []" "bm_id (last (f_blocks f)) = eb_id b"
      by (auto simp: get_block_last[OF blocks_wf_length[OF wf]] split: if_splits)
    then have "eb_id b \<in> set (block_ids f)"
      unfolding block_ids_def set_map by (metis imageI last_in_set)
    then show False using acquire_on_file_fresh(3)[OF wf acq] by contradiction
  qed
  moreover have "matching_block (get_block f' (-2)) c"
    using match last by (simp add: matching_block_def f1(2) get' split: if_splits)
  ultimately have "analyze_block_state f' c = Inr (Some (block_with_pre (eb_id b) ws))"
    by (simp add: analyze_block_state_def f1(2) get')
  then show ?thesis
    using f1(3-5)
    by (cases b) (simp add: acquire_on_file_def bind_op_def f1(2) add_block_def)
qed

subsection \<open>Lengths\<close>

definition blocks_len :: "block_meta list \<Rightarrow> i64" where
  "blocks_len bs = sum_list (map bm_len bs)"

lemma compute_len_fold:
  assumes "n + length bs = N"
  shows "foldl (\<lambda>sum (i, x). sum + (if i = N - 1 \<and> \<not> block_is_committed x then 0 else bm_len x))
      acc (enumerate n bs) =
    acc + blocks_len (butlast bs) +
      (if bs = [] \<or> \<not> block_is_committed (last bs) then 0 else bm_len (last bs))"
  using assms
proof (induction bs arbitrary: n acc)
  case (Cons b bs)
  show ?case
  proof (cases "bs = []")
    case True
    then show ?thesis using Cons.prems by (auto simp: blocks_len_def)
  next
    case False
    then have "n \<noteq> N - 1" using Cons.prems by (cases bs) auto
    then show ?thesis
      using False Cons.prems Cons.IH[of "Suc n"] by (simp add: blocks_len_def)
  qed
qed (simp add: blocks_len_def)

lemma compute_len_eq:
  "compute_len f = blocks_len (butlast (f_blocks f)) +
     (if f_blocks f = [] \<or> \<not> block_is_committed (last (f_blocks f)) then 0
      else bm_len (last (f_blocks f)))"
  unfolding compute_len_def by (subst compute_len_fold) simp_all

lemma compute_len_commit:
  assumes "commit_block c f = (Inr (), f')"
  shows "compute_len f' = commit_len f c"
proof (cases c)
  case None
  then show ?thesis using assms by (simp add: commit_block_def commit_len_def)
next
  case (Some cb)
  then have cm: "commit_block (Some cb) f = (Inr (), f')" using assms by simp
  note * = commit_block_Some[OF cm]
  show ?thesis
    using *(1,3) Some by (simp add: *(4) compute_len_eq commit_len_def block_commit_def
        block_is_committed_def block_is_writing_def)
qed

subsection \<open>Properties\<close>

text \<open>C5. A block allocated for a file is new: its id decodes to the file and to the next sequence
  number, no block of the file has it, and it is appended last. The invariant that all
  block ids of the file are distinct and use earlier sequence numbers is kept, so ids stay
  unique over any sequence of allocations.\<close>

theorem acquire_block_fresh:
  assumes "blocks_wf f" "acquire_on_file c ws f = (Inr (b, True), f')"
  shows "eb_id b \<notin> set (block_ids f) \<and> get_id (eb_id b) = f_id f \<and>
    get_seq (eb_id b) = uint (f_next_seq f) \<and> block_ids f' = block_ids f @ [eb_id b] \<and> blocks_wf f'"
  using acquire_on_file_fresh[OF assms] blocks_wf_acquire[OF assms] by blast

definition ex_opts :: create_file_opts where
  "ex_opts = create_with_create True"

theorem acquire_block_fresh_witness:
  "\<exists>b f'. acquire_on_file None [] (file_with_opts 1001 5 ex_opts) = (Inr (b, True), f') \<and>
     get_id (eb_id b) = 1001 \<and> get_seq (eb_id b) = 0 \<and> blocks_wf f'"
proof -
  let ?f = "file_with_opts 1001 5 ex_opts"
  have wf: "blocks_wf ?f"
    by (simp add: blocks_wf_def file_with_opts_def block_ids_def Let_def ID_MASK_val)
  obtain b f' where "acquire_on_file None [] ?f = (Inr (b, True), f')"
    by (simp add: acquire_on_file_def bind_op_def analyze_block_state_def get_block_def calc_pos_def
        file_with_opts_def Let_def matching_block_def next_block_id_def create_block_id_def
        ID_MASK_val SEQ_MASK_val commit_block_def)
  moreover from acquire_block_fresh[OF wf this]
  have "get_id (eb_id b) = f_id ?f \<and> get_seq (eb_id b) = uint (f_next_seq ?f) \<and> blocks_wf f'"
    by blast
  ultimately show ?thesis
    by (intro exI[of _ b] exI[of _ f']) (simp add: file_with_opts_def Let_def)
qed

text \<open>Allocation is idempotent under retries: when a request that committed the last block
  (or the first request, on an empty file) is repeated, for instance after a lost reply,
  it is answered with the same block and the file does not change, whichever workers the
  retry proposes.\<close>

theorem acquire_block_retry:
  assumes "blocks_wf f" "matching_block (get_block f (-1)) c"
    "acquire_on_file c ws f = (Inr (b, True), f')"
  shows "acquire_on_file c ws' f' = (Inr (b, False), f')"
  using acquire_on_file_retry[OF assms(1,3,2)] .

theorem acquire_block_retry_witness:
  "\<exists>b f'. acquire_on_file None [] (file_with_opts 1001 5 ex_opts) = (Inr (b, True), f') \<and>
     acquire_on_file None [\<lparr>wa_worker_id = 3, wa_hostname = ''h'', wa_ip_addr = ''i'',
       wa_rpc_port = 1, wa_web_port = 2\<rparr>] f' = (Inr (b, False), f')"
proof -
  let ?f = "file_with_opts 1001 5 ex_opts"
  have wf: "blocks_wf ?f" "matching_block (get_block ?f (-1)) None"
    by (simp_all add: blocks_wf_def file_with_opts_def block_ids_def Let_def ID_MASK_val
        matching_block_def get_block_def)
  obtain b f' where "acquire_on_file None [] ?f = (Inr (b, True), f')"
    by (simp add: acquire_on_file_def bind_op_def analyze_block_state_def get_block_def calc_pos_def
        file_with_opts_def Let_def matching_block_def next_block_id_def create_block_id_def
        ID_MASK_val SEQ_MASK_val commit_block_def)
  with acquire_block_retry[OF wf this] show ?thesis by blast
qed

text \<open>When a write is completed with the length that \<^verbatim>\<open>commit_len\<close> announces (the check of
  \<^verbatim>\<open>MasterFilesystem::complete_file\<close>), the recorded file length is the sum of the lengths of
  its blocks as \<^verbatim>\<open>compute_len\<close> counts them, the file is no longer being written, and when a
  last block is committed with the request the length is the plain sum of all block
  lengths.\<close>

theorem complete_file_len:
  assumes "complete_on_file now (commit_len f c) c f = (Inr True, f')"
  shows "f_len f' = compute_len f' \<and> is_complete f' \<and> block_ids f' = block_ids f \<and>
    (c \<noteq> None \<longrightarrow> f_len f' = blocks_len (f_blocks f'))"
proof -
  obtain f1 where f1: "commit_block c f = (Inr (), f1)"
      "f' = f1\<lparr>f_mtime := now, f_features := complete_write (f_features f1), f_len := commit_len f c\<rparr>"
    using assms by (auto simp: complete_on_file_def bind_op_Inr_iff split: if_splits)
  have "c \<noteq> None \<Longrightarrow> compute_len f1 = blocks_len (f_blocks f1)"
  proof -
    assume "c \<noteq> None"
    then obtain cb where cm: "commit_block (Some cb) f = (Inr (), f1)" using f1(1) by auto
    show ?thesis
      by (simp add: commit_block_Some(4)[OF cm] compute_len_eq blocks_len_def block_commit_def
          block_is_committed_def)
  qed
  moreover have "compute_len f' = compute_len f1"
    by (simp add: f1(2) compute_len_eq)
  moreover have "f_len f' = compute_len f1"
    using compute_len_commit[OF f1(1)] by (simp add: f1(2))
  ultimately show ?thesis
    using commit_block_frame(2)[OF f1(1)]
    by (simp add: f1(2) is_complete_def complete_write_def block_ids_def)
qed

definition ex_writing_file :: inode_file where
  "ex_writing_file = (file_with_opts 1001 5 ex_opts)\<lparr>f_blocks :=
     [(block_new 1 10)\<lparr>bm_state := Committed\<rparr>, block_new 2 0]\<rparr>"

definition ex_commit :: commit_blk where
  "ex_commit = \<lparr>cb_block_id = 2, cb_block_len = 7, cb_locations = []\<rparr>"

theorem complete_file_len_witness:
  "commit_len ex_writing_file (Some ex_commit) = 17 \<and>
   (\<exists>f'. complete_on_file 9 17 (Some ex_commit) ex_writing_file = (Inr True, f') \<and> f_len f' = 17 \<and>
     blocks_len (f_blocks f') = 17)"
proof -
  have len: "commit_len ex_writing_file (Some ex_commit) = 17"
    by (simp add: commit_len_def compute_len_eq ex_writing_file_def ex_commit_def block_new_def
        blocks_len_def block_is_committed_def)
  obtain f' where f': "complete_on_file 9 17 (Some ex_commit) ex_writing_file = (Inr True, f')"
    by (simp add: complete_on_file_def is_complete_def ex_writing_file_def ex_commit_def block_new_def
        file_with_opts_def Let_def set_writing_def set_mode_def bind_op_def commit_block_def
        block_is_writing_def ex_opts_def create_with_create_def)
  then have "f_len f' = 17"
    by (auto simp: complete_on_file_def bind_op_Inr_iff split: if_splits)
  moreover have "f_len f' = blocks_len (f_blocks f')"
    using complete_file_len[of 9 ex_writing_file "Some ex_commit" f'] f' len by simp
  ultimately show ?thesis using f' len by auto
qed

end
