(* ===== verification/Inode_View.thy ===== *)
theory Inode_View
  imports Inode_File
begin

text \<open>
  The nodes of the in-memory directory tree: \<^verbatim>\<open>InodeChildren\<close>
  (\<^verbatim>\<open>master/meta/inode/inodes_children.rs\<close>), \<^verbatim>\<open>InodeDir\<close> (\<^verbatim>\<open>inode_dir.rs\<close>) and \<^verbatim>\<open>InodeView\<close>
  (\<^verbatim>\<open>inode_view.rs\<close>). Directory children have two representations, a list kept sorted by
  name and searched by halving, and an ordered map; the locale \<open>children_repr\<close> states what a
  directory relies on and is interpreted on both.
\<close>

subsection \<open>Nodes\<close>

datatype 'v inode_children = ChildList "'v list" | ChildMap "(string \<times> 'v) list"

record dir_feature =
  df_x_attr :: x_attr
  df_acl :: acl_feature

definition dir_feature_new :: dir_feature where
  "dir_feature_new = \<lparr>df_x_attr = [], df_acl = default_acl\<rparr>"

record inode_dir =
  d_id :: i64
  d_parent_id :: i64
  d_mtime :: i64
  d_atime :: i64
  d_storage_policy :: storage_policy
  d_features :: dir_feature

text \<open>The children of a directory are an argument of \<open>Dir\<close> beside the other fields of \<^verbatim>\<open>InodeDir\<close>:
  they are not serialized.\<close>

datatype inode_view =
    File string inode_file
  | Dir string inode_dir "inode_view inode_children"
  | FileEntry string i64

text \<open>\<^verbatim>\<open>InodePtr\<close>: a pointer into the tree, named by the path from the node the operation works
  on, or an owned copy that lives outside the tree.\<close>

datatype inode_ptr = Ref "string list" | Owned inode_view

definition dir_new :: "i64 \<Rightarrow> i64 \<Rightarrow> inode_dir" where
  "dir_new i time =
     \<lparr>d_id = i, d_parent_id = EMPTY_PARENT_ID, d_mtime = time, d_atime = time,
      d_storage_policy = default_storage_policy, d_features = dir_feature_new\<rparr>"

definition dir_with_opts :: "i64 \<Rightarrow> i64 \<Rightarrow> mkdir_opts \<Rightarrow> inode_dir" where
  "dir_with_opts i time opts =
     \<lparr>d_id = i, d_parent_id = EMPTY_PARENT_ID, d_mtime = time, d_atime = time,
      d_storage_policy = mo_storage_policy opts,
      d_features = \<lparr>df_x_attr = mo_x_attr opts, df_acl = acl_with_mode (mo_mode opts)\<rparr>\<rparr>"

definition new_map :: "inode_view inode_children" where
  "new_map = ChildMap []"

definition new_list :: "inode_view inode_children" where
  "new_list = ChildList []"

fun is_dir :: "inode_view \<Rightarrow> bool" where
  "is_dir (File _ _) = False"
| "is_dir (Dir _ _ _) = True"
| "is_dir (FileEntry _ _) = False"

definition is_file :: "inode_view \<Rightarrow> bool" where
  "is_file v \<longleftrightarrow> \<not> is_dir v"

fun is_file_entry :: "inode_view \<Rightarrow> bool" where
  "is_file_entry (FileEntry _ _) = True"
| "is_file_entry _ = False"

fun is_link :: "inode_view \<Rightarrow> bool" where
  "is_link (File _ f) = (f_file_type f = FtLink)"
| "is_link _ = False"

fun iid :: "inode_view \<Rightarrow> i64" where
  "iid (File _ f) = f_id f"
| "iid (Dir _ d _) = d_id d"
| "iid (FileEntry _ i) = i"

fun iname :: "inode_view \<Rightarrow> string" where
  "iname (File n _) = n"
| "iname (Dir n _ _) = n"
| "iname (FileEntry n _) = n"

fun imtime :: "inode_view \<Rightarrow> i64" where
  "imtime (File _ f) = f_mtime f"
| "imtime (Dir _ d _) = d_mtime d"
| "imtime (FileEntry _ _) = 0"

fun iatime :: "inode_view \<Rightarrow> i64" where
  "iatime (File _ f) = f_atime f"
| "iatime (Dir _ d _) = d_atime d"
| "iatime (FileEntry _ _) = 0"

fun update_mtime :: "i64 \<Rightarrow> inode_view \<Rightarrow> inode_view" where
  "update_mtime time (File n f) = File n (if time > f_mtime f then f\<lparr>f_mtime := time\<rparr> else f)"
| "update_mtime time (Dir n d ch) = Dir n (if time > d_mtime d then d\<lparr>d_mtime := time\<rparr> else d) ch"
| "update_mtime time (FileEntry n i) = FileEntry n i"

fun set_parent_id :: "i64 \<Rightarrow> inode_view \<Rightarrow> inode_view" where
  "set_parent_id pid (File n f) = File n (f\<lparr>f_parent_id := pid\<rparr>)"
| "set_parent_id pid (Dir n d ch) = Dir n (d\<lparr>d_parent_id := pid\<rparr>) ch"
| "set_parent_id pid (FileEntry n i) = FileEntry n i"

fun change_name :: "string \<Rightarrow> inode_view \<Rightarrow> inode_view" where
  "change_name new_name (File n f) = File new_name f"
| "change_name new_name (Dir n d ch) = Dir new_name d ch"
| "change_name new_name (FileEntry n i) = FileEntry new_name i"

fun as_file :: "inode_view \<Rightarrow> inode_file res" where
  "as_file (File _ f) = Inr f"
| "as_file (Dir _ _ _) = Inl (Common ''Not a file'')"
| "as_file (FileEntry _ _) = Inl (Common ''Inode type error'')"

fun as_dir :: "inode_view \<Rightarrow> inode_dir res" where
  "as_dir (File _ _) = Inl (Common ''Not a dir'')"
| "as_dir (Dir _ d _) = Inr d"
| "as_dir (FileEntry _ _) = Inl (Common ''Inode type error'')"

subsection \<open>Children\<close>

definition cmp_str :: "string \<Rightarrow> string \<Rightarrow> ordering" where
  "cmp_str a b = (if a < b then Less else if a = b then Equal else Greater)"

definition search_by_name :: "inode_view list \<Rightarrow> string \<Rightarrow> nat + nat" where
  "search_by_name xs name = binary_search_by (\<lambda>f. cmp_str (iname f) name) xs"

fun children_get :: "inode_view inode_children \<Rightarrow> string \<Rightarrow> inode_view option" where
  "children_get (ChildList xs) name =
     (case search_by_name xs name of Inl _ \<Rightarrow> None | Inr i \<Rightarrow> Some (xs ! i))"
| "children_get (ChildMap m) name = map_of m name"

text \<open>The child is removed before its id is compared: on a mismatch it is gone.\<close>

definition check_removed :: "i64 \<Rightarrow> inode_view option \<Rightarrow> inode_view res" where
  "check_removed child_id removed =
     (case removed of
        None \<Rightarrow> Inl (Common ''Child not exists'')
      | Some r \<Rightarrow> if iid r \<noteq> child_id then Inl (Common ''Inode status error'') else Inr r)"

fun children_delete ::
  "i64 \<Rightarrow> string \<Rightarrow> (inode_view inode_children, inode_view) op" where
  "children_delete child_id child_name (ChildList xs) =
     (case search_by_name xs child_name of
        Inr i \<Rightarrow> (check_removed child_id (Some (xs ! i)), ChildList (take i xs @ drop (Suc i) xs))
      | Inl _ \<Rightarrow> (check_removed child_id None, ChildList xs))"
| "children_delete child_id child_name (ChildMap m) =
     (check_removed child_id (map_of m child_name), ChildMap (bt_remove child_name m))"

fun children_add :: "inode_view \<Rightarrow> (inode_view inode_children, inode_ptr) op" where
  "children_add inode (ChildList xs) =
     (case search_by_name xs (iname inode) of
        Inl i \<Rightarrow> (Inr (Ref [iname inode]), ChildList (take i xs @ inode # drop i xs))
      | Inr _ \<Rightarrow> (Inl (Common ''Child already exists''), ChildList xs))"
| "children_add inode (ChildMap m) =
     (case map_of m (iname inode) of
        None \<Rightarrow>
          if is_file inode
          then (Inr (Owned inode),
                ChildMap (bt_insert (iname inode) (FileEntry (iname inode) (iid inode)) m))
          else (Inr (Ref [iname inode]), ChildMap (bt_insert (iname inode) inode m))
      | Some _ \<Rightarrow> (Inl (Common ''Child already exists''), ChildMap m))"

fun children_iter :: "inode_view inode_children \<Rightarrow> inode_view list" where
  "children_iter (ChildList xs) = xs"
| "children_iter (ChildMap m) = map snd m"

definition children_len :: "inode_view inode_children \<Rightarrow> nat" where
  "children_len ch = length (children_iter ch)"

subsection \<open>Operations of a node\<close>

definition dir_add_child ::
  "inode_dir \<Rightarrow> inode_view \<Rightarrow> (inode_view inode_children, inode_ptr) op" where
  "dir_add_child d inode = children_add (set_parent_id (d_id d) inode)"

fun get_child :: "inode_view \<Rightarrow> string \<Rightarrow> inode_view option" where
  "get_child (File _ _) name = None"
| "get_child (Dir _ _ ch) name = children_get ch name"
| "get_child (FileEntry _ _) name = None"

fun children :: "inode_view \<Rightarrow> inode_view list" where
  "children (Dir _ _ ch) = children_iter ch"
| "children _ = []"

fun child_len :: "inode_view \<Rightarrow> nat" where
  "child_len (File _ _) = 0"
| "child_len (Dir _ _ ch) = children_len ch"
| "child_len (FileEntry _ _) = 0"

fun add_child :: "inode_view \<Rightarrow> (inode_view, inode_ptr) op" where
  "add_child child (File n f) = (Inl (Common ''Path not a dir''), File n f)"
| "add_child child (Dir n d ch) =
     (let (r, ch') = dir_add_child d child ch in (r, Dir n d ch'))"
| "add_child child (FileEntry n i) = (Inl (Common ''Inode type error''), FileEntry n i)"

fun delete_child :: "i64 \<Rightarrow> string \<Rightarrow> (inode_view, inode_view) op" where
  "delete_child i name (File n f) = (Inl (Common ''Path not a dir''), File n f)"
| "delete_child i name (Dir n d ch) =
     (let (r, ch') = children_delete i name ch in (r, Dir n d ch'))"
| "delete_child i name (FileEntry n j) = (Inl (Common ''Inode type error''), FileEntry n j)"

text \<open>\<^verbatim>\<open>set_attr\<close>: the replica count of the options is not looked at, and touching an attribute
  of a \<^verbatim>\<open>FileEntry\<close> panics.\<close>

definition set_acl :: "set_attr_opts \<Rightarrow> acl_feature \<Rightarrow> acl_feature" where
  "set_acl o' a =
     (let a = (case so_owner o' of None \<Rightarrow> a | Some v \<Rightarrow> a\<lparr>acl_owner := v\<rparr>);
          a = (case so_group o' of None \<Rightarrow> a | Some v \<Rightarrow> a\<lparr>acl_group := v\<rparr>)
      in case so_mode o' of None \<Rightarrow> a | Some v \<Rightarrow> a\<lparr>acl_mode := v\<rparr>)"

definition set_ttl :: "set_attr_opts \<Rightarrow> storage_policy \<Rightarrow> storage_policy" where
  "set_ttl o' p =
     (let p = (case so_ttl_ms o' of None \<Rightarrow> p | Some v \<Rightarrow> p\<lparr>sp_ttl_ms := v\<rparr>)
      in case so_ttl_action o' of None \<Rightarrow> p | Some v \<Rightarrow> p\<lparr>sp_ttl_action := v\<rparr>)"

definition set_x_attr :: "set_attr_opts \<Rightarrow> x_attr \<Rightarrow> x_attr" where
  "set_x_attr o' m =
     foldl (\<lambda>m k. bt_remove k m) (foldl (\<lambda>m (k, v). bt_insert k v m) m (so_add_x_attr o'))
       (so_remove_x_attr o')"

fun set_attr :: "set_attr_opts \<Rightarrow> (inode_view, unit) op" where
  "set_attr o' (File n f) =
     (let f = f\<lparr>f_features := (f_features f)\<lparr>ff_acl := set_acl o' (ff_acl (f_features f))\<rparr>\<rparr>;
          f = (case so_atime o' of None \<Rightarrow> f | Some t \<Rightarrow> f\<lparr>f_atime := t\<rparr>);
          f = (case so_mtime o' of None \<Rightarrow> f | Some t \<Rightarrow> f\<lparr>f_mtime := t\<rparr>);
          f = f\<lparr>f_storage_policy := set_ttl o' (f_storage_policy f)\<rparr>;
          f = f\<lparr>f_features := (f_features f)\<lparr>ff_x_attr := set_x_attr o' (ff_x_attr (f_features f))\<rparr>\<rparr>
      in (Inr (), File n f))"
| "set_attr o' (Dir n d ch) =
     (let d = d\<lparr>d_features := (d_features d)\<lparr>df_acl := set_acl o' (df_acl (d_features d))\<rparr>\<rparr>;
          d = (case so_atime o' of None \<Rightarrow> d | Some t \<Rightarrow> d\<lparr>d_atime := t\<rparr>);
          d = (case so_mtime o' of None \<Rightarrow> d | Some t \<Rightarrow> d\<lparr>d_mtime := t\<rparr>);
          d = d\<lparr>d_storage_policy := set_ttl o' (d_storage_policy d)\<rparr>;
          d = d\<lparr>d_features := (d_features d)\<lparr>df_x_attr := set_x_attr o' (df_x_attr (d_features d))\<rparr>\<rparr>
      in (Inr (), Dir n d ch))"
| "set_attr o' (FileEntry n i) =
     (if so_owner o' = None \<and> so_group o' = None \<and> so_mode o' = None \<and> so_ttl_ms o' = None \<and>
         so_ttl_action o' = None \<and> so_add_x_attr o' = [] \<and> so_remove_x_attr o' = []
      then (Inr (), FileEntry n i)
      else (Inl (Panic ''FileEntry does not support mutable access''), FileEntry n i))"

fun to_file_status :: "string \<Rightarrow> inode_view \<Rightarrow> file_status res" where
  "to_file_status path (File n f) = Inr
     \<lparr>fs_id = f_id f, fs_path = path, fs_name = n, fs_is_dir = False, fs_mtime = f_mtime f,
      fs_atime = f_atime f, fs_children_num = 0, fs_is_complete = is_complete f,
      fs_len = f_len f, fs_replicas = int (f_replicas f), fs_block_size = f_block_size f,
      fs_file_type = f_file_type f, fs_x_attr = ff_x_attr (f_features f),
      fs_storage_policy = f_storage_policy f, fs_mode = acl_mode (ff_acl (f_features f)),
      fs_owner = acl_owner (ff_acl (f_features f)), fs_group = acl_group (ff_acl (f_features f)),
      fs_nlink = f_nlink f, fs_target = f_target f\<rparr>"
| "to_file_status path (Dir n d ch) = Inr
     \<lparr>fs_id = d_id d, fs_path = path, fs_name = n, fs_is_dir = True, fs_mtime = d_mtime d,
      fs_atime = d_atime d, fs_children_num = signed_take_bit 31 (int (children_len ch)),
      fs_is_complete = False, fs_len = int (children_len ch), fs_replicas = 0, fs_block_size = 0,
      fs_file_type = FtDir, fs_x_attr = df_x_attr (d_features d),
      fs_storage_policy = d_storage_policy d, fs_mode = acl_mode (df_acl (d_features d)),
      fs_owner = acl_owner (df_acl (d_features d)), fs_group = acl_group (df_acl (d_features d)),
      fs_nlink = 1, fs_target = None\<rparr>"
| "to_file_status path (FileEntry n i) = Inl (Panic ''FileEntry does not support ACL access'')"

subsection \<open>Paths\<close>

definition PATH_SEPARATOR :: char where
  "PATH_SEPARATOR = CHR ''/''"

definition ROOT_INODE_NAME :: string where
  "ROOT_INODE_NAME = []"

definition is_full_path :: "string \<Rightarrow> bool" where
  "is_full_path path \<longleftrightarrow> path \<noteq> [] \<and> hd path = PATH_SEPARATOR"

definition path_components :: "string \<Rightarrow> string list res" where
  "path_components path =
     (if \<not> is_full_path path then Inl (Common ''Absolute path required'')
      else if path = [PATH_SEPARATOR] then Inr [[PATH_SEPARATOR]]
      else Inr (split_on PATH_SEPARATOR path))"

subsection \<open>What a directory relies on\<close>

text \<open>The operations on children as steps, and their specification on the map from child names to
  inode ids.\<close>

datatype child_op = AddChild inode_view | DelChild i64 string

fun child_step :: "child_op \<Rightarrow> (inode_view inode_children, i64) op" where
  "child_step (AddChild v) ch = (let (r, ch') = children_add v ch in (map_sum id (\<lambda>_. iid v) r, ch'))"
| "child_step (DelChild i n) ch = (let (r, ch') = children_delete i n ch in (map_sum id iid r, ch'))"

fun child_step_spec :: "child_op \<Rightarrow> (string \<rightharpoonup> i64, i64) op" where
  "child_step_spec (AddChild v) m =
     (if m (iname v) = None then (Inr (iid v), m(iname v \<mapsto> iid v))
      else (Inl (Common ''Child already exists''), m))"
| "child_step_spec (DelChild i n) m =
     (case m n of
        None \<Rightarrow> (Inl (Common ''Child not exists''), m)
      | Some j \<Rightarrow> ((if j \<noteq> i then Inl (Common ''Inode status error'') else Inr j), m(n := None)))"

fun run_steps :: "('o \<Rightarrow> ('s, 'a) op) \<Rightarrow> 'o list \<Rightarrow> 's \<Rightarrow> 'a res list \<times> 's" where
  "run_steps step [] s = ([], s)"
| "run_steps step (x # xs) s =
     (let (r, s1) = step x s; (rs, s2) = run_steps step xs s1 in (r # rs, s2))"

definition child_ids :: "inode_view inode_children \<Rightarrow> string \<rightharpoonup> i64" where
  "child_ids ch n = map_option iid (children_get ch n)"

locale children_repr =
  fixes step :: "child_op \<Rightarrow> ('c, i64) op"
    and ids :: "'c \<Rightarrow> string \<rightharpoonup> i64"
    and inv :: "'c \<Rightarrow> bool"
  assumes step_spec: "inv ch \<Longrightarrow> step x ch = (r, ch') \<Longrightarrow> child_step_spec x (ids ch) = (r, ids ch')"
    and step_inv: "inv ch \<Longrightarrow> step x ch = (r, ch') \<Longrightarrow> inv ch'"
begin

lemma run_spec:
  assumes "inv ch" "run_steps step xs ch = (rs, ch')"
  shows "run_steps child_step_spec xs (ids ch) = (rs, ids ch')" "inv ch'"
  using assms
proof (induction xs arbitrary: ch rs)
  case (Cons x xs)
  case 1
  obtain r c1 rs1 where *: "step x ch = (r, c1)" "run_steps step xs c1 = (rs1, ch')" "rs = r # rs1"
    using 1(2) by (auto split: prod.splits)
  with step_spec[OF 1(1) *(1)] step_inv[OF 1(1) *(1)] Cons.IH(1)[OF _ *(2)] show ?case by simp
next
  case (Cons x xs)
  case 2
  obtain r c1 rs1 where *: "step x ch = (r, c1)" "run_steps step xs c1 = (rs1, ch')"
    using 2(2) by (auto split: prod.splits)
  with step_inv[OF 2(1) *(1)] Cons.IH(2)[OF _ *(2)] show ?case by simp
qed simp_all

end

subsection \<open>The two representations\<close>

definition list_inv :: "inode_view inode_children \<Rightarrow> bool" where
  "list_inv ch \<longleftrightarrow> (\<exists>xs. ch = ChildList xs \<and> sorted_wrt (<) (map iname xs))"

definition map_inv :: "inode_view inode_children \<Rightarrow> bool" where
  "map_inv ch \<longleftrightarrow> (\<exists>m. ch = ChildMap m \<and> keys_sorted m \<and> (\<forall>(k, v)\<in>set m. iname v = k))"

lemma cmp_str_simps [simp]:
  "cmp_str a b = Less \<longleftrightarrow> a < b" "cmp_str a b = Equal \<longleftrightarrow> a = b" "cmp_str a b = Greater \<longleftrightarrow> b < a"
  by (auto simp: cmp_str_def)

lemma cmp_mono_names:
  assumes "sorted_wrt (<) (map iname xs)"
  shows "cmp_mono (\<lambda>f. cmp_str (iname f) name) xs"
  using assms unfolding cmp_mono_def sorted_wrt_map
  by (rule sorted_wrt_mono_rel[rotated]) (auto dest: less_trans)

lemma search_Ok:
  assumes "search_by_name xs name = Inr i"
  shows "i < length xs" "iname (xs ! i) = name"
  using binary_search_Ok[OF assms[unfolded search_by_name_def]] by simp_all

lemma search_Err:
  assumes "sorted_wrt (<) (map iname xs)" "search_by_name xs name = Inl i"
  shows "i \<le> length xs" "\<forall>v\<in>set (take i xs). iname v < name" "\<forall>v\<in>set (drop i xs). name < iname v"
proof -
  note * = binary_search_Err[OF cmp_mono_names[OF assms(1)] assms(2)[unfolded search_by_name_def]]
  show "i \<le> length xs" by (rule *(1))
  show "\<forall>v\<in>set (take i xs). iname v < name"
    using *(1,2) by (auto simp: in_set_conv_nth)
  show "\<forall>v\<in>set (drop i xs). name < iname v"
    using *(1) *(3) by (auto simp: in_set_conv_nth)
qed

text \<open>A sorted child list behaves like the association list of its names.\<close>

lemma sorted_names_unique:
  assumes "sorted_wrt (<) (map iname xs)" "i < length xs" "j < length xs"
    "iname (xs ! i) = iname (xs ! j)"
  shows "i = j"
  using assms strict_sorted_iff[of "map iname xs"] nth_eq_iff_index_eq[of "map iname xs" i j] by simp

lemma children_get_list:
  assumes "sorted_wrt (<) (map iname xs)"
  shows "children_get (ChildList xs) name = Some v \<longleftrightarrow> v \<in> set xs \<and> iname v = name"
proof (cases "search_by_name xs name")
  case (Inl i)
  have "set xs = set (take i xs) \<union> set (drop i xs)"
    by (metis append_take_drop_id set_append)
  then have "name \<notin> iname ` set xs"
    using search_Err(2,3)[OF assms Inl] by auto
  then show ?thesis using Inl by auto
next
  case (Inr i)
  note ok = search_Ok[OF Inr]
  show ?thesis
  proof
    assume "children_get (ChildList xs) name = Some v"
    then show "v \<in> set xs \<and> iname v = name" using Inr ok by auto
  next
    assume v: "v \<in> set xs \<and> iname v = name"
    then obtain j where "j < length xs" "xs ! j = v" by (auto simp: in_set_conv_nth)
    then have "j = i" using sorted_names_unique[OF assms] ok v by metis
    then show "children_get (ChildList xs) name = Some v"
      using Inr \<open>xs ! j = v\<close> by simp
  qed
qed

lemma list_add:
  assumes srt: "sorted_wrt (<) (map iname xs)" and "search_by_name xs (iname v) = Inl i"
  defines "ys \<equiv> take i xs @ v # drop i xs"
  shows "sorted_wrt (<) (map iname ys)" "set ys = insert v (set xs)"
    "\<forall>u\<in>set xs. iname u \<noteq> iname v"
proof -
  note err = search_Err[OF srt assms(2)]
  have split: "set xs = set (take i xs) \<union> set (drop i xs)"
    by (metis append_take_drop_id set_append)
  have "sorted_wrt (<) (map iname (take i xs @ drop i xs))"
    using srt by simp
  then show "sorted_wrt (<) (map iname ys)"
    using err(2,3) by (auto simp: ys_def sorted_wrt_append simp del: append_take_drop_id)
  show "set ys = insert v (set xs)"
    unfolding ys_def split by auto
  show "\<forall>u\<in>set xs. iname u \<noteq> iname v"
  proof
    fix u
    assume "u \<in> set xs"
    then have "iname u < iname v \<or> iname v < iname u"
      unfolding split using err(2,3) by blast
    then show "iname u \<noteq> iname v"
      by (metis order_less_irrefl)
  qed
qed

lemma list_remove:
  assumes srt: "sorted_wrt (<) (map iname xs)" and i: "i < length xs"
  defines "ys \<equiv> take i xs @ drop (Suc i) xs"
  shows "sorted_wrt (<) (map iname ys)" "set ys = {u \<in> set xs. iname u \<noteq> iname (xs ! i)}"
proof -
  have dec: "take i xs @ xs ! i # drop (Suc i) xs = xs"
    using i by (simp add: id_take_nth_drop[symmetric])
  have "sorted_wrt (<) (map iname (take i xs @ xs ! i # drop (Suc i) xs))"
    using srt by (simp only: dec)
  then have *: "sorted_wrt (<) (map iname (take i xs))" "sorted_wrt (<) (map iname (drop (Suc i) xs))"
      "\<forall>u\<in>set (take i xs). iname u < iname (xs ! i)" "\<forall>w\<in>set (drop (Suc i) xs). iname (xs ! i) < iname w"
      "\<forall>u\<in>set (take i xs). \<forall>w\<in>set (drop (Suc i) xs). iname u < iname w"
    by (simp_all add: sorted_wrt_append)
  then show "sorted_wrt (<) (map iname ys)"
    by (simp add: ys_def sorted_wrt_append)
  have "set xs = set (take i xs) \<union> {xs ! i} \<union> set (drop (Suc i) xs)"
    using arg_cong[OF dec, of set] by auto
  then show "set ys = {u \<in> set xs. iname u \<noteq> iname (xs ! i)}"
    unfolding ys_def using *(3,4) by auto
qed

lemma child_ids_list:
  assumes "sorted_wrt (<) (map iname xs)"
  shows "child_ids (ChildList xs) n = Some i \<longleftrightarrow> (\<exists>v\<in>set xs. iname v = n \<and> iid v = i)"
    and "child_ids (ChildList xs) n = None \<longleftrightarrow> (\<forall>v\<in>set xs. iname v \<noteq> n)"
proof -
  show "child_ids (ChildList xs) n = Some i \<longleftrightarrow> (\<exists>v\<in>set xs. iname v = n \<and> iid v = i)"
    unfolding child_ids_def map_option_eq_Some children_get_list[OF assms] by blast
  show "child_ids (ChildList xs) n = None \<longleftrightarrow> (\<forall>v\<in>set xs. iname v \<noteq> n)"
    unfolding child_ids_def using children_get_list[OF assms, of n]
    by (cases "children_get (ChildList xs) n") (auto simp del: children_get.simps)
qed

lemma child_ids_list_eqI:
  assumes "sorted_wrt (<) (map iname xs)" "\<And>n i. m n = Some i \<longleftrightarrow> (\<exists>v\<in>set xs. iname v = n \<and> iid v = i)"
  shows "child_ids (ChildList xs) = m"
  using child_ids_list(1)[OF assms(1)] assms(2) by (metis ext not_None_eq)

lemma child_ids_list_insert:
  assumes "sorted_wrt (<) (map iname xs)" "sorted_wrt (<) (map iname ys)"
    "set ys = insert v (set xs)" "\<forall>u\<in>set xs. iname u \<noteq> iname v"
  shows "child_ids (ChildList ys) = (child_ids (ChildList xs))(iname v \<mapsto> iid v)"
  using assms(3,4) by (intro child_ids_list_eqI[OF assms(2)])
    (auto simp: child_ids_list(1)[OF assms(1)] split: if_splits)

lemma child_ids_list_remove:
  assumes "sorted_wrt (<) (map iname xs)" "sorted_wrt (<) (map iname ys)"
    "set ys = {u \<in> set xs. iname u \<noteq> n}"
  shows "child_ids (ChildList ys) = (child_ids (ChildList xs))(n := None)"
  using assms(3) by (intro child_ids_list_eqI[OF assms(2)])
    (auto simp: child_ids_list(1)[OF assms(1)] split: if_splits)

lemma list_step:
  assumes srt: "sorted_wrt (<) (map iname xs)" and step: "child_step x (ChildList xs) = (r, ch')"
  shows "child_step_spec x (child_ids (ChildList xs)) = (r, child_ids ch') \<and> list_inv ch'"
proof (cases x)
  case (AddChild v)
  show ?thesis
  proof (cases "search_by_name xs (iname v)")
    case (Inl i)
    note add = list_add[OF srt Inl]
    have "child_ids (ChildList xs) (iname v) = None"
      using add(3) by (simp add: child_ids_list(2)[OF srt])
    moreover have "child_ids (ChildList (take i xs @ v # drop i xs)) =
        (child_ids (ChildList xs))(iname v \<mapsto> iid v)"
      by (rule child_ids_list_insert[OF srt add])
    ultimately show ?thesis
      using step add(1) Inl AddChild by (auto simp: list_inv_def)
  next
    case (Inr i)
    have "child_ids (ChildList xs) (iname v) \<noteq> None"
      using search_Ok[OF Inr] by (auto simp: child_ids_list(2)[OF srt])
    then show ?thesis
      using step srt Inr AddChild by (auto simp: list_inv_def)
  qed
next
  case (DelChild i n)
  show ?thesis
  proof (cases "search_by_name xs n")
    case (Inl j)
    then have "child_ids (ChildList xs) n = None" by (simp add: child_ids_def)
    then show ?thesis
      using step srt Inl DelChild by (auto simp: list_inv_def check_removed_def)
  next
    case (Inr j)
    note ok = search_Ok[OF Inr] and rem = list_remove[OF srt search_Ok(1)[OF Inr]]
    have "child_ids (ChildList xs) n = Some (iid (xs ! j))" using Inr by (simp add: child_ids_def)
    moreover have "child_ids (ChildList (take j xs @ drop (Suc j) xs)) = (child_ids (ChildList xs))(n := None)"
      using child_ids_list_remove[OF srt rem] ok(2) by simp
    ultimately show ?thesis
      using step rem(1) Inr DelChild by (auto simp: list_inv_def check_removed_def split: if_splits)
  qed
qed

lemma map_inv_insert:
  "map_inv (ChildMap m) \<Longrightarrow> iname v = k \<Longrightarrow> map_inv (ChildMap (bt_insert k v m))"
  using set_bt_insert_subset[of k v m] by (fastforce simp: map_inv_def)

lemma map_inv_remove: "map_inv (ChildMap m) \<Longrightarrow> map_inv (ChildMap (bt_remove k m))"
  by (auto simp: map_inv_def bt_remove_def[of k m] dest: keys_sorted_bt_remove[of m k])

lemma map_step:
  assumes inv: "map_inv (ChildMap m)" and step: "child_step x (ChildMap m) = (r, ch')"
  shows "child_step_spec x (child_ids (ChildMap m)) = (r, child_ids ch') \<and> map_inv ch'"
proof (cases x)
  case (AddChild v)
  then show ?thesis
    using inv step map_inv_insert[OF inv, of v] map_inv_insert[OF inv, of "FileEntry (iname v) (iid v)"]
    by (cases "map_of m (iname v)") (auto simp: child_ids_def fun_eq_iff split: if_splits)
next
  case (DelChild i n)
  then show ?thesis
    using step map_inv_remove[OF inv, of n]
    by (cases "map_of m n") (auto simp: child_ids_def fun_eq_iff check_removed_def split: if_splits)
qed

interpretation list_children: children_repr child_step child_ids list_inv
proof
  fix ch x r ch'
  assume "list_inv ch" and step: "child_step x ch = (r, ch')"
  then obtain xs where "ch = ChildList xs" "sorted_wrt (<) (map iname xs)"
    by (auto simp: list_inv_def)
  with list_step step show "child_step_spec x (child_ids ch) = (r, child_ids ch')" "list_inv ch'"
    by blast+
qed

interpretation map_children: children_repr child_step child_ids map_inv
proof
  fix ch x r ch'
  assume inv: "map_inv ch" and step: "child_step x ch = (r, ch')"
  then obtain m where "ch = ChildMap m" by (auto simp: map_inv_def)
  with map_step inv step show "child_step_spec x (child_ids ch) = (r, child_ids ch')" "map_inv ch'"
    by blast+
qed

text \<open>C8. The two representations of a directory's children are interchangeable: any sequence of
  additions and deletions, started on an empty list and on an empty map, gives the same
  results (ids or errors) step by step, and the same child of every name afterwards; both
  implement the specification on name-to-id maps.\<close>

theorem children_list_map_equiv:
  "fst (run_steps child_step xs new_list) = fst (run_steps child_step xs new_map) \<and>
   child_ids (snd (run_steps child_step xs new_list)) = child_ids (snd (run_steps child_step xs new_map)) \<and>
   run_steps child_step_spec xs Map.empty =
     (fst (run_steps child_step xs new_map), child_ids (snd (run_steps child_step xs new_map)))"
proof -
  have "list_inv new_list" "map_inv new_map"
    by (auto simp: list_inv_def map_inv_def new_list_def new_map_def)
  moreover have "child_ids new_list = Map.empty" "child_ids new_map = Map.empty"
    by (auto simp: child_ids_def new_list_def new_map_def search_by_name_def binary_search_by_def)
  ultimately have
    "run_steps child_step_spec xs Map.empty =
       (fst (run_steps child_step xs new_list), child_ids (snd (run_steps child_step xs new_list)))"
    "run_steps child_step_spec xs Map.empty =
       (fst (run_steps child_step xs new_map), child_ids (snd (run_steps child_step xs new_map)))"
    using list_children.run_spec(1)[of new_list xs] map_children.run_spec(1)[of new_map xs]
    by (metis prod.collapse)+
  then show ?thesis by simp
qed

end
