(* ===== verification/Inode_Tree.thy ===== *)
theory Inode_Tree
  imports Inode_View "HOL-Library.Sublist"
begin

text \<open>
  The directory tree as a whole: reading and writing a node through a path (what the raw
  pointers of \<^verbatim>\<open>InodePtr\<close> do), \<^verbatim>\<open>InodePath\<close> (\<^verbatim>\<open>master/meta/inode/inode_path.rs\<close>) with its
  resolution against the tree and the store, and the abstraction of a tree to the map from
  paths to node attributes on which the later theories state what an operation changes.
\<close>

subsection \<open>Access through a path\<close>

fun put_child :: "string \<Rightarrow> inode_view \<Rightarrow> inode_view inode_children \<Rightarrow> inode_view inode_children" where
  "put_child n v (ChildList xs) =
     (case search_by_name xs n of Inl _ \<Rightarrow> ChildList xs | Inr i \<Rightarrow> ChildList (xs[i := v]))"
| "put_child n v (ChildMap m) = ChildMap (bt_insert n v m)"

fun tree_get :: "inode_view \<Rightarrow> string list \<Rightarrow> inode_view option" where
  "tree_get v [] = Some v"
| "tree_get v (n # p) = (case get_child v n of None \<Rightarrow> None | Some c \<Rightarrow> tree_get c p)"

fun tree_put :: "inode_view \<Rightarrow> string list \<Rightarrow> inode_view \<Rightarrow> inode_view" where
  "tree_put u [] v = v"
| "tree_put (Dir m d ch) (n # p) v =
     (case children_get ch n of
        None \<Rightarrow> Dir m d ch
      | Some c \<Rightarrow> Dir m d (put_child n (tree_put c p v) ch))"
| "tree_put u (n # p) v = u"

definition deref :: "inode_view \<Rightarrow> inode_ptr \<Rightarrow> inode_view option" where
  "deref root ptr = (case ptr of Ref p \<Rightarrow> tree_get root p | Owned v \<Rightarrow> Some v)"

subsection \<open>InodePath\<close>

record inode_path =
  ip_path :: string
  ip_name :: string
  ip_components :: "string list"
  ip_inodes :: "inode_ptr list"

text \<open>The loop of \<^verbatim>\<open>InodePath::resolve\<close>: \<open>p\<close> is the path of the current node, the last argument the
  components after it. A \<^verbatim>\<open>FileEntry\<close> is replaced by the inode the store has under its id.\<close>

fun resolve_from ::
  "(i64 \<Rightarrow> string \<Rightarrow> inode_view option res) \<Rightarrow> inode_view \<Rightarrow> string list \<Rightarrow> string list \<Rightarrow>
   inode_ptr list res" where
  "resolve_from load_inode cur p rest =
     bind_res
       (case cur of
          FileEntry n i \<Rightarrow>
            bind_res (load_inode i n) (\<lambda>full.
              case full of
                Some full_inode \<Rightarrow> Inr (Owned full_inode)
              | None \<Rightarrow> Inl (Common ''Failed to load inode from store''))
        | _ \<Rightarrow> Inr (Ref p))
       (\<lambda>resolved.
          case rest of
            [] \<Rightarrow> Inr [resolved]
          | c # cs \<Rightarrow>
              (case get_child cur c of
                 None \<Rightarrow> Inr [resolved]
               | Some child \<Rightarrow>
                   bind_res (resolve_from load_inode child (p @ [c]) cs) (\<lambda>ptrs. Inr (resolved # ptrs))))"

definition resolve ::
  "(i64 \<Rightarrow> string \<Rightarrow> inode_view option res) \<Rightarrow> inode_view \<Rightarrow> string \<Rightarrow> inode_path res" where
  "resolve load_inode root path =
     bind_res (path_components path) (\<lambda>components.
       let name = last components in
       if name = [] then Inl (Common ''Path is invalid'')
       else bind_res (resolve_from load_inode root [] (tl components)) (\<lambda>inodes.
         Inr \<lparr>ip_path = path, ip_name = name, ip_components = components, ip_inodes = inodes\<rparr>))"

definition ip_is_root :: "inode_path \<Rightarrow> bool" where
  "ip_is_root inp \<longleftrightarrow> length (ip_components inp) \<le> 1"

definition is_full :: "inode_path \<Rightarrow> bool" where
  "is_full inp \<longleftrightarrow> length (ip_components inp) = length (ip_inodes inp)"

definition child_path :: "inode_path \<Rightarrow> string \<Rightarrow> string" where
  "child_path inp child =
     (if ip_is_root inp then PATH_SEPARATOR # child
      else ip_path inp @ PATH_SEPARATOR # child)"

definition get_path :: "inode_path \<Rightarrow> nat \<Rightarrow> string" where
  "get_path inp index =
     (if index > length (ip_components inp) then []
      else join_with PATH_SEPARATOR (take index (ip_components inp)))"

definition get_parent_path :: "inode_path \<Rightarrow> string" where
  "get_parent_path inp = get_path inp (length (ip_components inp) - 1)"

definition get_component :: "inode_path \<Rightarrow> nat \<Rightarrow> string res" where
  "get_component inp pos =
     (if pos < length (ip_components inp) then Inr (ip_components inp ! pos)
      else Inl (Common ''Path does not exist''))"

definition get_inode :: "inode_path \<Rightarrow> int \<Rightarrow> inode_ptr option" where
  "get_inode inp pos =
     (let p = nat ((if pos < 0
                    then signed_take_bit 31 (signed_take_bit 31 (int (length (ip_components inp))) + pos)
                    else pos) mod 2 ^ 64)
      in if p < length (ip_inodes inp) then Some (ip_inodes inp ! p) else None)"

text \<open>The position is compared as an integer when the definition is evaluated.\<close>

lemma get_inode_code [code]:
  "get_inode inp pos =
     (let i = (if pos < 0
               then signed_take_bit 31 (signed_take_bit 31 (int (length (ip_components inp))) + pos)
               else pos) mod 2 ^ 64
      in if i < int (length (ip_inodes inp)) then Some (ip_inodes inp ! nat i) else None)"
  unfolding get_inode_def Let_def by (simp add: nat_less_iff)

definition get_last_inode :: "inode_path \<Rightarrow> inode_ptr option" where
  "get_last_inode inp = get_inode inp (-1)"

definition existing_len :: "inode_path \<Rightarrow> nat" where
  "existing_len inp = length (ip_inodes inp)"

text \<open>\<^verbatim>\<open>InodePath::append\<close>, with the name of the inode the pointer refers to.\<close>

definition ip_append :: "string \<Rightarrow> inode_ptr \<Rightarrow> inode_path \<Rightarrow> inode_path res" where
  "ip_append inode_name ptr inp =
     (if length (ip_components inp) = length (ip_inodes inp)
      then Inl (Common ''The path is complete, appending nodes is not allowed'')
      else case get_component inp (length (ip_inodes inp)) of
        Inr n \<Rightarrow> if n = inode_name then Inr (inp\<lparr>ip_inodes := ip_inodes inp @ [ptr]\<rparr>)
                 else Inl (Common ''data status'')
      | Inl _ \<Rightarrow> Inl (Common ''data status''))"

definition is_empty_dir :: "inode_view \<Rightarrow> inode_path \<Rightarrow> bool" where
  "is_empty_dir root inp =
     (case Option.bind (get_last_inode inp) (deref root) of
        Some v \<Rightarrow> child_len v = 0
      | None \<Rightarrow> True)"

definition delete_last :: "inode_path \<Rightarrow> inode_path" where
  "delete_last inp = inp\<lparr>ip_inodes := butlast (ip_inodes inp)\<rparr>"

subsection \<open>Trees as maps from paths\<close>

text \<open>The attributes of a node, without its name and its children.\<close>

datatype node = NFile inode_file | NDir inode_dir | NEntry i64

fun shallow :: "inode_view \<Rightarrow> node" where
  "shallow (File _ f) = NFile f"
| "shallow (Dir _ d _) = NDir d"
| "shallow (FileEntry _ i) = NEntry i"

definition lookup :: "inode_view \<Rightarrow> string list \<Rightarrow> node option" where
  "lookup v p = map_option shallow (tree_get v p)"

text \<open>The trees the master builds: all children are maps, keyed by the name of the child, and a
  file is always a \<^verbatim>\<open>FileEntry\<close>.\<close>

fun node_ok :: "inode_view \<Rightarrow> bool" where
  "node_ok (File _ _) = False"
| "node_ok (Dir _ _ ch) = map_inv ch"
| "node_ok (FileEntry _ _) = True"

definition tree_ok :: "inode_view \<Rightarrow> bool" where
  "tree_ok root \<longleftrightarrow> (\<forall>p v. tree_get root p = Some v \<longrightarrow> node_ok v)"

lemma tree_get_append:
  "tree_get v (p @ q) = (case tree_get v p of None \<Rightarrow> None | Some u \<Rightarrow> tree_get u q)"
  by (induction p arbitrary: v) (auto split: option.splits)

lemma tree_ok_get: "tree_ok root \<Longrightarrow> tree_get root p = Some v \<Longrightarrow> node_ok v"
  by (auto simp: tree_ok_def)

lemma tree_ok_sub: "tree_ok root \<Longrightarrow> tree_get root p = Some v \<Longrightarrow> tree_ok v"
  unfolding tree_ok_def by (metis option.simps(5) tree_get_append)

lemma tree_ok_dir:
  assumes "tree_ok root" "tree_get root p = Some (Dir n d ch)"
  obtains m where "ch = ChildMap m" "keys_sorted m" "\<forall>(k, v)\<in>set m. iname v = k"
  using tree_ok_get[OF assms] by (auto simp: map_inv_def)

lemma tree_ok_DirI:
  assumes "map_inv (ChildMap m)" "\<And>k v. map_of m k = Some v \<Longrightarrow> tree_ok v"
  shows "tree_ok (Dir n d (ChildMap m))"
  unfolding tree_ok_def
proof (intro allI impI)
  fix p v
  assume "tree_get (Dir n d (ChildMap m)) p = Some v"
  then show "node_ok v"
    using assms by (cases p) (auto split: option.splits dest: tree_ok_get)
qed

lemma tree_ok_child: "tree_ok (Dir n d (ChildMap m)) \<Longrightarrow> map_of m k = Some v \<Longrightarrow> tree_ok v"
  using tree_ok_sub[of "Dir n d (ChildMap m)" "[k]" v] by simp

lemma tree_ok_map_inv: "tree_ok (Dir n d ch) \<Longrightarrow> map_inv ch"
  using tree_ok_get[of "Dir n d ch" "[]"] by simp

lemma lookup_Nil [simp]: "lookup v [] = Some (shallow v)"
  by (simp add: lookup_def)

lemma lookup_Cons_Map [simp]:
  "lookup (Dir n d (ChildMap m)) (k # p) = (case map_of m k of None \<Rightarrow> None | Some c \<Rightarrow> lookup c p)"
  by (simp add: lookup_def split: option.splits)

lemma lookup_leaf: "lookup (FileEntry n i) p = (if p = [] then Some (NEntry i) else None)"
  by (cases p) (simp_all add: lookup_def)

lemma lookup_append:
  "lookup v (p @ q) = (case tree_get v p of None \<Rightarrow> None | Some u \<Rightarrow> lookup u q)"
  by (simp add: lookup_def tree_get_append split: option.splits)

lemma tree_put_iname: "p \<noteq> [] \<Longrightarrow> iname (tree_put u p v) = iname u"
  by (cases p; cases u) (auto split: option.splits)

text \<open>Writing the node at \<open>p\<close> changes what is looked up at and below \<open>p\<close>, and nothing else.\<close>

lemma lookup_tree_put:
  assumes "tree_ok root" "tree_get root p = Some u"
  shows "lookup (tree_put root p v) q =
    (if prefix p q then lookup v (drop (length p) q) else lookup root q)"
  using assms
proof (induction p arbitrary: root q)
  case (Cons n p)
  then obtain nm d ch c where root: "root = Dir nm d ch" "children_get ch n = Some c" "tree_get c p = Some u"
    by (cases root) (auto split: option.splits)
  then obtain m where m: "ch = ChildMap m" "map_of m n = Some c"
    using tree_ok_map_inv[of nm d ch] Cons.prems(1) by (auto simp: map_inv_def)
  have ok: "tree_ok c"
    using Cons.prems(1) root(1) m by (auto intro: tree_ok_child)
  show ?case
    using Cons.IH[OF ok root(3)] by (cases q) (auto simp: root(1) m lookup_def split: option.splits)
qed simp

lemma tree_ok_put:
  assumes "tree_ok root" "tree_get root p = Some u" "tree_ok v" "iname v = iname u"
  shows "tree_ok (tree_put root p v)"
  using assms
proof (induction p arbitrary: root)
  case (Cons n p)
  then obtain nm d ch c where root: "root = Dir nm d ch" "children_get ch n = Some c" "tree_get c p = Some u"
    by (cases root) (auto split: option.splits)
  then obtain m where m: "ch = ChildMap m" "map_of m n = Some c"
    using tree_ok_map_inv[of nm d ch] Cons.prems(1) by (auto simp: map_inv_def)
  have inv: "map_inv (ChildMap m)"
    using tree_ok_map_inv Cons.prems(1) root(1) m(1) by blast
  have "iname c = n"
    using inv map_of_SomeD[OF m(2)] by (auto simp: map_inv_def)
  then have nm: "iname (tree_put c p v) = n"
    using Cons.prems(4) root(3) by (cases "p = []") (simp_all add: tree_put_iname)
  have "tree_ok c" and kids: "\<And>k w. map_of m k = Some w \<Longrightarrow> tree_ok w"
    using Cons.prems(1) root(1) m tree_ok_child by blast+
  then have "tree_ok (tree_put c p v)"
    using Cons.IH root(3) Cons.prems(3,4) by blast
  then show ?case
    using map_inv_insert[OF inv nm] kids
    by (auto simp: root(1) m intro!: tree_ok_DirI split: if_splits)
qed simp

text \<open>The three writes the operations make: new attributes for a directory, a child more, a
  child less.\<close>

lemma prefix_split:
  assumes "prefix p q"
  obtains "q = p" | k r where "q = p @ k # r"
  using assms by (auto simp: prefix_def neq_Nil_conv) (metis append_Nil2 neq_Nil_conv)

lemma drop_past [simp]: "drop (Suc (length p)) (p @ k # r) = r"
  by (induction p) auto

lemma lookup_put_children:
  assumes "tree_ok root" "tree_get root p = Some (Dir n d (ChildMap m))"
  shows "lookup (tree_put root p (Dir n' d' (ChildMap m'))) q =
    (if q = p then Some (NDir d')
     else if prefix p q then
       (case map_of m' (q ! length p) of None \<Rightarrow> None | Some c \<Rightarrow> lookup c (drop (Suc (length p)) q))
     else lookup root q)"
  using lookup_tree_put[OF assms] by (auto elim!: prefix_split simp: nth_append split: option.splits)

lemma lookup_at_dir:
  assumes "tree_get root p = Some (Dir n d (ChildMap m))" "prefix p q" "q \<noteq> p"
  shows "lookup root q =
    (case map_of m (q ! length p) of None \<Rightarrow> None | Some c \<Rightarrow> lookup c (drop (Suc (length p)) q))"
  using assms by (auto elim!: prefix_split simp: lookup_append nth_append split: option.splits)

lemma prefix_snoc_nth:
  assumes "prefix p q" "q \<noteq> p"
  shows "prefix (p @ [k]) q \<longleftrightarrow> q ! length p = k"
  using assms(1) by (cases rule: prefix_split) (use assms(2) in \<open>auto simp: nth_append\<close>)

lemma lookup_put_meta:
  assumes "tree_ok root" "tree_get root p = Some (Dir n d ch)"
  shows "lookup (tree_put root p (Dir n' d' ch)) q = (if q = p then Some (NDir d') else lookup root q)"
proof -
  obtain m where m: "ch = ChildMap m"
    using assms by (rule tree_ok_dir)
  note get = assms(2)[unfolded m]
  show ?thesis
    using lookup_put_children[OF assms(1) get] lookup_at_dir[OF get, of q] by (simp add: m)
qed

lemma lookup_put_add:
  assumes "tree_ok root" "tree_get root p = Some (Dir n d (ChildMap m))" "map_of m k = None"
  shows "lookup (tree_put root p (Dir n' d' (ChildMap (bt_insert k c m)))) q =
    (if q = p then Some (NDir d')
     else if prefix (p @ [k]) q then lookup c (drop (Suc (length p)) q)
     else lookup root q)"
  using lookup_put_children[OF assms(1,2)] lookup_at_dir[OF assms(2), of q]
    prefix_snoc_nth[of p q k] append_prefixD[of p "[k]" q] by auto

lemma lookup_put_remove:
  assumes "tree_ok root" "tree_get root p = Some (Dir n d (ChildMap m))"
  shows "lookup (tree_put root p (Dir n' d' (ChildMap (bt_remove k m)))) q =
    (if q = p then Some (NDir d')
     else if prefix (p @ [k]) q then None
     else lookup root q)"
  using lookup_put_children[OF assms(1,2)] lookup_at_dir[OF assms(2), of q]
    prefix_snoc_nth[of p q k] append_prefixD[of p "[k]" q] by auto

lemma lookup_child:
  "tree_get root p = Some (Dir n d (ChildMap m)) \<Longrightarrow>
   lookup root (p @ [k]) = map_option shallow (map_of m k)"
  by (simp add: lookup_def tree_get_append split: option.splits)

lemma lookup_dirD:
  assumes "tree_ok root" "lookup root p = Some (NDir d)"
  obtains n m where "tree_get root p = Some (Dir n d (ChildMap m))"
proof -
  obtain v where v: "tree_get root p = Some v" "shallow v = NDir d"
    using assms(2) by (auto simp: lookup_def)
  then obtain n ch where "v = Dir n d ch" by (cases v) auto
  with v assms(1) that show thesis by (metis tree_ok_dir)
qed

lemma lookup_prefix_dir:
  assumes "tree_ok root" "lookup root (p @ k # q) = Some x"
  obtains d where "lookup root p = Some (NDir d)"
proof -
  obtain u where u: "tree_get root p = Some u" "lookup u (k # q) = Some x"
    using assms(2) by (auto simp: lookup_append split: option.splits)
  then obtain n d ch where "u = Dir n d ch" by (cases u) (auto simp: lookup_def)
  with u(1) that show thesis by (simp add: lookup_def)
qed

lemma tree_get_iname:
  assumes "tree_ok root" "tree_get root (p @ [k]) = Some v"
  shows "iname v = k"
proof -
  obtain u where u: "tree_get root p = Some u" "get_child u k = Some v"
    using assms(2) by (auto simp: tree_get_append split: option.splits)
  then obtain n d ch where "u = Dir n d ch" by (cases u) auto
  with u obtain m where "ch = ChildMap m" "\<forall>(k, v)\<in>set m. iname v = k"
    using tree_ok_dir[OF assms(1)] by metis
  with u \<open>u = Dir n d ch\<close> show ?thesis by (auto dest: map_of_SomeD)
qed

subsection \<open>Resolution\<close>

text \<open>The pointer \<^verbatim>\<open>resolve\<close> keeps for a node: a reference for a directory, the stored inode for a
  file.\<close>

definition resolved_ptr ::
  "(i64 \<Rightarrow> string \<Rightarrow> inode_view option res) \<Rightarrow> string list \<Rightarrow> inode_view \<Rightarrow> inode_ptr \<Rightarrow> bool" where
  "resolved_ptr load_inode p v ptr =
     (case v of FileEntry n i \<Rightarrow> (\<exists>full. load_inode i n = Inr (Some full) \<and> ptr = Owned full)
      | _ \<Rightarrow> ptr = Ref p)"

lemma resolve_from_spec:
  assumes "resolve_from g cur p cs = Inr ptrs"
  shows "ptrs \<noteq> [] \<and> length ptrs \<le> Suc (length cs) \<and>
    (\<forall>i<length ptrs. \<exists>v. tree_get cur (take i cs) = Some v \<and> resolved_ptr g (p @ take i cs) v (ptrs ! i)) \<and>
    (length ptrs \<le> length cs \<longrightarrow> tree_get cur (take (length ptrs) cs) = None)"
  using assms
proof (induction cs arbitrary: cur p ptrs)
  case Nil
  then show ?case
    by (subst (asm) resolve_from.simps)
      (auto simp: resolved_ptr_def split: inode_view.splits option.splits)
next
  case (Cons c cs)
  obtain r where r: "resolved_ptr g p cur r"
      "(case get_child cur c of None \<Rightarrow> Inr [r]
        | Some child \<Rightarrow> bind_res (resolve_from g child (p @ [c]) cs) (\<lambda>ptrs. Inr (r # ptrs))) = Inr ptrs"
    using Cons.prems by (subst (asm) resolve_from.simps)
      (auto simp: resolved_ptr_def simp del: resolve_from.simps split: inode_view.splits option.splits)
  show ?case
  proof (cases "get_child cur c")
    case None
    then show ?thesis using r by auto
  next
    case (Some child)
    then obtain ps where ps: "resolve_from g child (p @ [c]) cs = Inr ps" "ptrs = r # ps"
      using r(2) by (auto simp del: resolve_from.simps)
    note IH = Cons.IH[OF ps(1)]
    have "\<exists>v. tree_get cur (take i (c # cs)) = Some v \<and> resolved_ptr g (p @ take i (c # cs)) v (ptrs ! i)"
      if "i < length ptrs" for i
      using that IH r(1) Some ps(2) by (cases i) auto
    then show ?thesis
      using IH Some ps(2) by auto
  qed
qed

end
