(* ===== verification/Ttl_Buckets.thy ===== *)
theory Ttl_Buckets
  imports State_Types
begin

text \<open>
  The time-to-live bookkeeping of the master (\<^verbatim>\<open>master/meta/inode/ttl/ttl_types.rs\<close> and
  \<^verbatim>\<open>ttl_bucket.rs\<close>): inodes are registered in buckets of a fixed interval length, with an index
  from inode to bucket. The concurrent maps are sorted association lists, a bucket shared
  through an \<^verbatim>\<open>Arc\<close> is named by its start time. The lemmas show that an inode is handed out for
  expiry neither before it expires nor later than the end of its interval, and that the
  index and the buckets agree.
\<close>

subsection \<open>Configuration\<close>

record ttl_config =
  tc_ttl_ms :: int
  tc_action :: ttl_action
  tc_creation_time_ms :: int

definition u64_of :: "int \<Rightarrow> int" where
  "u64_of i = i mod 2 ^ 64"

definition ttl_from_storage_policy :: "int \<Rightarrow> storage_policy \<Rightarrow> ttl_config option" where
  "ttl_from_storage_policy now sp =
     (if sp_ttl_ms sp > 0 \<and> sp_ttl_action sp \<noteq> TtlNone
      then Some \<lparr>tc_ttl_ms = u64_of (sp_ttl_ms sp), tc_action = sp_ttl_action sp,
                 tc_creation_time_ms = now\<rparr>
      else None)"

definition expiry_time_ms :: "ttl_config \<Rightarrow> int" where
  "expiry_time_ms c = u64_of (tc_creation_time_ms c + tc_ttl_ms c)"

definition ttl_is_expired_at :: "int \<Rightarrow> ttl_config \<Rightarrow> bool" where
  "ttl_is_expired_at time_ms c \<longleftrightarrow> time_ms \<ge> expiry_time_ms c"

record ttl_cleanup_config =
  cc_check_interval_ms :: int
  cc_max_retry_count :: u32
  cc_max_retry_duration_ms :: int
  cc_retry_interval_ms :: int
  cc_bucket_interval_ms :: int

definition default_cleanup_config :: ttl_cleanup_config where
  "default_cleanup_config =
     \<lparr>cc_check_interval_ms = 60000, cc_max_retry_count = 3, cc_max_retry_duration_ms = 1800000,
      cc_retry_interval_ms = 5000, cc_bucket_interval_ms = 3600000\<rparr>"

definition validate_cleanup :: "ttl_cleanup_config \<Rightarrow> unit res" where
  "validate_cleanup c =
     (if cc_check_interval_ms c = 0
      then Inl (Common ''check_interval_ms must be greater than 0'')
      else if cc_max_retry_count c = 0
      then Inl (Common ''max_retry_count must be greater than 0'')
      else if cc_max_retry_duration_ms c = 0
      then Inl (Common ''max_retry_duration_ms must be greater than 0'')
      else if cc_retry_interval_ms c = 0
      then Inl (Common ''retry_interval_ms must be greater than 0'')
      else if cc_max_retry_duration_ms c \<le> cc_retry_interval_ms c
      then Inl (Common ''max_retry_duration_ms must be greater than retry_interval_ms'')
      else if cc_max_retry_duration_ms c < 60000
      then Inl (Common ''max_retry_duration_ms should be at least 1 minute'')
      else if cc_max_retry_duration_ms c > 86400000
      then Inl (Common ''max_retry_duration_ms should not exceed 24 hours'')
      else if cc_bucket_interval_ms c = 0
      then Inl (Common ''bucket_interval_ms must be greater than 0'')
      else Inr ())"

subsection \<open>Buckets\<close>

record ttl_bucket =
  tb_interval_start_ms :: int
  tb_interval_duration_ms :: int
  tb_inode_retries :: "(int \<times> u32) list"

definition bucket_new :: "int \<Rightarrow> int \<Rightarrow> ttl_bucket" where
  "bucket_new start dur =
     \<lparr>tb_interval_start_ms = start, tb_interval_duration_ms = dur, tb_inode_retries = []\<rparr>"

definition get_interval_end_ms :: "ttl_bucket \<Rightarrow> int" where
  "get_interval_end_ms b = u64_of (tb_interval_start_ms b + tb_interval_duration_ms b)"

definition bucket_add_inode :: "int \<Rightarrow> u32 \<Rightarrow> ttl_bucket \<Rightarrow> ttl_bucket" where
  "bucket_add_inode i retry_count b =
     b\<lparr>tb_inode_retries := bt_insert i retry_count (tb_inode_retries b)\<rparr>"

definition bucket_remove_inode :: "int \<Rightarrow> ttl_bucket \<Rightarrow> u32 option \<times> ttl_bucket" where
  "bucket_remove_inode i b =
     (map_of (tb_inode_retries b) i, b\<lparr>tb_inode_retries := bt_remove i (tb_inode_retries b)\<rparr>)"

definition bucket_is_expired_at :: "int \<Rightarrow> ttl_bucket \<Rightarrow> bool" where
  "bucket_is_expired_at now b \<longleftrightarrow> get_interval_end_ms b \<le> now"

definition bucket_is_empty :: "ttl_bucket \<Rightarrow> bool" where
  "bucket_is_empty b \<longleftrightarrow> length (tb_inode_retries b) = 0"

subsection \<open>The bucket list\<close>

record ttl_bucket_list =
  tl_buckets :: "(int \<times> ttl_bucket) list"
  tl_index :: "(int \<times> int) list"
  tl_interval :: int
  tl_total :: int

definition bucket_list_new :: "int \<Rightarrow> ttl_bucket_list" where
  "bucket_list_new interval =
     \<lparr>tl_buckets = [], tl_index = [], tl_interval = interval, tl_total = 0\<rparr>"

text \<open>The division panics on a zero interval.\<close>

definition get_bucket_interval_start :: "ttl_bucket_list \<Rightarrow> int \<Rightarrow> int res" where
  "get_bucket_interval_start l timestamp_ms =
     (if tl_interval l = 0 then Inl (Panic ''attempt to divide by zero'')
      else Inr ((timestamp_ms div tl_interval l) * tl_interval l))"

definition get_or_create_bucket :: "int \<Rightarrow> (ttl_bucket_list, int) op" where
  "get_or_create_bucket timestamp_ms l =
     (case get_bucket_interval_start l timestamp_ms of
        Inl e \<Rightarrow> (Inl e, l)
      | Inr start \<Rightarrow>
          (case map_of (tl_buckets l) start of
             Some _ \<Rightarrow> (Inr start, l)
           | None \<Rightarrow> (Inr start,
               l\<lparr>tl_buckets := bt_insert start (bucket_new start (tl_interval l)) (tl_buckets l)\<rparr>)))"

text \<open>Writing through the \<^verbatim>\<open>Arc\<close> of a bucket.\<close>

definition with_bucket :: "int \<Rightarrow> (ttl_bucket \<Rightarrow> ttl_bucket) \<Rightarrow> ttl_bucket_list \<Rightarrow> ttl_bucket_list" where
  "with_bucket start f l =
     (case map_of (tl_buckets l) start of
        None \<Rightarrow> l
      | Some b \<Rightarrow> l\<lparr>tl_buckets := bt_insert start (f b) (tl_buckets l)\<rparr>)"

definition ttl_add_inode :: "int \<Rightarrow> int \<Rightarrow> (ttl_bucket_list, unit) op" where
  "ttl_add_inode i expiration_ms =
     bind_op (get_or_create_bucket expiration_ms) (\<lambda>start l.
       let l = with_bucket start (bucket_add_inode i 0) l
       in (Inr (), l\<lparr>tl_index := bt_insert i start (tl_index l),
                     tl_total := u64_of (tl_total l + 1)\<rparr>))"

definition ttl_remove_inode :: "int \<Rightarrow> (ttl_bucket_list, u32 option) op" where
  "ttl_remove_inode i l =
     (case map_of (tl_index l) i of
        None \<Rightarrow> (Inr None, l)
      | Some start \<Rightarrow>
          (case map_of (tl_buckets l) start of
             None \<Rightarrow> (Inr None, l)
           | Some b \<Rightarrow>
               (let (r, b') = bucket_remove_inode i b;
                    l = l\<lparr>tl_buckets := bt_insert start b' (tl_buckets l)\<rparr>
                in if r = None then (Inr r, l)
                   else (Inr r, l\<lparr>tl_index := bt_remove i (tl_index l),
                                  tl_total := u64_of (tl_total l - 1)\<rparr>))))"

definition ttl_reschedule_inode :: "int \<Rightarrow> u32 \<Rightarrow> int \<Rightarrow> (ttl_bucket_list, unit) op" where
  "ttl_reschedule_inode i retry_count next_timestamp_ms l0 =
     (let l = (case map_of (tl_index l0) i of
                 None \<Rightarrow> l0
               | Some cur_start \<Rightarrow> with_bucket cur_start (\<lambda>b. snd (bucket_remove_inode i b)) l0)
      in bind_op (get_or_create_bucket next_timestamp_ms) (\<lambda>new_start l.
           let l = with_bucket new_start (bucket_add_inode i retry_count) l
           in (Inr (), l\<lparr>tl_index := bt_insert i new_start (tl_index l)\<rparr>)) l)"

definition get_expired_buckets_at :: "ttl_bucket_list \<Rightarrow> int \<Rightarrow> ttl_bucket list" where
  "get_expired_buckets_at l now =
     (let max_expired_start = max 0 (now - tl_interval l)
      in map snd (filter (\<lambda>(s, b). s \<le> max_expired_start) (tl_buckets l)))"

definition remove_empty_bucket :: "ttl_bucket \<Rightarrow> (ttl_bucket_list, bool) op" where
  "remove_empty_bucket b l =
     (if \<not> bucket_is_empty b then (Inr False, l)
      else (Inr (map_of (tl_buckets l) (tb_interval_start_ms b) \<noteq> None),
            l\<lparr>tl_buckets := bt_remove (tb_interval_start_ms b) (tl_buckets l)\<rparr>))"

subsection \<open>Invariant\<close>

text \<open>Buckets are keyed by their start, which is a multiple of the interval; an inode is indexed
  exactly under the bucket that holds it.\<close>

definition holds :: "ttl_bucket_list \<Rightarrow> int \<Rightarrow> int \<Rightarrow> bool" where
  "holds l s i \<longleftrightarrow> (\<exists>b r. map_of (tl_buckets l) s = Some b \<and> map_of (tb_inode_retries b) i = Some r)"

definition ttl_shape :: "ttl_bucket_list \<Rightarrow> bool" where
  "ttl_shape l \<longleftrightarrow> 0 < tl_interval l \<and> keys_sorted (tl_buckets l) \<and>
     (\<forall>s b. map_of (tl_buckets l) s = Some b \<longrightarrow> tb_interval_start_ms b = s \<and>
        tb_interval_duration_ms b = tl_interval l \<and> s mod tl_interval l = 0)"

definition ttl_ok :: "ttl_bucket_list \<Rightarrow> bool" where
  "ttl_ok l \<longleftrightarrow> ttl_shape l \<and> (\<forall>s i. holds l s i \<longleftrightarrow> map_of (tl_index l) i = Some s)"

lemma ttl_ok_new: "0 < interval \<Longrightarrow> ttl_ok (bucket_list_new interval)"
  by (simp add: ttl_ok_def ttl_shape_def bucket_list_new_def holds_def)

lemma interval_start_bounds:
  assumes "0 < iv"
  shows "(t div iv) * iv \<le> (t::int)" "t < (t div iv) * iv + iv" "((t div iv) * iv) mod iv = 0"
  using assms by (simp_all add: minus_mod_eq_div_mult[symmetric])

lemma get_or_create_bucket_spec:
  assumes ok: "ttl_ok l" and get: "get_or_create_bucket t l = (r, l')"
  defines "s \<equiv> (t div tl_interval l) * tl_interval l"
  shows "r = Inr s" "ttl_ok l'" "map_of (tl_buckets l') s \<noteq> None"
    "holds l' = holds l" "tl_index l' = tl_index l" "tl_interval l' = tl_interval l" "tl_total l' = tl_total l"
proof -
  have iv: "0 < tl_interval l" using ok by (simp add: ttl_ok_def ttl_shape_def)
  have start: "get_bucket_interval_start l t = Inr s"
    using iv by (simp add: get_bucket_interval_start_def s_def)
  have "r = Inr s \<and> ttl_ok l' \<and> map_of (tl_buckets l') s \<noteq> None \<and> holds l' = holds l \<and>
    tl_index l' = tl_index l \<and> tl_interval l' = tl_interval l \<and> tl_total l' = tl_total l"
  proof (cases "map_of (tl_buckets l) s")
    case (Some b)
    then show ?thesis
      using get ok start by (simp add: get_or_create_bucket_def)
  next
    case None
    then have l': "r = Inr s" "l' = l\<lparr>tl_buckets := bt_insert s (bucket_new s (tl_interval l)) (tl_buckets l)\<rparr>"
      using get start by (simp_all add: get_or_create_bucket_def)
    have "holds l' = holds l"
      using None by (auto simp: holds_def l'(2) bucket_new_def fun_eq_iff split: if_splits)
    moreover have "s mod tl_interval l = 0" by (simp add: s_def)
    ultimately show ?thesis
      using ok None by (auto simp: ttl_ok_def ttl_shape_def l' bucket_new_def split: if_splits)
  qed
  then show "r = Inr s" "ttl_ok l'" "map_of (tl_buckets l') s \<noteq> None" "holds l' = holds l"
    "tl_index l' = tl_index l" "tl_interval l' = tl_interval l" "tl_total l' = tl_total l"
    by blast+
qed

lemma holds_add:
  assumes "map_of (tl_buckets l) s = Some b"
  shows "holds (with_bucket s (bucket_add_inode i r) l) s' j \<longleftrightarrow> holds l s' j \<or> s' = s \<and> j = i"
  using assms by (auto simp: holds_def with_bucket_def bucket_add_inode_def)

lemma holds_remove:
  assumes "map_of (tl_buckets l) s = Some b"
  shows "holds (with_bucket s (\<lambda>b. snd (bucket_remove_inode i b)) l) s' j \<longleftrightarrow>
    holds l s' j \<and> \<not> (s' = s \<and> j = i)"
  using assms by (auto simp: holds_def with_bucket_def bucket_remove_inode_def)

lemma with_bucket_frame [simp]:
  "tl_index (with_bucket s f l) = tl_index l" "tl_interval (with_bucket s f l) = tl_interval l"
  "tl_total (with_bucket s f l) = tl_total l"
  by (simp_all add: with_bucket_def split: option.splits)

lemma holds_index_update [simp]:
  "holds (l\<lparr>tl_index := x\<rparr>) = holds l" "holds (l\<lparr>tl_total := y\<rparr>) = holds l"
  by (simp_all add: holds_def fun_eq_iff)

lemma ttl_shape_update [simp]:
  "ttl_shape (l\<lparr>tl_index := x\<rparr>) = ttl_shape l" "ttl_shape (l\<lparr>tl_total := y\<rparr>) = ttl_shape l"
  by (simp_all add: ttl_shape_def)

lemma ttl_shape_with_bucket:
  assumes "ttl_shape l" "\<And>b. tb_interval_start_ms (f b) = tb_interval_start_ms b"
    "\<And>b. tb_interval_duration_ms (f b) = tb_interval_duration_ms b"
  shows "ttl_shape (with_bucket s f l)"
  using assms by (auto simp: ttl_shape_def with_bucket_def split: option.splits if_splits)

lemma ttl_add_spec:
  assumes ok: "ttl_ok l" and fresh: "map_of (tl_index l) i = None" and add: "ttl_add_inode i t l = (r, l')"
  defines "s \<equiv> (t div tl_interval l) * tl_interval l"
  shows "r = Inr ()" "ttl_ok l'" "holds l' s i" "tl_interval l' = tl_interval l"
    "tl_total l' = u64_of (tl_total l + 1)"
proof -
  obtain r1 l1 where g: "get_or_create_bucket t l = (r1, l1)" by fastforce
  note g1 = get_or_create_bucket_spec[OF ok g, folded s_def]
  obtain b where b: "map_of (tl_buckets l1) s = Some b" using g1(3) by blast
  have l': "r = Inr ()" "l' = (with_bucket s (bucket_add_inode i 0) l1)
      \<lparr>tl_index := bt_insert i s (tl_index l1), tl_total := u64_of (tl_total l1 + 1)\<rparr>"
    using add by (simp_all add: ttl_add_inode_def bind_op_def g g1(1) Let_def)
  have h: "holds l' s' j \<longleftrightarrow> holds l s' j \<or> s' = s \<and> j = i" for s' j
    using holds_add[OF b] g1(4) by (simp add: l'(2))
  have "ttl_shape l'"
    using g1(2) by (simp add: l'(2) ttl_shape_with_bucket bucket_add_inode_def ttl_ok_def)
  moreover have "holds l' s' j \<longleftrightarrow> map_of (tl_index l') j = Some s'" for s' j
    using ok fresh g1(5) h[of s' j] by (auto simp: ttl_ok_def l'(2))
  ultimately show "ttl_ok l'" by (simp add: ttl_ok_def)
  show "r = Inr ()" "holds l' s i" "tl_interval l' = tl_interval l" "tl_total l' = u64_of (tl_total l + 1)"
    using l' h g1(6,7) by simp_all
qed

lemma ttl_remove_spec:
  assumes ok: "ttl_ok l" and rem: "ttl_remove_inode i l = (r, l')"
  shows "ttl_ok l'" "\<And>s j. holds l' s j \<longleftrightarrow> holds l s j \<and> j \<noteq> i" "tl_interval l' = tl_interval l"
    "\<exists>v. r = Inr v \<and> (v = None \<longleftrightarrow> map_of (tl_index l) i = None)"
proof -
  have *: "ttl_ok l' \<and> (\<forall>s j. holds l' s j \<longleftrightarrow> holds l s j \<and> j \<noteq> i) \<and> tl_interval l' = tl_interval l \<and>
    (\<exists>v. r = Inr v \<and> (v = None \<longleftrightarrow> map_of (tl_index l) i = None))"
  proof (cases "map_of (tl_index l) i")
    case None
    then show ?thesis
      using rem ok by (auto simp: ttl_remove_inode_def ttl_ok_def)
  next
    case (Some s)
    then obtain b v where b: "map_of (tl_buckets l) s = Some b" "map_of (tb_inode_retries b) i = Some v"
    proof -
      have "holds l s i" using ok Some by (simp add: ttl_ok_def)
      with that show thesis by (auto simp: holds_def)
    qed
    let ?l = "with_bucket s (\<lambda>b. snd (bucket_remove_inode i b)) l"
    have l': "r = Inr (Some v)"
        "l' = ?l\<lparr>tl_index := bt_remove i (tl_index l), tl_total := u64_of (tl_total l - 1)\<rparr>"
      using rem by (simp_all add: ttl_remove_inode_def Some b bucket_remove_inode_def with_bucket_def Let_def)
    have h: "holds l' s' j \<longleftrightarrow> holds l s' j \<and> \<not> (s' = s \<and> j = i)" for s' j
      using holds_remove[OF b(1)] by (simp add: l'(2))
    have shape: "ttl_shape l'"
      using ok by (simp add: l'(2) ttl_shape_with_bucket bucket_remove_inode_def ttl_ok_def)
    have at: "holds l s' j \<longleftrightarrow> map_of (tl_index l) j = Some s'" for s' j
      using ok by (simp add: ttl_ok_def)
    have "holds l' s' j \<longleftrightarrow> holds l s' j \<and> j \<noteq> i" for s' j
      using h[of s' j] at[of s' j] Some by auto
    moreover have "holds l' s' j \<longleftrightarrow> map_of (tl_index l') j = Some s'" for s' j
      using h[of s' j] at[of s' j] Some by (auto simp: l'(2))
    ultimately show ?thesis
      using shape l'(1) Some by (simp add: ttl_ok_def l'(2))
  qed
  then show "ttl_ok l'" "\<And>s j. holds l' s j \<longleftrightarrow> holds l s j \<and> j \<noteq> i" "tl_interval l' = tl_interval l"
    "\<exists>v. r = Inr v \<and> (v = None \<longleftrightarrow> map_of (tl_index l) i = None)"
    by blast+
qed

lemma ttl_reschedule_spec:
  assumes ok: "ttl_ok l" and res: "ttl_reschedule_inode i c t l = (r, l')"
  defines "s \<equiv> (t div tl_interval l) * tl_interval l"
  shows "r = Inr ()" "\<And>s' j. holds l' s' j \<longleftrightarrow> (if j = i then s' = s else holds l s' j)"
    "ttl_shape l'" "map_of (tl_index l') = (map_of (tl_index l))(i \<mapsto> s)" "tl_total l' = tl_total l"
proof -
  define l1 where "l1 = (case map_of (tl_index l) i of None \<Rightarrow> l
     | Some cur \<Rightarrow> with_bucket cur (\<lambda>b. snd (bucket_remove_inode i b)) l)"
  have at: "holds l s' j \<longleftrightarrow> map_of (tl_index l) j = Some s'" for s' j
    using ok by (simp add: ttl_ok_def)
  have h1: "holds l1 s' j \<longleftrightarrow> holds l s' j \<and> j \<noteq> i" for s' j
  proof (cases "map_of (tl_index l) i")
    case None
    then show ?thesis using at[of s' j] by (auto simp: l1_def)
  next
    case (Some cur)
    then obtain b where "map_of (tl_buckets l) cur = Some b" using at[of cur i] by (auto simp: holds_def)
    then show ?thesis using holds_remove[of l cur b i s' j] at[of s' j] Some by (auto simp: l1_def)
  qed
  have fr: "tl_index l1 = tl_index l" "tl_interval l1 = tl_interval l" "tl_total l1 = tl_total l"
    by (simp_all add: l1_def split: option.splits)
  have sh: "ttl_shape l1"
    using ok by (auto simp: l1_def ttl_ok_def bucket_remove_inode_def intro!: ttl_shape_with_bucket
        split: option.splits)
  define l1' where "l1' = l1\<lparr>tl_index := bt_remove i (tl_index l1)\<rparr>"
  have ok1: "ttl_ok l1'"
    using sh h1 at by (auto simp: l1'_def ttl_ok_def fr)
  obtain r2 l2 where g: "get_or_create_bucket t l1' = (r2, l2)" by fastforce
  note g2 = get_or_create_bucket_spec[OF ok1 g]
  have g': "get_or_create_bucket t l1 = (r2, l2\<lparr>tl_index := tl_index l1\<rparr>)"
    using g by (auto simp: get_or_create_bucket_def get_bucket_interval_start_def l1'_def
        split: if_splits option.splits)
  have s: "(t div tl_interval l1') * tl_interval l1' = s" by (simp add: l1'_def fr s_def)
  obtain b where b: "map_of (tl_buckets (l2\<lparr>tl_index := tl_index l1\<rparr>)) s = Some b"
    using g2(3) s by auto
  have l': "r = Inr ()" "l' = (with_bucket s (bucket_add_inode i c) (l2\<lparr>tl_index := tl_index l1\<rparr>))
      \<lparr>tl_index := bt_insert i s (tl_index l1)\<rparr>"
    using res g2(1) s
    by (simp_all add: ttl_reschedule_inode_def flip: l1_def) (simp_all add: bind_op_def g' Let_def)
  show "r = Inr ()" by (rule l'(1))
  show "holds l' s' j \<longleftrightarrow> (if j = i then s' = s else holds l s' j)" for s' j
    using holds_add[OF b, of i c s' j] h1[of s' j] g2(4) by (auto simp: l'(2) l1'_def)
  show "ttl_shape l'"
    using g2(2) by (simp add: l'(2) ttl_shape_with_bucket bucket_add_inode_def ttl_ok_def)
  show "map_of (tl_index l') = (map_of (tl_index l))(i \<mapsto> s)" "tl_total l' = tl_total l"
    using g2(7) by (simp_all add: l'(2) fr l1'_def)
qed

lemma expired_buckets_iff:
  assumes ok: "ttl_ok l" and now: "tl_interval l \<le> now"
  shows "b \<in> set (get_expired_buckets_at l now) \<longleftrightarrow>
    map_of (tl_buckets l) (tb_interval_start_ms b) = Some b \<and> tb_interval_start_ms b + tl_interval l \<le> now"
proof -
  have srt: "keys_sorted (tl_buckets l)"
    and key: "\<And>s b. map_of (tl_buckets l) s = Some b \<Longrightarrow> tb_interval_start_ms b = s"
    using ok by (auto simp: ttl_ok_def ttl_shape_def)
  have "b \<in> set (get_expired_buckets_at l now) \<longleftrightarrow>
      (\<exists>s. (s, b) \<in> set (tl_buckets l) \<and> s + tl_interval l \<le> now)"
    using now by (force simp: get_expired_buckets_at_def)
  also have "\<dots> \<longleftrightarrow> (\<exists>s. map_of (tl_buckets l) s = Some b \<and> s + tl_interval l \<le> now)"
    by (simp add: map_of_sorted_iff[OF srt])
  finally show ?thesis using key by metis
qed

lemma expired_inode_iff:
  assumes ok: "ttl_ok l" and now: "tl_interval l \<le> now" and h: "holds l s i"
  shows "(\<exists>b\<in>set (get_expired_buckets_at l now). map_of (tb_inode_retries b) i \<noteq> None) \<longleftrightarrow>
    s + tl_interval l \<le> now"
proof
  assume "\<exists>b\<in>set (get_expired_buckets_at l now). map_of (tb_inode_retries b) i \<noteq> None"
  then obtain b where b: "map_of (tl_buckets l) (tb_interval_start_ms b) = Some b"
      "tb_interval_start_ms b + tl_interval l \<le> now" "map_of (tb_inode_retries b) i \<noteq> None"
    using expired_buckets_iff[OF ok now] by blast
  then have "holds l (tb_interval_start_ms b) i" by (auto simp: holds_def)
  then have "tb_interval_start_ms b = s" using ok h by (simp add: ttl_ok_def)
  then show "s + tl_interval l \<le> now" using b(2) by simp
next
  assume le: "s + tl_interval l \<le> now"
  obtain b r where b: "map_of (tl_buckets l) s = Some b" "map_of (tb_inode_retries b) i = Some r"
    using h by (auto simp: holds_def)
  then have "tb_interval_start_ms b = s" using ok by (simp add: ttl_ok_def ttl_shape_def)
  then show "\<exists>b\<in>set (get_expired_buckets_at l now). map_of (tb_inode_retries b) i \<noteq> None"
    using expired_buckets_iff[OF ok now, of b] b le by auto
qed

text \<open>C9. An inode registered with expiry time \<open>t\<close> is handed out by \<^verbatim>\<open>get_expired_buckets_at\<close> never
  before its expiry time and always once a full interval has passed after it: exactly from
  the end of the bucket interval that contains \<open>t\<close> on. (The clock must have passed the first
  interval since the epoch.)\<close>

theorem ttl_expiry_window:
  assumes "ttl_ok l" "map_of (tl_index l) i = None" "ttl_add_inode i t l = (r, l')"
    "tl_interval l \<le> now"
  shows "r = Inr () \<and>
    ((\<exists>b\<in>set (get_expired_buckets_at l' now). map_of (tb_inode_retries b) i \<noteq> None) \<longleftrightarrow>
       (t div tl_interval l) * tl_interval l + tl_interval l \<le> now) \<and>
    ((\<exists>b\<in>set (get_expired_buckets_at l' now). map_of (tb_inode_retries b) i \<noteq> None) \<longrightarrow> t < now) \<and>
    (t + tl_interval l \<le> now \<longrightarrow>
       (\<exists>b\<in>set (get_expired_buckets_at l' now). map_of (tb_inode_retries b) i \<noteq> None))"
proof -
  note add = ttl_add_spec[OF assms(1-3)]
  have iv: "0 < tl_interval l" using assms(1) by (simp add: ttl_ok_def ttl_shape_def)
  note b = interval_start_bounds[OF iv, of t]
  have "(\<exists>b\<in>set (get_expired_buckets_at l' now). map_of (tb_inode_retries b) i \<noteq> None) \<longleftrightarrow>
       (t div tl_interval l) * tl_interval l + tl_interval l \<le> now"
    using expired_inode_iff[OF add(2) _ add(3), of now] assms(4) add(4) by simp
  then show ?thesis using add(1) b by linarith
qed

theorem ttl_expiry_window_witness:
  "\<exists>l'. ttl_add_inode 7 250 (bucket_list_new 100) = (Inr (), l') \<and>
     (\<exists>b\<in>set (get_expired_buckets_at l' 300). map_of (tb_inode_retries b) 7 \<noteq> None)"
proof -
  obtain r l' where add: "ttl_add_inode 7 250 (bucket_list_new 100) = (r, l')" by fastforce
  have ok: "ttl_ok (bucket_list_new 100)" "map_of (tl_index (bucket_list_new 100)) 7 = None"
    by (rule ttl_ok_new) (simp_all add: bucket_list_new_def)
  show ?thesis
    using ttl_expiry_window[OF ok add, of 300] add by (simp add: bucket_list_new_def)
qed

text \<open>The index and the buckets stay in agreement: registering an inode that is not
  registered, removing one, and rescheduling one each keep the invariant that an inode is
  held by exactly the bucket the index names; after a removal no bucket holds it, after a
  rescheduling only the bucket of the new time does.\<close>

theorem ttl_index_agrees:
  assumes "ttl_ok l"
  shows "(map_of (tl_index l) i = None \<longrightarrow> ttl_ok (snd (ttl_add_inode i t l))) \<and>
    ttl_ok (snd (ttl_remove_inode i l)) \<and> \<not> holds (snd (ttl_remove_inode i l)) s i \<and>
    ttl_ok (snd (ttl_reschedule_inode i c t l)) \<and>
    (holds (snd (ttl_reschedule_inode i c t l)) s i \<longleftrightarrow> s = (t div tl_interval l) * tl_interval l)"
proof -
  obtain r1 l1 r2 l2 r3 l3 where r: "ttl_add_inode i t l = (r1, l1)" "ttl_remove_inode i l = (r2, l2)"
      "ttl_reschedule_inode i c t l = (r3, l3)"
    by (meson surj_pair)
  note re = ttl_reschedule_spec[OF assms r(3)]
  have "map_of (tl_index l3) j = Some s' \<longleftrightarrow> holds l3 s' j" for s' j
    using re(2)[of s' j] re(4) assms by (auto simp: ttl_ok_def)
  then have "ttl_ok l3" using re(3) by (simp add: ttl_ok_def)
  then show ?thesis
    using ttl_add_spec(2)[OF assms _ r(1)] ttl_remove_spec(1,2)[OF assms r(2)] re(2)[of s i]
    by (simp add: r)
qed

theorem ttl_index_agrees_witness:
  "ttl_ok (snd (ttl_reschedule_inode 7 1 950 (snd (ttl_add_inode 7 250 (bucket_list_new 100)))))"
proof -
  let ?l = "snd (ttl_add_inode 7 250 (bucket_list_new 100))"
  have "ttl_ok (bucket_list_new 100)" "map_of (tl_index (bucket_list_new 100)) 7 = None"
    by (rule ttl_ok_new) (simp_all add: bucket_list_new_def)
  then have "ttl_ok ?l" using ttl_index_agrees[of "bucket_list_new 100" 7 250] by simp
  then show ?thesis using ttl_index_agrees[of ?l 7 950] by blast
qed

end
