(* ===== verification/Rocks_Db.thy ===== *)
theory Rocks_Db
  imports Rocks_Keys State_Types "HOL-Library.AList"
begin

text \<open>
  \<^verbatim>\<open>DBEngine\<close> (\<^verbatim>\<open>curvine-common/src/rocksdb/db_engine.rs\<close>) over the RocksDB library, which is not
  part of the sources: the library calls are the fields of the record \<open>rocks\<close>, a parameter of
  every definition, and \<open>rocks_ok\<close> states their documented behaviour (a database is a map from
  column family and key to value; a write batch is atomic; an iterator yields the keys of
  its range in order). Stored values have the abstract type \<open>'b\<close>; \<open>raw\<close> and \<open>unraw\<close> stand for
  storing plain bytes. Any call may fail.
\<close>

datatype 'b batch_op = PutOp string bytes 'b | DeleteOp string bytes

record ('db, 'b) rocks =
  rk_view :: "'db \<Rightarrow> string \<Rightarrow> bytes \<Rightarrow> 'b option"
  rk_cf_handle :: "'db \<Rightarrow> string \<Rightarrow> bool"
  rk_put :: "'db \<Rightarrow> string \<Rightarrow> bytes \<Rightarrow> 'b \<Rightarrow> unit res \<times> 'db"
  rk_get :: "'db \<Rightarrow> string \<Rightarrow> bytes \<Rightarrow> 'b option res"
  rk_delete :: "'db \<Rightarrow> string \<Rightarrow> bytes \<Rightarrow> unit res \<times> 'db"
  rk_delete_range :: "'db \<Rightarrow> string \<Rightarrow> bytes \<Rightarrow> bytes \<Rightarrow> unit res \<times> 'db"
  rk_write :: "'db \<Rightarrow> 'b batch_op list \<Rightarrow> unit res \<times> 'db"
  rk_iter :: "'db \<Rightarrow> string \<Rightarrow> (bytes \<times> bytes) option \<Rightarrow> (bytes \<times> 'b) res list"
  rk_raw :: "bytes \<Rightarrow> 'b"
  rk_unraw :: "'b \<Rightarrow> bytes"

type_synonym 'b db_view = "string \<Rightarrow> bytes \<Rightarrow> 'b option"

fun apply_batch_op :: "'b batch_op \<Rightarrow> 'b db_view \<Rightarrow> 'b db_view" where
  "apply_batch_op (PutOp cf k b) w = w(cf := (w cf)(k := Some b))"
| "apply_batch_op (DeleteOp cf k) w = w(cf := (w cf)(k := None))"

definition apply_batch :: "'b batch_op list \<Rightarrow> 'b db_view \<Rightarrow> 'b db_view" where
  "apply_batch ops w = foldl (\<lambda>w p. apply_batch_op p w) w ops"

text \<open>What the code relies on: a call that reports success has its effect, one that fails has
  none.\<close>

definition updates :: "('db, 'b) rocks \<Rightarrow> 'db \<Rightarrow> unit res \<times> 'db \<Rightarrow> ('b db_view \<Rightarrow> 'b db_view) \<Rightarrow> bool" where
  "updates K db out f \<longleftrightarrow>
     rk_view K (snd out) = (if fst out = Inr () then f (rk_view K db) else rk_view K db)"

definition in_range :: "(bytes \<times> bytes) option \<Rightarrow> bytes \<Rightarrow> bool" where
  "in_range rng k = (case rng of None \<Rightarrow> True | Some (lo, hi) \<Rightarrow> lo \<le> k \<and> k < hi)"

definition rocks_ok :: "('db, 'b) rocks \<Rightarrow> bool" where
  "rocks_ok K \<longleftrightarrow>
     (\<forall>db cf k v. rk_get K db cf k = Inr v \<longrightarrow> v = rk_view K db cf k) \<and>
     (\<forall>db cf k b. updates K db (rk_put K db cf k b) (apply_batch [PutOp cf k b])) \<and>
     (\<forall>db cf k. updates K db (rk_delete K db cf k) (apply_batch [DeleteOp cf k])) \<and>
     (\<forall>db cf lo hi. updates K db (rk_delete_range K db cf lo hi)
        (\<lambda>w. w(cf := (\<lambda>k. if lo \<le> k \<and> k < hi then None else w cf k)))) \<and>
     (\<forall>db ops. updates K db (rk_write K db ops) (apply_batch ops)) \<and>
     (\<forall>db cf rng kvs. rk_iter K db cf rng = map Inr kvs \<longrightarrow> keys_sorted kvs \<and>
        map_of kvs = (\<lambda>k. if in_range rng k then rk_view K db cf k else None)) \<and>
     (\<forall>bs. rk_unraw K (rk_raw K bs) = bs)"

subsection \<open>DBEngine\<close>

definition db_cf :: "('db, 'b) rocks \<Rightarrow> 'db \<Rightarrow> string \<Rightarrow> unit res" where
  "db_cf K db name = (if rk_cf_handle K db name then Inr () else Inl (Common ''cf not exits''))"

definition db_put_cf :: "('db, 'b) rocks \<Rightarrow> string \<Rightarrow> bytes \<Rightarrow> 'b \<Rightarrow> ('db, unit) op" where
  "db_put_cf K cf key b = bind_op (\<lambda>db. (db_cf K db cf, db)) (\<lambda>_ db. rk_put K db cf key b)"

definition db_get_cf :: "('db, 'b) rocks \<Rightarrow> 'db \<Rightarrow> string \<Rightarrow> bytes \<Rightarrow> 'b option res" where
  "db_get_cf K db cf key = bind_res (db_cf K db cf) (\<lambda>_. rk_get K db cf key)"

definition db_delete_cf :: "('db, 'b) rocks \<Rightarrow> string \<Rightarrow> bytes \<Rightarrow> ('db, unit) op" where
  "db_delete_cf K cf key = bind_op (\<lambda>db. (db_cf K db cf, db)) (\<lambda>_ db. rk_delete K db cf key)"

definition db_scan :: "('db, 'b) rocks \<Rightarrow> 'db \<Rightarrow> string \<Rightarrow> (bytes \<times> 'b) res list res" where
  "db_scan K db cf = bind_res (db_cf K db cf) (\<lambda>_. Inr (rk_iter K db cf None))"

definition db_range_scan ::
  "('db, 'b) rocks \<Rightarrow> 'db \<Rightarrow> string \<Rightarrow> bytes \<Rightarrow> bytes \<Rightarrow> (bytes \<times> 'b) res list res" where
  "db_range_scan K db cf start end_key =
     bind_res (db_cf K db cf) (\<lambda>_. Inr (rk_iter K db cf (Some (start, end_key))))"

definition db_prefix_scan :: "('db, 'b) rocks \<Rightarrow> 'db \<Rightarrow> string \<Rightarrow> bytes \<Rightarrow> (bytes \<times> 'b) res list res" where
  "db_prefix_scan K db cf key =
     bind_res (db_cf K db cf) (\<lambda>_. Inr (rk_iter K db cf (Some (key, calculate_end_bytes key))))"

definition db_write_batch :: "('db, 'b) rocks \<Rightarrow> 'b batch_op list \<Rightarrow> ('db, unit) op" where
  "db_write_batch K batch db = rk_write K db batch"

definition db_prefix_delete :: "('db, 'b) rocks \<Rightarrow> string \<Rightarrow> bytes \<Rightarrow> ('db, unit) op" where
  "db_prefix_delete K cf pre =
     bind_op (\<lambda>db. (db_cf K db cf, db)) (\<lambda>_ db. rk_delete_range K db cf pre (calculate_end_bytes pre))"

text \<open>Consuming an iterator with \<^verbatim>\<open>?\<close>: the first failing item ends the loop.\<close>

fun collect_items :: "'a res list \<Rightarrow> 'a list res" where
  "collect_items [] = Inr []"
| "collect_items (r # rs) = bind_res r (\<lambda>x. bind_res (collect_items rs) (\<lambda>xs. Inr (x # xs)))"

fun collect_map :: "('a \<Rightarrow> 'c res) \<Rightarrow> 'a res list \<Rightarrow> 'c list res" where
  "collect_map f [] = Inr []"
| "collect_map f (r # rs) =
     bind_res r (\<lambda>x. bind_res (f x) (\<lambda>y. bind_res (collect_map f rs) (\<lambda>ys. Inr (y # ys))))"

lemma collect_map_Inr:
  "collect_map f rs = Inr ys \<longleftrightarrow> (\<exists>xs. rs = map Inr xs \<and> list_all2 (\<lambda>x y. f x = Inr y) xs ys)"
proof (induction rs arbitrary: ys)
  case (Cons r rs)
  show ?case
  proof
    assume "collect_map f (r # rs) = Inr ys"
    then obtain x y ys1 where "r = Inr x" "f x = Inr y" "collect_map f rs = Inr ys1" "ys = y # ys1"
      by auto
    moreover from this Cons.IH[of ys1] obtain xs where
        "rs = map Inr xs" "list_all2 (\<lambda>x y. f x = Inr y) xs ys1" by blast
    ultimately show "\<exists>xs. r # rs = map Inr xs \<and> list_all2 (\<lambda>x y. f x = Inr y) xs ys"
      by (intro exI[of _ "x # xs"]) simp
  next
    assume "\<exists>xs. r # rs = map Inr xs \<and> list_all2 (\<lambda>x y. f x = Inr y) xs ys"
    then show "collect_map f (r # rs) = Inr ys"
      using Cons.IH by (auto simp: Cons_eq_map_conv list_all2_Cons1)
  qed
qed auto

lemma collect_items_Inr: "collect_items rs = Inr xs \<longleftrightarrow> rs = map Inr xs"
  by (induction rs arbitrary: xs) (auto simp: Cons_eq_map_conv)

lemma collect_items_map [simp]: "collect_items (map Inr xs) = Inr xs"
  by (simp add: collect_items_Inr)

lemmas rocks_ok_simps = rocks_ok_def updates_def

lemma rocks_get: "rocks_ok K \<Longrightarrow> db_get_cf K db cf k = Inr v \<Longrightarrow> v = rk_view K db cf k"
  by (simp add: rocks_ok_def db_get_cf_def)

lemma rocks_put:
  "rocks_ok K \<Longrightarrow> db_put_cf K cf k b db = (Inr (), db') \<Longrightarrow>
   rk_view K db' = apply_batch [PutOp cf k b] (rk_view K db)"
  unfolding rocks_ok_simps db_put_cf_def bind_op_Inr_iff by (metis fst_conv snd_conv)

lemma rocks_delete:
  "rocks_ok K \<Longrightarrow> db_delete_cf K cf k db = (Inr (), db') \<Longrightarrow>
   rk_view K db' = apply_batch [DeleteOp cf k] (rk_view K db)"
  unfolding rocks_ok_simps db_delete_cf_def bind_op_Inr_iff by (metis fst_conv snd_conv)

lemma rocks_write:
  "rocks_ok K \<Longrightarrow> db_write_batch K ops db = (Inr (), db') \<Longrightarrow> rk_view K db' = apply_batch ops (rk_view K db)"
  "rocks_ok K \<Longrightarrow> db_write_batch K ops db = (Inl e, db') \<Longrightarrow> rk_view K db' = rk_view K db"
  unfolding rocks_ok_simps db_write_batch_def by (metis fst_conv snd_conv, metis Inl_Inr_False fst_conv snd_conv)

lemma rocks_unraw: "rocks_ok K \<Longrightarrow> rk_unraw K (rk_raw K bs) = bs"
  by (simp add: rocks_ok_def)

lemma rocks_scan:
  assumes "rocks_ok K" "db_scan K db cf = Inr items" "collect_items items = Inr kvs"
  shows "keys_sorted kvs" "map_of kvs = rk_view K db cf"
proof -
  have "rk_iter K db cf None = map Inr kvs"
    using assms(2,3) by (simp add: db_scan_def collect_items_Inr)
  with assms(1) show "keys_sorted kvs" "map_of kvs = rk_view K db cf"
    unfolding rocks_ok_def by (auto simp: in_range_def)
qed

lemma rocks_iter:
  "rocks_ok K \<Longrightarrow> rk_iter K db cf rng = map Inr kvs \<Longrightarrow> keys_sorted kvs"
  "rocks_ok K \<Longrightarrow> rk_iter K db cf rng = map Inr kvs \<Longrightarrow>
   map_of kvs = (\<lambda>k. if in_range rng k then rk_view K db cf k else None)"
  by (simp_all add: rocks_ok_def)

lemma rocks_delete_range:
  "rocks_ok K \<Longrightarrow> rk_delete_range K db cf lo hi = (Inr (), db') \<Longrightarrow>
   rk_view K db' = (rk_view K db)(cf := (\<lambda>k. if lo \<le> k \<and> k < hi then None else rk_view K db cf k))"
  unfolding rocks_ok_simps by (elim conjE) (metis (no_types, lifting) fst_conv snd_conv)

text \<open>A prefix scan yields the keys with the prefix, in order.\<close>

lemma rocks_prefix_scan:
  assumes "rocks_ok K" "db_prefix_scan K db cf key = Inr items" "collect_items items = Inr kvs"
    and "\<exists>b\<in>set key. b \<noteq> 0xff"
  shows "keys_sorted kvs" "map_of kvs = (\<lambda>k. if prefix key k then rk_view K db cf k else None)"
proof -
  let ?rng = "Some (key, calculate_end_bytes key)"
  have it: "rk_iter K db cf ?rng = map Inr kvs"
    using assms(2,3) by (simp add: db_prefix_scan_def collect_items_Inr)
  have "in_range ?rng k \<longleftrightarrow> prefix key k" for k
    using prefix_scan_range[OF assms(4)] by (simp add: in_range_def)
  then show "keys_sorted kvs" "map_of kvs = (\<lambda>k. if prefix key k then rk_view K db cf k else None)"
    using rocks_iter[OF assms(1) it] by simp_all
qed

lemma rocks_prefix_delete:
  assumes "rocks_ok K" "db_prefix_delete K cf pre db = (Inr (), db')" "\<exists>b\<in>set pre. b \<noteq> 0xff"
  shows "rk_view K db' = (rk_view K db)(cf := (\<lambda>k. if prefix pre k then None else rk_view K db cf k))"
proof -
  have "rk_delete_range K db cf pre (calculate_end_bytes pre) = (Inr (), db')"
    using assms(2) by (auto simp: db_prefix_delete_def bind_op_Inr_iff)
  from rocks_delete_range[OF assms(1) this] show ?thesis
    using prefix_scan_range[OF assms(3)] by simp
qed

subsection \<open>An instance\<close>

text \<open>A database held in memory, which never fails: it shows that \<open>rocks_ok\<close> can be met, and the
  examples of the later theories run on it.\<close>

type_synonym 'b mem_db = "((string \<times> bytes) \<times> 'b) list"

definition mem_view :: "'b mem_db \<Rightarrow> 'b db_view" where
  "mem_view db cf k = map_of db (cf, k)"

fun mem_apply :: "'b batch_op \<Rightarrow> 'b mem_db \<Rightarrow> 'b mem_db" where
  "mem_apply (PutOp cf k b) db = AList.update (cf, k) b db"
| "mem_apply (DeleteOp cf k) db = AList.delete (cf, k) db"

definition mem_items :: "'b mem_db \<Rightarrow> string \<Rightarrow> (bytes \<times> bytes) option \<Rightarrow> (bytes \<times> 'b) list" where
  "mem_items db cf rng =
     foldr (\<lambda>((c, k), b) kvs. if c = cf \<and> in_range rng k then bt_insert k b kvs else kvs) db []"

definition mem_delete_range :: "'b mem_db \<Rightarrow> string \<Rightarrow> bytes \<Rightarrow> bytes \<Rightarrow> 'b mem_db" where
  "mem_delete_range db cf lo hi = filter (\<lambda>((c, k), b). \<not> (c = cf \<and> lo \<le> k \<and> k < hi)) db"

definition mem_rocks :: "(bytes \<Rightarrow> 'b) \<Rightarrow> ('b \<Rightarrow> bytes) \<Rightarrow> ('b mem_db, 'b) rocks" where
  "mem_rocks raw unraw =
     \<lparr>rk_view = mem_view,
      rk_cf_handle = (\<lambda>db cf. True),
      rk_put = (\<lambda>db cf k b. (Inr (), mem_apply (PutOp cf k b) db)),
      rk_get = (\<lambda>db cf k. Inr (mem_view db cf k)),
      rk_delete = (\<lambda>db cf k. (Inr (), mem_apply (DeleteOp cf k) db)),
      rk_delete_range = (\<lambda>db cf lo hi. (Inr (), mem_delete_range db cf lo hi)),
      rk_write = (\<lambda>db ops. (Inr (), foldl (\<lambda>db p. mem_apply p db) db ops)),
      rk_iter = (\<lambda>db cf rng. map Inr (mem_items db cf rng)),
      rk_raw = raw, rk_unraw = unraw\<rparr>"

lemma mem_view_apply [simp]: "mem_view (mem_apply p db) = apply_batch_op p (mem_view db)"
  by (cases p) (auto simp: mem_view_def fun_eq_iff update_conv' delete_conv')

lemma mem_view_batch: "mem_view (foldl (\<lambda>db p. mem_apply p db) db ops) = apply_batch ops (mem_view db)"
  unfolding apply_batch_def by (induction ops arbitrary: db) simp_all

lemma mem_view_filter:
  "mem_view (mem_delete_range db cf lo hi) =
   (mem_view db)(cf := (\<lambda>k. if lo \<le> k \<and> k < hi then None else mem_view db cf k))"
  unfolding mem_delete_range_def by (induction db) (auto simp: mem_view_def fun_eq_iff)

lemma mem_items_spec:
  "keys_sorted (mem_items db cf rng)"
  "map_of (mem_items db cf rng) k = (if in_range rng k then mem_view db cf k else None)"
  unfolding mem_items_def by (induction db) (auto simp: mem_view_def)

lemma map_Inr_inject: "map Inr xs = map Inr ys \<longleftrightarrow> xs = ys"
  by (simp add: inj_map_eq_map)

lemma mem_rocks_ok: "(\<And>bs. unraw (raw bs) = bs) \<Longrightarrow> rocks_ok (mem_rocks raw unraw)"
  unfolding rocks_ok_simps mem_rocks_def
  by (simp add: mem_view_batch mem_view_filter mem_items_spec map_Inr_inject fun_eq_iff[of "map_of _"]
      apply_batch_def cong: if_cong del: mem_apply.simps)

end
