(* ===== verification/Inode_Store.thy ===== *)
theory Inode_Store
  imports Inode_Tree Ttl_Buckets Rocks_Db
begin

text \<open>
  The persistent side of the metadata: \<^verbatim>\<open>RocksInodeStore\<close> and \<^verbatim>\<open>InodeWriteBatch\<close>
  (\<^verbatim>\<open>master/meta/store/rocks_inode_store.rs\<close>), which keep inodes, directory edges, block
  locations and mount points in column families, and \<^verbatim>\<open>InodeStore\<close> (\<^verbatim>\<open>inode_store.rs\<close>), which
  writes one batch per file-system operation and keeps the counters and the time-to-live
  registrations. The serialization of the values is the parameter \<open>meta_env\<close> beside RocksDB.
  The abstraction \<open>metas\<close> reads a database as five finite maps; a lemma per operation says how
  it changes them.
\<close>

subsection \<open>Parameters\<close>

record ('db, 'b) meta_env =
  me_rocks :: "('db, 'b) rocks"
  me_ser_inode :: "inode_view \<Rightarrow> 'b res"
  me_de_inode :: "'b \<Rightarrow> inode_view res"
  me_ser_loc :: "block_location \<Rightarrow> 'b res"
  me_de_loc :: "'b \<Rightarrow> block_location res"
  me_ser_i64 :: "i64 \<Rightarrow> 'b res"
  me_de_i64 :: "'b \<Rightarrow> i64 res"
  me_ser_mount :: "mount_info \<Rightarrow> 'b res"
  me_de_mount :: "'b \<Rightarrow> mount_info res"

text \<open>The children of a directory are skipped by the serialization; a deserialized directory has
  the default children, an empty map.\<close>

fun strip :: "inode_view \<Rightarrow> inode_view" where
  "strip (File n f) = File n f"
| "strip (Dir n d ch) = Dir n d new_map"
| "strip (FileEntry n i) = FileEntry n i"

definition env_ok :: "('db, 'b) meta_env \<Rightarrow> bool" where
  "env_ok E \<longleftrightarrow> rocks_ok (me_rocks E) \<and>
     (\<forall>v b. me_ser_inode E v = Inr b \<longrightarrow> me_de_inode E b = Inr (strip v)) \<and>
     (\<forall>v b. me_ser_loc E v = Inr b \<longrightarrow> me_de_loc E b = Inr v) \<and>
     (\<forall>v b. me_ser_i64 E v = Inr b \<longrightarrow> me_de_i64 E b = Inr v) \<and>
     (\<forall>v b. me_ser_mount E v = Inr b \<longrightarrow> me_de_mount E b = Inr v)"

subsection \<open>Write batches\<close>

definition CF_INODES :: string where "CF_INODES = ''inodes''"
definition CF_EDGES :: string where "CF_EDGES = ''edges''"
definition CF_BLOCK :: string where "CF_BLOCK = ''block''"
definition CF_LOCATION :: string where "CF_LOCATION = ''location''"
definition CF_MOUNTPOINT :: string where "CF_MOUNTPOINT = ''mountpoints''"

lemmas CF_defs = CF_INODES_def CF_EDGES_def CF_BLOCK_def CF_LOCATION_def CF_MOUNTPOINT_def

type_synonym 'b batch = "'b batch_op list"

definition batch_put_cf ::
  "('db, 'b) meta_env \<Rightarrow> 'db \<Rightarrow> string \<Rightarrow> bytes \<Rightarrow> 'b \<Rightarrow> 'b batch \<Rightarrow> 'b batch res" where
  "batch_put_cf E db cf key b batch =
     bind_res (db_cf (me_rocks E) db cf) (\<lambda>_. Inr (batch @ [PutOp cf key b]))"

definition batch_delete_cf ::
  "('db, 'b) meta_env \<Rightarrow> 'db \<Rightarrow> string \<Rightarrow> bytes \<Rightarrow> 'b batch \<Rightarrow> 'b batch res" where
  "batch_delete_cf E db cf key batch =
     bind_res (db_cf (me_rocks E) db cf) (\<lambda>_. Inr (batch @ [DeleteOp cf key]))"

definition batch_add_location ::
  "('db, 'b) meta_env \<Rightarrow> 'db \<Rightarrow> i64 \<Rightarrow> block_location \<Rightarrow> 'b batch \<Rightarrow> 'b batch res" where
  "batch_add_location E db i loc batch =
     bind_res (me_ser_loc E loc) (\<lambda>b1.
     bind_res (batch_put_cf E db CF_BLOCK (i64_u32_to_bytes i (bl_worker_id loc)) b1 batch) (\<lambda>batch.
     bind_res (me_ser_i64 E i) (\<lambda>b2.
     batch_put_cf E db CF_LOCATION (u32_i64_to_bytes (bl_worker_id loc) i) b2 batch)))"

definition batch_write_inode ::
  "('db, 'b) meta_env \<Rightarrow> 'db \<Rightarrow> inode_view \<Rightarrow> 'b batch \<Rightarrow> 'b batch res" where
  "batch_write_inode E db inode batch =
     bind_res (me_ser_inode E inode) (\<lambda>b.
     batch_put_cf E db CF_INODES (i64_to_bytes (iid inode)) b batch)"

definition batch_add_child ::
  "('db, 'b) meta_env \<Rightarrow> 'db \<Rightarrow> i64 \<Rightarrow> string \<Rightarrow> i64 \<Rightarrow> 'b batch \<Rightarrow> 'b batch res" where
  "batch_add_child E db parent_id child_name child_id batch =
     batch_put_cf E db CF_EDGES (i64_str_to_bytes parent_id child_name)
       (rk_raw (me_rocks E) (i64_to_bytes child_id)) batch"

definition batch_delete_inode ::
  "('db, 'b) meta_env \<Rightarrow> 'db \<Rightarrow> i64 \<Rightarrow> 'b batch \<Rightarrow> 'b batch res" where
  "batch_delete_inode E db i batch = batch_delete_cf E db CF_INODES (i64_to_bytes i) batch"

definition batch_delete_child ::
  "('db, 'b) meta_env \<Rightarrow> 'db \<Rightarrow> i64 \<Rightarrow> string \<Rightarrow> 'b batch \<Rightarrow> 'b batch res" where
  "batch_delete_child E db parent_id child_name batch =
     batch_delete_cf E db CF_EDGES (i64_str_to_bytes parent_id child_name) batch"

definition batch_delete_location ::
  "('db, 'b) meta_env \<Rightarrow> 'db \<Rightarrow> i64 \<Rightarrow> u32 \<Rightarrow> 'b batch \<Rightarrow> 'b batch res" where
  "batch_delete_location E db i worker_id batch =
     bind_res (batch_delete_cf E db CF_BLOCK (i64_u32_to_bytes i worker_id) batch) (\<lambda>batch.
     batch_delete_cf E db CF_LOCATION (u32_i64_to_bytes worker_id i) batch)"

definition batch_commit :: "('db, 'b) meta_env \<Rightarrow> 'b batch \<Rightarrow> ('db, unit) op" where
  "batch_commit E batch = db_write_batch (me_rocks E) batch"

subsection \<open>RocksInodeStore\<close>

definition rocks_get_inode :: "('db, 'b) meta_env \<Rightarrow> 'db \<Rightarrow> i64 \<Rightarrow> inode_view option res" where
  "rocks_get_inode E db i =
     bind_res (db_get_cf (me_rocks E) db CF_INODES (i64_to_bytes i)) (\<lambda>v.
       case v of None \<Rightarrow> Inr None | Some b \<Rightarrow> bind_res (me_de_inode E b) (\<lambda>inode. Inr (Some inode)))"

definition edges_iter :: "('db, 'b) meta_env \<Rightarrow> 'db \<Rightarrow> i64 \<Rightarrow> (bytes \<times> 'b) res list res" where
  "edges_iter E db i = db_prefix_scan (me_rocks E) db CF_EDGES (i64_to_bytes i)"

definition get_child_ids ::
  "('db, 'b) meta_env \<Rightarrow> 'db \<Rightarrow> i64 \<Rightarrow> string option \<Rightarrow> i64 res list res" where
  "get_child_ids E db i pre =
     bind_res
       (case pre of
          None \<Rightarrow> db_prefix_scan (me_rocks E) db CF_EDGES (i64_to_bytes i)
        | Some v \<Rightarrow> db_prefix_scan (me_rocks E) db CF_EDGES (i64_str_to_bytes i v))
       (\<lambda>items. Inr (map (\<lambda>item. bind_res item (\<lambda>kv.
          case i64_from_bytes (rk_unraw (me_rocks E) (snd kv)) of
            Inr c \<Rightarrow> Inr c
          | Inl _ \<Rightarrow> Inl (Panic ''called unwrap on an Err value''))) items))"

definition get_locations :: "('db, 'b) meta_env \<Rightarrow> 'db \<Rightarrow> i64 \<Rightarrow> block_location list res" where
  "get_locations E db block_id =
     bind_res (db_prefix_scan (me_rocks E) db CF_BLOCK (i64_to_bytes block_id)) (\<lambda>items.
       collect_map (\<lambda>kv. me_de_loc E (snd kv)) items)"

definition get_block_ids :: "('db, 'b) meta_env \<Rightarrow> 'db \<Rightarrow> u32 \<Rightarrow> i64 list res" where
  "get_block_ids E db worker_id =
     bind_res (db_prefix_scan (me_rocks E) db CF_LOCATION (u32_to_bytes worker_id)) (\<lambda>items.
       collect_map (\<lambda>kv. me_de_i64 E (snd kv)) items)"

fun delete_block_keys :: "('db, 'b) meta_env \<Rightarrow> u32 \<Rightarrow> i64 list \<Rightarrow> ('db, unit) op" where
  "delete_block_keys E worker_id [] db = (Inr (), db)"
| "delete_block_keys E worker_id (i # is) db =
     bind_op (db_delete_cf (me_rocks E) CF_BLOCK (i64_u32_to_bytes i worker_id))
       (\<lambda>_. delete_block_keys E worker_id is) db"

definition rocks_delete_locations :: "('db, 'b) meta_env \<Rightarrow> u32 \<Rightarrow> ('db, i64 list) op" where
  "rocks_delete_locations E worker_id =
     bind_op (\<lambda>db. (get_block_ids E db worker_id, db)) (\<lambda>block_ids.
     bind_op (db_prefix_delete (me_rocks E) CF_LOCATION (u32_to_bytes worker_id)) (\<lambda>_.
     bind_op (delete_block_keys E worker_id block_ids) (\<lambda>_ db. (Inr block_ids, db))))"

definition add_mountpoint :: "('db, 'b) meta_env \<Rightarrow> u32 \<Rightarrow> mount_info \<Rightarrow> ('db, unit) op" where
  "add_mountpoint E i entry db =
     (case me_ser_mount E entry of
        Inl _ \<Rightarrow> (Inl (Panic ''called unwrap on an Err value''), db)
      | Inr b \<Rightarrow> db_put_cf (me_rocks E) CF_MOUNTPOINT (u32_to_bytes i) b db)"

definition remove_mountpoint :: "('db, 'b) meta_env \<Rightarrow> u32 \<Rightarrow> ('db, unit) op" where
  "remove_mountpoint E i = db_delete_cf (me_rocks E) CF_MOUNTPOINT (u32_to_bytes i)"

definition get_mount_info :: "('db, 'b) meta_env \<Rightarrow> 'db \<Rightarrow> u32 \<Rightarrow> mount_info option res" where
  "get_mount_info E db i =
     bind_res (db_get_cf (me_rocks E) db CF_MOUNTPOINT (u32_to_bytes i)) (\<lambda>v.
       case v of None \<Rightarrow> Inr None | Some b \<Rightarrow> bind_res (me_de_mount E b) (\<lambda>info. Inr (Some info)))"

definition rocks_get_mount_table :: "('db, 'b) meta_env \<Rightarrow> 'db \<Rightarrow> mount_info list res" where
  "rocks_get_mount_table E db =
     bind_res (db_scan (me_rocks E) db CF_MOUNTPOINT) (\<lambda>items.
       collect_map (\<lambda>kv. me_de_mount E (snd kv)) items)"

subsection \<open>InodeStore\<close>

record 'db inode_store =
  st_db :: 'db
  st_file_num :: i64
  st_dir_num :: i64
  st_ttl :: ttl_bucket_list

record delete_result =
  dr_inodes :: int
  dr_blocks :: "(i64 \<times> block_location list) list"

definition delete_result_new :: delete_result where
  "delete_result_new = \<lparr>dr_inodes = 0, dr_blocks = []\<rparr>"

definition add_file_count :: "i64 \<Rightarrow> 'db inode_store \<Rightarrow> 'db inode_store" where
  "add_file_count n st = st\<lparr>st_file_num := st_file_num st + n\<rparr>"

definition add_dir_count :: "i64 \<Rightarrow> 'db inode_store \<Rightarrow> 'db inode_store" where
  "add_dir_count n st = st\<lparr>st_dir_num := st_dir_num st + n\<rparr>"

text \<open>\<^verbatim>\<open>set_counts\<close> writes the file gauge twice: the directory gauge is never set.\<close>

definition set_counts :: "i64 \<Rightarrow> i64 \<Rightarrow> 'db inode_store \<Rightarrow> 'db inode_store" where
  "set_counts file_count dir_count st =
     (let st = st\<lparr>st_file_num := file_count\<rparr> in st\<lparr>st_file_num := dir_count\<rparr>)"

definition on_db :: "('db, 'a) op \<Rightarrow> ('db inode_store, 'a) op" where
  "on_db m st = (let (r, db) = m (st_db st) in (r, st\<lparr>st_db := db\<rparr>))"

definition on_ttl :: "(ttl_bucket_list, 'a) op \<Rightarrow> ('db inode_store, 'a) op" where
  "on_ttl m st = (let (r, l) = m (st_ttl st) in (r, st\<lparr>st_ttl := l\<rparr>))"

text \<open>\<^verbatim>\<open>if let Err(e) = ... { warn!(..) }\<close>: an error is logged and dropped, a panic is not.\<close>

definition ignore_err :: "('s, 'a) op \<Rightarrow> ('s, unit) op" where
  "ignore_err m s =
     (case m s of
        (Inl (Panic x), s') \<Rightarrow> (Inl (Panic x), s')
      | (_, s') \<Rightarrow> (Inr (), s'))"

text \<open>A batch is filled and committed; nothing is written when filling it fails.\<close>

definition run_batch ::
  "('db, 'b) meta_env \<Rightarrow> ('db \<Rightarrow> 'b batch \<Rightarrow> 'b batch res) \<Rightarrow> ('db inode_store, unit) op" where
  "run_batch E fill st =
     (case fill (st_db st) [] of
        Inl e \<Rightarrow> (Inl e, st)
      | Inr batch \<Rightarrow> on_db (batch_commit E batch) st)"

fun inode_ttl_config :: "int \<Rightarrow> inode_view \<Rightarrow> ttl_config option" where
  "inode_ttl_config now (File _ f) = ttl_from_storage_policy now (f_storage_policy f)"
| "inode_ttl_config now (Dir _ d _) = ttl_from_storage_policy now (d_storage_policy d)"
| "inode_ttl_config now (FileEntry _ _) = None"

definition register_ttl :: "int \<Rightarrow> inode_view \<Rightarrow> ('db inode_store, unit) op" where
  "register_ttl now v =
     (case inode_ttl_config now v of
        None \<Rightarrow> (\<lambda>st. (Inr (), st))
      | Some c \<Rightarrow> ignore_err (on_ttl (ttl_add_inode (u64_of (iid v)) (expiry_time_ms c))))"

fun count_added :: "inode_view \<Rightarrow> 'db inode_store \<Rightarrow> 'db inode_store" where
  "count_added (File _ _) st = add_file_count 1 st"
| "count_added (Dir _ d _) st = (if d_id d \<noteq> ROOT_INODE_ID then add_dir_count 1 st else st)"
| "count_added (FileEntry _ _) st = add_file_count 1 st"

definition apply_add ::
  "('db, 'b) meta_env \<Rightarrow> int \<Rightarrow> inode_view \<Rightarrow> inode_view \<Rightarrow> ('db inode_store, unit) op" where
  "apply_add E now parent child =
     bind_op (run_batch E (\<lambda>db batch.
         bind_res (batch_write_inode E db child batch) (\<lambda>batch.
         bind_res (batch_write_inode E db parent batch) (\<lambda>batch.
         batch_add_child E db (iid parent) (iname child) (iid child) batch))))
     (\<lambda>_. bind_op (register_ttl now child) (\<lambda>_ st. (Inr (), count_added child st)))"

subsubsection \<open>Deleting a subtree\<close>

record 'b del_acc =
  da_batch :: "'b batch"
  da_ttl :: ttl_bucket_list
  da_res :: delete_result
  da_files :: i64
  da_dirs :: i64

text \<open>\<^verbatim>\<open>HashMap::insert\<close> into the blocks of the result.\<close>

definition res_insert :: "i64 \<Rightarrow> block_location list \<Rightarrow> 'b del_acc \<Rightarrow> 'b del_acc" where
  "res_insert i locs acc =
     acc\<lparr>da_res := (da_res acc)\<lparr>dr_blocks := bt_insert i locs (dr_blocks (da_res acc))\<rparr>\<rparr>"

fun del_blocks ::
  "('db, 'b) meta_env \<Rightarrow> 'db \<Rightarrow> block_meta list \<Rightarrow> ('b del_acc, unit) op" where
  "del_blocks E db [] acc = (Inr (), acc)"
| "del_blocks E db (meta # metas) acc =
     (if block_is_writing meta
      then del_blocks E db metas
             (case bm_locs meta of None \<Rightarrow> acc | Some locs \<Rightarrow> res_insert (bm_id meta) locs acc)
      else case get_locations E db (bm_id meta) of
          Inl e \<Rightarrow> (Inl e, acc)
        | Inr locs \<Rightarrow>
            del_blocks E db metas (if locs \<noteq> [] then res_insert (bm_id meta) locs acc else acc))"

definition del_node ::
  "('db, 'b) meta_env \<Rightarrow> 'db \<Rightarrow> i64 \<Rightarrow> inode_view \<Rightarrow> ('b del_acc, (i64 \<times> inode_view) list) op" where
  "del_node E db parent_id inode acc =
     (case bind_res (batch_delete_inode E db (iid inode) (da_batch acc)) (\<lambda>batch.
             batch_delete_child E db parent_id (iname inode) batch) of
        Inl e \<Rightarrow> (Inl e, acc)
      | Inr batch \<Rightarrow>
          let acc = acc\<lparr>da_batch := batch,
                da_res := (da_res acc)\<lparr>dr_inodes := dr_inodes (da_res acc) + 1\<rparr>,
                da_ttl := snd (ttl_remove_inode (u64_of (iid inode)) (da_ttl acc))\<rparr>
          in case inode of
               File _ f \<Rightarrow>
                 bind_op (del_blocks E db (f_blocks f)) (\<lambda>_ acc. (Inr [], acc))
                   (acc\<lparr>da_files := da_files acc + 1\<rparr>)
             | Dir _ d ch \<Rightarrow>
                 (Inr (map (\<lambda>c. (iid inode, c)) (children_iter ch)),
                  (if d_id d \<noteq> ROOT_INODE_ID then acc\<lparr>da_dirs := da_dirs acc + 1\<rparr> else acc))
             | FileEntry _ _ \<Rightarrow> (Inr [], acc\<lparr>da_files := da_files acc + 1\<rparr>))"

definition stack_size :: "(i64 \<times> inode_view) list \<Rightarrow> nat" where
  "stack_size stack = sum_list (map (\<lambda>(p, v). Suc (size v)) stack)"

lemma stack_size_children:
  "stack_size (map (\<lambda>c. (i, c)) (children_iter ch)) < size_inode_children size ch"
proof (cases ch)
  case (ChildList xs)
  then show ?thesis by (induction xs arbitrary: ch) (auto simp: stack_size_def)
next
  case (ChildMap m)
  then show ?thesis by (induction m arbitrary: ch) (auto simp: stack_size_def)
qed

lemma del_node_kids:
  "del_node E db pid inode acc = (Inr kids, acc') \<Longrightarrow>
   kids = map (\<lambda>c. (iid inode, c)) (children inode)"
  by (cases inode) (auto simp: del_node_def Let_def bind_op_Inr_iff split: sum.splits)

lemma del_node_size:
  "del_node E db pid inode acc = (Inr kids, acc') \<Longrightarrow> stack_size kids < Suc (size inode)"
  using stack_size_children by (cases inode) (auto dest!: del_node_kids simp: stack_size_def[of "[]"] less_Suc_eq)

text \<open>The loop of \<^verbatim>\<open>apply_delete\<close>, over the queue of nodes still to delete.\<close>

function del_loop ::
  "('db, 'b) meta_env \<Rightarrow> 'db \<Rightarrow> (i64 \<times> inode_view) list \<Rightarrow> ('b del_acc, unit) op" where
  "del_loop E db [] acc = (Inr (), acc)"
| "del_loop E db ((parent_id, inode) # stack) acc =
     (case del_node E db parent_id inode acc of
        (Inl e, acc') \<Rightarrow> (Inl e, acc')
      | (Inr kids, acc') \<Rightarrow> del_loop E db (stack @ kids) acc')"
  by pat_completeness auto
termination
  by (relation "measure (\<lambda>(E, db, stack, acc). stack_size stack)")
    (auto simp: stack_size_def dest!: del_node_size[OF sym])

definition apply_delete ::
  "('db, 'b) meta_env \<Rightarrow> inode_view \<Rightarrow> inode_view \<Rightarrow> ('db inode_store, delete_result) op" where
  "apply_delete E parent del st =
     (case batch_write_inode E (st_db st) parent [] of
        Inl e \<Rightarrow> (Inl e, st)
      | Inr batch \<Rightarrow>
          (case del_loop E (st_db st) [(iid parent, del)]
                  \<lparr>da_batch = batch, da_ttl = st_ttl st, da_res = delete_result_new,
                   da_files = 0, da_dirs = 0\<rparr> of
             (Inl e, acc) \<Rightarrow> (Inl e, st\<lparr>st_ttl := da_ttl acc\<rparr>)
           | (Inr _, acc) \<Rightarrow>
               bind_op (on_db (batch_commit E (da_batch acc))) (\<lambda>_ st.
                 let st = (if da_files acc > 0 then add_file_count (- da_files acc) st else st);
                     st = (if da_dirs acc > 0 then add_dir_count (- da_dirs acc) st else st)
                 in (Inr (da_res acc), st))
               (st\<lparr>st_ttl := da_ttl acc\<rparr>)))"

subsubsection \<open>The other operations\<close>

definition apply_rename ::
  "('db, 'b) meta_env \<Rightarrow> inode_view \<Rightarrow> inode_view \<Rightarrow> inode_view \<Rightarrow> inode_view \<Rightarrow>
   ('db inode_store, unit) op" where
  "apply_rename E src_parent src_inode dst_parent dst_inode =
     run_batch E (\<lambda>db batch.
       bind_res (batch_delete_child E db (iid src_parent) (iname src_inode) batch) (\<lambda>batch.
       bind_res (batch_write_inode E db dst_inode batch) (\<lambda>batch.
       bind_res (batch_add_child E db (iid dst_parent) (iname dst_inode) (iid dst_inode) batch) (\<lambda>batch.
       bind_res (batch_write_inode E db src_parent batch) (\<lambda>batch.
       batch_write_inode E db dst_parent batch)))))"

fun batch_add_locations ::
  "('db, 'b) meta_env \<Rightarrow> 'db \<Rightarrow> i64 \<Rightarrow> block_location list \<Rightarrow> 'b batch \<Rightarrow> 'b batch res" where
  "batch_add_locations E db i [] batch = Inr batch"
| "batch_add_locations E db i (loc # locs) batch =
     bind_res (batch_add_location E db i loc batch) (batch_add_locations E db i locs)"

definition write_file_commit ::
  "('db, 'b) meta_env \<Rightarrow> inode_view \<Rightarrow> commit_blk option \<Rightarrow> ('db inode_store, unit) op" where
  "write_file_commit E file commit =
     run_batch E (\<lambda>db batch.
       bind_res (batch_write_inode E db file batch) (\<lambda>batch.
       case commit of
         None \<Rightarrow> Inr batch
       | Some c \<Rightarrow> batch_add_locations E db (cb_block_id c) (cb_locations c) batch))"

definition apply_new_block ::
  "('db, 'b) meta_env \<Rightarrow> inode_view \<Rightarrow> commit_blk option \<Rightarrow> ('db inode_store, unit) op" where
  "apply_new_block = write_file_commit"

definition apply_complete_file ::
  "('db, 'b) meta_env \<Rightarrow> inode_view \<Rightarrow> commit_blk option \<Rightarrow> ('db inode_store, unit) op" where
  "apply_complete_file = write_file_commit"

definition apply_overwrite_file :: "('db, 'b) meta_env \<Rightarrow> inode_view \<Rightarrow> ('db inode_store, unit) op" where
  "apply_overwrite_file E file = run_batch E (\<lambda>db. batch_write_inode E db file)"

definition apply_append_file :: "('db, 'b) meta_env \<Rightarrow> inode_view \<Rightarrow> ('db inode_store, unit) op" where
  "apply_append_file E file = run_batch E (\<lambda>db. batch_write_inode E db file)"

fun batch_write_inodes ::
  "('db, 'b) meta_env \<Rightarrow> 'db \<Rightarrow> inode_view list \<Rightarrow> 'b batch \<Rightarrow> 'b batch res" where
  "batch_write_inodes E db [] batch = Inr batch"
| "batch_write_inodes E db (v # vs) batch =
     bind_res (batch_write_inode E db v batch) (batch_write_inodes E db vs)"

fun reregister_ttl :: "int \<Rightarrow> inode_view list \<Rightarrow> ('db inode_store, unit) op" where
  "reregister_ttl now [] st = (Inr (), st)"
| "reregister_ttl now (v # vs) st =
     bind_op (ignore_err (on_ttl (ttl_remove_inode (u64_of (iid v))))) (\<lambda>_.
     bind_op (register_ttl now v) (\<lambda>_. reregister_ttl now vs)) st"

definition apply_set_attr ::
  "('db, 'b) meta_env \<Rightarrow> int \<Rightarrow> inode_view list \<Rightarrow> ('db inode_store, unit) op" where
  "apply_set_attr E now inodes =
     bind_op (run_batch E (\<lambda>db. batch_write_inodes E db inodes)) (\<lambda>_. reregister_ttl now inodes)"

definition apply_symlink ::
  "('db, 'b) meta_env \<Rightarrow> inode_view \<Rightarrow> inode_view \<Rightarrow> ('db inode_store, unit) op" where
  "apply_symlink E parent new_inode =
     run_batch E (\<lambda>db batch.
       bind_res (batch_write_inode E db parent batch) (\<lambda>batch.
       bind_res (batch_write_inode E db new_inode batch) (\<lambda>batch.
       batch_add_child E db (iid parent) (iname new_inode) (iid new_inode) batch)))"

definition store_get_inode ::
  "('db, 'b) meta_env \<Rightarrow> 'db inode_store \<Rightarrow> i64 \<Rightarrow> string option \<Rightarrow> inode_view option res" where
  "store_get_inode E st i name =
     bind_res (rocks_get_inode E (st_db st) i) (\<lambda>v.
       Inr (case name of None \<Rightarrow> v | Some n \<Rightarrow> map_option (change_name n) v))"

definition change_inode_nlink ::
  "('db, 'b) meta_env \<Rightarrow> (inode_file \<Rightarrow> inode_file) \<Rightarrow> i64 \<Rightarrow> ('db inode_store, unit) op" where
  "change_inode_nlink E f inode_id =
     bind_op (\<lambda>st. (store_get_inode E st inode_id None, st)) (\<lambda>v.
       case v of
         Some (File n file) \<Rightarrow> run_batch E (\<lambda>db. batch_write_inode E db (File n (f file)))
       | Some _ \<Rightarrow> (\<lambda>st. (Inl (Common ''Cannot change nlink for non-file inode''), st))
       | None \<Rightarrow> (\<lambda>st. (Inl (Common ''Inode not found when changing nlink''), st)))"

definition increment_inode_nlink :: "('db, 'b) meta_env \<Rightarrow> i64 \<Rightarrow> ('db inode_store, unit) op" where
  "increment_inode_nlink E = change_inode_nlink E increment_nlink"

definition decrement_inode_nlink :: "('db, 'b) meta_env \<Rightarrow> i64 \<Rightarrow> ('db inode_store, unit) op" where
  "decrement_inode_nlink E = change_inode_nlink E (\<lambda>f. snd (decrement_nlink f))"

text \<open>The link count is written in a batch of its own, before the batch with the edge commits.\<close>

definition apply_link ::
  "('db, 'b) meta_env \<Rightarrow> inode_view \<Rightarrow> inode_view \<Rightarrow> i64 \<Rightarrow> ('db inode_store, unit) op" where
  "apply_link E parent new_entry original_inode_id st =
     (case bind_res (batch_write_inode E (st_db st) parent []) (\<lambda>batch.
             batch_add_child E (st_db st) (iid parent) (iname new_entry) original_inode_id batch) of
        Inl e \<Rightarrow> (Inl e, st)
      | Inr batch \<Rightarrow>
          bind_op (increment_inode_nlink E original_inode_id) (\<lambda>_.
            on_db (batch_commit E batch)) st)"

definition unlink_entry ::
  "('db, 'b) meta_env \<Rightarrow> inode_view \<Rightarrow> inode_view \<Rightarrow> ('db inode_store, unit) op \<Rightarrow>
   ('db inode_store, delete_result) op" where
  "unlink_entry E parent child dec st =
     (case bind_res (batch_write_inode E (st_db st) parent []) (\<lambda>batch.
             batch_delete_child E (st_db st) (iid parent) (iname child) batch) of
        Inl e \<Rightarrow> (Inl e, st)
      | Inr batch \<Rightarrow>
          bind_op dec (\<lambda>_. bind_op (on_db (batch_commit E batch)) (\<lambda>_ st.
            (Inr delete_result_new, st))) st)"

definition apply_unlink ::
  "('db, 'b) meta_env \<Rightarrow> inode_view \<Rightarrow> inode_view \<Rightarrow> ('db inode_store, delete_result) op" where
  "apply_unlink E parent child =
     unlink_entry E parent child
       (case child of File _ _ \<Rightarrow> decrement_inode_nlink E (iid child) | _ \<Rightarrow> (\<lambda>st. (Inr (), st)))"

definition apply_unlink_file_entry ::
  "('db, 'b) meta_env \<Rightarrow> inode_view \<Rightarrow> inode_view \<Rightarrow> i64 \<Rightarrow> ('db inode_store, delete_result) op" where
  "apply_unlink_file_entry E parent child inode_id =
     unlink_entry E parent child (decrement_inode_nlink E inode_id)"

fun get_file_locations ::
  "('db, 'b) meta_env \<Rightarrow> 'db inode_store \<Rightarrow> block_meta list \<Rightarrow>
   (i64 \<times> block_location list) list res" where
  "get_file_locations E st [] = Inr []"
| "get_file_locations E st (meta # metas) =
     bind_res (get_locations E (st_db st) (bm_id meta)) (\<lambda>locs.
     bind_res (get_file_locations E st metas) (\<lambda>m.
       Inr (if map_of m (bm_id meta) = None then bt_insert (bm_id meta) locs m else m)))"

definition add_block_location ::
  "('db, 'b) meta_env \<Rightarrow> i64 \<Rightarrow> block_location \<Rightarrow> ('db inode_store, unit) op" where
  "add_block_location E block_id loc = run_batch E (\<lambda>db. batch_add_location E db block_id loc)"

subsubsection \<open>Rebuilding the tree\<close>

definition create_root :: inode_view where
  "create_root = Dir ROOT_INODE_NAME (dir_new ROOT_INODE_ID 0) new_map"

fun count_loaded :: "inode_view \<Rightarrow> i64 \<times> i64 \<Rightarrow> i64 \<times> i64" where
  "count_loaded (File _ _) (fc, dc) = (fc + 1, dc)"
| "count_loaded (Dir _ d _) (fc, dc) = (fc, if d_id d \<noteq> ROOT_INODE_ID then dc + 1 else dc)"
| "count_loaded (FileEntry _ _) (fc, dc) = (fc + 1, dc)"

text \<open>One turn of the loop of \<^verbatim>\<open>create_tree\<close>, up to the node that becomes the next parent: its path
  when it is in the tree, the node itself, the tree and the counts.\<close>

definition load_child ::
  "('db, 'b) meta_env \<Rightarrow> 'db \<Rightarrow> inode_view \<Rightarrow> string list \<Rightarrow> i64 \<Rightarrow> i64 \<times> i64 \<Rightarrow>
   (string list \<times> inode_view \<times> inode_view \<times> (i64 \<times> i64)) res" where
  "load_child E db root p child_id counts =
     (case tree_get root p of
        None \<Rightarrow> Inl (Panic ''dangling pointer'')
      | Some parent \<Rightarrow>
          if child_id \<noteq> ROOT_INODE_ID then
            bind_res (rocks_get_inode E db child_id) (\<lambda>v.
            bind_res (try_option ''Option is none'' v) (\<lambda>inode.
              case add_child inode parent of
                (Inl e, _) \<Rightarrow> Inl e
              | (Inr (Ref q), parent') \<Rightarrow>
                  (case tree_get (tree_put root p parent') (p @ q) of
                     None \<Rightarrow> Inl (Panic ''dangling pointer'')
                   | Some added \<Rightarrow>
                       Inr (p @ q, added, tree_put root p parent', count_loaded inode counts))
              | (Inr (Owned added), parent') \<Rightarrow>
                  Inr (p, added, tree_put root p parent', count_loaded inode counts)))
          else Inr (p, parent, root, counts))"

fun create_tree_loop ::
  "('db, 'b) meta_env \<Rightarrow> int \<Rightarrow> nat \<Rightarrow> inode_view \<Rightarrow> (string list \<times> i64) list \<Rightarrow> i64 \<Rightarrow> i64 \<times> i64 \<Rightarrow>
   'db inode_store \<Rightarrow> ((i64 \<times> inode_view) res \<times> 'db inode_store) option" where
  "create_tree_loop E now fuel root [] last_inode_id counts st =
     Some (Inr (last_inode_id, root), set_counts (fst counts) (snd counts) st)"
| "create_tree_loop E now 0 root (x # stack) last_inode_id counts st = None"
| "create_tree_loop E now (Suc fuel) root ((p, child_id) # stack) last_inode_id counts st =
     (case load_child E (st_db st) root p child_id counts of
        Inl e \<Rightarrow> Some (Inl e, st)
      | Inr (q, node, root', counts') \<Rightarrow>
          (case (if is_dir node
                 then bind_res (edges_iter E (st_db st) (iid node)) (\<lambda>items.
                        collect_map (\<lambda>kv. i64_from_bytes (rk_unraw (me_rocks E) (snd kv))) items)
                 else Inr []) of
             Inl e \<Rightarrow> Some (Inl e, st)
           | Inr ids \<Rightarrow>
               (case register_ttl now node st of
                  (Inl e, st') \<Rightarrow> Some (Inl e, st')
                | (Inr _, st') \<Rightarrow>
                    create_tree_loop E now fuel root' (stack @ map (\<lambda>i. (q, i)) ids)
                      (max last_inode_id child_id) counts' st')))"

definition create_tree ::
  "('db, 'b) meta_env \<Rightarrow> int \<Rightarrow> nat \<Rightarrow> 'db inode_store \<Rightarrow>
   ((i64 \<times> inode_view) res \<times> 'db inode_store) option" where
  "create_tree E now fuel st =
     create_tree_loop E now fuel create_root [([], ROOT_INODE_ID)] ROOT_INODE_ID (0, 0) st"

subsection \<open>The database as maps\<close>

record metas =
  m_inodes :: "i64 \<Rightarrow> inode_view option"
  m_edges :: "i64 \<Rightarrow> string \<Rightarrow> i64 option"
  m_locs :: "i64 \<Rightarrow> u32 \<Rightarrow> block_location option"
  m_wlocs :: "u32 \<Rightarrow> i64 \<Rightarrow> i64 option"
  m_mounts :: "u32 \<Rightarrow> mount_info option"

definition decode :: "('b \<Rightarrow> 'v res) \<Rightarrow> 'b option \<Rightarrow> 'v option" where
  "decode de b = Option.bind b (\<lambda>b. case de b of Inr v \<Rightarrow> Some v | Inl _ \<Rightarrow> None)"

definition metas_of :: "('db, 'b) meta_env \<Rightarrow> 'b db_view \<Rightarrow> metas" where
  "metas_of E w =
     \<lparr>m_inodes = (\<lambda>i. if is_i64 i then decode (me_de_inode E) (w CF_INODES (i64_to_bytes i)) else None),
      m_edges = (\<lambda>p n. if is_i64 p
        then decode (\<lambda>b. i64_from_bytes (rk_unraw (me_rocks E) b)) (w CF_EDGES (i64_str_to_bytes p n))
        else None),
      m_locs = (\<lambda>i v. if is_i64 i then decode (me_de_loc E) (w CF_BLOCK (i64_u32_to_bytes i v)) else None),
      m_wlocs = (\<lambda>v i. if is_i64 i then decode (me_de_i64 E) (w CF_LOCATION (u32_i64_to_bytes v i)) else None),
      m_mounts = (\<lambda>v. decode (me_de_mount E) (w CF_MOUNTPOINT (u32_to_bytes v)))\<rparr>"

definition store_metas :: "('db, 'b) meta_env \<Rightarrow> 'db inode_store \<Rightarrow> metas" where
  "store_metas E st = metas_of E (rk_view (me_rocks E) (st_db st))"

abbreviation put_inode :: "inode_view \<Rightarrow> metas \<Rightarrow> metas" where
  "put_inode v m \<equiv> m\<lparr>m_inodes := (m_inodes m)(iid v := Some (strip v))\<rparr>"

abbreviation del_inode :: "i64 \<Rightarrow> metas \<Rightarrow> metas" where
  "del_inode i m \<equiv> m\<lparr>m_inodes := (m_inodes m)(i := None)\<rparr>"

abbreviation put_edge :: "i64 \<Rightarrow> string \<Rightarrow> i64 \<Rightarrow> metas \<Rightarrow> metas" where
  "put_edge p n c m \<equiv> m\<lparr>m_edges := (m_edges m)(p := (m_edges m p)(n := Some c))\<rparr>"

abbreviation del_edge :: "i64 \<Rightarrow> string \<Rightarrow> metas \<Rightarrow> metas" where
  "del_edge p n m \<equiv> m\<lparr>m_edges := (m_edges m)(p := (m_edges m p)(n := None))\<rparr>"

lemma decode_simps [simp]:
  "decode de None = None" "de b = Inr v \<Longrightarrow> decode de (Some b) = Some v"
  by (simp_all add: decode_def)

lemma env_rocks [simp]: "env_ok E \<Longrightarrow> rocks_ok (me_rocks E)"
  by (simp add: env_ok_def)

lemma batch_steps:
  "batch_put_cf E db cf k b bt = Inr bt' \<Longrightarrow> bt' = bt @ [PutOp cf k b]"
  "batch_delete_cf E db cf k bt = Inr bt' \<Longrightarrow> bt' = bt @ [DeleteOp cf k]"
  by (auto simp: batch_put_cf_def batch_delete_cf_def)

lemma apply_batch_append: "apply_batch (xs @ ys) w = apply_batch ys (apply_batch xs w)"
  by (simp add: apply_batch_def)

text \<open>What each entry of a batch does to the maps.\<close>

lemma metas_write_inode:
  assumes "env_ok E" "is_i64 (iid v)" "batch_write_inode E db v bt = Inr bt'"
  shows "metas_of E (apply_batch bt' w) = put_inode v (metas_of E (apply_batch bt w))"
proof -
  obtain b where "me_ser_inode E v = Inr b" "bt' = bt @ [PutOp CF_INODES (i64_to_bytes (iid v)) b]"
    using assms(3) by (auto simp: batch_write_inode_def dest: batch_steps)
  with assms(1,2) show ?thesis
    by (auto simp: env_ok_def metas_of_def apply_batch_append fun_eq_iff CF_defs) (auto simp: apply_batch_def)
qed

lemma metas_delete_inode:
  assumes "is_i64 i" "batch_delete_inode E db i bt = Inr bt'"
  shows "metas_of E (apply_batch bt' w) = del_inode i (metas_of E (apply_batch bt w))"
  using assms(1) batch_steps(2)[OF assms(2)[unfolded batch_delete_inode_def]]
  by (auto simp: metas_of_def apply_batch_append fun_eq_iff CF_defs) (auto simp: apply_batch_def)

lemma metas_add_child:
  assumes "env_ok E" "is_i64 p" "is_i64 c" "batch_add_child E db p n c bt = Inr bt'"
  shows "metas_of E (apply_batch bt' w) = put_edge p n c (metas_of E (apply_batch bt w))"
proof -
  have "i64_from_bytes (rk_unraw (me_rocks E) (rk_raw (me_rocks E) (i64_to_bytes c))) = Inr c"
    using assms(1,3) by (simp add: rocks_unraw i64_bytes_roundtrip)
  with assms(2) batch_steps(1)[OF assms(4)[unfolded batch_add_child_def]] show ?thesis
    by (auto simp: metas_of_def apply_batch_append fun_eq_iff CF_defs) (auto simp: apply_batch_def)
qed

lemma metas_delete_child:
  assumes "is_i64 p" "batch_delete_child E db p n bt = Inr bt'"
  shows "metas_of E (apply_batch bt' w) = del_edge p n (metas_of E (apply_batch bt w))"
  using assms(1) batch_steps(2)[OF assms(2)[unfolded batch_delete_child_def]]
  by (auto simp: metas_of_def apply_batch_append fun_eq_iff CF_defs) (auto simp: apply_batch_def)

abbreviation put_loc :: "i64 \<Rightarrow> block_location \<Rightarrow> metas \<Rightarrow> metas" where
  "put_loc i loc m \<equiv> m\<lparr>m_locs := (m_locs m)(i := (m_locs m i)(bl_worker_id loc := Some loc)),
     m_wlocs := (m_wlocs m)(bl_worker_id loc := (m_wlocs m (bl_worker_id loc))(i := Some i))\<rparr>"

abbreviation del_loc :: "i64 \<Rightarrow> u32 \<Rightarrow> metas \<Rightarrow> metas" where
  "del_loc i v m \<equiv> m\<lparr>m_locs := (m_locs m)(i := (m_locs m i)(v := None)),
     m_wlocs := (m_wlocs m)(v := (m_wlocs m v)(i := None))\<rparr>"

lemma metas_add_location:
  assumes "env_ok E" "is_i64 i" "batch_add_location E db i loc bt = Inr bt'"
  shows "metas_of E (apply_batch bt' w) = put_loc i loc (metas_of E (apply_batch bt w))"
proof -
  obtain b1 b2 where "me_ser_loc E loc = Inr b1" "me_ser_i64 E i = Inr b2"
      "bt' = bt @ [PutOp CF_BLOCK (i64_u32_to_bytes i (bl_worker_id loc)) b1,
                   PutOp CF_LOCATION (u32_i64_to_bytes (bl_worker_id loc) i) b2]"
    using assms(3) by (auto simp: batch_add_location_def dest!: batch_steps)
  with assms(1,2) show ?thesis
    by (auto simp: env_ok_def metas_of_def apply_batch_append fun_eq_iff CF_defs) (auto simp: apply_batch_def)
qed

lemma metas_delete_location:
  assumes "is_i64 i" "batch_delete_location E db i v bt = Inr bt'"
  shows "metas_of E (apply_batch bt' w) = del_loc i v (metas_of E (apply_batch bt w))"
proof -
  have "bt' = bt @ [DeleteOp CF_BLOCK (i64_u32_to_bytes i v), DeleteOp CF_LOCATION (u32_i64_to_bytes v i)]"
    using assms(2) by (auto simp: batch_delete_location_def dest!: batch_steps)
  with assms(1) show ?thesis
    by (auto simp: metas_of_def apply_batch_append fun_eq_iff CF_defs) (auto simp: apply_batch_def)
qed

definition put_locs :: "i64 \<Rightarrow> block_location list \<Rightarrow> metas \<Rightarrow> metas" where
  "put_locs i locs m = foldl (\<lambda>m loc. put_loc i loc m) m locs"

lemma metas_add_locations:
  assumes "env_ok E" "is_i64 i" "batch_add_locations E db i locs bt = Inr bt'"
  shows "metas_of E (apply_batch bt' w) = put_locs i locs (metas_of E (apply_batch bt w))"
  using assms(3)
proof (induction locs arbitrary: bt)
  case (Cons loc locs)
  then obtain bt1 where "batch_add_location E db i loc bt = Inr bt1" "batch_add_locations E db i locs bt1 = Inr bt'"
    by auto
  then show ?case using Cons.IH metas_add_location[OF assms(1,2)] by (simp add: put_locs_def)
qed (simp add: put_locs_def)

lemma put_locs_frame [simp]:
  "m_inodes (put_locs i locs m) = m_inodes m" "m_edges (put_locs i locs m) = m_edges m"
  "m_mounts (put_locs i locs m) = m_mounts m"
  unfolding put_locs_def by (induction locs arbitrary: m) simp_all

subsection \<open>What the store operations do\<close>

lemma run_batch_Inr:
  assumes "env_ok E" "run_batch E fill st = (Inr (), st')"
  obtains bt where "fill (st_db st) [] = Inr bt" "st_ttl st' = st_ttl st"
    "st_file_num st' = st_file_num st" "st_dir_num st' = st_dir_num st"
    "store_metas E st' = metas_of E (apply_batch bt (rk_view (me_rocks E) (st_db st)))"
proof -
  obtain bt where bt: "fill (st_db st) [] = Inr bt" "on_db (batch_commit E bt) st = (Inr (), st')"
    using assms(2) by (auto simp: run_batch_def split: sum.splits)
  then obtain db where db: "db_write_batch (me_rocks E) bt (st_db st) = (Inr (), db)" "st' = st\<lparr>st_db := db\<rparr>"
    by (auto simp: on_db_def batch_commit_def split: prod.splits)
  show thesis
    using that[OF bt(1)] rocks_write(1)[OF env_rocks[OF assms(1)] db(1)] db(2)
    by (simp add: store_metas_def)
qed

lemma metas_start: "metas_of E (apply_batch [] (rk_view (me_rocks E) (st_db st))) = store_metas E st"
  by (simp add: apply_batch_def store_metas_def)

lemma ttl_frame:
  assumes "register_ttl now v st = (r, st')"
  shows "st_db st' = st_db st" "store_metas E st' = store_metas E st"
  using assms
  by (auto simp: register_ttl_def ignore_err_def on_ttl_def store_metas_def
      split: option.splits prod.splits sum.splits fs_error.splits)

lemma count_frame [simp]:
  "st_db (count_added v st) = st_db st" "store_metas E (count_added v st) = store_metas E st"
  by (cases v; simp add: add_file_count_def add_dir_count_def store_metas_def)+

lemma apply_add_metas:
  assumes E: "env_ok E" and ids: "is_i64 (iid parent)" "is_i64 (iid child)"
    and add: "apply_add E now parent child st = (Inr (), st')"
  shows "store_metas E st' =
    put_edge (iid parent) (iname child) (iid child) (put_inode parent (put_inode child (store_metas E st)))"
proof -
  obtain st1 st2 where st: "run_batch E (\<lambda>db batch.
         bind_res (batch_write_inode E db child batch) (\<lambda>batch.
         bind_res (batch_write_inode E db parent batch) (\<lambda>batch.
         batch_add_child E db (iid parent) (iname child) (iid child) batch))) st = (Inr (), st1)"
      "register_ttl now child st1 = (Inr (), st2)" "st' = count_added child st2"
    using add by (auto simp: apply_add_def bind_op_Inr_iff)
  obtain b1 b2 b3 where b: "batch_write_inode E (st_db st) child [] = Inr b1"
      "batch_write_inode E (st_db st) parent b1 = Inr b2"
      "batch_add_child E (st_db st) (iid parent) (iname child) (iid child) b2 = Inr b3"
      "store_metas E st1 = metas_of E (apply_batch b3 (rk_view (me_rocks E) (st_db st)))"
    using st(1) by (rule run_batch_Inr[OF E]) auto
  have "store_metas E st' = store_metas E st1"
    using ttl_frame(2)[OF st(2)] st(3) by simp
  then show ?thesis
    by (simp add: b(4) metas_add_child[OF E ids(1,2) b(3)] metas_write_inode[OF E ids(1) b(2)]
        metas_write_inode[OF E ids(2) b(1)] metas_start)
qed

lemma apply_rename_metas:
  assumes E: "env_ok E" and ids: "is_i64 (iid sp)" "is_i64 (iid dp)" "is_i64 (iid di)"
    and ren: "apply_rename E sp si dp di st = (Inr (), st')"
  shows "store_metas E st' = put_inode dp (put_inode sp (put_edge (iid dp) (iname di) (iid di)
    (put_inode di (del_edge (iid sp) (iname si) (store_metas E st)))))"
proof -
  obtain b1 b2 b3 b4 b5 where b: "batch_delete_child E (st_db st) (iid sp) (iname si) [] = Inr b1"
      "batch_write_inode E (st_db st) di b1 = Inr b2"
      "batch_add_child E (st_db st) (iid dp) (iname di) (iid di) b2 = Inr b3"
      "batch_write_inode E (st_db st) sp b3 = Inr b4"
      "batch_write_inode E (st_db st) dp b4 = Inr b5"
      "store_metas E st' = metas_of E (apply_batch b5 (rk_view (me_rocks E) (st_db st)))"
    using ren[unfolded apply_rename_def] by (rule run_batch_Inr[OF E]) auto
  show ?thesis
    by (simp add: b(6) metas_write_inode[OF E ids(2) b(5)] metas_write_inode[OF E ids(1) b(4)]
        metas_add_child[OF E ids(2,3) b(3)] metas_write_inode[OF E ids(3) b(2)]
        metas_delete_child[OF ids(1) b(1)] metas_start)
qed

lemma write_file_metas:
  assumes E: "env_ok E" and ids: "is_i64 (iid file)" "\<And>cb. c = Some cb \<Longrightarrow> is_i64 (cb_block_id cb)"
    and wr: "write_file_commit E file c st = (Inr (), st')"
  shows "store_metas E st' = (case c of None \<Rightarrow> put_inode file (store_metas E st)
    | Some cb \<Rightarrow> put_locs (cb_block_id cb) (cb_locations cb) (put_inode file (store_metas E st)))"
proof -
  obtain b1 b2 where b: "batch_write_inode E (st_db st) file [] = Inr b1"
      "(case c of None \<Rightarrow> Inr b1
        | Some cb \<Rightarrow> batch_add_locations E (st_db st) (cb_block_id cb) (cb_locations cb) b1) = Inr b2"
      "store_metas E st' = metas_of E (apply_batch b2 (rk_view (me_rocks E) (st_db st)))"
    using wr[unfolded write_file_commit_def] by (rule run_batch_Inr[OF E]) auto
  show ?thesis
    using b ids(2) metas_write_inode[OF E ids(1) b(1)] metas_add_locations[OF E]
    by (auto simp: metas_start split: option.splits)
qed

lemma write_inode_metas:
  assumes "env_ok E" "is_i64 (iid v)" "run_batch E (\<lambda>db. batch_write_inode E db v) st = (Inr (), st')"
  shows "store_metas E st' = put_inode v (store_metas E st)"
  using assms(3) by (rule run_batch_Inr[OF assms(1)]) (simp add: metas_write_inode[OF assms(1,2)] metas_start)

lemmas apply_overwrite_metas = write_inode_metas[folded apply_overwrite_file_def]
lemmas apply_append_metas = write_inode_metas[folded apply_append_file_def]

lemma apply_symlink_metas:
  assumes E: "env_ok E" and ids: "is_i64 (iid parent)" "is_i64 (iid v)"
    and sym: "apply_symlink E parent v st = (Inr (), st')"
  shows "store_metas E st' =
    put_edge (iid parent) (iname v) (iid v) (put_inode v (put_inode parent (store_metas E st)))"
proof -
  obtain b1 b2 b3 where b: "batch_write_inode E (st_db st) parent [] = Inr b1"
      "batch_write_inode E (st_db st) v b1 = Inr b2"
      "batch_add_child E (st_db st) (iid parent) (iname v) (iid v) b2 = Inr b3"
      "store_metas E st' = metas_of E (apply_batch b3 (rk_view (me_rocks E) (st_db st)))"
    using sym[unfolded apply_symlink_def] by (rule run_batch_Inr[OF E]) auto
  show ?thesis
    by (simp add: b(4) metas_add_child[OF E ids b(3)] metas_write_inode[OF E ids(2) b(2)]
        metas_write_inode[OF E ids(1) b(1)] metas_start)
qed

lemma rocks_get_inode_metas:
  assumes "env_ok E" "is_i64 i" "rocks_get_inode E db i = Inr v"
  shows "v = m_inodes (metas_of E (rk_view (me_rocks E) db)) i"
proof -
  obtain b where "db_get_cf (me_rocks E) db CF_INODES (i64_to_bytes i) = Inr b"
      "(case b of None \<Rightarrow> Inr None | Some b \<Rightarrow> bind_res (me_de_inode E b) (\<lambda>inode. Inr (Some inode))) = Inr v"
    using assms(3) by (auto simp: rocks_get_inode_def)
  with rocks_get[OF env_rocks[OF assms(1)] this(1)] assms(2) show ?thesis
    by (auto simp: metas_of_def split: option.splits)
qed

lemma store_get_inode_metas:
  assumes "env_ok E" "is_i64 i" "store_get_inode E st i name = Inr v"
  shows "v = (case name of None \<Rightarrow> m_inodes (store_metas E st) i
    | Some n \<Rightarrow> map_option (change_name n) (m_inodes (store_metas E st) i))"
  using assms(3) rocks_get_inode_metas[OF assms(1,2)]
  by (auto simp: store_get_inode_def store_metas_def split: option.splits)

lemma change_nlink_metas:
  assumes E: "env_ok E" and "is_i64 i" and chg: "change_inode_nlink E f i st = (Inr (), st')"
    and keep: "\<And>fl. f_id (f fl) = f_id fl" and key: "\<And>v. m_inodes (store_metas E st) i = Some v \<Longrightarrow> iid v = i"
  obtains n fl where "m_inodes (store_metas E st) i = Some (File n fl)"
    "store_metas E st' = put_inode (File n (f fl)) (store_metas E st)"
proof -
  obtain v where v: "store_get_inode E st i None = Inr v" "(case v of
         Some (File n fl) \<Rightarrow> run_batch E (\<lambda>db. batch_write_inode E db (File n (f fl)))
       | Some _ \<Rightarrow> (\<lambda>st. (Inl (Common ''Cannot change nlink for non-file inode''), st))
       | None \<Rightarrow> (\<lambda>st. (Inl (Common ''Inode not found when changing nlink''), st))) st = (Inr (), st')"
    using chg by (auto simp: change_inode_nlink_def bind_op_Inr_iff)
  then obtain n fl where nf: "v = Some (File n fl)"
      "run_batch E (\<lambda>db. batch_write_inode E db (File n (f fl))) st = (Inr (), st')"
    by (auto split: option.splits inode_view.splits)
  have m: "m_inodes (store_metas E st) i = Some (File n fl)"
    using store_get_inode_metas[OF E assms(2) v(1)] nf(1) by simp
  then have "is_i64 (iid (File n (f fl)))" using key[OF m] keep assms(2) by simp
  from that[OF m write_inode_metas[OF E this nf(2)]] show thesis .
qed

subsubsection \<open>Deletion\<close>

definition nodes_under :: "inode_view \<Rightarrow> inode_view set" where
  "nodes_under v = {u. \<exists>p. tree_get v p = Some u}"

definition sub_ok :: "inode_view \<Rightarrow> bool" where
  "sub_ok v \<longleftrightarrow> tree_ok v \<or> (\<exists>n f. v = File n f)"

definition purge :: "i64 set \<Rightarrow> (i64 \<times> string) set \<Rightarrow> metas \<Rightarrow> metas" where
  "purge ids es m = m\<lparr>m_inodes := (\<lambda>i. if i \<in> ids then None else m_inodes m i),
     m_edges := (\<lambda>p n. if (p, n) \<in> es then None else m_edges m p n)\<rparr>"

definition edges_under :: "i64 \<Rightarrow> inode_view \<Rightarrow> (i64 \<times> string) set" where
  "edges_under pid v = insert (pid, iname v) (\<Union>u\<in>nodes_under v. (\<lambda>c. (iid u, iname c)) ` set (children u))"

lemma nodes_under_self [simp]: "v \<in> nodes_under v"
  unfolding nodes_under_def by (metis (mono_tags) mem_Collect_eq tree_get.simps(1))

lemma nodes_under_unfold:
  assumes "sub_ok v"
  shows "nodes_under v = insert v (\<Union>c\<in>set (children v). nodes_under c)"
proof (cases v)
  case (File n f)
  have "tree_get v p = Some u \<longleftrightarrow> p = [] \<and> u = v" for p u
    by (cases p) (auto simp: File)
  then show ?thesis by (auto simp: nodes_under_def File)
next
  case (FileEntry n i)
  have "tree_get v p = Some u \<longleftrightarrow> p = [] \<and> u = v" for p u
    by (cases p) (auto simp: FileEntry)
  then show ?thesis by (auto simp: nodes_under_def FileEntry)
next
  case (Dir n d ch)
  then obtain m where m: "ch = ChildMap m" "keys_sorted m"
    using assms tree_ok_map_inv[of n d ch] by (auto simp: sub_ok_def map_inv_def)
  have "u \<in> nodes_under v \<longleftrightarrow> u = v \<or> (\<exists>k c. map_of m k = Some c \<and> u \<in> nodes_under c)" for u
  proof
    assume "u \<in> nodes_under v"
    then obtain p where "tree_get v p = Some u" by (auto simp: nodes_under_def)
    then show "u = v \<or> (\<exists>k c. map_of m k = Some c \<and> u \<in> nodes_under c)"
      by (cases p) (auto simp: Dir m nodes_under_def split: option.splits)
  next
    assume "u = v \<or> (\<exists>k c. map_of m k = Some c \<and> u \<in> nodes_under c)"
    then show "u \<in> nodes_under v"
    proof
      assume "\<exists>k c. map_of m k = Some c \<and> u \<in> nodes_under c"
      then obtain k c p where "map_of m k = Some c" "tree_get c p = Some u" by (auto simp: nodes_under_def)
      then have "tree_get v (k # p) = Some u" by (simp add: Dir m)
      then show ?thesis unfolding nodes_under_def by blast
    qed simp
  qed
  then show ?thesis by (force simp: Dir m(1) map_of_sorted_iff[OF m(2)])
qed

lemma sub_ok_child: "sub_ok v \<Longrightarrow> c \<in> set (children v) \<Longrightarrow> tree_ok c"
proof -
  assume v: "sub_ok v" "c \<in> set (children v)"
  then obtain n d ch where d: "v = Dir n d ch" "tree_ok v" by (cases v) (auto simp: sub_ok_def)
  then obtain m where m: "ch = ChildMap m" "keys_sorted m"
    using tree_ok_map_inv[of n d ch] by (auto simp: map_inv_def)
  then obtain k where "map_of m k = Some c"
    using v(2) d(1) by (auto simp: map_of_sorted_iff)
  then show ?thesis using d m(1) tree_ok_child by blast
qed

definition stack_ids :: "(i64 \<times> inode_view) list \<Rightarrow> i64 set" where
  "stack_ids stack = (\<Union>(p, v)\<in>set stack. iid ` nodes_under v)"

definition stack_edges :: "(i64 \<times> inode_view) list \<Rightarrow> (i64 \<times> string) set" where
  "stack_edges stack = (\<Union>(p, v)\<in>set stack. edges_under p v)"

lemma edges_under_unfold:
  assumes "sub_ok v"
  shows "edges_under pid v = insert (pid, iname v) (\<Union>c\<in>set (children v). edges_under (iid v) c)"
  unfolding edges_under_def[of pid] nodes_under_unfold[OF assms] edges_under_def[of "iid v"] by blast

lemma stack_step:
  assumes "sub_ok v" "kids = map (\<lambda>c. (iid v, c)) (children v)"
  shows "stack_ids ((pid, v) # stack) = insert (iid v) (stack_ids (stack @ kids))"
    "stack_edges ((pid, v) # stack) = insert (pid, iname v) (stack_edges (stack @ kids))"
  using nodes_under_unfold[OF assms(1)] edges_under_unfold[OF assms(1)]
  by (auto simp: stack_ids_def stack_edges_def assms(2))

lemma del_blocks_batch:
  "del_blocks E db bs acc = (r, acc') \<Longrightarrow> da_batch acc' = da_batch acc"
  by (induction bs arbitrary: acc) (auto simp: res_insert_def split: if_splits sum.splits option.splits)

lemma del_node_batch:
  assumes "del_node E db pid v acc = (Inr kids, acc')"
  obtains b where "batch_delete_inode E db (iid v) (da_batch acc) = Inr b"
    "batch_delete_child E db pid (iname v) b = Inr (da_batch acc')"
  using assms
  by (cases v)
    (auto simp: del_node_def Let_def bind_op_Inr_iff dest!: del_blocks_batch split: sum.splits if_splits)

text \<open>The batch of a deletion removes the inodes of the subtree and the edges to and inside it.\<close>

lemma del_loop_metas:
  assumes "del_loop E db stack acc = (Inr (), acc')"
    and "\<forall>(p, v)\<in>set stack. sub_ok v \<and> is_i64 p \<and> (\<forall>u\<in>nodes_under v. is_i64 (iid u))"
  shows "metas_of E (apply_batch (da_batch acc') w) =
    purge (stack_ids stack) (stack_edges stack) (metas_of E (apply_batch (da_batch acc) w))"
  using assms
proof (induction E db stack acc rule: del_loop.induct)
  case (1 E db acc)
  then show ?case by (simp add: purge_def stack_ids_def stack_edges_def)
next
  case (2 E db pid v stack acc)
  obtain kids acc1 where k: "del_node E db pid v acc = (Inr kids, acc1)"
      "del_loop E db (stack @ kids) acc1 = (Inr (), acc')"
    using 2(2) by (auto split: prod.splits sum.splits)
  obtain b where b: "batch_delete_inode E db (iid v) (da_batch acc) = Inr b"
      "batch_delete_child E db pid (iname v) b = Inr (da_batch acc1)"
    using k(1) by (rule del_node_batch)
  have kids: "kids = map (\<lambda>c. (iid v, c)) (children v)"
    using k(1) by (rule del_node_kids)
  have v: "sub_ok v" "is_i64 pid" "\<forall>u\<in>nodes_under v. is_i64 (iid u)" using 2(3) by auto
  then have iv: "is_i64 (iid v)" by simp
  have "\<forall>(p, c)\<in>set (stack @ kids). sub_ok c \<and> is_i64 p \<and> (\<forall>u\<in>nodes_under c. is_i64 (iid u))"
    using 2(3) v sub_ok_child[OF v(1)] nodes_under_unfold[OF v(1)] iv
    by (auto simp: kids sub_ok_def)
  note IH = 2(1)[OF k(1)[symmetric] refl k(2) this]
  show ?case
    unfolding IH metas_delete_child[OF v(2) b(2)] metas_delete_inode[OF iv b(1)] stack_step[OF v(1) kids]
    by (auto simp: purge_def fun_eq_iff)
qed

lemma apply_delete_metas:
  assumes E: "env_ok E" and del: "apply_delete E parent v st = (Inr r, st')"
    and ids: "sub_ok v" "is_i64 (iid parent)" "\<forall>u\<in>nodes_under v. is_i64 (iid u)"
  shows "store_metas E st' =
    purge (iid ` nodes_under v) (edges_under (iid parent) v) (put_inode parent (store_metas E st))"
proof -
  obtain bt acc where b: "batch_write_inode E (st_db st) parent [] = Inr bt"
      "del_loop E (st_db st) [(iid parent, v)] \<lparr>da_batch = bt, da_ttl = st_ttl st,
         da_res = delete_result_new, da_files = 0, da_dirs = 0\<rparr> = (Inr (), acc)"
      "\<exists>st1. on_db (batch_commit E (da_batch acc)) (st\<lparr>st_ttl := da_ttl acc\<rparr>) = (Inr (), st1) \<and>
        st_db st' = st_db st1"
    using del by (fastforce simp: apply_delete_def bind_op_Inr_iff Let_def add_file_count_def add_dir_count_def
        split: sum.splits prod.splits if_splits)
  then have "rk_view (me_rocks E) (st_db st') = apply_batch (da_batch acc) (rk_view (me_rocks E) (st_db st))"
    using rocks_write(1)[OF env_rocks[OF E]] by (auto simp: on_db_def batch_commit_def split: prod.splits)
  then have "store_metas E st' = purge (stack_ids [(iid parent, v)]) (stack_edges [(iid parent, v)])
      (metas_of E (apply_batch bt (rk_view (me_rocks E) (st_db st))))"
    using del_loop_metas[OF b(2)] ids by (simp add: store_metas_def)
  then show ?thesis
    by (simp add: metas_write_inode[OF E ids(2) b(1)] metas_start stack_ids_def stack_edges_def)
qed

lemma on_db_commit_metas:
  assumes "env_ok E" "on_db (batch_commit E bt) st = (Inr (), st')"
  shows "store_metas E st' = metas_of E (apply_batch bt (rk_view (me_rocks E) (st_db st)))"
  using assms(2) rocks_write(1)[OF env_rocks[OF assms(1)]]
  by (auto simp: on_db_def batch_commit_def store_metas_def split: prod.splits)

lemma unlink_entry_metas:
  assumes E: "env_ok E" and ids: "is_i64 (iid parent)"
    and un: "unlink_entry E parent child dec st = (Inr r, st')"
  obtains st1 where "dec st = (Inr (), st1)" "r = delete_result_new"
    "store_metas E st' = del_edge (iid parent) (iname child) (put_inode parent (store_metas E st1))"
proof -
  obtain b1 b2 st1 where b: "batch_write_inode E (st_db st) parent [] = Inr b1"
      "batch_delete_child E (st_db st) (iid parent) (iname child) b1 = Inr b2"
      "dec st = (Inr (), st1)" "on_db (batch_commit E b2) st1 = (Inr (), st')" "r = delete_result_new"
    using un by (auto simp: unlink_entry_def bind_op_Inr_iff split: sum.splits)
  show thesis
    using that[OF b(3,5)] on_db_commit_metas[OF E b(4)]
    by (simp add: metas_delete_child[OF ids b(2)] metas_write_inode[OF E ids b(1)])
      (simp add: apply_batch_def store_metas_def)
qed

lemma apply_link_metas:
  assumes E: "env_ok E" and ids: "is_i64 (iid parent)" "is_i64 i"
    and lk: "apply_link E parent entry i st = (Inr (), st')"
  obtains st1 where "increment_inode_nlink E i st = (Inr (), st1)"
    "store_metas E st' = put_edge (iid parent) (iname entry) i (put_inode parent (store_metas E st1))"
proof -
  obtain b1 b2 st1 where b: "batch_write_inode E (st_db st) parent [] = Inr b1"
      "batch_add_child E (st_db st) (iid parent) (iname entry) i b1 = Inr b2"
      "increment_inode_nlink E i st = (Inr (), st1)" "on_db (batch_commit E b2) st1 = (Inr (), st')"
    using lk by (auto simp: apply_link_def bind_op_Inr_iff split: sum.splits)
  show thesis
    using that[OF b(3)] on_db_commit_metas[OF E b(4)]
    by (simp add: metas_add_child[OF E ids b(2)] metas_write_inode[OF E ids(1) b(1)])
      (simp add: apply_batch_def store_metas_def)
qed

end
