(* ===== verification/Journal_Writer.thy ===== *)
theory Journal_Writer
  imports Inode_Tree
begin

text \<open>
  The metadata operation log: the entries (\<^verbatim>\<open>master/journal/entry.rs\<close>) and the writer that
  hands them to the sender thread (\<^verbatim>\<open>journal_writer.rs\<close>). The channel is the list of entries
  sent so far with a flag that says whether its receiver still exists; sending to a full
  bounded channel only waits.
\<close>

record mkdir_entry =
  mke_op_ms :: int
  mke_path :: string
  mke_dir :: inode_dir

record file_entry =
  fe_op_ms :: int
  fe_path :: string
  fe_file :: inode_file

record add_block_entry =
  abe_op_ms :: int
  abe_path :: string
  abe_blocks :: "block_meta list"
  abe_commit_block :: "commit_blk option"

record complete_file_entry =
  cfe_op_ms :: int
  cfe_path :: string
  cfe_file :: inode_file
  cfe_commit_block :: "commit_blk option"

record rename_entry =
  rne_op_ms :: int
  rne_src :: string
  rne_dst :: string
  rne_mtime :: i64

record delete_entry =
  dle_op_ms :: int
  dle_path :: string
  dle_mtime :: i64

record mount_entry =
  mte_op_ms :: int
  mte_info :: mount_info

record unmount_entry =
  ume_op_ms :: int
  ume_id :: u32

record set_attr_entry =
  sae_op_ms :: int
  sae_path :: string
  sae_opts :: set_attr_opts

record symlink_entry =
  sye_op_ms :: int
  sye_link :: string
  sye_new_inode :: inode_file
  sye_force :: bool

record link_entry =
  lke_op_ms :: int
  lke_src_path :: string
  lke_dst_path :: string

datatype journal_entry =
    JMkdir mkdir_entry
  | JCreateFile file_entry
  | JAppendFile file_entry
  | JOverWriteFile file_entry
  | JAddBlock add_block_entry
  | JCompleteFile complete_file_entry
  | JRename rename_entry
  | JDelete delete_entry
  | JMount mount_entry
  | JUnMount unmount_entry
  | JSetAttr set_attr_entry
  | JSymlink symlink_entry
  | JLink link_entry

record journal_writer =
  jw_enable :: bool
  jw_receiver :: bool
  jw_entries :: "journal_entry list"

definition send :: "journal_entry \<Rightarrow> (journal_writer, unit) op" where
  "send entry jw =
     (if jw_enable jw
      then if jw_receiver jw then (Inr (), jw\<lparr>jw_entries := jw_entries jw @ [entry]\<rparr>)
           else (Inl (Common ''sending on a closed channel''), jw)
      else (Inr (), jw))"

text \<open>\<^verbatim>\<open>InodePath::clone_last_dir\<close> and \<^verbatim>\<open>clone_last_file\<close>, read through the pointers of the path. The
  index of the first is that of the last existing inode, also on an incomplete path.\<close>

definition clone_last_dir :: "inode_view \<Rightarrow> inode_path \<Rightarrow> inode_dir res" where
  "clone_last_dir root inp =
     (case Option.bind (get_inode inp (int (length (ip_inodes inp)) - 1)) (deref root) of
        Some v \<Rightarrow> as_dir v
      | None \<Rightarrow> Inl (Common ''status error''))"

definition clone_last_file :: "inode_view \<Rightarrow> inode_path \<Rightarrow> inode_file res" where
  "clone_last_file root inp =
     (case Option.bind (get_last_inode inp) (deref root) of
        Some v \<Rightarrow> if is_file_entry v then Inl (Panic ''assertion failed'') else as_file v
      | None \<Rightarrow> Inl (Common ''status error''))"

definition log_mkdir :: "inode_view \<Rightarrow> int \<Rightarrow> inode_path \<Rightarrow> (journal_writer, unit) op" where
  "log_mkdir root op_ms inp =
     bind_op (lift_res (clone_last_dir root inp)) (\<lambda>dir.
       send (JMkdir \<lparr>mke_op_ms = op_ms, mke_path = ip_path inp, mke_dir = dir\<rparr>))"

definition log_create_file :: "inode_view \<Rightarrow> int \<Rightarrow> inode_path \<Rightarrow> (journal_writer, unit) op" where
  "log_create_file root op_ms inp =
     bind_op (lift_res (clone_last_file root inp)) (\<lambda>f.
       send (JCreateFile \<lparr>fe_op_ms = op_ms, fe_path = ip_path inp, fe_file = f\<rparr>))"

definition log_append_file :: "int \<Rightarrow> string \<Rightarrow> inode_file \<Rightarrow> (journal_writer, unit) op" where
  "log_append_file op_ms path f = send (JAppendFile \<lparr>fe_op_ms = op_ms, fe_path = path, fe_file = f\<rparr>)"

definition log_add_block ::
  "int \<Rightarrow> string \<Rightarrow> inode_file \<Rightarrow> commit_blk option \<Rightarrow> (journal_writer, unit) op" where
  "log_add_block op_ms path f commit =
     send (JAddBlock \<lparr>abe_op_ms = op_ms, abe_path = path, abe_blocks = f_blocks f,
                      abe_commit_block = commit\<rparr>)"

definition log_complete_file ::
  "int \<Rightarrow> string \<Rightarrow> inode_file \<Rightarrow> commit_blk option \<Rightarrow> (journal_writer, unit) op" where
  "log_complete_file op_ms path f commit =
     send (JCompleteFile \<lparr>cfe_op_ms = op_ms, cfe_path = path, cfe_file = f, cfe_commit_block = commit\<rparr>)"

definition log_overwrite_file :: "inode_view \<Rightarrow> int \<Rightarrow> inode_path \<Rightarrow> (journal_writer, unit) op" where
  "log_overwrite_file root op_ms inp =
     bind_op (lift_res (clone_last_file root inp)) (\<lambda>f.
       send (JOverWriteFile \<lparr>fe_op_ms = op_ms, fe_path = ip_path inp, fe_file = f\<rparr>))"

definition log_rename :: "int \<Rightarrow> string \<Rightarrow> string \<Rightarrow> i64 \<Rightarrow> (journal_writer, unit) op" where
  "log_rename op_ms src dst mtime =
     send (JRename \<lparr>rne_op_ms = op_ms, rne_src = src, rne_dst = dst, rne_mtime = mtime\<rparr>)"

definition log_delete :: "int \<Rightarrow> string \<Rightarrow> i64 \<Rightarrow> (journal_writer, unit) op" where
  "log_delete op_ms path mtime =
     send (JDelete \<lparr>dle_op_ms = op_ms, dle_path = path, dle_mtime = mtime\<rparr>)"

definition log_mount :: "int \<Rightarrow> mount_info \<Rightarrow> (journal_writer, unit) op" where
  "log_mount op_ms info = send (JMount \<lparr>mte_op_ms = op_ms, mte_info = info\<rparr>)"

definition log_unmount :: "int \<Rightarrow> u32 \<Rightarrow> (journal_writer, unit) op" where
  "log_unmount op_ms i = send (JUnMount \<lparr>ume_op_ms = op_ms, ume_id = i\<rparr>)"

definition log_set_attr :: "int \<Rightarrow> inode_path \<Rightarrow> set_attr_opts \<Rightarrow> (journal_writer, unit) op" where
  "log_set_attr op_ms inp opts =
     send (JSetAttr \<lparr>sae_op_ms = op_ms, sae_path = ip_path inp, sae_opts = opts\<rparr>)"

definition log_symlink :: "int \<Rightarrow> string \<Rightarrow> inode_file \<Rightarrow> bool \<Rightarrow> (journal_writer, unit) op" where
  "log_symlink op_ms link new_inode force =
     send (JSymlink \<lparr>sye_op_ms = op_ms, sye_link = link, sye_new_inode = new_inode, sye_force = force\<rparr>)"

definition log_link :: "int \<Rightarrow> string \<Rightarrow> string \<Rightarrow> (journal_writer, unit) op" where
  "log_link op_ms src_path dst_path =
     send (JLink \<lparr>lke_op_ms = op_ms, lke_src_path = src_path, lke_dst_path = dst_path\<rparr>)"

definition take_entries :: "journal_writer \<Rightarrow> journal_entry list \<times> journal_writer" where
  "take_entries jw = (jw_entries jw, jw\<lparr>jw_entries := []\<rparr>)"

record journal_batch =
  jb_seq_id :: int
  jb_batch :: "journal_entry list"

definition batch_push :: "journal_entry \<Rightarrow> journal_batch \<Rightarrow> journal_batch" where
  "batch_push entry b = b\<lparr>jb_batch := jb_batch b @ [entry]\<rparr>"

definition batch_next :: "journal_batch \<Rightarrow> journal_batch" where
  "batch_next b = b\<lparr>jb_seq_id := (jb_seq_id b + 1) mod 2 ^ 64, jb_batch := []\<rparr>"

end
