(* ===== verification/Fs_Dir.thy ===== *)
theory Fs_Dir
  imports Inode_Store Journal_Writer
begin

text \<open>
  \<^verbatim>\<open>FsDir\<close> (\<^verbatim>\<open>master/meta/fs_dir.rs\<close>): the operations on the directory tree. Each changes the tree
  in memory through pointers, writes the store, and appends to the journal. The readings of
  \<^verbatim>\<open>LocalTime::mills()\<close> are those of an arbitrary clock that is part of the state; reading
  through a pointer whose target is gone is undefined behaviour in the code and a \<open>Panic\<close> here.
\<close>

record 'db fs_dir =
  fd_root :: inode_view
  fd_inode_id :: i64
  fd_store :: "'db inode_store"
  fd_journal :: journal_writer
  fd_clock :: "nat \<Rightarrow> int"
  fd_tick :: nat

subsection \<open>Access to the parts\<close>

definition now_ms :: "('db fs_dir, int) op" where
  "now_ms s = (Inr (fd_clock s (fd_tick s)), s\<lparr>fd_tick := Suc (fd_tick s)\<rparr>)"

definition on_store :: "('db inode_store, 'a) op \<Rightarrow> ('db fs_dir, 'a) op" where
  "on_store m s = (let (r, st) = m (fd_store s) in (r, s\<lparr>fd_store := st\<rparr>))"

definition on_journal :: "(journal_writer, 'a) op \<Rightarrow> ('db fs_dir, 'a) op" where
  "on_journal m s = (let (r, jw) = m (fd_journal s) in (r, s\<lparr>fd_journal := jw\<rparr>))"

definition next_inode_id :: "('db fs_dir, i64) op" where
  "next_inode_id s = (let (r, c) = next_id (fd_inode_id s) in (r, s\<lparr>fd_inode_id := c\<rparr>))"

definition read_ptr :: "inode_ptr \<Rightarrow> ('db fs_dir, inode_view) op" where
  "read_ptr ptr s =
     (case deref (fd_root s) ptr of
        Some v \<Rightarrow> (Inr v, s)
      | None \<Rightarrow> (Inl (Panic ''dangling pointer''), s))"

text \<open>Running a method of \<^verbatim>\<open>InodeView\<close> through a pointer: the node in the tree changes, or the owned
  copy does, which the pointer then refers to. Both change also when the method fails.\<close>

definition on_ptr :: "inode_ptr \<Rightarrow> (inode_view, 'a) op \<Rightarrow> ('db fs_dir, 'a \<times> inode_ptr) op" where
  "on_ptr ptr m s =
     (case deref (fd_root s) ptr of
        None \<Rightarrow> (Inl (Panic ''dangling pointer''), s)
      | Some v \<Rightarrow>
          (let (r, v') = m v;
               (ptr', s') = (case ptr of
                   Ref p \<Rightarrow> (Ref p, s\<lparr>fd_root := tree_put (fd_root s) p v'\<rparr>)
                 | Owned _ \<Rightarrow> (Owned v', s))
           in (map_sum id (\<lambda>a. (a, ptr')) r, s')))"

definition pure_op :: "(inode_view \<Rightarrow> inode_view) \<Rightarrow> (inode_view, unit) op" where
  "pure_op f v = (Inr (), f v)"

text \<open>A pointer a method returned, relative to the pointer it was called through.\<close>

definition rebase :: "inode_ptr \<Rightarrow> inode_ptr \<Rightarrow> inode_ptr" where
  "rebase base ptr =
     (case (base, ptr) of (Ref p, Ref q) \<Rightarrow> Ref (p @ q) | _ \<Rightarrow> ptr)"

definition store_loader ::
  "('db, 'b) meta_env \<Rightarrow> 'db fs_dir \<Rightarrow> i64 \<Rightarrow> string \<Rightarrow> inode_view option res" where
  "store_loader E s i name = store_get_inode E (fd_store s) i (Some name)"

definition resolve_path :: "('db, 'b) meta_env \<Rightarrow> 'db fs_dir \<Rightarrow> string \<Rightarrow> inode_path res" where
  "resolve_path E s path = resolve (store_loader E s) (fd_root s) path"

subsection \<open>Creating directories and files\<close>

definition add_last_inode ::
  "('db, 'b) meta_env \<Rightarrow> inode_view \<Rightarrow> inode_path \<Rightarrow> ('db fs_dir, inode_path) op" where
  "add_last_inode E child inp s =
     (if is_full inp \<or> ip_is_root inp then (Inr inp, s)
      else case get_inode inp (int (existing_len inp) - 1) of
        None \<Rightarrow> (Inl (Common ''Parent path not exists''), s)
      | Some parent \<Rightarrow>
          bind_op (read_ptr parent) (\<lambda>v.
          if \<not> is_dir v then (\<lambda>s. (Inl (Common ''Parent path is not a directory''), s))
          else bind_op (on_ptr parent (pure_op (update_mtime (imtime child)))) (\<lambda>_.
          bind_op (on_ptr parent (add_child child)) (\<lambda>(added, _).
          bind_op (read_ptr parent) (\<lambda>pv.
          bind_op (read_ptr (rebase parent added)) (\<lambda>cv.
          bind_op now_ms (\<lambda>now.
          bind_op (on_store (apply_add E now pv cv)) (\<lambda>_.
          lift_res (ip_append (iname cv) (rebase parent added) inp)))))))) s)"

definition create_single_dir ::
  "('db, 'b) meta_env \<Rightarrow> mkdir_opts \<Rightarrow> inode_path \<Rightarrow> ('db fs_dir, inode_path) op" where
  "create_single_dir E opts inp =
     bind_op now_ms (\<lambda>op_ms.
     if is_full inp \<or> ip_is_root inp then (\<lambda>s. (Inr inp, s))
     else bind_op (lift_res (get_component inp (existing_len inp - 1 + 1))) (\<lambda>name.
     bind_op next_inode_id (\<lambda>i.
     bind_op now_ms (\<lambda>time.
     bind_op (add_last_inode E (Dir name (dir_with_opts i time opts) new_map) inp) (\<lambda>inp.
     bind_op (\<lambda>s. on_journal (log_mkdir (fd_root s) op_ms inp) s) (\<lambda>_ s. (Inr inp, s)))))))"

fun create_dirs ::
  "('db, 'b) meta_env \<Rightarrow> mkdir_opts \<Rightarrow> nat \<Rightarrow> inode_path \<Rightarrow> ('db fs_dir, inode_path) op" where
  "create_dirs E opts 0 inp s = (Inr inp, s)"
| "create_dirs E opts (Suc n) inp s =
     bind_op (create_single_dir E opts inp) (create_dirs E opts n) s"

text \<open>The loop \<^verbatim>\<open>while index <= inp.len() - 2\<close> starts at \<^verbatim>\<open>existing_len\<close>.\<close>

definition create_parent_dir ::
  "('db, 'b) meta_env \<Rightarrow> mkdir_opts \<Rightarrow> inode_path \<Rightarrow> ('db fs_dir, inode_path) op" where
  "create_parent_dir E opts inp =
     (let index = existing_len inp; len = length (ip_components inp) in
      if is_full inp \<or> index + 1 \<ge> len then (\<lambda>s. (Inr inp, s))
      else create_dirs E opts (len - 1 - index) inp)"

definition mkdir ::
  "('db, 'b) meta_env \<Rightarrow> mkdir_opts \<Rightarrow> inode_path \<Rightarrow> ('db fs_dir, inode_path) op" where
  "mkdir E opts inp =
     bind_op (create_parent_dir E (parent_opts opts) inp) (\<lambda>inp.
     create_single_dir E opts inp)"

definition create_file ::
  "('db, 'b) meta_env \<Rightarrow> create_file_opts \<Rightarrow> inode_path \<Rightarrow> ('db fs_dir, inode_path) op" where
  "create_file E opts inp =
     bind_op now_ms (\<lambda>op_ms.
     if get_last_inode inp \<noteq> None then (\<lambda>s. (Inl (FileAlreadyExists (ip_path inp)), s))
     else bind_op (create_parent_dir E (dir_opts opts) inp) (\<lambda>inp.
     bind_op next_inode_id (\<lambda>i.
     bind_op now_ms (\<lambda>time.
     bind_op (add_last_inode E (File (ip_name inp) (file_with_opts i time opts)) inp) (\<lambda>inp.
     bind_op (\<lambda>s. on_journal (log_create_file (fd_root s) op_ms inp) s) (\<lambda>_ s. (Inr inp, s)))))))"

subsection \<open>Deleting and renaming\<close>

definition unprotected_delete ::
  "('db, 'b) meta_env \<Rightarrow> i64 \<Rightarrow> inode_path \<Rightarrow> ('db fs_dir, delete_result) op" where
  "unprotected_delete E mtime inp =
     (case get_last_inode inp of
        None \<Rightarrow> (\<lambda>s. (Inl (Common ''Path not exists''), s))
      | Some target \<Rightarrow>
     (case get_inode inp (-2) of
        None \<Rightarrow> (\<lambda>s. (Inl (Common ''Abnormal data status''), s))
      | Some parent \<Rightarrow>
          bind_op (on_ptr parent (pure_op (update_mtime mtime))) (\<lambda>_.
          bind_op (read_ptr target) (\<lambda>child.
          bind_op (read_ptr parent) (\<lambda>pv.
          bind_op
            (case child of
               File n f \<Rightarrow>
                 if f_nlink f > 1
                 then bind_op (on_ptr target (pure_op (\<lambda>_. File n (snd (decrement_nlink f))))) (\<lambda>(_, target').
                      bind_op (read_ptr target') (\<lambda>child'.
                      on_store (apply_unlink E pv child')))
                 else on_store (apply_delete E pv child)
             | FileEntry _ i \<Rightarrow> on_store (apply_unlink_file_entry E pv child i)
             | Dir _ _ _ \<Rightarrow> on_store (apply_delete E pv child)) (\<lambda>del_res.
          bind_op (on_ptr parent (delete_child (iid child) (ip_name inp))) (\<lambda>_ s.
            (Inr del_res, s))))))))"

definition delete ::
  "('db, 'b) meta_env \<Rightarrow> bool \<Rightarrow> inode_path \<Rightarrow> ('db fs_dir, delete_result) op" where
  "delete E recursive inp =
     bind_op now_ms (\<lambda>op_ms s.
       if \<not> is_full inp then (Inl (Common ''Path not exists''), s)
       else if \<not> is_empty_dir (fd_root s) inp \<and> \<not> recursive then (Inl (Common ''is non empty''), s)
       else bind_op (unprotected_delete E op_ms inp) (\<lambda>del_res.
            bind_op (on_journal (log_delete op_ms (ip_path inp) op_ms)) (\<lambda>_ s.
              (Inr del_res, s))) s)"

text \<open>The name and the parent a node gets: under the destination when that is a directory, at the
  destination when it does not exist.\<close>

definition rename_target ::
  "inode_path \<Rightarrow> inode_path \<Rightarrow> ('db fs_dir, string \<times> inode_ptr) op" where
  "rename_target src_inp dst_inp =
     (case get_last_inode dst_inp of
        Some v \<Rightarrow>
          bind_op (read_ptr v) (\<lambda>dv s.
            if is_dir dv then (Inr (ip_name src_inp, v), s)
            else (Inl (Common ''Rename failed, because dst is exists''), s))
      | None \<Rightarrow>
          (case get_inode dst_inp (-2) of
             Some v \<Rightarrow> (\<lambda>s. (Inr (ip_name dst_inp, v), s))
           | None \<Rightarrow> (\<lambda>s. (Inl (Common ''Parent does not exist''), s))))"

definition unprotected_rename ::
  "('db, 'b) meta_env \<Rightarrow> i64 \<Rightarrow> inode_path \<Rightarrow> inode_path \<Rightarrow> ('db fs_dir, unit) op" where
  "unprotected_rename E mtime src_inp dst_inp =
     (case get_last_inode src_inp of
        None \<Rightarrow> (\<lambda>s. (Inl (Common ''File not exits''), s))
      | Some src_inode \<Rightarrow>
     bind_op (read_ptr src_inode) (\<lambda>src_v.
     if is_file_entry src_v then (\<lambda>s. (Inl (Panic ''assertion failed''), s))
     else (case get_inode src_inp (-2) of
        None \<Rightarrow> (\<lambda>s. (Inl (Common ''Parent not exits''), s))
      | Some src_parent \<Rightarrow>
     bind_op (rename_target src_inp dst_inp) (\<lambda>(new_name, dst_parent).
     let new_inode = change_name new_name (update_mtime mtime src_v) in
     bind_op (on_ptr src_parent (pure_op (update_mtime mtime))) (\<lambda>_.
     bind_op (on_ptr dst_parent (pure_op (update_mtime mtime))) (\<lambda>_.
     bind_op (read_ptr src_parent) (\<lambda>spv.
     bind_op (read_ptr src_inode) (\<lambda>sv.
     bind_op (read_ptr dst_parent) (\<lambda>dpv.
     bind_op (on_store (apply_rename E spv sv dpv new_inode)) (\<lambda>_.
     bind_op (on_ptr src_parent (delete_child (iid sv) (iname sv))) (\<lambda>_.
     bind_op (on_ptr dst_parent (add_child new_inode)) (\<lambda>_ s. (Inr (), s)))))))))))))"

definition rename ::
  "('db, 'b) meta_env \<Rightarrow> inode_path \<Rightarrow> inode_path \<Rightarrow> ('db fs_dir, bool) op" where
  "rename E src_inp dst_inp =
     bind_op now_ms (\<lambda>op_ms.
     bind_op (unprotected_rename E op_ms src_inp dst_inp) (\<lambda>_.
     bind_op (on_journal (log_rename op_ms (ip_path src_inp) (ip_path dst_inp) op_ms)) (\<lambda>_ s.
       (Inr True, s))))"

subsection \<open>Status\<close>

definition dir_file_status :: "inode_path \<Rightarrow> ('db fs_dir, file_status) op" where
  "dir_file_status inp =
     (case get_last_inode inp of
        None \<Rightarrow> (\<lambda>s. (Inl (FileNotFound (ip_path inp)), s))
      | Some ptr \<Rightarrow>
          bind_op (read_ptr ptr) (\<lambda>v s.
            if is_file_entry v then (Inl (Panic ''assertion failed''), s)
            else (to_file_status (ip_path inp) v, s)))"

fun list_children ::
  "('db, 'b) meta_env \<Rightarrow> 'db inode_store \<Rightarrow> inode_path \<Rightarrow> inode_view list \<Rightarrow> file_status list res" where
  "list_children E st inp [] = Inr []"
| "list_children E st inp (item # items) =
     bind_res
       (case item of
          FileEntry n i \<Rightarrow>
            bind_res (store_get_inode E st i (Some n)) (\<lambda>o'.
              case o' of
                None \<Rightarrow> Inr []
              | Some v \<Rightarrow> bind_res (to_file_status (child_path inp (iname item)) v) (\<lambda>x. Inr [x]))
        | _ \<Rightarrow> bind_res (to_file_status (child_path inp (iname item)) item) (\<lambda>x. Inr [x]))
       (\<lambda>xs. bind_res (list_children E st inp items) (\<lambda>ys. Inr (xs @ ys)))"

definition dir_list_status ::
  "('db, 'b) meta_env \<Rightarrow> inode_path \<Rightarrow> ('db fs_dir, file_status list) op" where
  "dir_list_status E inp =
     (case get_last_inode inp of
        None \<Rightarrow> (\<lambda>s. (Inl (Common ''File not exists''), s))
      | Some ptr \<Rightarrow>
          bind_op (read_ptr ptr) (\<lambda>v s.
            case v of
              File _ _ \<Rightarrow> (bind_res (to_file_status (ip_path inp) v) (\<lambda>x. Inr [x]), s)
            | Dir _ _ ch \<Rightarrow> (list_children E (fd_store s) inp (children_iter ch), s)
            | FileEntry _ _ \<Rightarrow> (Inl (Panic ''assertion failed''), s)))"

subsection \<open>Writing files\<close>

fun file_op :: "(inode_file, 'a) op \<Rightarrow> (inode_view, 'a) op" where
  "file_op m (File n f) = (let (r, f') = m f in (r, File n f'))"
| "file_op m (Dir n d ch) = (Inl (Common ''Not a file''), Dir n d ch)"
| "file_op m (FileEntry n i) = (Inl (Common ''FileEntry is cannot be mutated''), FileEntry n i)"

definition acquire_new_block ::
  "('db, 'b) meta_env \<Rightarrow> inode_path \<Rightarrow> commit_blk option \<Rightarrow> worker_address list \<Rightarrow>
   ('db fs_dir, extended_block) op" where
  "acquire_new_block E inp commit choose_workers =
     bind_op now_ms (\<lambda>op_ms.
     bind_op (lift_res (try_option ''Option is none'' (get_last_inode inp))) (\<lambda>ptr.
     bind_op (on_ptr ptr (file_op (acquire_on_file commit choose_workers))) (\<lambda>((block, fresh), ptr').
     if \<not> fresh then (\<lambda>s. (Inr block, s))
     else bind_op (read_ptr ptr') (\<lambda>v.
     bind_op (on_store (apply_new_block E v commit)) (\<lambda>_.
     bind_op (lift_res (as_file v)) (\<lambda>f.
     bind_op (on_journal (log_add_block op_ms (ip_path inp) f commit)) (\<lambda>_ s.
       (Inr block, s))))))))"

definition complete_file ::
  "('db, 'b) meta_env \<Rightarrow> inode_path \<Rightarrow> i64 \<Rightarrow> commit_blk option \<Rightarrow> ('db fs_dir, bool) op" where
  "complete_file E inp len commit =
     bind_op now_ms (\<lambda>op_ms.
     bind_op (lift_res (try_option ''Option is none'' (get_last_inode inp))) (\<lambda>ptr.
     bind_op now_ms (\<lambda>now.
     bind_op (on_ptr ptr (file_op (complete_on_file now len commit))) (\<lambda>(done', ptr').
     if \<not> done' then (\<lambda>s. (Inr False, s))
     else bind_op (read_ptr ptr') (\<lambda>v.
     bind_op (on_store (apply_complete_file E v commit)) (\<lambda>_.
     bind_op (lift_res (as_file v)) (\<lambda>f.
     bind_op (on_journal (log_complete_file op_ms (ip_path inp) f commit)) (\<lambda>_ s.
       (Inr True, s)))))))))"

definition append_file ::
  "('db, 'b) meta_env \<Rightarrow> inode_path \<Rightarrow> string \<Rightarrow>
   ('db fs_dir, extended_block option \<times> file_status) op" where
  "append_file E inp client_name =
     bind_op now_ms (\<lambda>op_ms.
     case get_last_inode inp of
       None \<Rightarrow> (\<lambda>s. (Inl (FileNotFound (ip_path inp)), s))
     | Some ptr \<Rightarrow>
         bind_op (read_ptr ptr) (\<lambda>v.
         case v of
           FileEntry _ _ \<Rightarrow> (\<lambda>s. (Inl (Panic ''assertion failed''), s))
         | Dir _ _ _ \<Rightarrow> (\<lambda>s. (Inl (FileAlreadyExists ''Cannot append to already exists directory''), s))
         | File n f \<Rightarrow>
             if \<not> is_complete f then (\<lambda>s. (Inl (Common ''Cannot append not complete file''), s))
             else let (last_block, f') = append_to client_name f in
               bind_op (lift_res (to_file_status (ip_path inp) (File n f'))) (\<lambda>status.
               bind_op (on_store (apply_append_file E (File n f'))) (\<lambda>_.
               bind_op (on_journal (log_append_file op_ms (ip_path inp) f')) (\<lambda>_ s.
                 (Inr (last_block, status), s))))))"

definition block_exists :: "('db, 'b) meta_env \<Rightarrow> i64 \<Rightarrow> ('db fs_dir, bool) op" where
  "block_exists E block_id s =
     (bind_res (store_get_inode E (fd_store s) (get_id block_id) None) (\<lambda>v.
        case v of
          None \<Rightarrow> Inr False
        | Some v \<Rightarrow> if is_file v then Inr True
                    else Inl (Common ''block_id resolves to inode_id which is not a file'')), s)"

text \<open>\<^verbatim>\<open>if let Ok(locations) = ...\<close>: a block whose locations cannot be read is left out.\<close>

fun overwritten_blocks ::
  "('db, 'b) meta_env \<Rightarrow> 'db \<Rightarrow> block_meta list \<Rightarrow> (i64 \<times> block_location list) list \<Rightarrow>
   (i64 \<times> block_location list) list" where
  "overwritten_blocks E db [] acc = acc"
| "overwritten_blocks E db (meta # metas) acc =
     overwritten_blocks E db metas
       (case get_locations E db (bm_id meta) of Inl _ \<Rightarrow> acc | Inr locs \<Rightarrow> bt_insert (bm_id meta) locs acc)"

text \<open>The inode is changed through the last pointer of the path, which the caller reads again: the
  path with the changed inode is part of the result.\<close>

definition overwrite_file ::
  "('db, 'b) meta_env \<Rightarrow> create_file_opts \<Rightarrow> inode_path \<Rightarrow> ('db fs_dir, delete_result \<times> inode_path) op" where
  "overwrite_file E opts inp =
     bind_op now_ms (\<lambda>op_ms.
     case get_last_inode inp of
       None \<Rightarrow> (\<lambda>s. (Inl (FileNotFound (ip_path inp)), s))
     | Some ptr \<Rightarrow>
         bind_op (read_ptr ptr) (\<lambda>v.
         if \<not> is_file v then (\<lambda>s. (Inl (Common ''Path is not a file''), s))
         else bind_op (lift_res (as_file v)) (\<lambda>f s.
           let blocks = overwritten_blocks E (st_db (fd_store s)) (f_blocks f) [] in
           bind_op (on_ptr ptr (file_op (\<lambda>f. (Inr (), overwrite_meta opts op_ms f)))) (\<lambda>(_, ptr').
           bind_op (read_ptr ptr') (\<lambda>v'.
           bind_op (on_store (apply_overwrite_file E v')) (\<lambda>_.
           let inp' = inp\<lparr>ip_inodes := butlast (ip_inodes inp) @ [ptr']\<rparr> in
           bind_op (\<lambda>s. on_journal (log_overwrite_file (fd_root s) op_ms inp') s) (\<lambda>_ s.
             (Inr (\<lparr>dr_inodes = 0, dr_blocks = blocks\<rparr>, inp'), s))))) s)))"

subsection \<open>Ids, block reports and mount points\<close>

definition update_last_inode_id :: "i64 \<Rightarrow> ('db fs_dir, unit) op" where
  "update_last_inode_id new_value s =
     (if new_value > fd_inode_id s
      then let (r, c) = reset_id new_value (fd_inode_id s) in (r, s\<lparr>fd_inode_id := c\<rparr>)
      else (Inr (), s))"

text \<open>The directory tree of a store that was opened, and the one of a store that was replaced by a
  checkpoint: \<open>reopen\<close> stands for the file operations of \<^verbatim>\<open>InodeStore::restore\<close>. \<open>None\<close> is a rebuild that
  ran out of fuel.\<close>

definition fs_dir_new ::
  "('db, 'b) meta_env \<Rightarrow> nat \<Rightarrow> 'db inode_store \<Rightarrow> journal_writer \<Rightarrow> (nat \<Rightarrow> int) \<Rightarrow> 'db fs_dir res option" where
  "fs_dir_new E fuel store jw clock =
     (case create_tree E (clock 0) fuel store of
        None \<Rightarrow> None
      | Some (Inl e, _) \<Rightarrow> Some (Inl e)
      | Some (Inr (last_inode_id, root), st) \<Rightarrow>
          Some (case update_last_inode_id last_inode_id
                  \<lparr>fd_root = root, fd_inode_id = ROOT_INODE_ID, fd_store = st, fd_journal = jw,
                   fd_clock = clock, fd_tick = 1\<rparr> of
                  (Inl e, _) \<Rightarrow> Inl e
                | (Inr _, s) \<Rightarrow> Inr s))"

definition dir_restore ::
  "('db, 'b) meta_env \<Rightarrow> nat \<Rightarrow> ('db inode_store, unit) op \<Rightarrow> 'db fs_dir \<Rightarrow> (unit res \<times> 'db fs_dir) option" where
  "dir_restore E fuel reopen s =
     (case on_store reopen (s\<lparr>fd_root := create_root\<rparr>) of
        (Inl e, s) \<Rightarrow> Some (Inl e, s)
      | (Inr _, s) \<Rightarrow>
          (case create_tree E (fd_clock s (fd_tick s)) fuel (fd_store s) of
             None \<Rightarrow> None
           | Some (Inl e, st) \<Rightarrow> Some (Inl e, s\<lparr>fd_store := st, fd_tick := Suc (fd_tick s)\<rparr>)
           | Some (Inr (last_inode_id, root), st) \<Rightarrow>
               Some (update_last_inode_id last_inode_id
                 (s\<lparr>fd_root := root, fd_store := st, fd_tick := Suc (fd_tick s)\<rparr>))))"

fun report_batch ::
  "('db, 'b) meta_env \<Rightarrow> 'db \<Rightarrow> (bool \<times> i64 \<times> block_location) list \<Rightarrow> 'b batch \<Rightarrow> 'b batch res" where
  "report_batch E db [] batch = Inr batch"
| "report_batch E db ((add, i, loc) # blocks) batch =
     bind_res (if add then batch_add_location E db i loc batch
               else batch_delete_location E db i (bl_worker_id loc) batch)
       (report_batch E db blocks)"

definition dir_block_report ::
  "('db, 'b) meta_env \<Rightarrow> (bool \<times> i64 \<times> block_location) list \<Rightarrow> ('db fs_dir, unit) op" where
  "dir_block_report E blocks = on_store (run_batch E (\<lambda>db. report_batch E db blocks))"

definition dir_delete_locations :: "('db, 'b) meta_env \<Rightarrow> u32 \<Rightarrow> ('db fs_dir, i64 list) op" where
  "dir_delete_locations E worker_id = on_store (on_db (rocks_delete_locations E worker_id))"

definition store_mount :: "('db, 'b) meta_env \<Rightarrow> mount_info \<Rightarrow> bool \<Rightarrow> ('db fs_dir, unit) op" where
  "store_mount E info send_log =
     bind_op now_ms (\<lambda>op_ms.
     bind_op (on_store (on_db (add_mountpoint E (mi_mount_id info) info))) (\<lambda>_.
     if send_log then on_journal (log_mount op_ms info) else (\<lambda>s. (Inr (), s))))"

definition dir_unmount :: "('db, 'b) meta_env \<Rightarrow> u32 \<Rightarrow> ('db fs_dir, unit) op" where
  "dir_unmount E i =
     bind_op now_ms (\<lambda>op_ms.
     bind_op (on_store (on_db (remove_mountpoint E i))) (\<lambda>_.
     on_journal (log_unmount op_ms i)))"

subsection \<open>Attributes and links\<close>

text \<open>The nodes still to visit carry the node as it was when it was queued; its children do not
  change meanwhile. A file is loaded from the store into an owned pointer, which is freed
  when the loop turn ends: the copy of the pointer kept in the list of changed inodes
  dangles, here \<open>None\<close>.\<close>

definition queue_child ::
  "('db, 'b) meta_env \<Rightarrow> 'db inode_store \<Rightarrow> inode_ptr \<Rightarrow> inode_view \<Rightarrow>
   (inode_ptr \<times> inode_view) list res" where
  "queue_child E st cur child =
     (case child of
        FileEntry n i \<Rightarrow>
          bind_res (store_get_inode E st i (Some n)) (\<lambda>full.
            Inr (case full of None \<Rightarrow> [] | Some v \<Rightarrow> [(Owned v, v)]))
      | _ \<Rightarrow> Inr [(rebase cur (Ref [iname child]), child)])"

fun queue_children ::
  "('db, 'b) meta_env \<Rightarrow> 'db inode_store \<Rightarrow> inode_ptr \<Rightarrow> inode_view list \<Rightarrow>
   (inode_ptr \<times> inode_view) list res" where
  "queue_children E st cur [] = Inr []"
| "queue_children E st cur (child # rest) =
     bind_res (queue_child E st cur child) (\<lambda>xs.
     bind_res (queue_children E st cur rest) (\<lambda>ys. Inr (xs @ ys)))"

text \<open>A loaded inode has no children: they are not serialized.\<close>

definition queued_kids :: "inode_ptr \<Rightarrow> inode_view \<Rightarrow> inode_view list" where
  "queued_kids ptr v = (case ptr of Owned _ \<Rightarrow> [] | Ref _ \<Rightarrow> children v)"

definition queue_size :: "(inode_ptr \<times> inode_view) list \<Rightarrow> nat" where
  "queue_size q = sum_list (map (\<lambda>(ptr, v). case ptr of Owned _ \<Rightarrow> 1 | Ref _ \<Rightarrow> Suc (size v)) q)"

lemma queue_size_simps [simp]:
  "queue_size [] = 0" "queue_size (xs @ ys) = queue_size xs + queue_size ys"
  "queue_size ((Owned u, v) # xs) = Suc (queue_size xs)"
  "queue_size ((Ref p, v) # xs) = Suc (size v + queue_size xs)"
  by (simp_all add: queue_size_def)

lemma queue_child_size:
  assumes "queue_child E st cur c = Inr q" shows "queue_size q \<le> Suc (size c)"
proof (cases c)
  case (FileEntry n i)
  obtain x where x: "q = (case x of None \<Rightarrow> [] | Some v \<Rightarrow> [(Owned v, v)])"
    using assms unfolding FileEntry queue_child_def inode_view.case bind_res_Inr_iff by blast
  then show ?thesis by (cases x) simp_all
next
  case (File n f)
  have "q = [(rebase cur (Ref [iname c]), c)]" using assms by (simp only: File queue_child_def) simp
  then show ?thesis by (cases cur) (simp_all add: rebase_def)
next
  case (Dir n d ch)
  have "q = [(rebase cur (Ref [iname c]), c)]" using assms by (simp only: Dir queue_child_def) simp
  then show ?thesis by (cases cur) (simp_all add: rebase_def)
qed

lemma queue_children_size:
  "queue_children E st cur cs = Inr q \<Longrightarrow> queue_size q \<le> sum_list (map (\<lambda>c. Suc (size c)) cs)"
proof (induction cs arbitrary: q)
  case (Cons c cs)
  obtain xs ys where "queue_child E st cur c = Inr xs" "queue_children E st cur cs = Inr ys" "q = xs @ ys"
    using Cons.prems by (auto simp: bind_res_Inr_iff)
  then show ?case using queue_child_size[of E st cur c xs] Cons.IH[of ys] by simp
qed simp

lemma children_size: "sum_list (map (\<lambda>c. Suc (size c)) (children v)) < Suc (size v)"
  using stack_size_children[of 0] by (cases v) (auto simp: stack_size_def comp_def less_Suc_eq)

lemma queued_kids_size:
  assumes "queue_children E st cur (queued_kids ptr v) = Inr q"
  shows "queue_size q < (case ptr of Owned _ \<Rightarrow> 1 | Ref _ \<Rightarrow> Suc (size v))"
  using queue_children_size[OF assms] children_size[of v]
  by (cases ptr) (auto simp: queued_kids_def)

text \<open>The recursive part of \<^verbatim>\<open>unprotected_set_attr\<close>.\<close>

function set_attr_loop ::
  "('db, 'b) meta_env \<Rightarrow> set_attr_opts \<Rightarrow> i64 \<Rightarrow> (inode_ptr \<times> inode_view) list \<Rightarrow>
   inode_ptr option list \<Rightarrow> ('db fs_dir, inode_ptr option list) op" where
  "set_attr_loop E opts top_id [] changed s = (Inr changed, s)"
| "set_attr_loop E opts top_id ((ptr, v) # queue) changed s =
     (case (if iid v \<noteq> top_id then on_ptr ptr (set_attr opts) s else (Inr ((), ptr), s)) of
        (Inl e, s') \<Rightarrow> (Inl e, s')
      | (Inr _, s') \<Rightarrow>
          (case queue_children E (fd_store s') ptr (queued_kids ptr v) of
             Inl e \<Rightarrow> (Inl e, s')
           | Inr kids \<Rightarrow>
               set_attr_loop E opts top_id (queue @ kids)
                 (if iid v \<noteq> top_id
                  then changed @ [case ptr of Owned _ \<Rightarrow> None | Ref _ \<Rightarrow> Some ptr] else changed) s'))"
  by pat_completeness auto
termination
  by (relation "measure (\<lambda>(E, opts, i, q, changed, s). queue_size q)")
    (auto dest!: queued_kids_size split: inode_ptr.splits)

fun read_ptrs :: "inode_ptr option list \<Rightarrow> ('db fs_dir, inode_view list) op" where
  "read_ptrs [] s = (Inr [], s)"
| "read_ptrs (None # ps) s = (Inl (Panic ''dangling pointer''), s)"
| "read_ptrs (Some p # ps) s =
     bind_op (read_ptr p) (\<lambda>v. bind_op (read_ptrs ps) (\<lambda>vs s. (Inr (v # vs), s))) s"

definition unprotected_set_attr ::
  "('db, 'b) meta_env \<Rightarrow> inode_ptr \<Rightarrow> set_attr_opts \<Rightarrow> ('db fs_dir, unit) op" where
  "unprotected_set_attr E ptr opts =
     bind_op (on_ptr ptr (set_attr opts)) (\<lambda>(_, ptr).
     bind_op (read_ptr ptr) (\<lambda>v.
     bind_op (if so_recursive opts then set_attr_loop E (child_opts opts) (iid v) [(ptr, v)] [Some ptr]
              else (\<lambda>s. (Inr [Some ptr], s))) (\<lambda>change_inodes.
     bind_op (read_ptrs change_inodes) (\<lambda>vs.
     bind_op now_ms (\<lambda>now. on_store (apply_set_attr E now vs))))))"

definition dir_set_attr ::
  "('db, 'b) meta_env \<Rightarrow> inode_path \<Rightarrow> set_attr_opts \<Rightarrow> ('db fs_dir, unit) op" where
  "dir_set_attr E inp opts =
     bind_op now_ms (\<lambda>op_ms.
     case get_last_inode inp of
       None \<Rightarrow> (\<lambda>s. (Inl (FileNotFound (ip_path inp)), s))
     | Some ptr \<Rightarrow>
         bind_op (unprotected_set_attr E ptr opts) (\<lambda>_.
         on_journal (log_set_attr op_ms inp opts)))"

definition unprotected_symlink ::
  "('db, 'b) meta_env \<Rightarrow> inode_path \<Rightarrow> inode_file \<Rightarrow> bool \<Rightarrow> ('db fs_dir, inode_path) op" where
  "unprotected_symlink E link new_inode force =
     (case get_inode link (-2) of
        None \<Rightarrow> (\<lambda>s. (Inl (Common ''Directory does not exist''), s))
      | Some parent \<Rightarrow>
          bind_op
            (case get_last_inode link of
               None \<Rightarrow> (\<lambda>s. (Inr None, s))
             | Some ptr \<Rightarrow>
                 bind_op (read_ptr ptr) (\<lambda>v s.
                   if \<not> is_link v \<or> is_link v \<and> \<not> force then (Inl (FileAlreadyExists (ip_path link)), s)
                   else (Inr (Some ptr), s))) (\<lambda>old_inode.
          bind_op (on_ptr parent (pure_op (update_mtime (f_mtime new_inode)))) (\<lambda>_.
          bind_op
            (case old_inode of
               Some ptr \<Rightarrow>
                 bind_op (on_ptr ptr (pure_op (\<lambda>_. File (ip_name link) new_inode))) (\<lambda>(_, ptr') s.
                   (Inr (ptr', link\<lparr>ip_inodes := butlast (ip_inodes link) @ [ptr']\<rparr>), s))
             | None \<Rightarrow>
                 bind_op (on_ptr parent (add_child (File (ip_name link) new_inode))) (\<lambda>(added, _).
                 bind_op (read_ptr (rebase parent added)) (\<lambda>v.
                 bind_op (lift_res (ip_append (iname v) (rebase parent added) link)) (\<lambda>link s.
                   (Inr (rebase parent added, link), s))))) (\<lambda>(new_ptr, link).
          bind_op (read_ptr parent) (\<lambda>pv.
          bind_op (read_ptr new_ptr) (\<lambda>nv.
          bind_op (on_store (apply_symlink E pv nv)) (\<lambda>_ s. (Inr link, s))))))))"

definition symlink ::
  "('db, 'b) meta_env \<Rightarrow> string \<Rightarrow> inode_path \<Rightarrow> bool \<Rightarrow> u32 \<Rightarrow> ('db fs_dir, unit) op" where
  "symlink E target link force mode =
     bind_op now_ms (\<lambda>op_ms.
     bind_op next_inode_id (\<lambda>i.
     let new_inode = file_with_link i op_ms target mode in
     bind_op (unprotected_symlink E link new_inode force) (\<lambda>link.
     on_journal (log_symlink op_ms (ip_path link) new_inode force))))"

definition unprotected_link ::
  "('db, 'b) meta_env \<Rightarrow> inode_path \<Rightarrow> i64 \<Rightarrow> int \<Rightarrow> ('db fs_dir, inode_path) op" where
  "unprotected_link E new_path original_inode_id op_ms =
     (if get_last_inode new_path \<noteq> None then (\<lambda>s. (Inl (FileAlreadyExists (ip_path new_path)), s))
      else bind_op (create_parent_dir E (mkdir_with_create True) new_path) (\<lambda>new_path.
        case get_inode new_path (-2) of
          None \<Rightarrow> (\<lambda>s. (Inl (Common ''Parent directory does not exist''), s))
        | Some parent \<Rightarrow>
            bind_op (on_ptr parent (pure_op (update_mtime op_ms))) (\<lambda>_.
            bind_op (on_ptr parent (add_child (FileEntry (ip_name new_path) original_inode_id))) (\<lambda>(added, _).
            bind_op (read_ptr (rebase parent added)) (\<lambda>v.
            bind_op (lift_res (ip_append (iname v) (rebase parent added) new_path)) (\<lambda>new_path.
            bind_op (read_ptr parent) (\<lambda>pv.
            bind_op (on_store (apply_link E pv v original_inode_id)) (\<lambda>_ s. (Inr new_path, s)))))))))"

definition link ::
  "('db, 'b) meta_env \<Rightarrow> inode_path \<Rightarrow> inode_path \<Rightarrow> ('db fs_dir, unit) op" where
  "link E src_path dst_path =
     bind_op now_ms (\<lambda>op_ms.
     case get_last_inode src_path of
       None \<Rightarrow> (\<lambda>s. (Inl (FileNotFound (ip_path src_path)), s))
     | Some ptr \<Rightarrow>
         bind_op (read_ptr ptr) (\<lambda>v.
         bind_op
           (case v of
              File n f \<Rightarrow>
                if f_file_type f \<noteq> FtFile
                then (\<lambda>s. (Inl (Common ''Cannot create link to non-regular file''), s))
                else bind_op (on_ptr ptr (pure_op (\<lambda>_. File n (increment_nlink f)))) (\<lambda>_ s. (Inr (f_id f), s))
            | FileEntry _ i \<Rightarrow> (\<lambda>s. (Inr i, s))
            | Dir _ _ _ \<Rightarrow> (\<lambda>s. (Inl (Common ''Cannot create link to directory''), s))) (\<lambda>original_inode_id.
         bind_op (unprotected_link E dst_path original_inode_id op_ms) (\<lambda>_.
         on_journal (log_link op_ms (ip_path src_path) (ip_path dst_path))))))"

end
