(* ===== verification/Fs_Maps.thy ===== *)
theory Fs_Maps
  imports Inode_Store
begin

text \<open>
  The file system as plain maps: the tree in memory as the map from paths to node attributes,
  the stored inodes by id and the stored edges by directory and name. \<open>fs_inv\<close> is the relation
  the master keeps between them, and a lemma per elementary change (a directory touched, a
  node added, an entry linked or unlinked, a subtree removed or moved, an inode rewritten)
  says that it is kept.
\<close>

type_synonym fs_map = "string list \<Rightarrow> node option"
type_synonym inode_map = "i64 \<Rightarrow> inode_view option"
type_synonym edge_map = "i64 \<Rightarrow> string \<Rightarrow> i64 option"

fun node_id :: "node \<Rightarrow> i64" where
  "node_id (NFile f) = f_id f"
| "node_id (NDir d) = d_id d"
| "node_id (NEntry i) = i"

lemma node_id_shallow [simp]: "node_id (shallow v) = iid v"
  by (cases v) simp_all

text \<open>The paths that name inode \<open>i\<close>.\<close>

definition links :: "fs_map \<Rightarrow> i64 \<Rightarrow> string list set" where
  "links L i = {q. L q = Some (NEntry i)}"

definition shape_ok :: "fs_map \<Rightarrow> bool" where
  "shape_ok L \<longleftrightarrow> finite (dom L) \<and> (\<exists>d. L [] = Some (NDir d) \<and> d_id d = ROOT_INODE_ID) \<and>
     (\<forall>p k x. L (p @ [k]) = Some x \<longrightarrow> (\<exists>d. L p = Some (NDir d))) \<and>
     (\<forall>p f. L p \<noteq> Some (NFile f))"

definition ids_ok :: "fs_map \<Rightarrow> i64 \<Rightarrow> bool" where
  "ids_ok L c \<longleftrightarrow> ROOT_INODE_ID \<le> c \<and> is_i64 c \<and>
     (\<forall>p x. L p = Some x \<longrightarrow> ROOT_INODE_ID \<le> node_id x \<and> node_id x \<le> c \<and>
        (p \<noteq> [] \<longrightarrow> node_id x \<noteq> ROOT_INODE_ID)) \<and>
     (\<forall>p q d e. L p = Some (NDir d) \<longrightarrow> L q = Some (NDir e) \<longrightarrow> d_id d = d_id e \<longrightarrow> p = q)"

definition edges_ok :: "fs_map \<Rightarrow> edge_map \<Rightarrow> bool" where
  "edges_ok L Ed \<longleftrightarrow>
     (\<forall>p d n. L p = Some (NDir d) \<longrightarrow> Ed (d_id d) n = map_option node_id (L (p @ [n]))) \<and>
     (\<forall>i n j. Ed i n = Some j \<longrightarrow> (\<exists>p d. L p = Some (NDir d) \<and> d_id d = i))"

text \<open>A stored directory may have an outdated parent id: a rename writes the inode before the new
  parent sets it.\<close>

definition dirs_ok :: "fs_map \<Rightarrow> inode_map \<Rightarrow> bool" where
  "dirs_ok L I \<longleftrightarrow> (\<forall>p d. L p = Some (NDir d) \<longrightarrow> p \<noteq> [] \<longrightarrow>
     (\<exists>pid. I (d_id d) = Some (Dir (last p) (d\<lparr>d_parent_id := pid\<rparr>) new_map)))"

definition files_ok :: "fs_map \<Rightarrow> inode_map \<Rightarrow> bool" where
  "files_ok L I \<longleftrightarrow> (\<forall>p i. L p = Some (NEntry i) \<longrightarrow>
     (\<exists>n f. I i = Some (File n f) \<and> f_id f = i \<and> unat (f_nlink f) = card (links L i)))"

definition keys_ok :: "inode_map \<Rightarrow> i64 \<Rightarrow> bool" where
  "keys_ok I c \<longleftrightarrow> (\<forall>i v. I i = Some v \<longrightarrow> iid v = i \<and> i \<le> c)"

definition fs_inv :: "fs_map \<Rightarrow> inode_map \<Rightarrow> edge_map \<Rightarrow> i64 \<Rightarrow> bool" where
  "fs_inv L I Ed c \<longleftrightarrow> shape_ok L \<and> ids_ok L c \<and> edges_ok L Ed \<and> dirs_ok L I \<and> files_ok L I \<and> keys_ok I c"

subsection \<open>Consequences\<close>

lemma fs_invD:
  assumes "fs_inv L I Ed c"
  shows "shape_ok L" "ids_ok L c" "edges_ok L Ed" "dirs_ok L I" "files_ok L I" "keys_ok I c"
  using assms by (simp_all add: fs_inv_def)

lemma shape_parent:
  assumes "shape_ok L" "L (p @ [k]) = Some x" obtains d where "L p = Some (NDir d)"
  using assms unfolding shape_ok_def by metis

lemma shape_prefix:
  assumes "shape_ok L" "L (p @ q) = Some x" "q \<noteq> []" shows "\<exists>d. L p = Some (NDir d)"
  using assms(2,3)
proof (induction q arbitrary: x rule: rev_induct)
  case (snoc k q)
  obtain d where d: "L (p @ q) = Some (NDir d)"
    using shape_parent[OF assms(1), of "p @ q" k x] snoc.prems(1) by auto
  then show ?case using snoc.IH[OF d] by (cases q) auto
qed simp

lemma shape_below_None:
  assumes "shape_ok L" "L p = None" "prefix p q" shows "L q = None"
proof -
  obtain r where r: "q = p @ r" using assms(3) by (auto simp: prefix_def)
  show ?thesis
    using shape_prefix[OF assms(1), of p r] assms(2) r by (cases "r = []"; cases "L q") auto
qed

lemma shape_below_entry:
  assumes "shape_ok L" "L p = Some (NEntry i)" "strict_prefix p q" shows "L q = None"
proof -
  obtain r where r: "q = p @ r" "r \<noteq> []" using assms(3) by (auto simp: strict_prefix_def prefix_def)
  show ?thesis
    using shape_prefix[OF assms(1), of p r] assms(2) r by (cases "L q") auto
qed

lemma links_finite: "shape_ok L \<Longrightarrow> finite (links L i)"
  unfolding shape_ok_def links_def by (rule finite_subset[of _ "dom L"]) auto

lemma ids_ok_counter: "ids_ok L c \<Longrightarrow> ROOT_INODE_ID \<le> c \<and> is_i64 c"
  by (simp add: ids_ok_def)

lemma ids_unique: "ids_ok L c \<Longrightarrow> L p = Some (NDir d) \<Longrightarrow> L q = Some (NDir e) \<Longrightarrow> d_id d = d_id e \<Longrightarrow> p = q"
  unfolding ids_ok_def by blast

lemma ids_bound:
  "ids_ok L c \<Longrightarrow> L p = Some x \<Longrightarrow> ROOT_INODE_ID \<le> node_id x \<and> node_id x \<le> c"
  "ids_ok L c \<Longrightarrow> L p = Some x \<Longrightarrow> p \<noteq> [] \<Longrightarrow> node_id x \<noteq> ROOT_INODE_ID"
  unfolding ids_ok_def by blast+

text \<open>The id of an entry is not the id of a directory.\<close>

lemma entry_not_dir:
  assumes inv: "fs_inv L I Ed c" and "L p = Some (NEntry i)" "L q = Some (NDir d)"
  shows "i \<noteq> d_id d"
proof (cases "q = []")
  case True
  have "p \<noteq> []" using assms(2,3) True by auto
  moreover have "d_id d = ROOT_INODE_ID" using fs_invD(1)[OF inv] assms(3) True by (auto simp: shape_ok_def)
  ultimately show ?thesis using ids_bound(2)[OF fs_invD(2)[OF inv] assms(2)] by auto
next
  case False
  then obtain n d' where "I (d_id d) = Some (Dir n d' new_map)"
    using fs_invD(4)[OF inv] assms(3) unfolding dirs_ok_def by blast
  moreover obtain n f where "I i = Some (File n f)"
    using fs_invD(5)[OF inv] assms(2) unfolding files_ok_def by blast
  ultimately show ?thesis by auto
qed

lemma entry_facts:
  assumes inv: "fs_inv L I Ed c" and q: "L q = Some (NEntry i)"
  shows "q \<noteq> []" "ROOT_INODE_ID < i" "i \<le> c"
    and "\<And>n f. I i = Some (File n f) \<Longrightarrow> f_id f = i \<and> unat (f_nlink f) = card (links L i)"
proof -
  show "q \<noteq> []" using fs_invD(1)[OF inv] q by (auto simp: shape_ok_def)
  then show "ROOT_INODE_ID < i" "i \<le> c"
    using ids_bound(1)[OF fs_invD(2)[OF inv] q] ids_bound(2)[OF fs_invD(2)[OF inv] q] by simp_all
  show "f_id f = i \<and> unat (f_nlink f) = card (links L i)" if "I i = Some (File n f)" for n f
    using fs_invD(5)[OF inv] q that unfolding files_ok_def by fastforce
qed

lemma keys_ok_upd: "keys_ok I c \<Longrightarrow> iid v = i \<Longrightarrow> i \<le> c' \<Longrightarrow> c \<le> c' \<Longrightarrow> keys_ok (I(i \<mapsto> v)) c'"
  unfolding keys_ok_def by (metis fun_upd_apply option.sel order_trans)

lemma links_upd_dir:
  "L p = Some (NDir d) \<or> L p = None \<Longrightarrow> links (L(p \<mapsto> NDir d')) i = links L i"
  by (auto simp: links_def)

lemma files_okI:
  assumes "files_ok L I" "\<And>p i. L' p = Some (NEntry i) \<Longrightarrow> \<exists>q. L q = Some (NEntry i) \<and> I' i = I i \<and>
    card (links L' i) = card (links L i)"
  shows "files_ok L' I'"
  using assms unfolding files_ok_def by metis

text \<open>Ids stay in order when every node of the new map is the image of a node of the old one with
  the same id, at a path that determines it.\<close>

lemma ids_ok_image:
  assumes "ids_ok L c"
    and node: "\<And>q x. L' q = Some x \<Longrightarrow> \<exists>y. L (g q) = Some y \<and> node_id y = node_id x"
    and dir: "\<And>q d. L' q = Some (NDir d) \<Longrightarrow> \<exists>e. L (g q) = Some (NDir e) \<and> d_id e = d_id d"
    and inj: "\<And>q r. L' q \<noteq> None \<Longrightarrow> L' r \<noteq> None \<Longrightarrow> g q = g r \<Longrightarrow> q = r"
    and root: "\<And>q. L' q \<noteq> None \<Longrightarrow> q \<noteq> [] \<Longrightarrow> g q \<noteq> []"
  shows "ids_ok L' c"
  unfolding ids_ok_def
proof (intro conjI allI impI)
  show "ROOT_INODE_ID \<le> c" "is_i64 c" using ids_ok_counter[OF assms(1)] by simp_all
  fix q x assume q: "L' q = Some x"
  then obtain y where y: "L (g q) = Some y" "node_id y = node_id x" using node by blast
  show "ROOT_INODE_ID \<le> node_id x" "node_id x \<le> c" using ids_bound(1)[OF assms(1) y(1)] y(2) by simp_all
  show "node_id x \<noteq> ROOT_INODE_ID" if "q \<noteq> []"
    using ids_bound(2)[OF assms(1) y(1)] y(2) root[of q] q that by simp
next
  fix q r d e assume qr: "L' q = Some (NDir d)" "L' r = Some (NDir e)" "d_id d = d_id e"
  then have "g q = g r" using dir[OF qr(1)] dir[OF qr(2)] ids_unique[OF assms(1)] by metis
  then show "q = r" using inj[of q r] qr by simp
qed

subsection \<open>Changes\<close>

text \<open>New attributes for a directory, written to the store.\<close>

lemma fs_inv_touch:
  assumes inv: "fs_inv L I Ed c" and p: "L p = Some (NDir d)" "d_id d' = d_id d"
    and nm: "p \<noteq> [] \<Longrightarrow> nm = last p"
  shows "fs_inv (L(p \<mapsto> NDir d')) (I(d_id d \<mapsto> Dir nm d' new_map)) Ed c"
proof -
  let ?L = "L(p \<mapsto> NDir d')" and ?I = "I(d_id d \<mapsto> Dir nm d' new_map)"
  note parts = fs_invD[OF inv]
  have ids: "map_option node_id (?L q) = map_option node_id (L q)" for q using p by simp
  have was: "\<exists>e. L q = Some (NDir e) \<and> d_id e = d_id e'" if "?L q = Some (NDir e')" for q e'
    using that p by (auto split: if_splits)
  have "dom ?L = dom L" using p by auto
  then have "shape_ok ?L"
    using parts(1) p unfolding shape_ok_def by (auto split: if_splits) blast
  moreover have "ids_ok ?L c"
    by (rule ids_ok_image[OF parts(2), where g = id]) (use p in \<open>auto split: if_splits\<close>)
  moreover have "edges_ok ?L Ed"
    unfolding edges_ok_def
  proof (intro conjI allI impI)
    fix q e n assume "?L q = Some (NDir e)"
    then show "Ed (d_id e) n = map_option node_id (?L (q @ [n]))"
      using was parts(3) unfolding edges_ok_def ids by metis
  next
    fix i n j assume "Ed i n = Some j"
    then obtain q e where "L q = Some (NDir e)" "d_id e = i" using parts(3) unfolding edges_ok_def by blast
    then show "\<exists>q e. ?L q = Some (NDir e) \<and> d_id e = i" using p by (cases "q = p") auto
  qed
  moreover have "dirs_ok ?L ?I"
    unfolding dirs_ok_def
  proof (intro allI impI)
    fix q e assume q: "?L q = Some (NDir e)" "q \<noteq> []"
    show "\<exists>pid. ?I (d_id e) = Some (Dir (last q) (e\<lparr>d_parent_id := pid\<rparr>) new_map)"
    proof (cases "q = p")
      case True
      then show ?thesis using q p nm by (intro exI[of _ "d_parent_id d'"]) simp
    next
      case False
      then have "d_id e \<noteq> d_id d" using q ids_unique[OF parts(2) p(1)] by auto
      then show ?thesis using q False parts(4) unfolding dirs_ok_def by auto
    qed
  qed
  moreover have "files_ok ?L ?I"
  proof (rule files_okI[OF parts(5)])
    fix q i assume "?L q = Some (NEntry i)"
    then have q: "L q = Some (NEntry i)" by (auto split: if_splits)
    then show "\<exists>q. L q = Some (NEntry i) \<and> ?I i = I i \<and> card (links ?L i) = card (links L i)"
      using entry_not_dir[OF inv q p(1)] p by (auto simp: links_upd_dir)
  qed
  moreover have "keys_ok ?I c"
    using parts(6) p ids_bound[OF parts(2) p(1)] unfolding keys_ok_def by auto
  ultimately show ?thesis by (simp add: fs_inv_def)
qed

text \<open>A new child with a fresh id.\<close>

fun stored_new :: "string \<Rightarrow> node \<Rightarrow> inode_view \<Rightarrow> bool" where
  "stored_new k (NDir d) v \<longleftrightarrow> (\<exists>pid. v = Dir k (d\<lparr>d_parent_id := pid\<rparr>) new_map)"
| "stored_new k (NEntry i) v \<longleftrightarrow> (\<exists>n f. v = File n f \<and> f_id f = i \<and> f_nlink f = 1)"
| "stored_new k (NFile f) v \<longleftrightarrow> False"

lemma stored_new_id: "stored_new k x v \<Longrightarrow> iid v = node_id x"
  by (cases x) auto

lemma edges_fresh:
  assumes "edges_ok L Ed" "ids_ok L c" "c < i" shows "Ed i n = None"
proof (rule ccontr)
  assume "Ed i n \<noteq> None"
  then obtain p d where "L p = Some (NDir d)" "d_id d = i" using assms(1) unfolding edges_ok_def by blast
  with ids_bound(1)[OF assms(2) this(1)] assms(3) show False by simp
qed

lemma edges_add:
  assumes "shape_ok L" "ids_ok L c" "edges_ok L Ed" and p: "L p = Some (NDir d)" "L (p @ [k]) = None"
    and new: "node_id x = i" "\<And>e. x = NDir e \<Longrightarrow> c < i"
  shows "edges_ok (L(p @ [k] \<mapsto> x)) (Ed(d_id d := (Ed (d_id d))(k \<mapsto> i)))"
    (is "edges_ok ?L ?Ed")
  unfolding edges_ok_def
proof (intro conjI allI impI)
  fix q e n assume q: "?L q = Some (NDir e)"
  show "?Ed (d_id e) n = map_option node_id (?L (q @ [n]))"
  proof (cases "q = p @ [k]")
    case True
    then have x: "x = NDir e" using q by simp
    then have "c < d_id e" using new by auto
    then have "d_id e \<noteq> d_id d" "Ed (d_id e) n = None"
      using ids_bound(1)[OF assms(2) p(1)] edges_fresh[OF assms(3,2)] by auto
    then show ?thesis
      using True shape_below_None[OF assms(1) p(2), of "p @ [k] @ [n]"] by simp
  next
    case False
    then have e: "L q = Some (NDir e)" using q by simp
    then have "Ed (d_id e) n = map_option node_id (L (q @ [n]))"
      using assms(3) unfolding edges_ok_def by blast
    moreover have "q = p" if "d_id e = d_id d" using ids_unique[OF assms(2) e p(1)] that .
    moreover have "e = d" if "q = p" using that e p(1) by simp
    ultimately show ?thesis using new(1) by auto
  qed
next
  fix j n m assume "?Ed j n = Some m"
  then have "j = d_id d \<or> Ed j n = Some m" by (auto split: if_splits)
  then obtain q e where "L q = Some (NDir e)" "d_id e = j"
    using p(1) assms(3) unfolding edges_ok_def by blast
  then show "\<exists>q e. ?L q = Some (NDir e) \<and> d_id e = j" using p(2) by (intro exI[of _ q]) auto
qed

lemma shape_add:
  assumes "shape_ok L" "L p = Some (NDir d)" "L (p @ [k]) = None" "\<And>f. x \<noteq> NFile f"
  shows "shape_ok (L(p @ [k] \<mapsto> x))" (is "shape_ok ?L")
proof -
  have "\<exists>e. ?L q = Some (NDir e)" if "?L (q @ [n]) = Some y" for q n y
  proof (cases "q @ [n] = p @ [k]")
    case True
    then show ?thesis using assms(2) by simp
  next
    case False
    then have "L (q @ [n]) = Some y" using that by (simp split: if_splits)
    then obtain e where "L q = Some (NDir e)" by (rule shape_parent[OF assms(1)])
    then show ?thesis using assms(3) by (cases "q = p @ [k]") auto
  qed
  moreover have "finite (dom L)" using assms(1) by (simp add: shape_ok_def)
  then have "finite (dom ?L)" by simp
  ultimately show ?thesis using assms(1,4) unfolding shape_ok_def by simp
qed

lemma fs_inv_add:
  assumes inv: "fs_inv L I Ed c" and p: "L p = Some (NDir d)" "L (p @ [k]) = None"
    and new: "stored_new k x v" "c < node_id x" "is_i64 (node_id x)"
  shows "fs_inv (L(p @ [k] \<mapsto> x)) (I(node_id x \<mapsto> v))
    (Ed(d_id d := (Ed (d_id d))(k \<mapsto> node_id x))) (node_id x)"
    (is "fs_inv ?L ?I ?Ed _")
proof -
  note parts = fs_invD[OF inv]
  note old = ids_bound(1)[OF parts(2)]
  have le: "node_id y < node_id x" if "L q = Some y" for q y using old[OF that] new(2) by simp
  have "shape_ok ?L" by (rule shape_add[OF parts(1) p]) (use new(1) in auto)
  moreover have "ids_ok ?L (node_id x)"
    unfolding ids_ok_def
  proof (intro conjI allI impI)
    show "ROOT_INODE_ID \<le> node_id x" "is_i64 (node_id x)"
      using ids_ok_counter[OF parts(2)] new(2,3) by simp_all
    fix q y assume q: "?L q = Some y"
    then have y: "L q = Some y \<or> q = p @ [k] \<and> y = x" by (auto split: if_splits)
    show "ROOT_INODE_ID \<le> node_id y" "node_id y \<le> node_id x"
      using y le old ids_ok_counter[OF parts(2)] new(2) by (auto intro: less_imp_le)
    show "node_id y \<noteq> ROOT_INODE_ID" if "q \<noteq> []"
      using y ids_bound(2)[OF parts(2)] that ids_ok_counter[OF parts(2)] new(2) by auto
  next
    fix q r e e' assume *: "?L q = Some (NDir e)" "?L r = Some (NDir e')" "d_id e = d_id e'"
    then show "q = r"
      using le[of q "NDir e"] le[of r "NDir e'"] ids_unique[OF parts(2)] by (auto split: if_splits)
  qed
  moreover have "edges_ok ?L ?Ed" by (rule edges_add[OF parts(1-3) p refl]) (use new(2) in auto)
  moreover have "dirs_ok ?L ?I"
    unfolding dirs_ok_def
  proof (intro allI impI)
    fix q e assume q: "?L q = Some (NDir e)" "q \<noteq> []"
    then show "\<exists>pid. ?I (d_id e) = Some (Dir (last q) (e\<lparr>d_parent_id := pid\<rparr>) new_map)"
      using new(1) le[of q "NDir e"] parts(4) unfolding dirs_ok_def by (auto split: if_splits)
  qed
  moreover have "files_ok ?L ?I"
    unfolding files_ok_def
  proof (intro allI impI)
    fix q i assume q: "?L q = Some (NEntry i)"
    show "\<exists>n f. ?I i = Some (File n f) \<and> f_id f = i \<and> unat (f_nlink f) = card (links ?L i)"
    proof (cases "q = p @ [k]")
      case True
      then have "L r \<noteq> Some (NEntry i)" for r using q le[of r "NEntry i"] by auto
      then have "links ?L i = {p @ [k]}" using True q by (auto simp: links_def)
      then show ?thesis using True q new(1) by auto
    next
      case False
      then have i: "L q = Some (NEntry i)" "i < node_id x" using q le[of q "NEntry i"] by auto
      then have "links ?L i = links L i" using p(2) by (auto simp: links_def)
      then show ?thesis using i parts(5) unfolding files_ok_def by auto
    qed
  qed
  moreover have "keys_ok ?I (node_id x)"
    by (rule keys_ok_upd[OF parts(6)]) (use new(2) stored_new_id[OF new(1)] in auto)
  ultimately show ?thesis by (simp add: fs_inv_def)
qed

text \<open>One more name for a file.\<close>

lemma fs_inv_link:
  assumes inv: "fs_inv L I Ed c" and p: "L p = Some (NDir d)" "L (p @ [k]) = None"
    and q: "L q = Some (NEntry i)" "I i = Some (File n f)" "Suc (unat (f_nlink f)) < 2 ^ 32"
  shows "fs_inv (L(p @ [k] \<mapsto> NEntry i)) (I(i \<mapsto> File n (increment_nlink f)))
    (Ed(d_id d := (Ed (d_id d))(k \<mapsto> i))) c" (is "fs_inv ?L ?I ?Ed _")
proof -
  note parts = fs_invD[OF inv]
  have f: "f_id f = i" "unat (f_nlink f) = card (links L i)"
    using entry_facts(4)[OF inv q(1,2)] by simp_all
  have "unat (f_nlink (increment_nlink f)) = Suc (unat (f_nlink f))"
    using q(3) by (simp add: increment_nlink_def unat_word_ariths)
  then have f': "unat (f_nlink (increment_nlink f)) = Suc (card (links L i))" "f_id (increment_nlink f) = i"
    using f by (simp_all add: increment_nlink_def)
  have card: "card (links ?L i) = Suc (card (links L i))"
  proof -
    have "links ?L i = insert (p @ [k]) (links L i)" "p @ [k] \<notin> links L i"
      using p(2) by (auto simp: links_def)
    then show ?thesis using links_finite[OF parts(1)] by simp
  qed
  have other: "links ?L j = links L j" if "j \<noteq> i" for j using that p(2) by (auto simp: links_def)
  have "shape_ok ?L" by (rule shape_add[OF parts(1) p]) simp
  moreover have "ids_ok ?L c"
    using parts(2) entry_facts[OF inv q(1)] unfolding ids_ok_def by (simp split: if_splits)
  moreover have "edges_ok ?L ?Ed" by (rule edges_add[OF parts(1-3) p]) simp_all
  moreover have "dirs_ok ?L ?I"
    using parts(4) entry_not_dir[OF inv q(1)] unfolding dirs_ok_def by auto
  moreover have "files_ok ?L ?I"
    unfolding files_ok_def
  proof (intro allI impI)
    fix r j assume "?L r = Some (NEntry j)"
    then have "j = i \<or> L r = Some (NEntry j)" by (auto split: if_splits)
    then show "\<exists>n f. ?I j = Some (File n f) \<and> f_id f = j \<and> unat (f_nlink f) = card (links ?L j)"
      using f' card other parts(5) unfolding files_ok_def by (cases "j = i") auto
  qed
  moreover have "keys_ok ?I c"
    using parts(6) f'(2) ids_bound(1)[OF parts(2) q(1)] unfolding keys_ok_def by auto
  ultimately show ?thesis by (simp add: fs_inv_def)
qed

text \<open>A file inode rewritten with the same id and link count.\<close>

lemma fs_inv_write:
  assumes inv: "fs_inv L I Ed c" and q: "L q = Some (NEntry i)" "I i = Some (File n f)"
    and f: "f_id f' = f_id f" "f_nlink f' = f_nlink f"
  shows "fs_inv L (I(i \<mapsto> File n' f')) Ed c"
proof -
  note parts = fs_invD[OF inv]
  let ?I = "I(i \<mapsto> File n' f')"
  note e = entry_facts[OF inv q(1)]
  have f_i: "f_id f = i" "unat (f_nlink f) = card (links L i)" using e(4)[OF q(2)] by simp_all
  have "dirs_ok L ?I"
    using parts(4) entry_not_dir[OF inv q(1)] unfolding dirs_ok_def by auto
  moreover have "files_ok L ?I"
    using parts(5) f_i f unfolding files_ok_def by (simp split: if_splits)
  moreover have "keys_ok ?I c"
    using parts(6) f_i f e(3) unfolding keys_ok_def by auto
  ultimately show ?thesis using parts by (simp add: fs_inv_def)
qed

text \<open>A subtree removed, with its inodes and the edges to and inside it. Its files must not have
  names outside.\<close>

definition ids_below :: "fs_map \<Rightarrow> string list \<Rightarrow> i64 set" where
  "ids_below L p = {i. \<exists>q x. prefix p q \<and> L q = Some x \<and> node_id x = i}"

definition edges_below :: "fs_map \<Rightarrow> string list \<Rightarrow> (i64 \<times> string) set" where
  "edges_below L p = {(i, n). \<exists>q d. prefix p q \<and> L q = Some (NDir d) \<and> d_id d = i \<and> L (q @ [n]) \<noteq> None}"

definition cut_off :: "string list \<Rightarrow> fs_map \<Rightarrow> fs_map" where
  "cut_off p L = (\<lambda>q. if prefix p q then None else L q)"

definition links_inside :: "fs_map \<Rightarrow> string list \<Rightarrow> bool" where
  "links_inside L p \<longleftrightarrow> (\<forall>q r i. prefix p q \<longrightarrow> L q = Some (NEntry i) \<longrightarrow> L r = Some (NEntry i) \<longrightarrow> prefix p r)"

lemma shape_cut:
  assumes "shape_ok L" "p \<noteq> []" shows "shape_ok (cut_off p L)"
proof -
  have "\<exists>d. cut_off p L q = Some (NDir d)" if "cut_off p L (q @ [k]) = Some x" for q k x
  proof -
    have "L (q @ [k]) = Some x" "\<not> prefix p (q @ [k])"
      using that by (auto simp: cut_off_def split: if_splits)
    then show ?thesis
      using shape_parent[OF assms(1), of q k x] by (auto simp: cut_off_def)
  qed
  moreover have "finite (dom (cut_off p L))"
    using assms(1) by (auto simp: shape_ok_def cut_off_def dom_def elim: rev_finite_subset)
  ultimately show ?thesis
    using assms unfolding shape_ok_def by (auto simp: cut_off_def)
qed

lemma dir_id_inside:
  assumes "fs_inv L I Ed c" "L q = Some (NDir e)" "\<not> prefix p q"
  shows "d_id e \<notin> ids_below L p"
proof
  assume "d_id e \<in> ids_below L p"
  then obtain r x where r: "prefix p r" "L r = Some x" "node_id x = d_id e" by (auto simp: ids_below_def)
  show False
  proof (cases x)
    case (NDir a)
    then show ?thesis using ids_unique[OF fs_invD(2)[OF assms(1)] assms(2), of r a] r assms(3) by auto
  next
    case (NEntry i)
    then show ?thesis using entry_not_dir[OF assms(1) _ assms(2), of r i] r by auto
  next
    case (NFile f)
    then show ?thesis using r fs_invD(1)[OF assms(1)] by (simp add: shape_ok_def)
  qed
qed

lemma cut_offD: "cut_off p L q = Some y \<Longrightarrow> L q = Some y \<and> \<not> prefix p q"
  by (auto simp: cut_off_def split: if_splits)

lemma edges_cut:
  assumes inv: "fs_inv L I Ed c" and p: "L p = Some (NDir d)" "L (p @ [k]) = Some x"
    and Ed': "\<And>i n. Ed' i n = (if (i, n) \<in> insert (d_id d, k) (edges_below L (p @ [k])) then None else Ed i n)"
  shows "edges_ok (cut_off (p @ [k]) L) Ed'" (is "edges_ok ?L _")
  unfolding edges_ok_def
proof (intro conjI allI impI)
  fix q e n assume "?L q = Some (NDir e)"
  then have q: "L q = Some (NDir e)" "\<not> prefix (p @ [k]) q" using cut_offD by blast+
  have "(d_id e, n) \<notin> edges_below L (p @ [k])"
    using q ids_unique[OF fs_invD(2)[OF inv] q(1)] unfolding edges_below_def by fastforce
  moreover have "d_id e = d_id d \<longleftrightarrow> q = p" using ids_unique[OF fs_invD(2)[OF inv] q(1) p(1)] q(1) p(1) by auto
  moreover have "Ed (d_id e) n = map_option node_id (L (q @ [n]))"
    using fs_invD(3)[OF inv] q(1) unfolding edges_ok_def by blast
  moreover have "?L (q @ [n]) = (if q = p \<and> n = k then None else L (q @ [n]))"
    using q(2) by (simp add: cut_off_def)
  ultimately show "Ed' (d_id e) n = map_option node_id (?L (q @ [n]))"
    unfolding Ed' by simp
next
  fix i n j assume "Ed' i n = Some j"
  then have e: "Ed i n = Some j" "(i, n) \<notin> edges_below L (p @ [k])" unfolding Ed' by (auto split: if_splits)
  then obtain q a where q: "L q = Some (NDir a)" "d_id a = i" using fs_invD(3)[OF inv] unfolding edges_ok_def by blast
  then have "L (q @ [n]) \<noteq> None" using e(1) fs_invD(3)[OF inv] unfolding edges_ok_def by fastforce
  then have "\<not> prefix (p @ [k]) q" using e(2) q unfolding edges_below_def by blast
  then show "\<exists>q a. ?L q = Some (NDir a) \<and> d_id a = i" using q by (auto simp: cut_off_def)
qed

lemma fs_inv_remove:
  assumes inv: "fs_inv L I Ed c" and p: "L p = Some (NDir d)" "L (p @ [k]) = Some x"
    and ins: "links_inside L (p @ [k])"
    and I': "\<And>i. I' i = (if i \<in> ids_below L (p @ [k]) then None else I i)"
    and Ed': "\<And>i n. Ed' i n = (if (i, n) \<in> insert (d_id d, k) (edges_below L (p @ [k])) then None else Ed i n)"
  shows "fs_inv (cut_off (p @ [k]) L) I' Ed' c" (is "fs_inv ?L _ _ _")
proof -
  note parts = fs_invD[OF inv]
  note keep = cut_offD[of "p @ [k]" L]
  have "ids_ok ?L c"
    by (rule ids_ok_image[OF parts(2), where g = id]) (auto dest: keep)
  moreover have "edges_ok ?L Ed'" by (rule edges_cut[OF inv p Ed'])
  moreover have "dirs_ok ?L I'"
    using parts(4) dir_id_inside[OF inv] keep unfolding dirs_ok_def I' by metis
  moreover have "files_ok ?L I'"
  proof (rule files_okI[OF parts(5)])
    fix q i assume "?L q = Some (NEntry i)"
    then have q: "L q = Some (NEntry i)" "\<not> prefix (p @ [k]) q" using keep by blast+
    have out: "\<not> prefix (p @ [k]) r" if "L r = Some (NEntry i)" for r
      using ins q that unfolding links_inside_def by blast
    have "i \<notin> ids_below L (p @ [k])"
    proof
      assume "i \<in> ids_below L (p @ [k])"
      then obtain r y where r: "prefix (p @ [k]) r" "L r = Some y" "node_id y = i" by (auto simp: ids_below_def)
      then show False
        using out entry_not_dir[OF inv q(1)] parts(1) by (cases y) (auto simp: shape_ok_def)
    qed
    moreover have "links ?L i = links L i" using out by (auto simp: links_def cut_off_def)
    ultimately show "\<exists>q. L q = Some (NEntry i) \<and> I' i = I i \<and> card (links ?L i) = card (links L i)"
      using q I' by auto
  qed
  moreover have "keys_ok I' c" using parts(6) unfolding keys_ok_def I' by auto
  ultimately show ?thesis using shape_cut[OF parts(1)] by (simp add: fs_inv_def)
qed

text \<open>A name removed from a file that has others.\<close>

lemma cut_entry:
  assumes "shape_ok L" "L p = Some (NEntry i)" shows "cut_off p L = L(p := None)"
proof
  fix q
  have "L q = None" if "prefix p q" "q \<noteq> p"
    using shape_below_entry[OF assms, of q] that by (auto simp: strict_prefix_def)
  then show "cut_off p L q = (L(p := None)) q" by (auto simp: cut_off_def)
qed

lemma fs_inv_unlink:
  assumes inv: "fs_inv L I Ed c" and p: "L p = Some (NDir d)" "L (p @ [k]) = Some (NEntry i)"
    and f: "I i = Some (File n f)" "1 < f_nlink f"
  shows "fs_inv (cut_off (p @ [k]) L) (I(i \<mapsto> File n (snd (decrement_nlink f))))
    (Ed(d_id d := (Ed (d_id d))(k := None))) c" (is "fs_inv ?L ?I ?Ed _")
proof -
  note parts = fs_invD[OF inv] and e = entry_facts[OF inv p(2)] and keep = cut_offD[of "p @ [k]" L]
  let ?f = "snd (decrement_nlink f)"
  have pos: "0 < f_nlink f" using f(2) by (simp add: word_less_nat_alt)
  then have "unat (f_nlink ?f) = unat (f_nlink f) - 1"
    by (simp add: decrement_nlink_def Let_def unat_minus_one word_neq_0_conv)
  then have f': "unat (f_nlink ?f) = card (links L i) - 1" "f_id ?f = i"
    using e(4)[OF f(1)] by (simp_all add: decrement_nlink_def Let_def)
  have cut: "?L = L(p @ [k] := None)" by (rule cut_entry[OF parts(1) p(2)])
  have "links ?L i = links L i - {p @ [k]}" "p @ [k] \<in> links L i"
    using p(2) by (auto simp: links_def cut)
  then have card: "card (links ?L i) = card (links L i) - 1" by simp
  have other: "links ?L j = links L j" if "j \<noteq> i" for j using that p(2) by (auto simp: links_def cut)
  have none: "edges_below L (p @ [k]) = {}"
    using shape_below_entry[OF parts(1) p(2)] p(2)
    by (auto simp: edges_below_def) (metis node.distinct(5) option.inject option.simps(3) prefix_order.le_imp_less_or_eq)
  have "ids_ok ?L c"
    by (rule ids_ok_image[OF parts(2), where g = id]) (auto dest: keep)
  moreover have "edges_ok ?L ?Ed" by (rule edges_cut[OF inv p]) (simp add: none)
  moreover have "dirs_ok ?L ?I"
    using parts(4) entry_not_dir[OF inv p(2)] keep unfolding dirs_ok_def by (metis fun_upd_other)
  moreover have "files_ok ?L ?I"
    unfolding files_ok_def
  proof (intro allI impI)
    fix r j assume "?L r = Some (NEntry j)"
    then have "L r = Some (NEntry j)" using keep by blast
    then show "\<exists>n f. ?I j = Some (File n f) \<and> f_id f = j \<and> unat (f_nlink f) = card (links ?L j)"
      using f' card other parts(5) unfolding files_ok_def by (cases "j = i") auto
  qed
  moreover have "keys_ok ?I c" by (rule keys_ok_upd[OF parts(6)]) (use f'(2) e(3) in auto)
  ultimately show ?thesis using shape_cut[OF parts(1)] by (simp add: fs_inv_def)
qed

subsection \<open>Moving a subtree\<close>

definition moved_from :: "string list \<Rightarrow> string list \<Rightarrow> string list \<Rightarrow> string list" where
  "moved_from src dst q = (if prefix dst q then src @ drop (length dst) q else q)"

text \<open>The subtree at \<open>src\<close> put at \<open>dst\<close>, with \<open>x\<close> as its root.\<close>

definition graft :: "string list \<Rightarrow> string list \<Rightarrow> node \<Rightarrow> fs_map \<Rightarrow> fs_map" where
  "graft src dst x L =
     (\<lambda>q. if q = dst then Some x
          else if prefix dst q \<or> \<not> prefix src q then L (moved_from src dst q) else None)"

definition moved_node :: "inode_map \<Rightarrow> string \<Rightarrow> node \<Rightarrow> node \<Rightarrow> inode_view \<Rightarrow> bool" where
  "moved_node I l x x' v \<longleftrightarrow>
     (\<exists>a a' pid. x = NDir a \<and> x' = NDir a' \<and> d_id a' = d_id a \<and>
        v = Dir l (a'\<lparr>d_parent_id := pid\<rparr>) new_map) \<or>
     (\<exists>i n n' f f'. x = NEntry i \<and> x' = NEntry i \<and> I i = Some (File n f) \<and> v = File n' f' \<and>
        f_id f' = f_id f \<and> f_nlink f' = f_nlink f)"

lemma moved_node_id: "moved_node I l x x' v \<Longrightarrow> node_id x' = node_id x"
  by (auto simp: moved_node_def)

lemma moved_from_dst [simp]: "moved_from src dst dst = src"
  by (simp add: moved_from_def)

lemma moved_from_snoc: "prefix dst q \<Longrightarrow> moved_from src dst (q @ [n]) = moved_from src dst q @ [n]"
  by (auto simp: moved_from_def prefix_def)

lemma graft_Some:
  assumes "graft src dst x L q = Some y"
  shows "q = dst \<and> y = x \<or>
    q \<noteq> dst \<and> L (moved_from src dst q) = Some y \<and> (prefix dst q \<or> \<not> prefix src q)"
  using assms by (auto simp: graft_def split: if_splits)

lemma graft_inj:
  assumes "graft src dst x L q \<noteq> None" "graft src dst x L s \<noteq> None" "moved_from src dst q = moved_from src dst s"
  shows "q = s"
  using assms by (auto simp: graft_def moved_from_def prefix_def split: if_splits)

lemma graft_surj:
  assumes "shape_ok L" "dst = src \<or> L dst = None" "L s = Some y"
  shows "\<exists>q. moved_from src dst q = s \<and> graft src dst x L q = Some (if s = src then x else y)"
proof (cases "prefix src s")
  case True
  then obtain t where t: "s = src @ t" by (auto simp: prefix_def)
  then have "moved_from src dst (dst @ t) = s" by (simp add: moved_from_def)
  moreover have "graft src dst x L (dst @ t) = Some (if s = src then x else y)"
    using t assms(3) by (auto simp: graft_def moved_from_def)
  ultimately show ?thesis by blast
next
  case False
  then have "\<not> prefix dst s" using assms shape_below_None[OF assms(1), of dst s] by auto
  then have "moved_from src dst s = s" "graft src dst x L s = Some y"
    using False assms(3) by (auto simp: graft_def moved_from_def)
  then show ?thesis using False by (intro exI[of _ s]) auto
qed

lemma graft_child:
  assumes "\<not> prefix src r"
  shows "graft src (r @ [l]) x L (q @ [n]) =
    (if q = r \<and> n = l then Some x
     else if prefix (r @ [l]) q then L (moved_from src (r @ [l]) q @ [n])
     else if prefix src (q @ [n]) then None else L (q @ [n]))"
proof (cases "prefix (r @ [l]) q")
  case True
  then have "prefix (r @ [l]) (q @ [n])" "\<not> (q = r \<and> n = l)" by auto
  then show ?thesis using True moved_from_snoc[OF True] by (auto simp: graft_def)
qed (auto simp: graft_def moved_from_def)

lemma shape_graft:
  assumes "shape_ok L" "dst = r @ [l]" "L r = Some (NDir e)" "\<not> prefix src r" "src \<noteq> []"
    and x: "L src = Some x" "\<And>d. x = NDir d \<Longrightarrow> \<exists>d'. x' = NDir d'" "\<And>f. x' \<noteq> NFile f"
  shows "shape_ok (graft src dst x' L)" (is "shape_ok ?L")
proof -
  have "\<exists>d. ?L q = Some (NDir d)" if "?L (q @ [n]) = Some y" for q n y
  proof (cases "q = r \<and> n = l \<or> \<not> prefix dst q")
    case True
    then have "\<not> prefix dst q" using assms(2) by auto
    moreover have "L (q @ [n]) = Some y \<and> \<not> prefix src q \<or> q = r"
      using that True unfolding assms(2) graft_child[OF assms(4)] by (auto split: if_splits)
    then have "\<not> prefix src q \<and> (\<exists>d. L q = Some (NDir d))"
      using shape_parent[OF assms(1), of q n y] assms(3,4) by blast
    ultimately show ?thesis by (auto simp: graft_def moved_from_def)
  next
    case False
    then have "L (moved_from src dst q @ [n]) = Some y"
      using that unfolding assms(2) graft_child[OF assms(4)] by auto
    then obtain d where "L (moved_from src dst q) = Some (NDir d)" using shape_parent[OF assms(1)] by blast
    then show ?thesis using False x(1,2) by (cases "q = dst") (auto simp: graft_def)
  qed
  moreover have "dom ?L \<subseteq> insert dst ((\<lambda>s. dst @ drop (length src) s) ` dom L \<union> dom L)"
    by (auto simp: graft_def moved_from_def prefix_def image_iff split: if_splits) (metis domI append_eq_conv_conj)
  then have "finite (dom ?L)" using assms(1) by (auto simp: shape_ok_def elim: finite_subset)
  moreover have "?L [] = L []" using assms(2,5) by (simp add: graft_def moved_from_def)
  moreover have "?L q \<noteq> Some (NFile f)" for q f
    using x(3) assms(1) by (auto simp: graft_def shape_ok_def)
  ultimately show ?thesis using assms(1) unfolding shape_ok_def by auto
qed

text \<open>What holds of the two ends of a move.\<close>

definition move_pre :: "fs_map \<Rightarrow> string list \<Rightarrow> inode_dir \<Rightarrow> string \<Rightarrow> string list \<Rightarrow> inode_dir \<Rightarrow> string \<Rightarrow> bool" where
  "move_pre L p d k r e l \<longleftrightarrow> L p = Some (NDir d) \<and> L (p @ [k]) \<noteq> None \<and> L r = Some (NDir e) \<and>
     \<not> prefix (p @ [k]) r \<and> (r @ [l] = p @ [k] \<or> L (r @ [l]) = None)"

definition move_edges :: "i64 \<Rightarrow> string \<Rightarrow> i64 \<Rightarrow> string \<Rightarrow> i64 \<Rightarrow> edge_map \<Rightarrow> edge_map" where
  "move_edges pid k qid l i Ed =
     (let Ed1 = Ed(pid := (Ed pid)(k := None)) in Ed1(qid := (Ed1 qid)(l \<mapsto> i)))"

lemma move_edges_at:
  "move_edges pid k qid l i Ed j n =
   (if j = qid \<and> n = l then Some i else if j = pid \<and> n = k then None else Ed j n)"
  by (simp add: move_edges_def Let_def)

lemma graft_dir:
  assumes "graft src dst x' L q = Some (NDir a)" "L src = Some x" "moved_node I l x x' v"
  obtains a0 where "L (moved_from src dst q) = Some (NDir a0)" "d_id a0 = d_id a" "q \<noteq> dst \<Longrightarrow> a0 = a"
    "prefix dst q \<or> \<not> prefix src q"
  using graft_Some[OF assms(1)] assms(2,3) by (auto simp: moved_node_def)

lemma edges_graft:
  assumes inv: "fs_inv L I Ed c" and pre: "move_pre L p d k r e l"
    and x: "L (p @ [k]) = Some x" "moved_node I l x x' v"
  shows "edges_ok (graft (p @ [k]) (r @ [l]) x' L) (move_edges (d_id d) k (d_id e) l (node_id x) Ed)"
    (is "edges_ok ?L ?Ed")
proof -
  let ?src = "p @ [k]" and ?dst = "r @ [l]"
  note uniq = ids_unique[OF fs_invD(2)[OF inv]]
  have pr: "L p = Some (NDir d)" "L r = Some (NDir e)" "\<not> prefix ?src r" "?dst = ?src \<or> L ?dst = None"
    using pre by (auto simp: move_pre_def)
  have ed: "Ed (d_id a) n = map_option node_id (L (q @ [n]))" if "L q = Some (NDir a)" for q a n
    using fs_invD(3)[OF inv] that unfolding edges_ok_def by blast
  show ?thesis
    unfolding edges_ok_def
  proof (intro conjI allI impI)
    fix q a n assume "?L q = Some (NDir a)"
    then obtain a0 where a0: "L (moved_from ?src ?dst q) = Some (NDir a0)" "d_id a0 = d_id a"
        "prefix ?dst q \<or> \<not> prefix ?src q"
      using x by (rule graft_dir) blast
    have at: "d_id a = d_id d \<longleftrightarrow> moved_from ?src ?dst q = p" "d_id a = d_id e \<longleftrightarrow> moved_from ?src ?dst q = r"
      using uniq[OF a0(1) pr(1)] uniq[OF a0(1) pr(2)] a0 pr(1,2) by auto
    show "?Ed (d_id a) n = map_option node_id (?L (q @ [n]))"
    proof (cases "prefix ?dst q")
      case True
      then have pf: "prefix ?src (moved_from ?src ?dst q)" by (simp add: moved_from_def)
      then have "moved_from ?src ?dst q \<noteq> p" "moved_from ?src ?dst q \<noteq> r" using pr(3) by auto
      moreover have "q \<noteq> r" using True by auto
      ultimately show ?thesis
        using True at ed[OF a0(1)] a0(2) by (simp add: move_edges_at graft_child[OF pr(3)])
    next
      case False
      then have q: "moved_from ?src ?dst q = q" "\<not> prefix ?src q" using a0(3) by (auto simp: moved_from_def)
      then have "?L (q @ [n]) = (if q = r \<and> n = l then Some x' else if q = p \<and> n = k then None else L (q @ [n]))"
        using False unfolding graft_child[OF pr(3)] by auto
      moreover have "Ed (d_id a) n = map_option node_id (L (q @ [n]))" using ed[OF a0(1)] a0(2) q(1) by simp
      ultimately show ?thesis
        using at moved_node_id[OF x(2)] unfolding q(1) by (simp add: move_edges_at)
    qed
  next
    fix i n j assume "?Ed i n = Some j"
    then have "i = d_id e \<or> Ed i n = Some j" by (auto simp: move_edges_at split: if_splits)
    then obtain s a where s: "L s = Some (NDir a)" "d_id a = i"
      using fs_invD(3)[OF inv] pr(2) unfolding edges_ok_def by blast
    obtain q where q: "?L q = Some (if s = ?src then x' else NDir a)"
      using graft_surj[OF fs_invD(1)[OF inv] pr(4) s(1), of x'] by blast
    then show "\<exists>q a. ?L q = Some (NDir a) \<and> d_id a = i"
      using s x by (cases "s = ?src") (auto simp: moved_node_def)
  qed
qed

lemma links_graft:
  assumes "shape_ok L" "dst = src \<or> L dst = None" "L src = Some x" "moved_node I l x x' v"
  shows "card (links (graft src dst x' L) i) = card (links L i)"
proof (rule bij_betw_same_card[of "moved_from src dst"])
  have x: "x' = NEntry i \<longleftrightarrow> x = NEntry i" using assms(4) by (auto simp: moved_node_def)
  have "inj_on (moved_from src dst) (links (graft src dst x' L) i)"
    using graft_inj by (fastforce intro!: inj_onI simp: links_def)
  moreover have "L (moved_from src dst q) = Some (NEntry i)" if "graft src dst x' L q = Some (NEntry i)" for q
    using graft_Some[OF that] x assms(3) by auto
  moreover have "\<exists>q. moved_from src dst q = s \<and> graft src dst x' L q = Some (NEntry i)"
    if "L s = Some (NEntry i)" for s
    using graft_surj[OF assms(1,2) that, of x'] x assms(3) that by (cases "s = src") auto
  ultimately show "bij_betw (moved_from src dst) (links (graft src dst x' L) i) (links L i)"
    by (auto simp: bij_betw_def links_def image_iff)
qed

lemma fs_inv_move:
  assumes inv: "fs_inv L I Ed c" and pre: "move_pre L p d k r e l"
    and x: "L (p @ [k]) = Some x" "moved_node I l x x' v"
  shows "fs_inv (graft (p @ [k]) (r @ [l]) x' L) (I(node_id x \<mapsto> v))
    (move_edges (d_id d) k (d_id e) l (node_id x) Ed) c" (is "fs_inv ?L ?I ?Ed c")
proof -
  let ?src = "p @ [k]" and ?dst = "r @ [l]"
  note parts = fs_invD[OF inv]
  have pr: "L r = Some (NDir e)" "\<not> prefix ?src r" "?dst = ?src \<or> L ?dst = None"
    using pre by (auto simp: move_pre_def)
  have "shape_ok ?L"
    by (rule shape_graft[OF parts(1) refl pr(1,2) _ x(1)]) (use x(2) in \<open>auto simp: moved_node_def\<close>)
  moreover have "ids_ok ?L c"
  proof (rule ids_ok_image[OF parts(2), where g = "moved_from ?src ?dst"])
    show "\<exists>y. L (moved_from ?src ?dst q) = Some y \<and> node_id y = node_id z" if "?L q = Some z" for q z
      using graft_Some[OF that] x moved_node_id[OF x(2)] by auto
    show "\<exists>a0. L (moved_from ?src ?dst q) = Some (NDir a0) \<and> d_id a0 = d_id a" if "?L q = Some (NDir a)" for q a
      using that x by (rule graft_dir) blast
    show "moved_from ?src ?dst q \<noteq> []" if "q \<noteq> []" for q using that by (simp add: moved_from_def)
  qed (rule graft_inj)
  moreover have "edges_ok ?L ?Ed" by (rule edges_graft[OF inv pre x])
  moreover have "dirs_ok ?L ?I"
    unfolding dirs_ok_def
  proof (intro allI impI)
    fix q a assume q: "?L q = Some (NDir a)" "q \<noteq> []"
    show "\<exists>pid. ?I (d_id a) = Some (Dir (last q) (a\<lparr>d_parent_id := pid\<rparr>) new_map)"
    proof (cases "q = ?dst")
      case True
      then show ?thesis using q x(2) by (auto simp: moved_node_def graft_def)
    next
      case False
      then have a: "L (moved_from ?src ?dst q) = Some (NDir a)" "moved_from ?src ?dst q \<noteq> ?src"
        using graft_Some[OF q(1)] by (auto simp: moved_from_def prefix_def split: if_splits)
      then have "d_id a \<noteq> node_id x"
        using ids_unique[OF parts(2) a(1), of ?src] entry_not_dir[OF inv _ a(1), of ?src] x
        by (auto simp: moved_node_def)
      moreover have "moved_from ?src ?dst q \<noteq> []" "last (moved_from ?src ?dst q) = last q"
        using False q(2) by (auto simp: moved_from_def prefix_def)
      ultimately show ?thesis using a(1) parts(4) unfolding dirs_ok_def by (metis fun_upd_other)
    qed
  qed
  moreover have "files_ok ?L ?I"
    unfolding files_ok_def
  proof (intro allI impI)
    fix q i assume q: "?L q = Some (NEntry i)"
    then obtain s where s: "L s = Some (NEntry i)"
      using graft_Some[OF q] x by (auto simp: moved_node_def)
    have card: "card (links ?L i) = card (links L i)" by (rule links_graft[OF parts(1) pr(3) x])
    show "\<exists>n f. ?I i = Some (File n f) \<and> f_id f = i \<and> unat (f_nlink f) = card (links ?L i)"
      using s x entry_facts(4)[OF inv s] entry_not_dir[OF inv s, of ?src] parts(5)
      unfolding card moved_node_def files_ok_def by auto
  qed
  moreover have "keys_ok ?I c"
  proof (rule keys_ok_upd[OF parts(6)])
    show "iid v = node_id x" using x entry_facts(4)[OF inv] by (auto simp: moved_node_def)
  qed (use ids_bound(1)[OF parts(2) x(1)] in auto)
  ultimately show ?thesis by (simp add: fs_inv_def)
qed

end
