(* ===== verification/Fs_Dir_Inv.thy ===== *)
theory Fs_Dir_Inv
  imports Fs_Dir Fs_Maps
begin

text \<open>
  What the operations of \<^verbatim>\<open>FsDir\<close> do to the file system seen as maps, and that they keep the
  tree in memory, the stored inodes and edges, and the id counter consistent.
\<close>

abbreviation paths :: "'db fs_dir \<Rightarrow> fs_map" where
  "paths s \<equiv> lookup (fd_root s)"

abbreviation meta :: "('db, 'b) meta_env \<Rightarrow> 'db fs_dir \<Rightarrow> metas" where
  "meta E s \<equiv> store_metas E (fd_store s)"

text \<open>The counter is an argument: an operation takes a new id before it adds the node.\<close>

definition dir_inv :: "('db, 'b) meta_env \<Rightarrow> 'db fs_dir \<Rightarrow> i64 \<Rightarrow> bool" where
  "dir_inv E s c \<longleftrightarrow> tree_ok (fd_root s) \<and> c < 2 ^ 63 - 1 \<and>
     fs_inv (paths s) (m_inodes (meta E s)) (m_edges (meta E s)) c"

definition dir_ok :: "('db, 'b) meta_env \<Rightarrow> 'db fs_dir \<Rightarrow> bool" where
  "dir_ok E s \<longleftrightarrow> dir_inv E s (fd_inode_id s)"

lemma dir_invD:
  assumes "dir_inv E s c"
  shows "tree_ok (fd_root s)" "c < 2 ^ 63 - 1"
    "fs_inv (paths s) (m_inodes (meta E s)) (m_edges (meta E s)) c"
  using assms by (simp_all add: dir_inv_def)

lemma dir_inv_i64:
  assumes "dir_inv E s c" "paths s p = Some x" shows "is_i64 (node_id x)"
  using ids_bound(1)[OF fs_invD(2)[OF dir_invD(3)[OF assms(1)]] assms(2)] dir_invD(2)[OF assms(1)]
  by (simp add: is_i64_def ROOT_INODE_ID_def)

subsection \<open>Writing a directory of the tree\<close>

lemma tree_ok_leaf: "tree_ok (FileEntry n i)"
  unfolding tree_ok_def by (metis get_child.simps(3) node_ok.simps(3) not_Some_eq option.inject option.simps(4)
      tree_get.elims)

lemma tree_get_put:
  assumes "tree_ok root" "tree_get root p = Some u"
  shows "tree_get (tree_put root p v) p = Some v"
  using assms
proof (induction p arbitrary: root)
  case (Cons n p)
  then obtain nm d ch c where root: "root = Dir nm d ch" "children_get ch n = Some c" "tree_get c p = Some u"
    by (cases root) (auto split: option.splits)
  then obtain m where m: "ch = ChildMap m" "map_of m n = Some c"
    using tree_ok_map_inv[of nm d ch] Cons.prems(1) by (auto simp: map_inv_def)
  have "tree_ok c" using Cons.prems(1) root(1) m by (auto intro: tree_ok_child)
  then show ?case using Cons.IH[OF _ root(3)] by (simp add: root(1) m)
qed simp

abbreviation dir_map :: "string \<Rightarrow> inode_dir \<Rightarrow> (string \<times> inode_view) list \<Rightarrow> inode_view" where
  "dir_map n d m \<equiv> Dir n d (ChildMap m)"

lemma dir_ok_kids:
  assumes "tree_ok root" "tree_get root p = Some (dir_map n d m)"
  shows "map_inv (ChildMap m)" "map_of m k = Some v \<Longrightarrow> tree_ok v" "map_of m k = Some v \<Longrightarrow> iname v = k"
  using tree_ok_sub[OF assms] tree_ok_map_inv[of n d "ChildMap m"] tree_ok_child[of n d m k v]
  by (auto simp: map_inv_def dest: map_of_SomeD)

lemma touch_step:
  fixes d' :: inode_dir
  assumes "tree_ok root" "tree_get root p = Some (dir_map n d m)"
  defines "root' \<equiv> tree_put root p (dir_map n d' m)"
  shows "tree_ok root'" "lookup root' = (lookup root)(p \<mapsto> NDir d')" "tree_get root' p = Some (dir_map n d' m)"
proof -
  have "tree_ok (dir_map n d' m)" using dir_ok_kids[OF assms(1,2)] by (blast intro: tree_ok_DirI)
  then show "tree_ok root'" unfolding root'_def by (rule tree_ok_put[OF assms(1,2)]) simp
  show "lookup root' = (lookup root)(p \<mapsto> NDir d')"
    using lookup_put_meta[OF assms(1,2)] by (simp add: root'_def fun_eq_iff)
  show "tree_get root' p = Some (dir_map n d' m)" unfolding root'_def by (rule tree_get_put[OF assms(1,2)])
qed

lemma insert_step:
  assumes "tree_ok root" "tree_get root p = Some (dir_map n d m)" "map_of m k = None"
    and "iname c = k" "tree_ok c"
  defines "root' \<equiv> tree_put root p (dir_map n d (bt_insert k c m))"
  shows "tree_ok root'" "tree_get root' p = Some (dir_map n d (bt_insert k c m))"
    "lookup root' q = (if prefix (p @ [k]) q then lookup c (drop (Suc (length p)) q) else lookup root q)"
    "tree_get root' (p @ [k]) = Some c"
proof -
  have "tree_ok (dir_map n d (bt_insert k c m))"
    using map_inv_insert[OF dir_ok_kids(1)[OF assms(1,2)] assms(4)] dir_ok_kids(2)[OF assms(1,2)] assms(5)
    by (auto intro!: tree_ok_DirI split: if_splits)
  then show "tree_ok root'" unfolding root'_def by (rule tree_ok_put[OF assms(1,2)]) simp
  show get: "tree_get root' p = Some (dir_map n d (bt_insert k c m))"
    unfolding root'_def by (rule tree_get_put[OF assms(1,2)])
  have "lookup root p = Some (NDir d)" by (simp add: lookup_def assms(2))
  then show "lookup root' q = (if prefix (p @ [k]) q then lookup c (drop (Suc (length p)) q) else lookup root q)"
    unfolding root'_def lookup_put_add[OF assms(1-3)] by auto
  show "tree_get root' (p @ [k]) = Some c" using get by (simp add: tree_get_append)
qed

lemma remove_step:
  fixes k :: string
  assumes "tree_ok root" "tree_get root p = Some (dir_map n d m)"
  defines "root' \<equiv> tree_put root p (dir_map n d (bt_remove k m))"
  shows "tree_ok root'" "tree_get root' p = Some (dir_map n d (bt_remove k m))"
    "lookup root' = cut_off (p @ [k]) (lookup root)"
proof -
  have "map_inv (ChildMap (bt_remove k m))"
    by (rule map_inv_remove[OF dir_ok_kids(1)[OF assms(1,2)]])
  then have "tree_ok (dir_map n d (bt_remove k m))"
    using dir_ok_kids(2)[OF assms(1,2)] by (auto intro!: tree_ok_DirI split: if_splits)
  then show "tree_ok root'" unfolding root'_def by (rule tree_ok_put[OF assms(1,2)]) simp
  show get: "tree_get root' p = Some (dir_map n d (bt_remove k m))"
    unfolding root'_def by (rule tree_get_put[OF assms(1,2)])
  have "lookup root p = Some (NDir d)" by (simp add: lookup_def assms(2))
  then show "lookup root' = cut_off (p @ [k]) (lookup root)"
    unfolding root'_def cut_off_def by (auto simp: fun_eq_iff lookup_put_remove[OF assms(1,2)])
qed

subsection \<open>Steps of an operation\<close>

lemma now_ms_Inr [op_simps]:
  "now_ms s = (Inr t, s') \<longleftrightarrow> t = fd_clock s (fd_tick s) \<and> s' = s\<lparr>fd_tick := Suc (fd_tick s)\<rparr>"
  by (auto simp: now_ms_def)

lemma read_ptr_Inr [op_simps]: "read_ptr ptr s = (Inr v, s') \<longleftrightarrow> deref (fd_root s) ptr = Some v \<and> s' = s"
  by (auto simp: read_ptr_def split: option.splits)

lemma on_store_Inr [op_simps]:
  "on_store m s = (Inr a, s') \<longleftrightarrow> (\<exists>st. m (fd_store s) = (Inr a, st) \<and> s' = s\<lparr>fd_store := st\<rparr>)"
  by (auto simp: on_store_def split: prod.splits)

lemma on_journal_Inr [op_simps]:
  "on_journal m s = (Inr a, s') \<longleftrightarrow> (\<exists>jw. m (fd_journal s) = (Inr a, jw) \<and> s' = s\<lparr>fd_journal := jw\<rparr>)"
  by (auto simp: on_journal_def split: prod.splits)

lemma next_inode_id_Inr:
  assumes "next_inode_id s = (Inr i, s')" "- (2 ^ 63) \<le> fd_inode_id s" "fd_inode_id s < 2 ^ 63 - 1"
  shows "i = fd_inode_id s + 1" "s' = s\<lparr>fd_inode_id := i\<rparr>" "i \<le> ID_MASK"
proof -
  have "i64_of (fd_inode_id s + 1) = fd_inode_id s + 1" using assms(2,3) by (simp add: is_i64_def)
  then show "i = fd_inode_id s + 1" "s' = s\<lparr>fd_inode_id := i\<rparr>" "i \<le> ID_MASK"
    using assms(1) by (auto simp: next_inode_id_def next_id_def atomic_next_def bind_op_def split: if_splits)
qed

lemma on_ptr_Ref_Inr:
  "on_ptr (Ref p) m s = (Inr a, s') \<longleftrightarrow>
   (\<exists>v b v'. tree_get (fd_root s) p = Some v \<and> m v = (Inr b, v') \<and> a = (b, Ref p) \<and>
      s' = s\<lparr>fd_root := tree_put (fd_root s) p v'\<rparr>)"
  by (cases "tree_get (fd_root s) p"; cases "m (the (tree_get (fd_root s) p))"; cases "fst (m (the (tree_get (fd_root s) p)))")
    (auto simp: on_ptr_def deref_def)

lemma on_ptr_Owned_Inr:
  "on_ptr (Owned v) m s = (Inr a, s') \<longleftrightarrow> (\<exists>b v'. m v = (Inr b, v') \<and> a = (b, Owned v') \<and> s' = s)"
  by (cases "m v"; cases "fst (m v)") (auto simp: on_ptr_def deref_def)

definition touch :: "i64 \<Rightarrow> inode_dir \<Rightarrow> inode_dir" where
  "touch t d = (if t > d_mtime d then d\<lparr>d_mtime := t\<rparr> else d)"

lemma touch_id [simp]: "d_id (touch t d) = d_id d"
  by (simp add: touch_def)

lemma touch_twice: "touch t (touch t d) = touch t d"
  by (simp add: touch_def)

lemma touch_ptr:
  assumes "tree_ok (fd_root s)" "tree_get (fd_root s) p = Some (dir_map n d m)"
    "on_ptr (Ref p) (pure_op (update_mtime t)) s = (Inr a, s')"
  shows "\<exists>r. s' = s\<lparr>fd_root := r\<rparr> \<and> tree_ok r \<and> lookup r = (paths s)(p \<mapsto> NDir (touch t d)) \<and>
    tree_get r p = Some (dir_map n (touch t d) m)"
proof -
  have "s' = s\<lparr>fd_root := tree_put (fd_root s) p (dir_map n (touch t d) m)\<rparr>"
    using assms(2,3) by (auto simp: on_ptr_Ref_Inr pure_op_def touch_def)
  with touch_step[OF assms(1,2)] show ?thesis by blast
qed

text \<open>What \<^verbatim>\<open>add_child\<close> puts into the tree: an entry for a file, a directory itself.\<close>

definition entry_of :: "i64 \<Rightarrow> inode_view \<Rightarrow> inode_view" where
  "entry_of pid child =
     (if is_file child then FileEntry (iname child) (iid child) else set_parent_id pid child)"

lemma entry_of_simps [simp]: "iname (entry_of pid child) = iname child" "iid (entry_of pid child) = iid child"
  by (cases child; simp add: entry_of_def)+

lemma set_parent_simps [simp]:
  "iname (set_parent_id pid v) = iname v" "iid (set_parent_id pid v) = iid v"
  "is_dir (set_parent_id pid v) = is_dir v"
  by (cases v; simp)+

lemma add_child_Inr:
  "add_child child (dir_map n d m) = (Inr added, v') \<longleftrightarrow>
   map_of m (iname child) = None \<and> v' = dir_map n d (bt_insert (iname child) (entry_of (d_id d) child) m) \<and>
   added = (if is_file child then Owned (set_parent_id (d_id d) child) else Ref [iname child])"
  by (cases "map_of m (iname child)") (auto simp: dir_add_child_def entry_of_def is_file_def)

lemma add_ptr:
  assumes "tree_ok (fd_root s)" "tree_get (fd_root s) p = Some (dir_map n d m)"
    "tree_ok (entry_of (d_id d) child)"
    "on_ptr (Ref p) (add_child child) s = (Inr (added, q), s')"
  shows "\<exists>r m'. s' = s\<lparr>fd_root := r\<rparr> \<and> tree_ok r \<and> tree_get r p = Some (dir_map n d m') \<and>
      deref r (rebase (Ref p) added) = Some (set_parent_id (d_id d) child) \<and>
      (\<forall>q. lookup r q = (if prefix (p @ [iname child]) q
         then lookup (entry_of (d_id d) child) (drop (Suc (length p)) q) else paths s q))"
    and "rebase (Ref p) added =
      (if is_file child then Owned (set_parent_id (d_id d) child) else Ref (p @ [iname child]))"
    and "paths s (p @ [iname child]) = None"
proof -
  let ?c = "entry_of (d_id d) child"
  have *: "map_of m (iname child) = None" "s' = s\<lparr>fd_root := tree_put (fd_root s) p
      (dir_map n d (bt_insert (iname child) ?c m))\<rparr>"
      "added = (if is_file child then Owned (set_parent_id (d_id d) child) else Ref [iname child])"
    using assms(2,4) by (auto simp: on_ptr_Ref_Inr add_child_Inr simp del: add_child.simps)
  show ptr: "rebase (Ref p) added =
      (if is_file child then Owned (set_parent_id (d_id d) child) else Ref (p @ [iname child]))"
    by (simp add: *(3) rebase_def)
  note ins = insert_step[OF assms(1,2) *(1) entry_of_simps(1) assms(3)]
  let ?r = "tree_put (fd_root s) p (dir_map n d (bt_insert (iname child) ?c m))"
  have "deref ?r (rebase (Ref p) added) = Some (set_parent_id (d_id d) child)"
    unfolding ptr using ins(4) by (cases "is_file child") (simp_all add: deref_def entry_of_def)
  then show "\<exists>r m'. s' = s\<lparr>fd_root := r\<rparr> \<and> tree_ok r \<and> tree_get r p = Some (dir_map n d m') \<and>
      deref r (rebase (Ref p) added) = Some (set_parent_id (d_id d) child) \<and>
      (\<forall>q. lookup r q = (if prefix (p @ [iname child]) q
         then lookup ?c (drop (Suc (length p)) q) else paths s q))"
    using *(2) ins by (intro exI[of _ ?r] exI[of _ "bt_insert (iname child) ?c m"]) simp
  show "paths s (p @ [iname child]) = None" using *(1) assms(2) by (simp add: lookup_child)
qed

subsection \<open>Resolved paths\<close>

text \<open>The pointer a resolved path holds for a node: a reference for a directory, the stored inode
  under the name of the entry for a file.\<close>

fun node_ptr :: "inode_map \<Rightarrow> string list \<Rightarrow> node \<Rightarrow> inode_ptr \<Rightarrow> bool" where
  "node_ptr I p (NDir d) ptr \<longleftrightarrow> ptr = Ref p"
| "node_ptr I p (NEntry i) ptr \<longleftrightarrow> (\<exists>n f. I i = Some (File n f) \<and> ptr = Owned (File (last p) f))"
| "node_ptr I p (NFile f) ptr \<longleftrightarrow> False"

definition at_path :: "fs_map \<Rightarrow> inode_map \<Rightarrow> inode_path \<Rightarrow> string list \<Rightarrow> bool" where
  "at_path L I inp p \<longleftrightarrow> ip_components inp \<noteq> [] \<and> tl (ip_components inp) = p \<and>
     length (ip_components inp) < 2 ^ 31 \<and> (p \<noteq> [] \<longrightarrow> ip_name inp = last p) \<and>
     ip_inodes inp \<noteq> [] \<and> length (ip_inodes inp) \<le> Suc (length p) \<and>
     (\<forall>i<length (ip_inodes inp). \<exists>x. L (take i p) = Some x \<and> node_ptr I (take i p) x (ip_inodes inp ! i)) \<and>
     (length (ip_inodes inp) \<le> length p \<longrightarrow> L (take (length (ip_inodes inp)) p) = None)"

lemma at_pathD:
  assumes "at_path L I inp p"
  shows "length (ip_components inp) = Suc (length p)" "Suc (length p) < 2 ^ 31" "ip_inodes inp \<noteq> []"
    "p \<noteq> [] \<Longrightarrow> ip_name inp = last p"
    "length (ip_inodes inp) \<le> Suc (length p)"
    "i < length (ip_inodes inp) \<Longrightarrow> \<exists>x. L (take i p) = Some x \<and> node_ptr I (take i p) x (ip_inodes inp ! i)"
    "length (ip_inodes inp) \<le> length p \<Longrightarrow> L (take (length (ip_inodes inp)) p) = None"
    "is_full inp \<longleftrightarrow> length (ip_inodes inp) = Suc (length p)" "ip_is_root inp \<longleftrightarrow> p = []"
    "j < length p \<Longrightarrow> ip_components inp ! Suc j = p ! j"
proof -
  obtain h where h: "ip_components inp = h # p"
    using assms by (cases "ip_components inp") (auto simp: at_path_def)
  show "length (ip_components inp) = Suc (length p)" "is_full inp \<longleftrightarrow> length (ip_inodes inp) = Suc (length p)"
    "ip_is_root inp \<longleftrightarrow> p = []" "j < length p \<Longrightarrow> ip_components inp ! Suc j = p ! j"
    by (auto simp: h is_full_def ip_is_root_def)
  show "Suc (length p) < 2 ^ 31" using assms by (simp add: h at_path_def)
qed (use assms in \<open>simp_all add: at_path_def\<close>)

lemma get_inode_nat:
  "i < 2 ^ 64 \<Longrightarrow> get_inode inp (int i) = (if i < length (ip_inodes inp) then Some (ip_inodes inp ! i) else None)"
proof -
  assume "i < 2 ^ 64"
  then have "int i mod 2 ^ 64 = int i" by (metis mod_less of_nat_mod of_nat_numeral of_nat_power)
  then show ?thesis by (simp add: get_inode_def Let_def)
qed

text \<open>The negative positions the code uses count from the end of the path, not of the inodes.\<close>

lemma get_inode_back:
  assumes "length (ip_components inp) < 2 ^ 31" "length (ip_inodes inp) < 2 ^ 31" "0 < j" "j < 2 ^ 31"
  shows "get_inode inp (- int j) =
    (if j \<le> length (ip_components inp) \<and> length (ip_components inp) - j < length (ip_inodes inp)
     then Some (ip_inodes inp ! (length (ip_components inp) - j)) else None)"
proof -
  let ?n = "length (ip_components inp)"
  have len: "int ?n < 2 ^ 31" "int j < 2 ^ 31" using assms(1,4) by simp_all
  have inner: "signed_take_bit 31 (int ?n) = int ?n"
    using len(1) by (intro signed_take_bit_int_eq_self) simp_all
  have diff: "signed_take_bit 31 (int ?n + - int j) = int ?n - int j"
    using signed_take_bit_int_eq_self[of 31 "int ?n + - int j"] len by simp
  have neg: "- int j < 0 \<longleftrightarrow> True" using assms(3) by simp
  note get = get_inode_def Let_def inner diff neg if_True
  show ?thesis
  proof (cases "j \<le> ?n")
    case True
    then have eq: "int ?n - int j = int (?n - j)" by (simp add: of_nat_diff)
    have "int (?n - j) < 2 ^ 64" using len(1) by simp
    then have "nat ((int ?n - int j) mod 2 ^ 64) = ?n - j"
      unfolding eq by (simp only: mod_pos_pos_trivial of_nat_0_le_iff nat_int)
    then show ?thesis using True by (simp only: get) simp
  next
    case False
    have "(int ?n - int j) mod 2 ^ 64 = int ?n - int j + 2 ^ 64"
      using mod_pos_pos_trivial[of "int ?n - int j + 2 ^ 64" "2 ^ 64"] False len by simp
    moreover have "2 ^ 32 \<le> int ?n - int j + 2 ^ 64" using len by simp
    ultimately have "2 ^ 32 \<le> nat ((int ?n - int j) mod 2 ^ 64)" by simp
    then have "\<not> nat ((int ?n - int j) mod 2 ^ 64) < length (ip_inodes inp)" using assms(2) by simp
    then show ?thesis using False by (simp only: get) simp
  qed
qed

lemma at_path_last:
  assumes "at_path L I inp p"
  shows "get_last_inode inp = (if is_full inp then Some (last (ip_inodes inp)) else None)"
  using get_inode_back[of inp 1] at_pathD[OF assms]
  by (auto simp: get_last_inode_def last_conv_nth split: if_splits)

lemma at_path_parent:
  assumes "at_path L I inp p"
  shows "get_inode inp (-2) =
    (if p \<noteq> [] \<and> length p \<le> length (ip_inodes inp) then Some (ip_inodes inp ! (length p - 1)) else None)"
  using get_inode_back[of inp 2] at_pathD[OF assms] by (cases p) (auto split: if_splits)

lemma split_on_length: "length (split_on c xs) \<le> Suc (length xs)"
  by (induction xs) (auto split: list.splits)

lemma path_components_length: "path_components path = Inr cs \<Longrightarrow> cs \<noteq> [] \<and> length cs \<le> Suc (length path)"
  by (auto simp: path_components_def split_on_length split: if_splits)

lemma resolved_node_ptr:
  assumes E: "env_ok E" and s: "dir_inv E s c" and v: "tree_get (fd_root s) p = Some v"
    and ptr: "resolved_ptr (store_loader E s) p v ptr"
  shows "node_ptr (m_inodes (meta E s)) p (shallow v) ptr"
proof (cases v)
  case (FileEntry n i)
  note inv = dir_invD(3)[OF s]
  have x: "paths s p = Some (NEntry i)" by (simp add: lookup_def v FileEntry)
  obtain full where full: "store_get_inode E (fd_store s) i (Some n) = Inr (Some full)" "ptr = Owned full"
    using ptr by (auto simp: resolved_ptr_def FileEntry store_loader_def)
  obtain n' f where f: "m_inodes (meta E s) i = Some (File n' f)"
    using fs_invD(5)[OF inv] x unfolding files_ok_def by blast
  have "is_i64 i" using dir_inv_i64[OF s x] by simp
  then have "full = File n f" using store_get_inode_metas[OF E _ full(1)] f by simp
  moreover have "n = last p"
    using entry_facts(1)[OF inv x] tree_get_iname[OF dir_invD(1)[OF s], of "butlast p" "last p" v] v FileEntry by simp
  ultimately show ?thesis using f full(2) by (simp add: FileEntry)
next
  case (File n f)
  then show ?thesis using tree_ok_get[OF dir_invD(1)[OF s] v] by simp
qed (use ptr in \<open>simp add: resolved_ptr_def\<close>)

lemma resolve_at_path:
  assumes E: "env_ok E" and s: "dir_inv E s c" and inp: "resolve_path E s path = Inr inp"
    and len: "length path < 2 ^ 31 - 1"
  shows "at_path (paths s) (m_inodes (meta E s)) inp (tl (ip_components inp))"
proof -
  let ?g = "store_loader E s"
  obtain cs ptrs where cs: "path_components path = Inr cs" "resolve_from ?g (fd_root s) [] (tl cs) = Inr ptrs"
      and eq: "inp = \<lparr>ip_path = path, ip_name = last cs, ip_components = cs, ip_inodes = ptrs\<rparr>"
    using inp unfolding resolve_path_def resolve_def Let_def bind_res_Inr_iff
    by (auto split: if_splits)
  note sp = resolve_from_spec[OF cs(2), simplified]
  have "\<exists>x. paths s (take i (tl cs)) = Some x \<and> node_ptr (m_inodes (meta E s)) (take i (tl cs)) x (ptrs ! i)"
    if less: "i < length ptrs" for i
  proof -
    obtain v where v: "tree_get (fd_root s) (take i (tl cs)) = Some v"
        "resolved_ptr ?g (take i (tl cs)) v (ptrs ! i)"
      using sp less by blast
    then show ?thesis using resolved_node_ptr[OF E s v] by (auto simp: lookup_def)
  qed
  moreover have "last cs = last (tl cs)" if "tl cs \<noteq> []" using that by (cases cs) auto
  ultimately show ?thesis
    using sp path_components_length[OF cs(1)] len
    by (auto simp: eq at_path_def lookup_def)
qed

subsection \<open>Adding a node\<close>

definition fresh_child :: "inode_view \<Rightarrow> bool" where
  "fresh_child child \<longleftrightarrow> (\<exists>k d. child = Dir k d new_map) \<or> (\<exists>k f. child = File k f \<and> f_nlink f = 1)"

lemma fresh_child_entry:
  assumes "fresh_child child"
  shows "tree_ok (entry_of pid child)"
    "lookup (entry_of pid child) q = (if q = [] then Some (shallow (entry_of pid child)) else None)"
    "stored_new (iname child) (shallow (entry_of pid child)) (strip (set_parent_id pid child))"
    "node_id (shallow (entry_of pid child)) = iid child"
proof -
  show "tree_ok (entry_of pid child)"
    using assms by (auto simp: fresh_child_def entry_of_def is_file_def new_map_def map_inv_def tree_ok_leaf
        intro!: tree_ok_DirI)
  show "lookup (entry_of pid child) q = (if q = [] then Some (shallow (entry_of pid child)) else None)"
    using assms by (cases q) (auto simp: fresh_child_def entry_of_def is_file_def new_map_def lookup_leaf)
  show "stored_new (iname child) (shallow (entry_of pid child)) (strip (set_parent_id pid child))"
    using assms by (auto simp: fresh_child_def entry_of_def is_file_def intro!: exI[of _ pid])
qed simp

lemma dir_at:
  assumes "tree_ok root" "lookup root p = Some (NDir d)"
  obtains n m where "tree_get root p = Some (dir_map n d m)" "p = [] \<or> n = last p"
proof -
  obtain n m where nm: "tree_get root p = Some (dir_map n d m)" using assms by (rule lookup_dirD)
  moreover have "n = last p" if "p \<noteq> []"
    using tree_get_iname[OF assms(1), of "butlast p" "last p"] nm that by simp
  ultimately show thesis using that by blast
qed

text \<open>The two changes in memory: the parent's modification time and the new child.\<close>

lemma add_in_memory:
  assumes ok: "tree_ok (fd_root s)" and p: "paths s p = Some (NDir d)" and child: "tree_ok (entry_of (d_id d) child)"
    and touch: "on_ptr (Ref p) (pure_op (update_mtime t)) s = (Inr a, s1)"
    and add: "on_ptr (Ref p) (add_child child) s1 = (Inr (added, b), s2)"
  obtains r pv n where "s2 = s\<lparr>fd_root := r\<rparr>" "tree_ok r" "paths s (p @ [iname child]) = None"
    "\<forall>q. lookup r q = (if prefix (p @ [iname child]) q
       then lookup (entry_of (d_id d) child) (drop (Suc (length p)) q) else ((paths s)(p \<mapsto> NDir (touch t d))) q)"
    "tree_get r p = Some pv" "iid pv = d_id d" "strip pv = Dir n (touch t d) new_map" "p = [] \<or> n = last p"
    "rebase (Ref p) added =
      (if is_file child then Owned (set_parent_id (d_id d) child) else Ref (p @ [iname child]))"
    "deref r (rebase (Ref p) added) = Some (set_parent_id (d_id d) child)"
proof -
  obtain n m where nm: "tree_get (fd_root s) p = Some (dir_map n d m)" "p = [] \<or> n = last p"
    using ok p by (rule dir_at)
  obtain r1 where r1: "s1 = s\<lparr>fd_root := r1\<rparr>" "tree_ok r1" "lookup r1 = (paths s)(p \<mapsto> NDir (touch t d))"
      "tree_get r1 p = Some (dir_map n (touch t d) m)"
    using touch_ptr[OF ok nm(1) touch] by blast
  have s1: "tree_ok (fd_root s1)" "tree_get (fd_root s1) p = Some (dir_map n (touch t d) m)"
      "tree_ok (entry_of (d_id (touch t d)) child)"
    using r1 child by simp_all
  note * = add_ptr[OF s1 add, unfolded touch_id]
  obtain r m' where r: "s2 = s1\<lparr>fd_root := r\<rparr>" "tree_ok r" "tree_get r p = Some (dir_map n (touch t d) m')"
      "deref r (rebase (Ref p) added) = Some (set_parent_id (d_id d) child)"
      "\<And>q. lookup r q = (if prefix (p @ [iname child]) q
         then lookup (entry_of (d_id d) child) (drop (Suc (length p)) q) else paths s1 q)"
    using *(1) by blast
  have "paths s (p @ [iname child]) = None" using *(3) r1 by simp
  from that[OF _ r(2) this _ r(3) _ _ nm(2) *(2) r(4)] r(1,5) r1(1,3) show thesis by (simp add: new_map_def)
qed

text \<open>The maps after a node was added.\<close>

lemma fs_inv_added:
  assumes inv: "fs_inv L I Ed c" and p: "L p = Some (NDir d)" "L (p @ [iname child]) = None"
    and child: "fresh_child child" "c < iid child" "is_i64 (iid child)" and nm: "p = [] \<or> n = last p"
  shows "fs_inv (L(p \<mapsto> NDir (touch t d), p @ [iname child] \<mapsto> shallow (entry_of (d_id d) child)))
    (I(iid child \<mapsto> strip (set_parent_id (d_id d) child), d_id d \<mapsto> Dir n (touch t d) new_map))
    (Ed(d_id d := (Ed (d_id d))(iname child \<mapsto> iid child))) (iid child)"
proof -
  note ent = fresh_child_entry[OF child(1)]
  have t: "fs_inv (L(p \<mapsto> NDir (touch t d))) (I(d_id d \<mapsto> Dir n (touch t d) new_map)) Ed c"
    by (rule fs_inv_touch[OF inv p(1) touch_id]) (use nm in blast)
  have "d_id d \<noteq> iid child" using ids_bound(1)[OF fs_invD(2)[OF inv] p(1)] child(2) by auto
  then show ?thesis
    using fs_inv_add[OF t, of p "touch t d" "iname child" "shallow (entry_of (d_id d) child)"] p(2) ent(3,4) child
    by (simp add: fun_upd_twist)
qed

lemma last_existing:
  assumes inp: "at_path L I inp p" and nf: "\<not> is_full inp"
  defines "n \<equiv> length (ip_inodes inp) - 1"
  obtains x where "get_inode inp (int (existing_len inp) - 1) = Some (ip_inodes inp ! n)"
    "n < length p" "L (take n p) = Some x" "node_ptr I (take n p) x (ip_inodes inp ! n)"
    "take n p @ [p ! n] = take (Suc n) p" "length (ip_inodes inp) = Suc n" "L (take n p @ [p ! n]) = None"
    "\<not> ip_is_root inp" "ip_components inp ! length (ip_inodes inp) = p ! n"
    "length (ip_inodes inp) < length (ip_components inp)"
proof -
  note d = at_pathD[OF inp]
  have n: "length (ip_inodes inp) = Suc n" "n < length p" using d(3,5,8) nf by (cases "ip_inodes inp"; simp add: n_def)+
  have pos: "int (existing_len inp) - 1 = int n" using n(1) by (simp add: existing_len_def)
  have "n < 2 ^ 64" using n(2) d(2) by simp
  then have "get_inode inp (int (existing_len inp) - 1) = Some (ip_inodes inp ! n)"
    unfolding pos using n(1) by (simp only: get_inode_nat) simp
  moreover obtain x where "L (take n p) = Some x" "node_ptr I (take n p) x (ip_inodes inp ! n)"
    using d(6)[of n] n by auto
  moreover have tk: "take n p @ [p ! n] = take (Suc n) p" using n(2) by (simp add: take_Suc_conv_app_nth)
  moreover have "L (take n p @ [p ! n]) = None" using d(7) n tk by simp
  moreover have "\<not> ip_is_root inp" using d(9) n(2) by auto
  moreover have "ip_components inp ! length (ip_inodes inp) = p ! n" using d(10) n by simp
  ultimately show thesis using that n d(1) by simp
qed

lemma node_ptr_dir:
  assumes "node_ptr I p x ptr" "deref root ptr = Some v" "is_dir v"
  obtains d where "x = NDir d" "ptr = Ref p"
  using assms by (cases x) (auto simp: deref_def)

text \<open>A path stays resolved when the next component of it is added.\<close>

lemma at_path_extend:
  assumes inp: "at_path L I inp p" and nf: "\<not> is_full inp" and n: "length (ip_inodes inp) = Suc n"
    and dirs: "L (take n p) = Some (NDir d)" and shape: "shape_ok L"
    and below: "\<And>i. Suc n < i \<Longrightarrow> i \<le> length p \<Longrightarrow> L' (take i p) = None"
    and keep: "\<And>i e. i \<le> n \<Longrightarrow> L (take i p) = Some (NDir e) \<Longrightarrow> \<exists>e'. L' (take i p) = Some (NDir e')"
    and new: "L' (take (Suc n) p) = Some x" "node_ptr I' (take (Suc n) p) x ptr"
  shows "at_path L' I' (inp\<lparr>ip_inodes := ip_inodes inp @ [ptr]\<rparr>) p"
proof -
  note d = at_pathD[OF inp]
  have np: "Suc n \<le> length p" using d(5,8) nf n by simp
  have "\<exists>x. L' (take i p) = Some x \<and> node_ptr I' (take i p) x ((ip_inodes inp @ [ptr]) ! i)"
    if i: "i < Suc (Suc n)" for i
  proof (cases "i = Suc n")
    case True
    then show ?thesis using new n by (simp add: nth_append)
  next
    case False
    then have "i \<le> n" using i by simp
    obtain y where y: "L (take i p) = Some y" "node_ptr I (take i p) y (ip_inodes inp ! i)"
      using d(6)[of i] n \<open>i \<le> n\<close> by auto
    have "take n p = take i p @ take (n - i) (drop i p)" using \<open>i \<le> n\<close> by (simp flip: take_add)
    then obtain e where "y = NDir e"
      using y(1) dirs shape_prefix[OF shape, of "take i p" "take (n - i) (drop i p)"]
      by (cases "take (n - i) (drop i p) = []") auto
    then show ?thesis using y keep[OF \<open>i \<le> n\<close>] n \<open>i \<le> n\<close> by (auto simp: nth_append)
  qed
  then show ?thesis using inp n np below[of "Suc (Suc n)"] unfolding at_path_def by auto
qed

lemma add_last_inode_Inr:
  assumes "add_last_inode E child inp s = (Inr inp', s')" "\<not> is_full inp" "\<not> ip_is_root inp"
    "get_inode inp (int (existing_len inp) - 1) = Some parent"
  obtains v a s1 added b s2 pv cv st where
    "deref (fd_root s) parent = Some v" "is_dir v"
    "on_ptr parent (pure_op (update_mtime (imtime child))) s = (Inr a, s1)"
    "on_ptr parent (add_child child) s1 = (Inr (added, b), s2)"
    "deref (fd_root s2) parent = Some pv" "deref (fd_root s2) (rebase parent added) = Some cv"
    "apply_add E (fd_clock s2 (fd_tick s2)) pv cv (fd_store s2) = (Inr (), st)"
    "s' = s2\<lparr>fd_tick := Suc (fd_tick s2), fd_store := st\<rparr>"
    "ip_append (iname cv) (rebase parent added) inp = Inr inp'"
  using assms unfolding add_last_inode_def
  by (auto simp: bind_op_Inr_iff now_ms_Inr read_ptr_Inr on_store_Inr split: if_splits)

lemma ip_append_Inr:
  assumes "ip_append n ptr inp = Inr inp'" "length (ip_inodes inp) < length (ip_components inp)"
  shows "n = ip_components inp ! length (ip_inodes inp)" "inp' = inp\<lparr>ip_inodes := ip_inodes inp @ [ptr]\<rparr>"
  using assms by (auto simp: ip_append_def get_component_def split: if_splits)

lemma prefix_take: "i \<le> j \<Longrightarrow> prefix (take i p) (take j p)"
  by (metis min_absorb1 take_is_prefix take_take)

text \<open>The state after a fresh child was put under \<open>q\<close> in memory and in the store.\<close>

lemma added_ok:
  assumes s: "dir_inv E s c" and q: "paths s q = Some (NDir d)" "paths s (q @ [iname child]) = None"
    and child: "fresh_child child" "c < iid child" "iid child < 2 ^ 63 - 1"
    and tree: "tree_ok (fd_root s')"
      "\<forall>u. paths s' u = (if prefix (q @ [iname child]) u then lookup (entry_of (d_id d) child) (drop (Suc (length q)) u)
         else ((paths s)(q \<mapsto> NDir (touch t d))) u)"
    and pv: "iid pv = d_id d" "strip pv = Dir m (touch t d) new_map" "q = [] \<or> m = last q"
    and cv: "cv = set_parent_id (d_id d) child"
    and I: "m_inodes (meta E s') = (m_inodes (meta E s))(iid cv \<mapsto> strip cv, iid pv \<mapsto> strip pv)"
    and Ed: "m_edges (meta E s') = (m_edges (meta E s))(iid pv := (m_edges (meta E s) (iid pv))(iname cv \<mapsto> iid cv))"
  shows "paths s' = (paths s)(q \<mapsto> NDir (touch t d), q @ [iname child] \<mapsto> shallow (entry_of (d_id d) child))"
    "dir_inv E s' (iid child)"
    "node_ptr (m_inodes (meta E s')) (q @ [iname child]) (shallow (entry_of (d_id d) child))
       (if is_file child then Owned cv else Ref (q @ [iname child]))"
proof -
  note inv = dir_invD[OF s] and ent = fresh_child_entry[OF child(1), of "d_id d"]
  show L: "paths s' = (paths s)(q \<mapsto> NDir (touch t d), q @ [iname child] \<mapsto> shallow (entry_of (d_id d) child))"
    using shape_below_None[OF fs_invD(1)[OF inv(3)] q(2)] tree(2) ent(2) by (auto simp: fun_eq_iff prefix_def)
  have "is_i64 (iid child)"
    using child(2,3) ids_ok_counter[OF fs_invD(2)[OF inv(3)]] by (simp add: is_i64_def)
  then show "dir_inv E s' (iid child)"
    using fs_inv_added[OF inv(3) q child(1,2) _ pv(3), of t] tree(1) child(3) pv(1,2) cv
    by (simp add: dir_inv_def L I Ed)
  show "node_ptr (m_inodes (meta E s')) (q @ [iname child]) (shallow (entry_of (d_id d) child))
       (if is_file child then Owned cv else Ref (q @ [iname child]))"
    using child(1,2) ids_bound(1)[OF fs_invD(2)[OF inv(3)] q(1)] pv(1) cv
    by (auto simp: fresh_child_def entry_of_def is_file_def I)
qed

text \<open>The stored inodes of the files in the tree are as they were.\<close>

definition files_kept :: "fs_map \<Rightarrow> inode_map \<Rightarrow> inode_map \<Rightarrow> bool" where
  "files_kept L I I' \<longleftrightarrow> (\<forall>q i. L q = Some (NEntry i) \<longrightarrow> I' i = I i)"

lemma files_kept_refl [simp]: "files_kept L I I"
  by (simp add: files_kept_def)

lemma files_kept_add:
  assumes inv: "fs_inv L I Ed c" and p: "L p = Some (NDir d)" "c < i"
  shows "files_kept L I (I(i \<mapsto> u, d_id d \<mapsto> v))"
  unfolding files_kept_def
proof (intro allI impI)
  fix q j assume q: "L q = Some (NEntry j)"
  have "j \<noteq> d_id d" using entry_not_dir[OF inv q p(1)] by auto
  moreover have "j \<noteq> i" using entry_facts(3)[OF inv q] p(2) by auto
  ultimately show "(I(i \<mapsto> u, d_id d \<mapsto> v)) j = I j" by simp
qed

lemma add_last_inode_ok:
  assumes E: "env_ok E" and s: "dir_inv E s c" and inp: "at_path (paths s) (m_inodes (meta E s)) inp p"
    and nf: "\<not> is_full inp" and child: "fresh_child child" "c < iid child" "iid child < 2 ^ 63 - 1"
    and add: "add_last_inode E child inp s = (Inr inp', s')"
  obtains q k d where "take (length (ip_inodes inp)) p = q @ [k]" "iname child = k"
    "paths s q = Some (NDir d)" "paths s (q @ [k]) = None"
    "paths s' = (paths s)(q \<mapsto> NDir (touch (imtime child) d), q @ [k] \<mapsto> shallow (entry_of (d_id d) child))"
    "dir_inv E s' (iid child)" "at_path (paths s') (m_inodes (meta E s')) inp' p"
    "length (ip_inodes inp') = Suc (length (ip_inodes inp))" "fd_inode_id s' = fd_inode_id s"
    "m_inodes (meta E s') (iid child) = Some (strip (set_parent_id (d_id d) child))"
    "files_kept (paths s) (m_inodes (meta E s)) (m_inodes (meta E s'))"
proof -
  note inv = dir_invD[OF s]
  define n where "n = length (ip_inodes inp) - 1"
  define q where "q = take n p"
  obtain x where x: "get_inode inp (int (existing_len inp) - 1) = Some (ip_inodes inp ! n)"
      "n < length p" "paths s q = Some x" "node_ptr (m_inodes (meta E s)) q x (ip_inodes inp ! n)"
      "q @ [p ! n] = take (Suc n) p" "length (ip_inodes inp) = Suc n" "paths s (q @ [p ! n]) = None"
      "\<not> ip_is_root inp" "ip_components inp ! length (ip_inodes inp) = p ! n"
      "length (ip_inodes inp) < length (ip_components inp)"
    using inp nf unfolding n_def q_def by (rule last_existing)
  obtain v a s1 added b s2 pv cv st where op: "deref (fd_root s) (ip_inodes inp ! n) = Some v" "is_dir v"
      "on_ptr (ip_inodes inp ! n) (pure_op (update_mtime (imtime child))) s = (Inr a, s1)"
      "on_ptr (ip_inodes inp ! n) (add_child child) s1 = (Inr (added, b), s2)"
      "deref (fd_root s2) (ip_inodes inp ! n) = Some pv"
      "deref (fd_root s2) (rebase (ip_inodes inp ! n) added) = Some cv"
      "apply_add E (fd_clock s2 (fd_tick s2)) pv cv (fd_store s2) = (Inr (), st)"
      "s' = s2\<lparr>fd_tick := Suc (fd_tick s2), fd_store := st\<rparr>"
      "ip_append (iname cv) (rebase (ip_inodes inp ! n) added) inp = Inr inp'"
    using add nf x(8,1) by (rule add_last_inode_Inr)
  obtain d where d: "x = NDir d" "ip_inodes inp ! n = Ref q" using x(4) op(1,2) by (rule node_ptr_dir)
  note op' = op[unfolded d(2)]
  have qd: "paths s q = Some (NDir d)" using x(3) d(1) by simp
  obtain r pv' m where r: "s2 = s\<lparr>fd_root := r\<rparr>" "tree_ok r" "paths s (q @ [iname child]) = None"
      "\<forall>t. lookup r t = (if prefix (q @ [iname child]) t then lookup (entry_of (d_id d) child) (drop (Suc (length q)) t)
         else ((paths s)(q \<mapsto> NDir (touch (imtime child) d))) t)"
      "tree_get r q = Some pv'" "iid pv' = d_id d" "strip pv' = Dir m (touch (imtime child) d) new_map" "q = [] \<or> m = last q"
      "rebase (Ref q) added = (if is_file child then Owned (set_parent_id (d_id d) child) else Ref (q @ [iname child]))"
      "deref r (rebase (Ref q) added) = Some (set_parent_id (d_id d) child)"
    using inv(1) qd fresh_child_entry(1)[OF child(1)] op'(3,4) by (rule add_in_memory)
  have views: "pv = pv'" "cv = set_parent_id (d_id d) child" using op'(5,6) r(1,5,10) by (simp_all add: deref_def)
  note app = ip_append_Inr[OF op'(9) x(10)]
  have k: "iname child = p ! n" using app(1) x(9) views by simp
  have ids: "is_i64 (iid pv)" "is_i64 (iid cv)"
    using dir_inv_i64[OF s qd] child(2,3) ids_ok_counter[OF fs_invD(2)[OF inv(3)]] r(6) views
    by (simp_all add: is_i64_def)
  have "meta E s' = put_edge (iid pv) (iname cv) (iid cv) (put_inode pv (put_inode cv (meta E s)))"
    using apply_add_metas[OF E ids op'(7)] op'(8) r(1) by simp
  then have I: "m_inodes (meta E s') = (m_inodes (meta E s))(iid cv \<mapsto> strip cv, iid pv' \<mapsto> strip pv')"
      "m_edges (meta E s') = (m_edges (meta E s))(iid pv' := (m_edges (meta E s) (iid pv'))(iname cv \<mapsto> iid cv))"
    by (simp_all add: views)
  have r': "tree_ok (fd_root s')" "\<forall>t. paths s' t = (if prefix (q @ [iname child]) t
         then lookup (entry_of (d_id d) child) (drop (Suc (length q)) t)
         else ((paths s)(q \<mapsto> NDir (touch (imtime child) d))) t)"
    using r(1,2,4) op'(8) by simp_all
  note ok = added_ok[OF s qd r(3) child r' r(6-8) views(2) I]
  have "at_path (paths s') (m_inodes (meta E s')) inp' p"
    unfolding app(2) d(2)
  proof (rule at_path_extend[OF inp nf x(6) qd[unfolded q_def] fs_invD(1)[OF inv(3)]])
    show "paths s' (take i p) = None" if i: "Suc n < i" "i \<le> length p" for i
    proof -
      have "length (take i p) = i" "length q = n" using i x(2) by (simp_all add: q_def)
      then have "take i p \<noteq> q" "take i p \<noteq> q @ [iname child]"
        using i by (auto dest: arg_cong[where f = length])
      moreover have "paths s (take i p) = None"
        using prefix_take[of "Suc n" i p] i(1) shape_below_None[OF fs_invD(1)[OF inv(3)] x(7)] x(5) by simp
      ultimately show ?thesis by (simp add: ok(1))
    qed
  qed (use ok(1,3) x(5,7) k r(9) views(2) in \<open>auto simp: q_def\<close>)
  moreover have "m_inodes (meta E s') (iid child) = Some (strip cv)"
    using ids_bound(1)[OF fs_invD(2)[OF inv(3)] qd] child(2) r(6) by (simp add: I(1) views(2))
  moreover have "files_kept (paths s) (m_inodes (meta E s)) (m_inodes (meta E s'))"
    using files_kept_add[OF inv(3) qd child(2)] by (simp add: I(1) views(2) r(6))
  ultimately show thesis
    using that[of q "p ! n" d] x(5,6,7) k qd ok(1,2) app(2) op'(8) r(1) views(2) by simp
qed

subsection \<open>Creating directories and files\<close>

text \<open>A node that changed at most in its modification time.\<close>

definition same_node :: "node \<Rightarrow> node \<Rightarrow> bool" where
  "same_node x y \<longleftrightarrow> x = y \<or> (\<exists>d t. x = NDir d \<and> y = NDir (d\<lparr>d_mtime := t\<rparr>))"

text \<open>The map grew along the path \<open>p\<close>: what was there is still there, and what is new lies on \<open>p\<close>,
  has a fresh id, and is a directory unless it is at \<open>p\<close> itself.\<close>

definition grown :: "string list \<Rightarrow> i64 \<Rightarrow> fs_map \<Rightarrow> fs_map \<Rightarrow> bool" where
  "grown p c L L' \<longleftrightarrow>
     (\<forall>q x. L q = Some x \<longrightarrow> (\<exists>y. L' q = Some y \<and> same_node x y)) \<and>
     (\<forall>q y. L q = None \<longrightarrow> L' q = Some y \<longrightarrow> prefix q p \<and> c < node_id y \<and> (q \<noteq> p \<longrightarrow> (\<exists>d. y = NDir d)))"

lemma same_node_refl [simp]: "same_node x x"
  by (simp add: same_node_def)

lemma same_node_trans: "same_node x y \<Longrightarrow> same_node y z \<Longrightarrow> same_node x z"
  by (auto simp: same_node_def)

lemma same_node_facts: "same_node x y \<Longrightarrow> node_id y = node_id x" "same_node (NDir d) y \<Longrightarrow> \<exists>d'. y = NDir d'"
  by (auto simp: same_node_def)

lemma same_node_touch [simp]: "same_node (NDir d) (NDir (touch t d))"
  by (cases "t > d_mtime d") (auto simp: same_node_def touch_def)

lemma grown_refl [simp]: "grown p c L L"
  by (simp add: grown_def)

lemma grown_new: "grown p c L L' \<Longrightarrow> L q = None \<Longrightarrow> L' q = Some y \<Longrightarrow> c < node_id y"
  unfolding grown_def by blast

lemma grown_trans:
  assumes "grown p c L L1" "grown p c1 L1 L2" "c \<le> c1" shows "grown p c L L2"
  unfolding grown_def
proof (intro conjI allI impI)
  fix q x assume "L q = Some x"
  then show "\<exists>y. L2 q = Some y \<and> same_node x y"
    using assms(1,2) same_node_trans unfolding grown_def by metis
next
  fix q y assume q: "L q = None" "L2 q = Some y"
  have "prefix q p \<and> c < node_id y \<and> (q \<noteq> p \<longrightarrow> (\<exists>d. y = NDir d))"
  proof (cases "L1 q")
    case None
    then have "prefix q p \<and> c1 < node_id y \<and> (q \<noteq> p \<longrightarrow> (\<exists>d. y = NDir d))"
      using q(2) assms(2) unfolding grown_def by blast
    then show ?thesis using assms(3) by auto
  next
    case (Some z)
    then have "same_node z y" using assms(2) q(2) unfolding grown_def by fastforce
    moreover have "prefix q p \<and> c < node_id z \<and> (q \<noteq> p \<longrightarrow> (\<exists>d. z = NDir d))"
      using assms(1) q(1) Some unfolding grown_def by blast
    ultimately show ?thesis using same_node_facts(1)[of z y] same_node_facts(2)[of _ y] by auto
  qed
  then show "prefix q p" "c < node_id y" "q \<noteq> p \<Longrightarrow> \<exists>d. y = NDir d" by blast+
qed

lemma grown_add:
  assumes "L q = Some (NDir d)" "L (q @ [k]) = None" "prefix (q @ [k]) p" "c < node_id x"
    and "q @ [k] \<noteq> p \<Longrightarrow> \<exists>e. x = NDir e"
  shows "grown p c L (L(q \<mapsto> NDir (touch t d), q @ [k] \<mapsto> x))"
  using assms unfolding grown_def by auto

text \<open>Adding a node with the next id.\<close>

lemma add_next_ok:
  assumes E: "env_ok E" and s: "dir_ok E s" and inp: "at_path (paths s) (m_inodes (meta E s)) inp p"
    and nf: "\<not> is_full inp" and i: "next_inode_id s = (Inr i, s1)"
    and child: "fresh_child child" "iid child = i"
    and dir: "is_dir child \<or> length (ip_inodes inp) = length p"
    and add: "add_last_inode E child inp (s1\<lparr>fd_tick := k\<rparr>) = (Inr inp', s')"
  shows "dir_ok E s'" "at_path (paths s') (m_inodes (meta E s')) inp' p"
    "length (ip_inodes inp') = Suc (length (ip_inodes inp))"
    "grown p (fd_inode_id s) (paths s) (paths s')" "fd_inode_id s \<le> fd_inode_id s'"
    "\<exists>pid. paths s' (take (length (ip_inodes inp)) p) = Some (shallow (entry_of pid child)) \<and>
       m_inodes (meta E s') i = Some (strip (set_parent_id pid child))"
    "files_kept (paths s) (m_inodes (meta E s)) (m_inodes (meta E s'))"
proof -
  note inv = dir_invD[OF s[unfolded dir_ok_def]]
  have "ROOT_INODE_ID \<le> fd_inode_id s" using ids_ok_counter[OF fs_invD(2)[OF inv(3)]] by simp
  then have lo: "- (2 ^ 63) \<le> fd_inode_id s" by (simp add: ROOT_INODE_ID_def)
  note nx = next_inode_id_Inr[OF i lo inv(2)]
  let ?s = "s1\<lparr>fd_tick := k\<rparr>"
  have eq: "paths ?s = paths s" "meta E ?s = meta E s" using nx(2) by simp_all
  have inv1: "dir_inv E ?s (fd_inode_id s)" using s nx(2) by (simp add: dir_ok_def dir_inv_def)
  have inp1: "at_path (paths ?s) (m_inodes (meta E ?s)) inp p" using inp unfolding eq .
  have ids: "fd_inode_id s < iid child" "iid child < 2 ^ 63 - 1"
    using nx(1,3) child(2) by (simp_all add: ID_MASK_val)
  obtain q n d where q: "take (length (ip_inodes inp)) p = q @ [n]" "iname child = n"
      "paths ?s q = Some (NDir d)" "paths ?s (q @ [n]) = None"
      "paths s' = (paths ?s)(q \<mapsto> NDir (touch (imtime child) d), q @ [n] \<mapsto> shallow (entry_of (d_id d) child))"
      "dir_inv E s' (iid child)" "at_path (paths s') (m_inodes (meta E s')) inp' p"
      "length (ip_inodes inp') = Suc (length (ip_inodes inp))" "fd_inode_id s' = fd_inode_id ?s"
      "m_inodes (meta E s') (iid child) = Some (strip (set_parent_id (d_id d) child))"
      "files_kept (paths ?s) (m_inodes (meta E ?s)) (m_inodes (meta E s'))"
    using E inv1 inp1 nf child(1) ids add by (rule add_last_inode_ok)
  show "dir_ok E s'" using q(6,9) child(2) nx(2) by (simp add: dir_ok_def)
  show "at_path (paths s') (m_inodes (meta E s')) inp' p" by (rule q(7))
  show "length (ip_inodes inp') = Suc (length (ip_inodes inp))" by (rule q(8))
  show "fd_inode_id s \<le> fd_inode_id s'" using q(9) nx by simp
  show "files_kept (paths s) (m_inodes (meta E s)) (m_inodes (meta E s'))" using q(11) unfolding eq .
  have dir': "\<exists>e. shallow (entry_of (d_id d) child) = NDir e" if "q @ [n] \<noteq> p"
  proof -
    have "length (ip_inodes inp) \<noteq> length p" using that q(1) by auto
    then show ?thesis using dir by (cases child) (auto simp: entry_of_def is_file_def)
  qed
  have "prefix (q @ [n]) p" using q(1) by (metis take_is_prefix)
  then show "grown p (fd_inode_id s) (paths s) (paths s')"
    unfolding q(5) eq(1) using q(3,4)[unfolded eq(1)] ids(1) dir' by (intro grown_add) simp_all
  show "\<exists>pid. paths s' (take (length (ip_inodes inp)) p) = Some (shallow (entry_of pid child)) \<and>
    m_inodes (meta E s') i = Some (strip (set_parent_id pid child))"
    using q(1,5,10) child(2) by auto
qed

lemma create_single_dir_ok:
  assumes E: "env_ok E" and s: "dir_ok E s" and inp: "at_path (paths s) (m_inodes (meta E s)) inp p"
    and nf: "\<not> is_full inp" and cr: "create_single_dir E opts inp s = (Inr inp', s')"
  shows "dir_ok E s'" "at_path (paths s') (m_inodes (meta E s')) inp' p"
    "length (ip_inodes inp') = Suc (length (ip_inodes inp))"
    "grown p (fd_inode_id s) (paths s) (paths s')" "fd_inode_id s \<le> fd_inode_id s'"
    "\<exists>i t d. paths s' (take (length (ip_inodes inp)) p) = Some (NDir ((dir_with_opts i t opts)\<lparr>d_parent_id := d\<rparr>))"
    "files_kept (paths s) (m_inodes (meta E s)) (m_inodes (meta E s'))"
proof -
  let ?s0 = "s\<lparr>fd_tick := Suc (fd_tick s)\<rparr>"
  have nr: "\<not> ip_is_root inp" using at_pathD(3,5,8,9)[OF inp] nf by (cases "ip_inodes inp") auto
  obtain name i s1 s2 t jw where op: "next_inode_id ?s0 = (Inr i, s1)"
      "add_last_inode E (Dir name (dir_with_opts i t opts) new_map) inp (s1\<lparr>fd_tick := Suc (fd_tick s1)\<rparr>) = (Inr inp', s2)"
      "s' = s2\<lparr>fd_journal := jw\<rparr>"
    using cr nf nr unfolding create_single_dir_def
    by (auto simp: bind_op_Inr_iff now_ms_Inr on_journal_Inr)
  let ?c = "Dir name (dir_with_opts i t opts) new_map"
  have ch: "fresh_child ?c" "iid ?c = i" "is_dir ?c \<or> length (ip_inodes inp) = length p"
    by (simp_all add: fresh_child_def dir_with_opts_def)
  have s0: "dir_ok E ?s0" "at_path (paths ?s0) (m_inodes (meta E ?s0)) inp p"
    using s inp by (simp_all add: dir_ok_def dir_inv_def)
  note r = add_next_ok[OF E s0 nf op(1) ch op(2)]
  show "dir_ok E s'" "at_path (paths s') (m_inodes (meta E s')) inp' p"
    "length (ip_inodes inp') = Suc (length (ip_inodes inp))"
    "grown p (fd_inode_id s) (paths s) (paths s')" "fd_inode_id s \<le> fd_inode_id s'"
    using r(1-5) op(3) by (simp_all add: dir_ok_def dir_inv_def)
  show "\<exists>i t d. paths s' (take (length (ip_inodes inp)) p) = Some (NDir ((dir_with_opts i t opts)\<lparr>d_parent_id := d\<rparr>))"
    using r(6) op(3) by (auto simp: entry_of_def is_file_def)
  show "files_kept (paths s) (m_inodes (meta E s)) (m_inodes (meta E s'))" using r(7) op(3) by simp
qed

lemma files_kept_trans:
  assumes "files_kept L I I1" "files_kept L1 I1 I2" "grown p c L L1" shows "files_kept L I I2"
  unfolding files_kept_def
proof (intro allI impI)
  fix q i assume q: "L q = Some (NEntry i)"
  then have "L1 q = Some (NEntry i)" using assms(3) unfolding grown_def same_node_def by fastforce
  with q assms(1,2) show "I2 i = I i" unfolding files_kept_def by metis
qed

lemma create_dirs_ok:
  assumes E: "env_ok E" and "dir_ok E s" "at_path (paths s) (m_inodes (meta E s)) inp p"
    and "length (ip_inodes inp) + n \<le> length p" and "create_dirs E opts n inp s = (Inr inp', s')"
  shows "dir_ok E s' \<and> at_path (paths s') (m_inodes (meta E s')) inp' p \<and>
    length (ip_inodes inp') = length (ip_inodes inp) + n \<and>
    grown p (fd_inode_id s) (paths s) (paths s') \<and> fd_inode_id s \<le> fd_inode_id s' \<and>
    files_kept (paths s) (m_inodes (meta E s)) (m_inodes (meta E s'))"
  using assms(2-5)
proof (induction n arbitrary: s inp)
  case (Suc n)
  obtain inp1 s1 where st: "create_single_dir E opts inp s = (Inr inp1, s1)"
      "create_dirs E opts n inp1 s1 = (Inr inp', s')"
    using Suc.prems(4) by (auto simp: bind_op_Inr_iff)
  have "\<not> is_full inp" using at_pathD(8)[OF Suc.prems(2)] Suc.prems(3) by simp
  note one = create_single_dir_ok[OF E Suc.prems(1,2) this st(1)]
  have "length (ip_inodes inp1) + n \<le> length p" using one(3) Suc.prems(3) by simp
  note rest = Suc.IH[OF one(1,2) this st(2)]
  have "grown p (fd_inode_id s) (paths s) (paths s')"
    using grown_trans[OF one(4)] rest one(5) by blast
  moreover have "files_kept (paths s) (m_inodes (meta E s)) (m_inodes (meta E s'))"
    using files_kept_trans[OF one(7) _ one(4)] rest by blast
  ultimately show ?case using rest one(3,5) by auto
qed simp

lemma create_parent_dir_ok:
  assumes E: "env_ok E" and s: "dir_ok E s" and inp: "at_path (paths s) (m_inodes (meta E s)) inp p"
    and cr: "create_parent_dir E opts inp s = (Inr inp', s')"
  shows "dir_ok E s'" "at_path (paths s') (m_inodes (meta E s')) inp' p"
    "length (ip_inodes inp') = max (length p) (length (ip_inodes inp))"
    "grown p (fd_inode_id s) (paths s) (paths s')" "fd_inode_id s \<le> fd_inode_id s'"
    "length p \<le> length (ip_inodes inp) \<Longrightarrow> inp' = inp \<and> s' = s"
    "files_kept (paths s) (m_inodes (meta E s)) (m_inodes (meta E s'))"
proof -
  note d = at_pathD[OF inp]
  let ?n = "length p - length (ip_inodes inp)"
  have run: "create_dirs E opts ?n inp s = (Inr inp', s')"
    using cr d(1,5,8) by (auto simp: create_parent_dir_def existing_len_def Let_def split: if_splits)
  show "length p \<le> length (ip_inodes inp) \<Longrightarrow> inp' = inp \<and> s' = s" using run by simp
  have "dir_ok E s' \<and> at_path (paths s') (m_inodes (meta E s')) inp' p \<and>
      length (ip_inodes inp') = max (length p) (length (ip_inodes inp)) \<and>
      grown p (fd_inode_id s) (paths s) (paths s') \<and> fd_inode_id s \<le> fd_inode_id s' \<and>
      files_kept (paths s) (m_inodes (meta E s)) (m_inodes (meta E s'))"
    using create_dirs_ok[OF E s inp _ run] run s inp
    by (cases "length (ip_inodes inp) \<le> length p") simp_all
  then show "dir_ok E s'" "at_path (paths s') (m_inodes (meta E s')) inp' p"
    "length (ip_inodes inp') = max (length p) (length (ip_inodes inp))"
    "grown p (fd_inode_id s) (paths s) (paths s')" "fd_inode_id s \<le> fd_inode_id s'"
    "files_kept (paths s) (m_inodes (meta E s)) (m_inodes (meta E s'))"
    by blast+
qed

text \<open>\<^verbatim>\<open>mkdir\<close> of a resolved path.\<close>

lemma at_path_exists:
  assumes "shape_ok L" "at_path L I inp p" shows "L p = None \<longleftrightarrow> \<not> is_full inp"
proof (cases "is_full inp")
  case True
  then show ?thesis using at_pathD(6)[OF assms(2), of "length p"] at_pathD(8)[OF assms(2)] by auto
next
  case False
  then have "L (take (length (ip_inodes inp)) p) = None" using at_pathD(5,7,8)[OF assms(2)] by auto
  then show ?thesis using False shape_below_None[OF assms(1)] take_is_prefix by blast
qed

lemma mkdir_ok:
  assumes E: "env_ok E" and s: "dir_ok E s" and inp: "at_path (paths s) (m_inodes (meta E s)) inp p"
    and mk: "mkdir E opts inp s = (Inr inp', s')"
  shows "dir_ok E s' \<and> grown p (fd_inode_id s) (paths s) (paths s') \<and>
    files_kept (paths s) (m_inodes (meta E s)) (m_inodes (meta E s')) \<and>
    (if paths s p = None
     then \<exists>i t d. paths s' p = Some (NDir ((dir_with_opts i t opts)\<lparr>d_parent_id := d\<rparr>))
     else paths s' = paths s)"
proof -
  obtain inp1 s1 where st: "create_parent_dir E (parent_opts opts) inp s = (Inr inp1, s1)"
      "create_single_dir E opts inp1 s1 = (Inr inp', s')"
    using mk by (auto simp: mkdir_def bind_op_Inr_iff)
  note par = create_parent_dir_ok[OF E s inp st(1)]
  note d = at_pathD[OF inp] and shape = fs_invD(1)[OF dir_invD(3)[OF s[unfolded dir_ok_def]]]
  show ?thesis
  proof (cases "is_full inp")
    case True
    then have "inp1 = inp" "s1 = s" using par(6) d(8) by simp_all
    then have "s' = s\<lparr>fd_tick := Suc (fd_tick s)\<rparr>"
      using st(2) True by (auto simp: create_single_dir_def bind_op_Inr_iff now_ms_Inr)
    then show ?thesis using s True at_path_exists[OF shape inp] by (simp add: dir_ok_def dir_inv_def)
  next
    case False
    then have len: "length (ip_inodes inp1) = length p" using par(3) d(5,8) by simp
    then have "\<not> is_full inp1" using at_pathD(8)[OF par(2)] by simp
    note one = create_single_dir_ok[OF E par(1,2) this st(2)]
    then show ?thesis
      using grown_trans[OF par(4) one(4) par(5)] files_kept_trans[OF par(7) one(7) par(4)] False at_path_exists[OF shape inp] len by simp
  qed
qed

text \<open>\<^verbatim>\<open>create_file\<close> of a resolved path.\<close>

lemma create_file_ok:
  assumes E: "env_ok E" and s: "dir_ok E s" and inp: "at_path (paths s) (m_inodes (meta E s)) inp p"
    and cr: "create_file E opts inp s = (Inr inp', s')"
  shows "paths s p = None \<and> dir_ok E s' \<and> grown p (fd_inode_id s) (paths s) (paths s') \<and>
    files_kept (paths s) (m_inodes (meta E s)) (m_inodes (meta E s')) \<and>
    (\<exists>i t n pid. paths s' p = Some (NEntry i) \<and> fd_inode_id s < i \<and>
       m_inodes (meta E s') i = Some (File n ((file_with_opts i t opts)\<lparr>f_parent_id := pid\<rparr>)))"
proof -
  let ?s0 = "s\<lparr>fd_tick := Suc (fd_tick s)\<rparr>"
  note shape = fs_invD(1)[OF dir_invD(3)[OF s[unfolded dir_ok_def]]]
  have nf: "\<not> is_full inp"
    using cr at_path_last[OF inp] unfolding create_file_def by (auto simp: bind_op_Inr_iff now_ms_Inr)
  obtain inp1 s1 i s2 t s3 jw where st: "create_parent_dir E (dir_opts opts) inp ?s0 = (Inr inp1, s1)"
      "next_inode_id s1 = (Inr i, s2)"
      "add_last_inode E (File (ip_name inp1) (file_with_opts i t opts)) inp1 (s2\<lparr>fd_tick := Suc (fd_tick s2)\<rparr>) = (Inr inp', s3)"
      "s' = s3\<lparr>fd_journal := jw\<rparr>"
    using cr nf at_path_last[OF inp] unfolding create_file_def
    by (auto simp: bind_op_Inr_iff now_ms_Inr on_journal_Inr)
  let ?c = "File (ip_name inp1) (file_with_opts i t opts)"
  have s0: "dir_ok E ?s0" "at_path (paths ?s0) (m_inodes (meta E ?s0)) inp p"
    using s inp by (simp_all add: dir_ok_def dir_inv_def)
  note par = create_parent_dir_ok[OF E s0 st(1)]
  have len: "length (ip_inodes inp1) = length p" using par(3) at_pathD(5,8)[OF inp] nf by simp
  then have nf1: "\<not> is_full inp1" using at_pathD(8)[OF par(2)] by simp
  have ch: "fresh_child ?c" "iid ?c = i" "is_dir ?c \<or> length (ip_inodes inp1) = length p"
    using len by (simp_all add: fresh_child_def file_with_opts_def Let_def)
  note add = add_next_ok[OF E par(1,2) nf1 st(2) ch st(3)]
  obtain pid where pid: "paths s3 (take (length (ip_inodes inp1)) p) = Some (shallow (entry_of pid ?c))"
      "m_inodes (meta E s3) i = Some (strip (set_parent_id pid ?c))"
    using add(6) by blast
  then have new: "paths s' p = Some (NEntry i)"
      "m_inodes (meta E s') i = Some (File (ip_name inp1) ((file_with_opts i t opts)\<lparr>f_parent_id := pid\<rparr>))"
    using len ch(2) st(4) by (simp_all add: entry_of_def is_file_def)
  have none: "paths s p = None" using at_path_exists[OF shape inp] nf by simp
  moreover have gr: "grown p (fd_inode_id s) (paths s) (paths s')"
    using grown_trans[OF par(4) add(4) par(5)] st(4) by simp
  moreover have "files_kept (paths s) (m_inodes (meta E s)) (m_inodes (meta E s'))"
    using files_kept_trans[OF par(7) add(7) par(4)] st(4) by simp
  moreover have "fd_inode_id s < i" using grown_new[OF gr none new(1)] by simp
  moreover have "dir_ok E s'" using add(1) st(4) by (simp add: dir_ok_def dir_inv_def)
  ultimately show ?thesis using new by blast
qed

end
