(* ===== verification/Fs_Reload.thy ===== *)
theory Fs_Reload
  imports Fs_Dir_Inv
begin

text \<open>
  A restart: \<^verbatim>\<open>InodeStore::create_tree\<close> rebuilds the tree from the inodes and edges of the database. The
  loop keeps a queue of the nodes that are still to be loaded; it ends, and the tree it leaves has the
  paths, kinds and ids of the tree there was.
\<close>

subsection \<open>The edges of a directory\<close>

abbreviation scan_ids :: "('db, 'b) meta_env \<Rightarrow> 'db \<Rightarrow> i64 \<Rightarrow> i64 list res" where
  "scan_ids E db i \<equiv> bind_res (edges_iter E db i) (\<lambda>items.
     collect_map (\<lambda>kv. i64_from_bytes (rk_unraw (me_rocks E) (snd kv))) items)"

text \<open>Reading the database does not fail, and what is stored can be decoded.\<close>

definition reads_ok :: "('db, 'b) meta_env \<Rightarrow> 'db \<Rightarrow> bool" where
  "reads_ok E db \<longleftrightarrow> (\<forall>i. is_i64 i \<longrightarrow>
     (\<exists>v. rocks_get_inode E db i = Inr v) \<and> (\<exists>ids. scan_ids E db i = Inr ids))"

lemma i64_bytes_top:
  assumes "is_i64 i" "0 \<le> i" shows "\<exists>b\<in>set (i64_to_bytes i). b \<noteq> 0xff"
proof -
  have hi: "word_of_int (i div 256 ^ 7) \<in> set (i64_to_bytes i)"
    by (simp add: i64_to_bytes_def numeral_eq_Suc zdiv_zmult2_eq[symmetric])
  moreover have "word_of_int (i div 256 ^ 7) \<noteq> (0xff :: 8 word)"
  proof
    assume "word_of_int (i div 256 ^ 7) = (0xff :: 8 word)"
    then have "uint (word_of_int (i div 256 ^ 7) :: 8 word) = 255" by simp
    moreover have b: "i div 256 ^ 7 < 128" "0 \<le> i div 256 ^ 7"
      using assms by (simp_all add: is_i64_def pos_imp_zdiv_nonneg_iff)
    moreover have "uint (word_of_int (i div 256 ^ 7) :: 8 word) = i div 256 ^ 7" using b by (simp add: uint_word_of_int)
    ultimately show False by linarith
  qed
  ultimately show ?thesis by (intro bexI[OF _ hi])
qed

lemma of_char_byte: "(of_char (char_of (unat w) :: char) :: u8) = w"
proof -
  have "(of_char (char_of (unat w) :: char) :: u8) = of_nat (of_char (char_of (unat w) :: char) :: nat)"
    by (simp only: of_nat_of_char)
  also have "of_char (char_of (unat w) :: char) = unat w" using unsigned_less[where ?'a = nat, of w] by simp
  finally show ?thesis by simp
qed

lemma decode_Some_iff: "decode de b = Some v \<longleftrightarrow> (\<exists>x. b = Some x \<and> de x = Inr v)"
  by (cases b) (auto simp: decode_def split: sum.splits)

lemma scan_ids_names:
  assumes E: "env_ok E" and i: "is_i64 i" "0 \<le> i" and scan: "scan_ids E db i = Inr ids"
  shows "\<exists>ns. distinct ns \<and> length ns = length ids \<and>
    (\<forall>n j. m_edges (metas_of E (rk_view (me_rocks E) db)) i n = Some j \<longleftrightarrow> (n, j) \<in> set (zip ns ids))"
proof -
  let ?K = "me_rocks E" and ?key = "i64_to_bytes i"
  let ?de = "\<lambda>b. i64_from_bytes (rk_unraw ?K b)"
  obtain kvs where it: "rk_iter ?K db CF_EDGES (Some (?key, calculate_end_bytes ?key)) = map Inr kvs"
      and ids: "list_all2 (\<lambda>kv j. ?de (snd kv) = Inr j) kvs ids"
    using scan by (auto simp: edges_iter_def db_prefix_scan_def collect_map_Inr)
  have view: "(k, b) \<in> set kvs \<longleftrightarrow> prefix ?key k \<and> rk_view ?K db CF_EDGES k = Some b" for k b
    using rocks_iter[OF env_rocks[OF E] it] map_of_sorted_iff[of kvs k b] prefix_scan_range[OF i64_bytes_top[OF i]]
    by (auto simp: in_range_def split: if_splits)
  have dist: "distinct (map fst kvs)" by (rule keys_sorted_distinct[OF rocks_iter(1)[OF env_rocks[OF E] it]])
  define name where "name = (\<lambda>k :: bytes. map (\<lambda>w. char_of (unat w) :: char) (drop (length ?key) k))"
  have key: "i64_str_to_bytes i (name k) = k" if "prefix ?key k" for k
    using that by (auto simp: name_def i64_str_to_bytes_def str_bytes_def prefix_def comp_def of_char_byte)
  have name: "name (i64_str_to_bytes i n) = n" for n
    by (simp add: name_def i64_str_to_bytes_def str_bytes_def comp_def unat_of_char_u8)
  let ?ns = "map (name \<circ> fst) kvs"
  have len: "length ?ns = length ids" using list_all2_lengthD[OF ids] by simp
  have "distinct ?ns"
  proof -
    have "inj_on name (fst ` set kvs)"
    proof (rule inj_onI)
      fix k k' assume "k \<in> fst ` set kvs" "k' \<in> fst ` set kvs" "name k = name k'"
      then show "k = k'" using key view by (metis (no_types, opaque_lifting) imageE prod.collapse)
    qed
    then show ?thesis using dist comp_inj_on[of fst "set kvs" name] by (simp add: distinct_map)
  qed
  moreover have "m_edges (metas_of E (rk_view ?K db)) i n = Some j \<longleftrightarrow> (n, j) \<in> set (zip ?ns ids)" for n j
  proof
    assume "m_edges (metas_of E (rk_view ?K db)) i n = Some j"
    then obtain b where b: "rk_view ?K db CF_EDGES (i64_str_to_bytes i n) = Some b" "?de b = Inr j"
      using i by (auto simp: metas_of_def decode_Some_iff)
    then have "(i64_str_to_bytes i n, b) \<in> set kvs" using view by (simp add: i64_str_to_bytes_def)
    then obtain t where t: "t < length kvs" "kvs ! t = (i64_str_to_bytes i n, b)" by (metis in_set_conv_nth)
    then have "ids ! t = j" using list_all2_nthD[OF ids t(1)] b(2) by simp
    then show "(n, j) \<in> set (zip ?ns ids)"
      using t len by (auto simp: in_set_zip name intro!: exI[of _ t])
  next
    assume "(n, j) \<in> set (zip ?ns ids)"
    then obtain t where t: "t < length kvs" "name (fst (kvs ! t)) = n" "ids ! t = j" by (auto simp: in_set_zip)
    then have "(fst (kvs ! t), snd (kvs ! t)) \<in> set kvs" by simp
    then have "i64_str_to_bytes i n = fst (kvs ! t)" "rk_view ?K db CF_EDGES (fst (kvs ! t)) = Some (snd (kvs ! t))"
      using view key t(2) by blast+
    then show "m_edges (metas_of E (rk_view ?K db)) i n = Some j"
      using list_all2_nthD[OF ids t(1)] t(3) i by (simp add: metas_of_def decode_def)
  qed
  ultimately show ?thesis using len by blast
qed

subsection \<open>One node\<close>

abbreviation db_inodes :: "('db, 'b) meta_env \<Rightarrow> 'db \<Rightarrow> inode_map" where
  "db_inodes E db \<equiv> m_inodes (metas_of E (rk_view (me_rocks E) db))"

abbreviation db_edges :: "('db, 'b) meta_env \<Rightarrow> 'db \<Rightarrow> edge_map" where
  "db_edges E db \<equiv> m_edges (metas_of E (rk_view (me_rocks E) db))"

text \<open>The loop names a node after the inode, not after the edge: the stored name of a file is the name of
  every path that leads to it.\<close>

definition names_ok :: "fs_map \<Rightarrow> inode_map \<Rightarrow> bool" where
  "names_ok L I \<longleftrightarrow> (\<forall>p i n f. L p = Some (NEntry i) \<longrightarrow> I i = Some (File n f) \<longrightarrow> n = last p)"

definition stored_fs :: "('db, 'b) meta_env \<Rightarrow> 'db \<Rightarrow> fs_map \<Rightarrow> i64 \<Rightarrow> bool" where
  "stored_fs E db L c \<longleftrightarrow> env_ok E \<and> reads_ok E db \<and> fs_inv L (db_inodes E db) (db_edges E db) c \<and>
     names_ok L (db_inodes E db)"

text \<open>A node and what is loaded for it: the attributes of the root are not stored, and the parent id is
  that of the directory the node is found in.\<close>

definition reloaded :: "string list \<Rightarrow> node \<Rightarrow> node \<Rightarrow> bool" where
  "reloaded p x y \<longleftrightarrow>
     (case x of
        NDir d \<Rightarrow> (\<exists>d'. y = NDir d' \<and> d_id d' = d_id d \<and>
          (p \<noteq> [] \<longrightarrow> d'\<lparr>d_parent_id := 0\<rparr> = d\<lparr>d_parent_id := 0\<rparr>))
      | _ \<Rightarrow> y = x)"

definition missing :: "fs_map \<Rightarrow> inode_view \<Rightarrow> string list set" where
  "missing L root = {p @ [k] | p k. lookup root p \<noteq> None \<and> L (p @ [k]) \<noteq> None \<and> lookup root (p @ [k]) = None}"

definition reload_inv :: "fs_map \<Rightarrow> inode_view \<Rightarrow> string list list \<Rightarrow> bool" where
  "reload_inv L root ws \<longleftrightarrow> tree_ok root \<and> dom (lookup root) \<subseteq> dom L \<and> lookup root [] \<noteq> None \<and>
     (\<forall>p x y. L p = Some x \<longrightarrow> lookup root p = Some y \<longrightarrow> reloaded p x y) \<and>
     distinct ws \<and> set ws = missing L root"

definition todo :: "fs_map \<Rightarrow> string list \<Rightarrow> string list \<times> i64" where
  "todo L w = (butlast w, node_id (the (L w)))"

text \<open>The stored inode of a node, and the entry the loop puts into the tree for it.\<close>

definition stored_as :: "string list \<Rightarrow> node \<Rightarrow> inode_view \<Rightarrow> bool" where
  "stored_as w x u \<longleftrightarrow>
     (case x of
        NDir d \<Rightarrow> (\<exists>k pid. u = Dir k (d\<lparr>d_parent_id := pid\<rparr>) new_map)
      | NEntry i \<Rightarrow> (\<exists>k f. u = File k f \<and> f_id f = i)
      | NFile f \<Rightarrow> False)"

lemma stored_entry:
  assumes "stored_as w x u"
  shows "tree_ok (entry_of pid u)" "lookup (entry_of pid u) = [[] \<mapsto> shallow (entry_of pid u)]"
    "reloaded w x (shallow (entry_of pid u))" "node_id (shallow (entry_of pid u)) = node_id x"
    "is_dir (set_parent_id pid u) \<longleftrightarrow> is_dir u" "is_dir u \<longleftrightarrow> (\<exists>d. x = NDir d)"
proof -
  have leaf: "lookup v = [[] \<mapsto> shallow v]" if "\<And>n. get_child v n = None" for v
  proof
    fix q show "lookup v q = [[] \<mapsto> shallow v] q" by (cases q) (simp_all add: lookup_def that)
  qed
  have dir: "tree_ok (Dir n d new_map)" for n d
    by (auto simp: new_map_def map_inv_def intro!: tree_ok_DirI)
  show "tree_ok (entry_of pid u)"
    using assms dir tree_ok_leaf by (auto simp: stored_as_def entry_of_def is_file_def split: node.splits)
  show "lookup (entry_of pid u) = [[] \<mapsto> shallow (entry_of pid u)]"
    by (rule leaf) (use assms in \<open>auto simp: stored_as_def entry_of_def is_file_def new_map_def split: node.splits\<close>)
  show "reloaded w x (shallow (entry_of pid u))" "node_id (shallow (entry_of pid u)) = node_id x"
      "is_dir (set_parent_id pid u) \<longleftrightarrow> is_dir u" "is_dir u \<longleftrightarrow> (\<exists>d. x = NDir d)"
    using assms by (auto simp: stored_as_def entry_of_def is_file_def reloaded_def split: node.splits)
qed

lemma load_child_step:
  assumes pre: "stored_fs E db L c" and inv: "reload_inv L root (w # ws)"
  obtains x q node root' counts' y where "L w = Some x" "lookup root w = None"
    "load_child E db root (butlast w) (node_id x) counts = Inr (q, node, root', counts')"
    "tree_ok root'" "lookup root' = (lookup root)(w \<mapsto> y)" "reloaded w x y" "node_id y = node_id x"
    "case x of NDir d \<Rightarrow> q = w \<and> is_dir node \<and> iid node = d_id d | _ \<Rightarrow> \<not> is_dir node"
proof -
  have E: "env_ok E" and reads: "reads_ok E db" and fs: "fs_inv L (db_inodes E db) (db_edges E db) c"
    and names: "names_ok L (db_inodes E db)" using pre by (simp_all add: stored_fs_def)
  note parts = fs_invD[OF fs]
  have "w \<in> missing L root" using inv unfolding reload_inv_def by (metis list.set_intros(1))
  then obtain p k where w: "w = p @ [k]" "lookup root p \<noteq> None" "L w \<noteq> None" "lookup root w = None"
    unfolding missing_def by blast
  obtain x where x: "L w = Some x" using w(3) by blast
  obtain d where d: "L p = Some (NDir d)" using shape_parent[OF parts(1)] x w(1) by blast
  have tree: "tree_ok root" using inv by (simp add: reload_inv_def)
  obtain y where y: "lookup root p = Some y" using w(2) by blast
  then have "reloaded p (NDir d) y" using inv d unfolding reload_inv_def by blast
  then obtain d' where d': "lookup root p = Some (NDir d')" using y by (auto simp: reloaded_def)
  obtain n m where m: "tree_get root p = Some (dir_map n d' m)" using tree d' by (rule dir_at)
  have none: "map_of m k = None" using w(1,4) m by (simp add: lookup_def tree_get_append split: option.splits)
  have id: "is_i64 (node_id x)" "node_id x \<noteq> ROOT_INODE_ID"
    using parts(2) x w(1) unfolding ids_ok_def is_i64_def by (fastforce simp: ROOT_INODE_ID_def)+
  obtain v where v: "rocks_get_inode E db (node_id x) = Inr v" using reads id(1) unfolding reads_ok_def by blast
  have stored: "v = db_inodes E db (node_id x)" by (rule rocks_get_inode_metas[OF E id(1) v])
  obtain u where u: "v = Some u" "iname u = k" "iid u = node_id x" "stored_as w x u"
  proof (cases x)
    case (NDir e)
    then obtain pid where "db_inodes E db (d_id e) = Some (Dir k (e\<lparr>d_parent_id := pid\<rparr>) new_map)"
      using parts(4) x w(1) unfolding dirs_ok_def by fastforce
    then show ?thesis using that stored NDir by (auto simp: stored_as_def)
  next
    case (NEntry i)
    then obtain nm f where f: "db_inodes E db i = Some (File nm f)" "f_id f = i"
      using parts(5) x unfolding files_ok_def by blast
    moreover have "nm = k" using names f(1) x w(1) NEntry unfolding names_ok_def by fastforce
    ultimately show ?thesis using that stored NEntry by (auto simp: stored_as_def)
  next
    case (NFile f)
    then show ?thesis using parts(1) x unfolding shape_ok_def by blast
  qed
  note ent = stored_entry(1-5)[OF u(4), of "d_id d'"] stored_entry(6)[OF u(4)]
  let ?c = "entry_of (d_id d') u"
  let ?root = "tree_put root p (dir_map n d' (bt_insert k ?c m))"
  have add: "add_child u (dir_map n d' m) =
      (Inr (if is_file u then Owned (set_parent_id (d_id d') u) else Ref [k]), dir_map n d' (bt_insert k ?c m))"
    using add_child_Inr[of u n d' m] none u(2) by simp
  note ins = insert_step[OF tree m none, of ?c, unfolded entry_of_simps, OF u(2) ent(1)]
  have look: "lookup ?root = (lookup root)(w \<mapsto> shallow ?c)"
  proof
    fix q
    show "lookup ?root q = ((lookup root)(w \<mapsto> shallow ?c)) q"
    proof (cases "prefix (p @ [k]) q")
      case True
      then obtain r where r: "q = (p @ [k]) @ r" by (auto simp: prefix_def)
      have "lookup root q = None"
        using w(1,4) unfolding r lookup_append[of root "p @ [k]"] by (simp add: lookup_def)
      then show ?thesis unfolding ins(3) ent(2) using r w(1) by auto
    qed (use w(1) in \<open>auto simp: ins(3)\<close>)
  qed
  show ?thesis
  proof (cases "is_file u")
    case True
    have "load_child E db root (butlast w) (node_id x) counts =
        Inr (p, set_parent_id (d_id d') u, ?root, count_loaded u counts)"
      using m v u(1) id(2) add True w(1) by (simp add: load_child_def)
    moreover have "case x of NDir d \<Rightarrow> p = w \<and> is_dir (set_parent_id (d_id d') u) \<and> iid (set_parent_id (d_id d') u) = d_id d
        | _ \<Rightarrow> \<not> is_dir (set_parent_id (d_id d') u)"
      using ent(5,6) True by (auto simp: is_file_def split: node.splits)
    ultimately show ?thesis using that[OF x w(4) _ ins(1) look ent(3) ent(4)] u(3) by simp
  next
    case False
    have "load_child E db root (butlast w) (node_id x) counts =
        Inr (p @ [k], ?c, ?root, count_loaded u counts)"
      using m v u(1) id(2) add False w(1) ins(4) by (simp add: load_child_def)
    moreover have "case x of NDir d \<Rightarrow> p @ [k] = w \<and> is_dir ?c \<and> iid ?c = d_id d | _ \<Rightarrow> \<not> is_dir ?c"
      using ent(5,6) False u(3) w(1) by (auto simp: is_file_def entry_of_def split: node.splits)
    ultimately show ?thesis using that[OF x w(4) _ ins(1) look ent(3) ent(4)] u(3) by simp
  qed
qed

lemma lookup_below_None: "lookup root w = None \<Longrightarrow> lookup root (w @ q) = None"
  unfolding lookup_append by (simp add: lookup_def)

lemma missing_iff:
  "v \<in> missing L root \<longleftrightarrow> v \<noteq> [] \<and> lookup root (butlast v) \<noteq> None \<and> L v \<noteq> None \<and> lookup root v = None"
  unfolding missing_def by (cases v rule: rev_cases) auto

lemma missing_after:
  assumes "w \<in> missing L root" "lookup root' = (lookup root)(w \<mapsto> y)"
  shows "missing L root' = missing L root - {w} \<union> {w @ [n] | n. L (w @ [n]) \<noteq> None}"
proof (rule set_eqI)
  fix v
  have none: "lookup root w = None" using assms(1) by (simp add: missing_iff)
  have kid: "v \<noteq> [] \<and> butlast v = w \<longleftrightarrow> (\<exists>n. v = w @ [n])" by (cases v rule: rev_cases) auto
  show "v \<in> missing L root' \<longleftrightarrow> v \<in> missing L root - {w} \<union> {w @ [n] | n. L (w @ [n]) \<noteq> None}"
  proof (cases "\<exists>n. v = w @ [n]")
    case True
    then obtain n where v: "v = w @ [n]" by blast
    then show ?thesis using lookup_below_None[OF none] by (simp add: missing_iff assms(2) none)
  next
    case False
    then show ?thesis using kid by (auto simp: missing_iff assms(2))
  qed
qed

lemma reload_inv_load:
  assumes inv: "reload_inv L root (w # ws)" and x: "L w = Some x" "reloaded w x y"
    and root': "tree_ok root'" "lookup root' = (lookup root)(w \<mapsto> y)"
    and ns: "distinct ns" "set ns = {n. L (w @ [n]) \<noteq> None}"
  shows "reload_inv L root' (ws @ map (\<lambda>n. w @ [n]) ns)"
proof -
  have I: "dom (lookup root) \<subseteq> dom L" "lookup root [] \<noteq> None" "distinct (w # ws)" "set (w # ws) = missing L root"
      "\<And>p x y. L p = Some x \<Longrightarrow> lookup root p = Some y \<Longrightarrow> reloaded p x y"
    using inv unfolding reload_inv_def by blast+
  have w: "w \<in> missing L root" using I(4) by (metis list.set_intros(1))
  then have none: "lookup root w = None" by (simp add: missing_iff)
  have kids: "set (map (\<lambda>n. w @ [n]) ns) = {w @ [n] | n. L (w @ [n]) \<noteq> None}" using ns(2) by auto
  have "w @ [n] \<notin> missing L root" for n using none by (simp add: missing_iff)
  then have "set ws \<inter> set (map (\<lambda>n. w @ [n]) ns) = {}" using I(4) unfolding kids by auto
  moreover have "distinct (map (\<lambda>n. w @ [n]) ns)" using ns(1) by (simp add: distinct_map inj_on_def)
  moreover have "set (ws @ map (\<lambda>n. w @ [n]) ns) = missing L root'"
    unfolding missing_after[OF w root'(2)] set_append kids using I(3,4) by auto
  ultimately show ?thesis
    unfolding reload_inv_def using I root' x by (auto split: if_splits)
qed

lemma nothing_missing:
  assumes "shape_ok L" "reload_inv L root []"
  shows "dom (lookup root) = dom L"
proof
  show "dom (lookup root) \<subseteq> dom L" using assms(2) by (simp add: reload_inv_def)
  have "lookup root p \<noteq> None" if "L p \<noteq> None" for p
    using that
  proof (induction p rule: rev_induct)
    case Nil
    then show ?case using assms(2) by (simp add: reload_inv_def)
  next
    case (snoc k p)
    then have "lookup root p \<noteq> None" using shape_parent[OF assms(1), of p k] by blast
    moreover have "missing L root = {}" using assms(2) by (simp add: reload_inv_def)
    ultimately show ?case using missing_iff[of "p @ [k]" L root] snoc.prems by auto
  qed
  then show "dom L \<subseteq> dom (lookup root)" by blast
qed

lemma scan_kids:
  assumes pre: "stored_fs E db L c" and d: "L w = Some (NDir d)"
  obtains ids ns where "scan_ids E db (d_id d) = Inr ids" "distinct ns" "set ns = {n. L (w @ [n]) \<noteq> None}"
    "map (\<lambda>i. (w, i)) ids = map (todo L) (map (\<lambda>n. w @ [n]) ns)"
proof -
  have E: "env_ok E" and reads: "reads_ok E db" and fs: "fs_inv L (db_inodes E db) (db_edges E db) c"
    using pre by (simp_all add: stored_fs_def)
  note parts = fs_invD[OF fs]
  have id: "is_i64 (d_id d)" "0 \<le> d_id d"
    using ids_bound(1)[OF parts(2) d] ids_ok_counter[OF parts(2)] by (auto simp: is_i64_def ROOT_INODE_ID_def)
  obtain ids where ids: "scan_ids E db (d_id d) = Inr ids" using reads id(1) unfolding reads_ok_def by blast
  obtain ns where ns: "distinct ns" "length ns = length ids"
      "\<And>n j. db_edges E db (d_id d) n = Some j \<longleftrightarrow> (n, j) \<in> set (zip ns ids)"
    using scan_ids_names[OF E id ids] by blast
  have edge: "db_edges E db (d_id d) n = map_option node_id (L (w @ [n]))" for n
    using parts(3) d unfolding edges_ok_def by blast
  have "n \<in> set ns \<longleftrightarrow> L (w @ [n]) \<noteq> None" for n
  proof -
    have "n \<in> set ns \<longleftrightarrow> (\<exists>j. (n, j) \<in> set (zip ns ids))" using ns(2) by (metis in_set_impl_in_set_zip1 set_zip_leftD)
    then show ?thesis using edge[of n] ns(3)[of n] by (metis map_option_is_None not_Some_eq)
  qed
  moreover have "map (\<lambda>i. (w, i)) ids = map (todo L) (map (\<lambda>n. w @ [n]) ns)"
  proof (rule nth_equalityI)
    show "length (map (\<lambda>i. (w, i)) ids) = length (map (todo L) (map (\<lambda>n. w @ [n]) ns))" using ns(2) by simp
    fix t assume "t < length (map (\<lambda>i. (w, i)) ids)"
    then have t: "t < length ids" "t < length ns" using ns(2) by simp_all
    then have "(ns ! t, ids ! t) \<in> set (zip ns ids)" by (auto simp: in_set_zip)
    then have "map_option node_id (L (w @ [ns ! t])) = Some (ids ! t)" using ns(3) edge by metis
    then show "map (\<lambda>i. (w, i)) ids ! t = map (todo L) (map (\<lambda>n. w @ [n]) ns) ! t"
      using t by (auto simp: todo_def)
  qed
  ultimately show ?thesis using that[OF ids ns(1)] by blast
qed

lemma reload_add_interval:
  assumes "tl_interval l \<noteq> 0"
  shows "\<exists>l'. ttl_add_inode i t l = (Inr (), l') \<and> tl_interval l' = tl_interval l"
  using assms by (auto simp: ttl_add_inode_def get_or_create_bucket_def get_bucket_interval_start_def with_bucket_def bind_op_def
      lift_res_def Let_def split: option.split)

lemma register_ttl_db:
  assumes "tl_interval (st_ttl st) \<noteq> 0"
  shows "\<exists>st'. register_ttl now v st = (Inr (), st') \<and> st_db st' = st_db st \<and> tl_interval (st_ttl st') \<noteq> 0"
proof (cases "inode_ttl_config now v")
  case (Some cfg)
  obtain l' where "ttl_add_inode (u64_of (iid v)) (expiry_time_ms cfg) (st_ttl st) = (Inr (), l')" "tl_interval l' \<noteq> 0"
    using reload_add_interval[OF assms] assms by metis
  then show ?thesis using Some by (simp add: register_ttl_def ignore_err_def on_ttl_def)
qed (use assms in \<open>simp add: register_ttl_def\<close>)

subsection \<open>The loop\<close>

lemma create_tree_loop_reloads:
  assumes pre: "stored_fs E (st_db st) L c" and inv: "reload_inv L root ws"
    and fuel: "card (dom L - dom (lookup root)) \<le> fuel"
    and hi: "\<And>p y. lookup root p = Some y \<Longrightarrow> node_id y \<le> hi" "hi \<le> c"
    and ttl: "tl_interval (st_ttl st) \<noteq> 0"
  shows "\<exists>hi' root' st'. create_tree_loop E now fuel root (map (todo L) ws) hi counts st = Some (Inr (hi', root'), st') \<and>
    st_db st' = st_db st \<and> tree_ok root' \<and> dom (lookup root') = dom L \<and>
    (\<forall>p x y. L p = Some x \<longrightarrow> lookup root' p = Some y \<longrightarrow> reloaded p x y) \<and>
    (\<forall>p y. lookup root' p = Some y \<longrightarrow> node_id y \<le> hi') \<and> hi' \<le> c"
  using assms
proof (induction fuel arbitrary: root ws hi counts st)
  case 0
  have fs: "fs_inv L (db_inodes E (st_db st)) (db_edges E (st_db st)) c" using "0.prems"(1) by (simp add: stored_fs_def)
  have fin: "finite (dom L)" using fs_invD(1)[OF fs] by (simp add: shape_ok_def)
  have "missing L root \<subseteq> dom L - dom (lookup root)" by (auto simp: missing_iff)
  then have "ws = []" using "0.prems"(2,3) fin by (auto simp: reload_inv_def card_gt_0_iff)
  then show ?case using "0.prems" nothing_missing[OF fs_invD(1)[OF fs]]
    by (auto simp: reload_inv_def set_counts_def)
next
  case (Suc fuel)
  have fs: "fs_inv L (db_inodes E (st_db st)) (db_edges E (st_db st)) c" using Suc.prems(1) by (simp add: stored_fs_def)
  note parts = fs_invD[OF fs]
  have fin: "finite (dom L)" using parts(1) by (simp add: shape_ok_def)
  show ?case
  proof (cases ws)
    case Nil
    then show ?thesis using Suc.prems nothing_missing[OF parts(1)] by (auto simp: reload_inv_def set_counts_def)
  next
    case (Cons w ws')
    obtain x q node root' counts' y where st: "L w = Some x" "lookup root w = None"
        "load_child E (st_db st) root (butlast w) (node_id x) counts = Inr (q, node, root', counts')"
        "tree_ok root'" "lookup root' = (lookup root)(w \<mapsto> y)" "reloaded w x y" "node_id y = node_id x"
        "case x of NDir d \<Rightarrow> q = w \<and> is_dir node \<and> iid node = d_id d | _ \<Rightarrow> \<not> is_dir node"
      using load_child_step[OF Suc.prems(1) Suc.prems(2)[unfolded Cons]] by blast
    have "\<exists>ids ns. (if is_dir node then scan_ids E (st_db st) (iid node) else Inr []) = Inr ids \<and> distinct ns \<and>
        set ns = {n. L (w @ [n]) \<noteq> None} \<and> map (\<lambda>i. (q, i)) ids = map (todo L) (map (\<lambda>n. w @ [n]) ns)"
    proof (cases x)
      case (NDir d)
      obtain ids ns where "scan_ids E (st_db st) (d_id d) = Inr ids" "distinct ns" "set ns = {n. L (w @ [n]) \<noteq> None}"
          "map (\<lambda>i. (w, i)) ids = map (todo L) (map (\<lambda>n. w @ [n]) ns)"
        using scan_kids[OF Suc.prems(1), of w d] st(1) NDir by blast
      then show ?thesis using st(8) NDir by (intro exI[of _ ids] exI[of _ ns]) simp
    next
      case (NEntry i)
      then have "{n. L (w @ [n]) \<noteq> None} = {}"
        using shape_below_entry[OF parts(1), of w i] st(1) by (auto simp: strict_prefix_def)
      then show ?thesis using st(8) NEntry by (intro exI[of _ "[]"]) simp
    next
      case (NFile f)
      then show ?thesis using parts(1) st(1) unfolding shape_ok_def by blast
    qed
    then obtain ids ns where ids: "(if is_dir node then scan_ids E (st_db st) (iid node) else Inr []) = Inr ids"
        "distinct ns" "set ns = {n. L (w @ [n]) \<noteq> None}" "map (\<lambda>i. (q, i)) ids = map (todo L) (map (\<lambda>n. w @ [n]) ns)"
      by blast
    obtain st' where ttl: "register_ttl now node st = (Inr (), st')" "st_db st' = st_db st" "tl_interval (st_ttl st') \<noteq> 0"
      using register_ttl_db[OF Suc.prems(6)] by blast
    have step: "create_tree_loop E now (Suc fuel) root (map (todo L) ws) hi counts st =
        create_tree_loop E now fuel root' (map (todo L) (ws' @ map (\<lambda>n. w @ [n]) ns)) (max hi (node_id x)) counts' st'"
      using st(1,3) ids(1,4) ttl(1) by (simp add: Cons todo_def[of L w])
    have inv: "reload_inv L root' (ws' @ map (\<lambda>n. w @ [n]) ns)"
      by (rule reload_inv_load[OF Suc.prems(2)[unfolded Cons] st(1,6,4,5) ids(2,3)])
    have "dom L - dom (lookup root') \<subset> dom L - dom (lookup root)" using st(1,2,5) by auto
    then have "card (dom L - dom (lookup root')) < card (dom L - dom (lookup root))"
      using fin by (simp add: psubset_card_mono)
    then have "card (dom L - dom (lookup root')) \<le> fuel" using Suc.prems(3) by simp
    moreover have "node_id z \<le> max hi (node_id x)" if "lookup root' p = Some z" for p z
      using that st(5,7) Suc.prems(4)[of p z] by (auto split: if_splits)
    moreover have "max hi (node_id x) \<le> c" using Suc.prems(5) ids_bound(1)[OF parts(2) st(1)] by simp
    ultimately show ?thesis
      using Suc.IH[of st' root' "ws' @ map (\<lambda>n. w @ [n]) ns" "max hi (node_id x)" counts'] Suc.prems(1) ttl(2,3) inv
      unfolding step by simp
  qed
qed

lemma lookup_create_root: "lookup create_root = [[] \<mapsto> NDir (dir_new ROOT_INODE_ID 0)]"
proof
  fix p show "lookup create_root p = [[] \<mapsto> NDir (dir_new ROOT_INODE_ID 0)] p"
    by (cases p) (simp_all add: create_root_def new_map_def lookup_def)
qed

lemma reload_inv_start:
  assumes L: "shape_ok L" and ns: "distinct ns" "set ns = {n. L [n] \<noteq> None}"
  shows "reload_inv L create_root (map (\<lambda>n. [n]) ns)"
proof -
  have "tree_ok create_root" by (auto simp: create_root_def new_map_def map_inv_def intro!: tree_ok_DirI)
  moreover obtain d where d: "L [] = Some (NDir d)" "d_id d = ROOT_INODE_ID" using L by (auto simp: shape_ok_def)
  moreover have "set (map (\<lambda>n. [n]) ns) = missing L create_root"
  proof (rule set_eqI)
    fix v
    have "v \<in> missing L create_root \<longleftrightarrow> v \<noteq> [] \<and> butlast v = [] \<and> L v \<noteq> None"
      by (auto simp: missing_iff lookup_create_root)
    also have "\<dots> \<longleftrightarrow> v \<in> set (map (\<lambda>n. [n]) ns)" using ns(2) by (cases v rule: rev_cases) auto
    finally show "v \<in> set (map (\<lambda>n. [n]) ns) \<longleftrightarrow> v \<in> missing L create_root" by simp
  qed
  moreover have "distinct (map (\<lambda>n. [n]) ns)" using ns(1) by (simp add: distinct_map inj_on_def)
  ultimately show ?thesis
    unfolding reload_inv_def lookup_create_root by (auto simp: reloaded_def dir_new_def)
qed

lemma create_tree_reloads:
  assumes pre: "stored_fs E (st_db st) L c" and ttl: "tl_interval (st_ttl st) \<noteq> 0" and fuel: "card (dom L) \<le> fuel"
  shows "\<exists>hi tree st'. create_tree E now fuel st = Some (Inr (hi, tree), st') \<and>
    st_db st' = st_db st \<and> tree_ok tree \<and> dom (lookup tree) = dom L \<and>
    (\<forall>p x y. L p = Some x \<longrightarrow> lookup tree p = Some y \<longrightarrow> reloaded p x y) \<and>
    (\<forall>p y. lookup tree p = Some y \<longrightarrow> node_id y \<le> hi) \<and> hi \<le> c"
proof -
  have fs: "fs_inv L (db_inodes E (st_db st)) (db_edges E (st_db st)) c" using pre by (simp add: stored_fs_def)
  note parts = fs_invD[OF fs]
  have fin: "finite (dom L)" using parts(1) by (simp add: shape_ok_def)
  obtain d where d: "L [] = Some (NDir d)" "d_id d = ROOT_INODE_ID" using parts(1) by (auto simp: shape_ok_def)
  then have pos: "card (dom L) > 0" using fin by (auto simp: card_gt_0_iff)
  then obtain f where f: "fuel = Suc f" using fuel by (cases fuel) simp_all
  obtain ids ns where ids: "scan_ids E (st_db st) ROOT_INODE_ID = Inr ids" "distinct ns" "set ns = {n. L [n] \<noteq> None}"
      "map (\<lambda>i. ([], i)) ids = map (todo L) (map (\<lambda>n. [n]) ns)"
    using scan_kids[OF pre d(1)] d(2) by auto
  obtain st' where st': "register_ttl now create_root st = (Inr (), st')" "st_db st' = st_db st" "tl_interval (st_ttl st') \<noteq> 0"
    using register_ttl_db[OF ttl] by blast
  have node: "is_dir create_root" "iid create_root = ROOT_INODE_ID" by (simp_all add: create_root_def dir_new_def)
  have load: "load_child E (st_db st) create_root [] ROOT_INODE_ID (0, 0) = Inr ([], create_root, create_root, (0, 0))"
    by (simp add: load_child_def)
  have step: "create_tree E now fuel st =
      create_tree_loop E now f create_root (map (todo L) (map (\<lambda>n. [n]) ns)) ROOT_INODE_ID (0, 0) st'"
    by (simp add: create_tree_def f load node ids(1) st'(1) ids(4)[unfolded map_map])
  have "dom L - dom (lookup create_root) = dom L - {[]}" by (simp add: lookup_create_root)
  then have "card (dom L - dom (lookup create_root)) \<le> f"
    using fuel f d(1) fin by (simp add: card_Diff_singleton_if domI)
  moreover have "node_id y \<le> ROOT_INODE_ID" if "lookup create_root p = Some y" for p y
    using that by (auto simp: lookup_create_root dir_new_def split: if_splits)
  ultimately show ?thesis
    using create_tree_loop_reloads[of E st' L c create_root "map (\<lambda>n. [n]) ns" f ROOT_INODE_ID now "(0, 0)"]
      reload_inv_start[OF parts(1) ids(2,3)] pre st'(2,3) ids_ok_counter[OF parts(2)]
    unfolding step by simp
qed

end
