(* ===== verification/Fs_Dir_Ops.thy ===== *)
theory Fs_Dir_Ops
  imports Fs_Dir_Inv
begin

text \<open>
  Deleting, renaming, linking and writing: what these operations of \<^verbatim>\<open>FsDir\<close> do to the maps of the
  file system, and that they keep it consistent.
\<close>

subsection \<open>Deleting\<close>

lemma nodes_under_ids:
  assumes "tree_get root p = Some v"
  shows "iid ` nodes_under v = ids_below (lookup root) p"
proof -
  have look: "lookup root (p @ t) = map_option shallow (tree_get v t)" for t
    using assms by (simp add: lookup_def tree_get_append)
  have opt: "(\<exists>x. map_option shallow w = Some x \<and> node_id x = i) \<longleftrightarrow> (\<exists>u. w = Some u \<and> iid u = i)" for w i
    by (cases w) auto
  have "i \<in> ids_below (lookup root) p \<longleftrightarrow> (\<exists>t x. lookup root (p @ t) = Some x \<and> node_id x = i)" for i
    by (auto simp: ids_below_def prefix_def)
  then have "i \<in> ids_below (lookup root) p \<longleftrightarrow> (\<exists>t u. tree_get v t = Some u \<and> iid u = i)" for i
    unfolding look opt by blast
  then show ?thesis by (auto simp: nodes_under_def intro!: imageI)
qed

lemma children_lookup:
  assumes "tree_ok root" "tree_get root q = Some u"
  shows "(\<exists>c\<in>set (children u). iname c = n) \<longleftrightarrow> lookup root (q @ [n]) \<noteq> None"
proof (cases u)
  case (Dir m d ch)
  then obtain kids where kids: "ch = ChildMap kids" "keys_sorted kids" "\<forall>(k, v)\<in>set kids. iname v = k"
    using tree_ok_dir[OF assms(1)] assms(2) by metis
  then have "lookup root (q @ [n]) = map_option shallow (map_of kids n)"
    using assms(2) Dir lookup_child by simp
  moreover have "(\<exists>c\<in>set (children u). iname c = n) \<longleftrightarrow> map_of kids n \<noteq> None"
    using kids(3) by (force simp: Dir kids(1) map_of_eq_None_iff image_iff)
  ultimately show ?thesis by simp
qed (use assms in \<open>simp_all add: lookup_def tree_get_append\<close>)

lemma edges_under_set:
  assumes ok: "tree_ok root" and v: "tree_get root p = Some v"
  shows "edges_under pid v = insert (pid, iname v) (edges_below (lookup root) p)"
proof -
  have "(i, n) \<in> (\<Union>u\<in>nodes_under v. (\<lambda>c. (iid u, iname c)) ` set (children u)) \<longleftrightarrow>
      (i, n) \<in> edges_below (lookup root) p" for i n
  proof -
    have get: "tree_get root (p @ t) = tree_get v t" for t using v by (simp add: tree_get_append)
    have "(i, n) \<in> (\<Union>u\<in>nodes_under v. (\<lambda>c. (iid u, iname c)) ` set (children u)) \<longleftrightarrow>
        (\<exists>t u. tree_get root (p @ t) = Some u \<and> iid u = i \<and> (\<exists>c\<in>set (children u). iname c = n))"
      by (auto simp: nodes_under_def get)
    also have "\<dots> \<longleftrightarrow> (\<exists>t u. tree_get root (p @ t) = Some u \<and> iid u = i \<and> lookup root ((p @ t) @ [n]) \<noteq> None)"
      using children_lookup[OF ok] by blast
    also have "\<dots> \<longleftrightarrow> (i, n) \<in> edges_below (lookup root) p"
    proof -
      have "(\<exists>u. tree_get root q = Some u \<and> iid u = i) \<longleftrightarrow> (\<exists>d. lookup root q = Some (NDir d) \<and> d_id d = i)"
        if kid: "lookup root (q @ [n]) \<noteq> None" for q
      proof -
        obtain k where "lookup root (q @ [n]) = Some k" using kid by blast
        then obtain d where "lookup root q = Some (NDir d)" using lookup_prefix_dir[OF ok, of q n "[]" k] by auto
        moreover from this obtain m kids where "tree_get root q = Some (Dir m d kids)"
          using ok by (blast elim: lookup_dirD)
        ultimately show ?thesis by simp
      qed
      moreover have "(i, n) \<in> edges_below (lookup root) p \<longleftrightarrow> (\<exists>t. lookup root ((p @ t) @ [n]) \<noteq> None \<and>
          (\<exists>d. lookup root (p @ t) = Some (NDir d) \<and> d_id d = i))"
        unfolding edges_below_def prefix_def by blast
      ultimately show ?thesis by blast
    qed
    finally show ?thesis .
  qed
  then show ?thesis unfolding edges_under_def by auto
qed

text \<open>The three ways the store forgets a name. In each, \<open>pv\<close> is the parent as it is after its
  modification time was set, and the maps have it already.\<close>

lemma delete_dir_store:
  assumes E: "env_ok E" and del: "apply_delete E pv v st = (Inr res, st')"
    and ok: "tree_ok r" "tree_get r (q @ [k]) = Some v"
    and inv: "fs_inv (lookup r) ((m_inodes (store_metas E st))(iid pv \<mapsto> strip pv)) (m_edges (store_metas E st)) c"
    and q: "lookup r q = Some (NDir d)" "iid pv = d_id d" and ins: "links_inside (lookup r) (q @ [k])"
    and i64: "\<forall>p x. lookup r p = Some x \<longrightarrow> is_i64 (node_id x)"
  shows "fs_inv (cut_off (q @ [k]) (lookup r)) (m_inodes (store_metas E st')) (m_edges (store_metas E st')) c"
proof -
  have "\<forall>u\<in>nodes_under v. is_i64 (iid u)"
  proof
    fix u assume "u \<in> nodes_under v"
    then have "iid u \<in> ids_below (lookup r) (q @ [k])" using nodes_under_ids[OF ok(2)] by blast
    then obtain t x where "lookup r t = Some x" "node_id x = iid u" by (auto simp: ids_below_def)
    then show "is_i64 (iid u)" using i64[rule_format, of t x] by simp
  qed
  moreover have "sub_ok v" using tree_ok_sub[OF ok] by (simp add: sub_ok_def)
  moreover have "is_i64 (iid pv)" using i64[rule_format, OF q(1)] q(2) by simp
  ultimately have m: "store_metas E st' = purge (iid ` nodes_under v) (edges_under (iid pv) v)
      (put_inode pv (store_metas E st))"
    using apply_delete_metas[OF E del] by blast
  have x: "lookup r (q @ [k]) = Some (shallow v)" by (simp add: lookup_def ok(2))
  have "iname v = k" by (rule tree_get_iname[OF ok])
  then show ?thesis
    using fs_inv_remove[OF inv q(1) x ins] unfolding m nodes_under_ids[OF ok(2)] edges_under_set[OF ok]
    by (simp add: purge_def q(2))
qed

lemma entry_alone:
  assumes inv: "fs_inv L I Ed c" and p: "L p = Some (NEntry i)" "I i = Some (File n f)" "\<not> 1 < f_nlink f"
  shows "links L i = {p}"
proof -
  have "card (links L i) \<le> 1"
    using entry_facts(4)[OF inv p(1,2)] p(3) by (simp add: word_less_nat_alt)
  moreover have "p \<in> links L i" using p(1) by (simp add: links_def)
  ultimately show ?thesis
    using links_finite[OF fs_invD(1)[OF inv]] card_le_Suc0_iff_eq[of "links L i"] by auto
qed

lemma delete_file_store:
  assumes E: "env_ok E" and del: "apply_delete E pv (File k f) st = (Inr res, st')"
    and inv: "fs_inv L ((m_inodes (store_metas E st))(iid pv \<mapsto> strip pv)) (m_edges (store_metas E st)) c"
    and q: "L q = Some (NDir d)" "iid pv = d_id d" and i: "L (q @ [k]) = Some (NEntry i)"
    and f: "m_inodes (store_metas E st) i = Some (File n f)" "\<not> 1 < f_nlink f"
    and i64: "\<forall>p x. L p = Some x \<longrightarrow> is_i64 (node_id x)"
  shows "fs_inv (cut_off (q @ [k]) L) (m_inodes (store_metas E st')) (m_edges (store_metas E st')) c"
proof -
  have ne: "i \<noteq> d_id d" by (rule entry_not_dir[OF inv i q(1)])
  then have I: "((m_inodes (store_metas E st))(iid pv \<mapsto> strip pv)) i = Some (File n f)" using f(1) q(2) by simp
  have fi: "f_id f = i" using entry_facts(4)[OF inv i I] by simp
  have sub: "nodes_under (File k f) = {File k f}" "edges_under (iid pv) (File k f) = {(iid pv, k)}"
    using nodes_under_unfold[of "File k f"] edges_under_unfold[of "File k f" "iid pv"] by (auto simp: sub_ok_def)
  have "is_i64 (iid pv)" "\<forall>u\<in>nodes_under (File k f). is_i64 (iid u)"
    using i64[rule_format, OF q(1)] i64[rule_format, OF i] q(2) fi sub(1) by simp_all
  then have m: "store_metas E st' = purge {i} {(d_id d, k)} (put_inode pv (store_metas E st))"
    using apply_delete_metas[OF E del] sub fi q(2) by (simp add: sub_ok_def)
  note none = shape_below_entry[OF fs_invD(1)[OF inv] i]
  have below: "prefix (q @ [k]) r \<Longrightarrow> L r = Some y \<Longrightarrow> r = q @ [k]" for r y
    using none[of r] by (auto simp: strict_prefix_def)
  have ids: "ids_below L (q @ [k]) = {i}" "edges_below L (q @ [k]) = {}"
    using below i by (fastforce simp: ids_below_def, fastforce simp: edges_below_def)
  have "links_inside L (q @ [k])"
    unfolding links_inside_def
  proof (intro allI impI)
    fix a b j assume ab: "prefix (q @ [k]) a" "L a = Some (NEntry j)" "L b = Some (NEntry j)"
    then have "b \<in> links L i" using below[OF ab(1,2)] i by (simp add: links_def)
    then show "prefix (q @ [k]) b" using entry_alone[OF inv i I f(2)] by simp
  qed
  from fs_inv_remove[OF inv q(1) i this] show ?thesis unfolding ids m by (simp add: purge_def q(2))
qed

lemma unlink_store:
  assumes E: "env_ok E" and un: "apply_unlink E pv (File k f') st = (Inr res, st')"
    and inv: "fs_inv L ((m_inodes (store_metas E st))(iid pv \<mapsto> strip pv)) (m_edges (store_metas E st)) c"
    and q: "L q = Some (NDir d)" "iid pv = d_id d" and i: "L (q @ [k]) = Some (NEntry i)" "f_id f' = i"
    and f: "m_inodes (store_metas E st) i = Some (File n f)" "1 < f_nlink f"
    and i64: "\<forall>p x. L p = Some x \<longrightarrow> is_i64 (node_id x)"
  shows "fs_inv (cut_off (q @ [k]) L) (m_inodes (store_metas E st')) (m_edges (store_metas E st')) c"
proof -
  have ne: "i \<noteq> d_id d" by (rule entry_not_dir[OF inv i(1) q(1)])
  then have I: "((m_inodes (store_metas E st))(iid pv \<mapsto> strip pv)) i = Some (File n f)" using f(1) q(2) by simp
  have fi: "f_id f = i" using entry_facts(4)[OF inv i(1) I] by simp
  have ids: "is_i64 (iid pv)" "is_i64 i" using i64[rule_format, OF q(1)] i64[rule_format, OF i(1)] q(2) by simp_all
  obtain st1 where st1: "decrement_inode_nlink E i st = (Inr (), st1)" "res = delete_result_new"
      "store_metas E st' = del_edge (iid pv) (iname (File k f')) (put_inode pv (store_metas E st1))"
    using unlink_entry_metas[OF E ids(1) un[unfolded apply_unlink_def]] i(2) by auto
  have dec: "f_id (snd (decrement_nlink g)) = f_id g" for g by (simp add: decrement_nlink_def Let_def)
  obtain n2 f2 where st2: "m_inodes (store_metas E st) i = Some (File n2 f2)"
      "store_metas E st1 = put_inode (File n2 (snd (decrement_nlink f2))) (store_metas E st)"
    using change_nlink_metas[OF E ids(2) st1(1)[unfolded decrement_inode_nlink_def] dec] f(1) fi by auto
  have "store_metas E st1 = put_inode (File n (snd (decrement_nlink f))) (store_metas E st)"
    using st2 f(1) by simp
  then have m: "m_inodes (store_metas E st') = (m_inodes (store_metas E st))
      (iid pv \<mapsto> strip pv, i \<mapsto> File n (snd (decrement_nlink f)))"
      "m_edges (store_metas E st') = (m_edges (store_metas E st))(d_id d := (m_edges (store_metas E st) (d_id d))(k := None))"
    using st1(3) ne q(2) fi dec by (simp_all add: fun_upd_twist)
  show ?thesis unfolding m by (rule fs_inv_unlink[OF inv q(1) i(1) I f(2)])
qed

text \<open>An existing path other than the root: its parent and its node.\<close>

lemma existing_path:
  assumes shape: "shape_ok L" and inp: "at_path L I inp p"
    and last: "get_last_inode inp = Some target" and par: "get_inode inp (-2) = Some parent"
  obtains q k d x where "p = q @ [k]" "L q = Some (NDir d)" "parent = Ref q" "L p = Some x"
    "node_ptr I p x target" "ip_name inp = k" "is_full inp"
proof -
  note d = at_pathD[OF inp]
  have full: "is_full inp" "target = last (ip_inodes inp)"
    using last at_path_last[OF inp] by (auto split: if_splits)
  have p: "p \<noteq> []" "parent = ip_inodes inp ! (length p - 1)"
    using par at_path_parent[OF inp] by (auto split: if_splits)
  then have qk: "p = butlast p @ [last p]" by simp
  obtain x where x: "L p = Some x" "node_ptr I p x target"
    using d(6)[of "length p"] d(3,8) full by (auto simp: last_conv_nth)
  obtain y where y: "L (butlast p) = Some y" "node_ptr I (butlast p) y parent"
    using d(6)[of "length p - 1"] d(8) full(1) p by (cases p) (auto simp: butlast_conv_take)
  obtain e where "L (butlast p) = Some (NDir e)" using shape x(1) qk by (metis shape_parent)
  then show thesis using that[of "butlast p" "last p" e x] y x full(1) qk d(4) p(1) by auto
qed

lemma delete_child_Inr:
  "delete_child i k (dir_map n d m) = (Inr v, v') \<Longrightarrow> v' = dir_map n d (bt_remove k m) \<and> map_of m k = Some v \<and> iid v = i"
  by (auto simp: check_removed_def split: option.splits if_splits)

lemma remove_ptr:
  assumes "tree_ok (fd_root s)" "tree_get (fd_root s) p = Some (dir_map n d m)"
    "on_ptr (Ref p) (delete_child i k) s = (Inr a, s')"
  shows "\<exists>r. s' = s\<lparr>fd_root := r\<rparr> \<and> tree_ok r \<and> lookup r = cut_off (p @ [k]) (paths s) \<and>
    tree_get r p = Some (dir_map n d (bt_remove k m))"
proof -
  have "s' = s\<lparr>fd_root := tree_put (fd_root s) p (dir_map n d (bt_remove k m))\<rparr>"
    using assms(2,3) by (auto simp: on_ptr_Ref_Inr simp del: delete_child.simps dest!: delete_child_Inr)
  with remove_step[OF assms(1,2)] show ?thesis by blast
qed

lemma delete_store_step:
  assumes E: "env_ok E" and tree: "tree_ok (fd_root s)" and q: "paths s q = Some (NDir d)" "paths s (q @ [k]) = Some x"
    and pv: "iid pv = d_id d" and ptr: "node_ptr (m_inodes (meta E s)) (q @ [k]) x target"
    and inv: "fs_inv (paths s) ((m_inodes (meta E s))(iid pv \<mapsto> strip pv)) (m_edges (meta E s)) c"
    and ins: "\<forall>e. x = NDir e \<longrightarrow> links_inside (paths s) (q @ [k])"
    and i64: "\<forall>p y. paths s p = Some y \<longrightarrow> is_i64 (node_id y)"
    and child: "deref (fd_root s) target = Some child"
    and op: "(case child of
          File n f \<Rightarrow> if f_nlink f > 1
            then bind_op (on_ptr target (pure_op (\<lambda>_. File n (snd (decrement_nlink f))))) (\<lambda>(_, target').
                 bind_op (read_ptr target') (\<lambda>child'. on_store (apply_unlink E pv child')))
            else on_store (apply_delete E pv child)
        | FileEntry _ i \<Rightarrow> on_store (apply_unlink_file_entry E pv child i)
        | Dir _ _ _ \<Rightarrow> on_store (apply_delete E pv child)) s = (Inr res, s')"
  obtains st where "s' = s\<lparr>fd_store := st\<rparr>"
    "fs_inv (cut_off (q @ [k]) (paths s)) (m_inodes (store_metas E st)) (m_edges (store_metas E st)) c"
proof (cases x)
  case (NDir e)
  then obtain n' m' where v: "tree_get (fd_root s) (q @ [k]) = Some (dir_map n' e m')"
    using lookup_dirD[OF tree] q(2) by metis
  then have ch: "child = dir_map n' e m'" using child ptr NDir by (simp add: deref_def)
  then obtain st where st: "apply_delete E pv child (fd_store s) = (Inr res, st)" "s' = s\<lparr>fd_store := st\<rparr>"
    using op by (auto simp: on_store_Inr)
  show thesis
    using that[OF st(2)] delete_dir_store[OF E st(1) tree v[folded ch] inv q(1) pv ins[rule_format, OF NDir] i64] by blast
next
  case (NEntry i)
  then obtain n' f where f: "m_inodes (meta E s) i = Some (File n' f)" "target = Owned (File k f)"
    using ptr by auto
  then have ch: "child = File k f" using child by (simp add: deref_def)
  note qi = q(2)[unfolded NEntry]
  have "((m_inodes (meta E s))(iid pv \<mapsto> strip pv)) i = Some (File n' f)"
    using entry_not_dir[OF inv qi q(1)] pv f(1) by simp
  then have fi: "f_id f = i" using entry_facts(4)[OF inv qi] by blast
  show thesis
  proof (cases "f_nlink f > 1")
    case True
    then obtain st where st: "apply_unlink E pv (File k (snd (decrement_nlink f))) (fd_store s) = (Inr res, st)"
        "s' = s\<lparr>fd_store := st\<rparr>"
      using op f(2) unfolding ch
      by (auto simp: bind_op_Inr_iff on_store_Inr on_ptr_Owned_Inr pure_op_def read_ptr_Inr deref_def)
    have "f_id (snd (decrement_nlink f)) = i" using fi by (simp add: decrement_nlink_def Let_def)
    with unlink_store[OF E st(1) inv q(1) pv qi _ f(1) True i64] that[OF st(2)] show thesis by blast
  next
    case False
    then obtain st where st: "apply_delete E pv (File k f) (fd_store s) = (Inr res, st)" "s' = s\<lparr>fd_store := st\<rparr>"
      using op unfolding ch by (auto simp: on_store_Inr)
    with delete_file_store[OF E st(1) inv q(1) pv qi f(1) False i64] that[OF st(2)] show thesis by blast
  qed
qed (use ptr in simp)

lemma unprotected_delete_ok:
  assumes E: "env_ok E" and s: "dir_inv E s c" and inp: "at_path (paths s) (m_inodes (meta E s)) inp p"
    and ins: "\<And>e. paths s p = Some (NDir e) \<Longrightarrow> links_inside (paths s) p"
    and del: "unprotected_delete E t inp s = (Inr res, s')"
  obtains q k d where "p = q @ [k]" "paths s q = Some (NDir d)" "paths s p \<noteq> None"
    "paths s' = cut_off p ((paths s)(q \<mapsto> NDir (touch t d)))" "dir_inv E s' c" "fd_inode_id s' = fd_inode_id s"
proof -
  note inv = dir_invD[OF s]
  obtain target parent where tp: "get_last_inode inp = Some target" "get_inode inp (-2) = Some parent"
    using del by (auto simp: unprotected_delete_def split: option.splits)
  obtain q k d x where q: "p = q @ [k]" "paths s q = Some (NDir d)" "parent = Ref q" "paths s p = Some x"
      "node_ptr (m_inodes (meta E s)) p x target" "ip_name inp = k" "is_full inp"
    using fs_invD(1)[OF inv(3)] inp tp by (rule existing_path)
  obtain n m where nm: "tree_get (fd_root s) q = Some (dir_map n d m)" "q = [] \<or> n = last q"
    using inv(1) q(2) by (rule dir_at)
  obtain a s1 child pv b s2 where op: "on_ptr (Ref q) (pure_op (update_mtime t)) s = (Inr a, s1)"
      "deref (fd_root s1) target = Some child" "tree_get (fd_root s1) q = Some pv"
      "(case child of
          File n f \<Rightarrow> if f_nlink f > 1
            then bind_op (on_ptr target (pure_op (\<lambda>_. File n (snd (decrement_nlink f))))) (\<lambda>(_, target').
                 bind_op (read_ptr target') (\<lambda>child'. on_store (apply_unlink E pv child')))
            else on_store (apply_delete E pv child)
        | FileEntry _ i \<Rightarrow> on_store (apply_unlink_file_entry E pv child i)
        | Dir _ _ _ \<Rightarrow> on_store (apply_delete E pv child)) s1 = (Inr res, s2)"
      "on_ptr (Ref q) (delete_child (iid child) k) s2 = (Inr b, s')"
    using del tp q(3,6) by (auto simp: unprotected_delete_def bind_op_Inr_iff read_ptr_Inr deref_def[of _ "Ref q"])
  obtain r1 where r1: "s1 = s\<lparr>fd_root := r1\<rparr>" "tree_ok r1" "lookup r1 = (paths s)(q \<mapsto> NDir (touch t d))"
      "tree_get r1 q = Some (dir_map n (touch t d) m)"
    using touch_ptr[OF inv(1) nm(1) op(1)] by blast
  have pv: "pv = dir_map n (touch t d) m" using op(3) r1(1,4) by simp
  have x1: "lookup r1 q = Some (NDir (touch t d))" "lookup r1 p = Some x" using r1(3) q(1,4) by simp_all
  have inv1: "fs_inv (paths s1) ((m_inodes (meta E s1))(iid pv \<mapsto> strip pv)) (m_edges (meta E s1)) c"
    using fs_inv_touch[OF inv(3) q(2) touch_id, of n t] nm(2) r1(1,3) by (auto simp: pv new_map_def)
  have i64: "\<forall>u y. paths s1 u = Some y \<longrightarrow> is_i64 (node_id y)"
    using dir_inv_i64[OF s] dir_inv_i64[OF s q(2)] r1(1,3) by auto
  have s1: "tree_ok (fd_root s1)" "paths s1 q = Some (NDir (touch t d))" "paths s1 (q @ [k]) = Some x"
      "iid pv = d_id (touch t d)" "node_ptr (m_inodes (meta E s1)) (q @ [k]) x target"
    using r1(1,2) x1 q(1,5) by (simp_all add: pv)
  have inside: "\<forall>e. x = NDir e \<longrightarrow> links_inside (paths s1) (q @ [k])"
    using ins q(1,4) unfolding links_inside_def r1(1) by (auto simp: r1(3))
  obtain st where st: "s2 = s1\<lparr>fd_store := st\<rparr>"
      "fs_inv (cut_off (q @ [k]) (paths s1)) (m_inodes (store_metas E st)) (m_edges (store_metas E st)) c"
    using delete_store_step[OF E s1 inv1 inside i64 op(2,4)] by blast
  have s2: "tree_ok (fd_root s2)" "tree_get (fd_root s2) q = Some (dir_map n (touch t d) m)"
    using st(1) r1 by simp_all
  from remove_ptr[OF s2 op(5)] obtain r2 where r2: "s' = s2\<lparr>fd_root := r2\<rparr>" "tree_ok r2"
      "lookup r2 = cut_off p (lookup r1)"
    using st(1) r1(1) q(1) by auto
  show thesis
    using that[of q k d] q(1,2,4) r2 st r1(1,3) inv(2) by (simp add: dir_inv_def)
qed

subsection \<open>Renaming\<close>

text \<open>The attributes of a node after it was moved under the directory \<open>pid\<close>.\<close>

fun moved_attrs :: "i64 \<Rightarrow> i64 \<Rightarrow> node \<Rightarrow> node" where
  "moved_attrs t pid (NDir a) = NDir ((touch t a)\<lparr>d_parent_id := pid\<rparr>)"
| "moved_attrs t pid (NEntry i) = NEntry i"
| "moved_attrs t pid (NFile f) = NFile f"

text \<open>The inode a rename writes: the node read through the pointer, under the new name.\<close>

definition renamed :: "i64 \<Rightarrow> string \<Rightarrow> inode_view \<Rightarrow> inode_view" where
  "renamed t l v = change_name l (update_mtime t v)"

lemma renamed_simps [simp]: "iname (renamed t l v) = l" "iid (renamed t l v) = iid v" "is_dir (renamed t l v) = is_dir v"
  by (cases v; simp add: renamed_def)+

lemma renamed_entry:
  assumes s: "dir_inv E s c" and x: "paths s p = Some x" "node_ptr (m_inodes (meta E s)) p x ptr"
    and v: "deref (fd_root s) ptr = Some v"
  shows "tree_ok (entry_of pid (renamed t l v)) \<and> iid v = node_id x \<and> (p = [] \<or> iname v = last p) \<and>
    (\<forall>u. lookup (entry_of pid (renamed t l v)) u = (if u = [] then Some (moved_attrs t pid x) else paths s (p @ u))) \<and>
    moved_node (m_inodes (meta E s)) l x (moved_attrs t pid x) (strip (renamed t l v))"
proof (cases x)
  case (NDir a)
  obtain n m where nm: "tree_get (fd_root s) p = Some (dir_map n a m)" "p = [] \<or> n = last p"
    using dir_invD(1)[OF s] x(1)[unfolded NDir] by (rule dir_at)
  have vv: "v = dir_map n a m" using v x(2) nm(1) by (simp add: NDir deref_def)
  note kids = dir_ok_kids[OF dir_invD(1)[OF s] nm(1)]
  have ent: "entry_of pid (renamed t l v) = dir_map l ((touch t a)\<lparr>d_parent_id := pid\<rparr>) m"
    by (simp add: vv entry_of_def is_file_def renamed_def touch_def)
  have "tree_ok (dir_map l ((touch t a)\<lparr>d_parent_id := pid\<rparr>) m)" using kids by (blast intro: tree_ok_DirI)
  moreover have "lookup (dir_map l ((touch t a)\<lparr>d_parent_id := pid\<rparr>) m) u =
      (if u = [] then Some (moved_attrs t pid x) else paths s (p @ u))" for u
    using nm(1) by (cases u) (simp_all add: NDir lookup_append)
  moreover have "moved_node (m_inodes (meta E s)) l x (moved_attrs t pid x) (strip (renamed t l v))"
    by (auto simp: moved_node_def NDir vv renamed_def touch_def intro!: exI[of _ "d_parent_id a"])
  ultimately show ?thesis
    unfolding ent using nm(2) by (simp add: vv NDir)
next
  case (NEntry i)
  then obtain n f where f: "m_inodes (meta E s) i = Some (File n f)" "v = File (last p) f"
    using x(2) v by (auto simp: deref_def)
  note inv = dir_invD(3)[OF s]
  have fi: "f_id f = i" using entry_facts(4)[OF inv _ f(1)] x(1) NEntry by blast
  have ent: "entry_of pid (renamed t l v) = FileEntry l i"
    by (simp add: entry_of_def is_file_def f(2) renamed_def fi)
  have "paths s (p @ u) = None" if "u \<noteq> []" for u
    using shape_below_entry[OF fs_invD(1)[OF inv], of p i "p @ u"] x(1) NEntry that
    by (auto simp: strict_prefix_def)
  then show ?thesis
    unfolding ent by (auto simp: tree_ok_leaf lookup_leaf NEntry f moved_node_def renamed_def fi)
next
  case (NFile f)
  then show ?thesis
    using x(2) by simp
qed

text \<open>Where a rename puts the node: under the destination when it is an existing directory, else at the
  destination path.\<close>

lemma rename_dest:
  assumes shape: "shape_ok (paths s)" and dst: "at_path (paths s) (m_inodes (meta E s)) dst_inp p"
    and op: "rename_target src_inp dst_inp s = (Inr (l, ptr), s')"
  obtains r y where "s' = s" "paths s r = Some y" "node_ptr (m_inodes (meta E s)) r y ptr"
    "paths s p = None \<and> p = r @ [l] \<or> p = r \<and> l = ip_name src_inp \<and> (\<exists>e. y = NDir e)"
proof (cases "is_full dst_inp")
  case True
  then have last: "get_last_inode dst_inp = Some (last (ip_inodes dst_inp))" using at_path_last[OF dst] by simp
  obtain dv where v: "deref (fd_root s) (last (ip_inodes dst_inp)) = Some dv"
      "(if is_dir dv then (Inr (ip_name src_inp, last (ip_inodes dst_inp)), s)
        else (Inl (Common ''Rename failed, because dst is exists''), s)) = (Inr (l, ptr), s')"
    using op unfolding rename_target_def last option.case bind_op_Inr_iff read_ptr_Inr by blast
  then have dv: "deref (fd_root s) (last (ip_inodes dst_inp)) = Some dv" "is_dir dv" "l = ip_name src_inp"
      "ptr = last (ip_inodes dst_inp)" "s' = s"
    by (cases "is_dir dv"; simp)+
  obtain y where y: "paths s p = Some y" "node_ptr (m_inodes (meta E s)) p y ptr"
    using at_pathD(6)[OF dst, of "length p"] at_pathD(3,8)[OF dst] True dv(4) by (auto simp: last_conv_nth)
  obtain e where "y = NDir e" using y(2) dv(1,2)[folded dv(4)] by (rule node_ptr_dir)
  with that[OF dv(5) y] dv(3) show thesis by blast
next
  case False
  then have last: "get_last_inode dst_inp = None" using at_path_last[OF dst] by simp
  then have par: "get_inode dst_inp (-2) = Some ptr" "l = ip_name dst_inp" "s' = s"
    using op by (auto simp: rename_target_def split: option.splits)
  note d = at_pathD[OF dst]
  have p: "p \<noteq> []" "length p \<le> length (ip_inodes dst_inp)" "ptr = ip_inodes dst_inp ! (length p - 1)"
    using par(1) at_path_parent[OF dst] by (auto split: if_splits)
  obtain y where y: "paths s (butlast p) = Some y" "node_ptr (m_inodes (meta E s)) (butlast p) y ptr"
    using d(6)[of "length p - 1"] p by (cases p) (auto simp: butlast_conv_take)
  have "paths s p = None" using at_path_exists[OF shape dst] False by simp
  moreover have "p = butlast p @ [l]" using par(2) d(4) p(1) by simp
  ultimately show thesis using that[OF par(3) y] by blast
qed

lemma unprotected_rename_Inr:
  assumes "unprotected_rename E t src_inp dst_inp s = (Inr (), s')"
  obtains src parent v l dst s0 a1 s1 a2 s2 spv sv dpv st a3 s4 a4 where
    "get_last_inode src_inp = Some src" "get_inode src_inp (-2) = Some parent"
    "deref (fd_root s) src = Some v" "rename_target src_inp dst_inp s = (Inr (l, dst), s0)"
    "on_ptr parent (pure_op (update_mtime t)) s0 = (Inr a1, s1)"
    "on_ptr dst (pure_op (update_mtime t)) s1 = (Inr a2, s2)"
    "deref (fd_root s2) parent = Some spv" "deref (fd_root s2) src = Some sv" "deref (fd_root s2) dst = Some dpv"
    "apply_rename E spv sv dpv (renamed t l v) (fd_store s2) = (Inr (), st)"
    "on_ptr parent (delete_child (iid sv) (iname sv)) (s2\<lparr>fd_store := st\<rparr>) = (Inr a3, s4)"
    "on_ptr dst (add_child (renamed t l v)) s4 = (Inr a4, s')"
  using assms unfolding unprotected_rename_def renamed_def
  by (auto simp: bind_op_Inr_iff read_ptr_Inr on_store_Inr Let_def split: option.splits if_splits)

text \<open>The two parents with the new modification time.\<close>

lemma touch_parents:
  assumes ok: "tree_ok (fd_root s)" and q: "paths s q = Some (NDir d)" and r: "paths s r = Some (NDir e)"
    and t1: "on_ptr (Ref q) (pure_op (update_mtime t)) s = (Inr a1, s1)"
    and t2: "on_ptr (Ref r) (pure_op (update_mtime t)) s1 = (Inr a2, s2)"
  obtains root where "s2 = s\<lparr>fd_root := root\<rparr>" "tree_ok root"
    "lookup root = (paths s)(q \<mapsto> NDir (touch t d), r \<mapsto> NDir (touch t e))"
proof -
  obtain n m where nm: "tree_get (fd_root s) q = Some (dir_map n d m)" using ok q by (rule dir_at)
  obtain r1 where r1: "s1 = s\<lparr>fd_root := r1\<rparr>" "tree_ok r1" "lookup r1 = (paths s)(q \<mapsto> NDir (touch t d))"
    using touch_ptr[OF ok nm t1] by blast
  define e1 where "e1 = (if r = q then touch t d else e)"
  have "paths s1 r = Some (NDir e1)" using r1(1,3) r by (simp add: e1_def)
  moreover have ok1: "tree_ok (fd_root s1)" using r1(1,2) by simp
  ultimately obtain n' m' where nm': "tree_get (fd_root s1) r = Some (dir_map n' e1 m')" by (blast elim: dir_at)
  obtain r2 where r2: "s2 = s1\<lparr>fd_root := r2\<rparr>" "tree_ok r2" "lookup r2 = (paths s1)(r \<mapsto> NDir (touch t e1))"
    using touch_ptr[OF ok1 nm' t2] by blast
  have "touch t e1 = touch t e" using q r by (auto simp: e1_def touch_twice)
  then show thesis using that[OF _ r2(2)] r2(1,3) r1(1,3) by simp
qed

text \<open>The stored form of a directory that is in the tree.\<close>

lemma dir_view:
  assumes "tree_ok root" "lookup root q = Some (NDir d)" "tree_get root q = Some v"
  shows "iid v = d_id d" "\<exists>n. strip v = Dir n d new_map \<and> (q = [] \<or> n = last q)"
proof -
  obtain n m where "tree_get root q = Some (dir_map n d m)" "q = [] \<or> n = last q"
    using assms(1,2) by (rule dir_at)
  then show "iid v = d_id d" "\<exists>n. strip v = Dir n d new_map \<and> (q = [] \<or> n = last q)"
    using assms(3) by auto
qed

text \<open>The node a rename reads again after the parents changed.\<close>

lemma moved_view:
  assumes "tree_ok root" "lookup root (q @ [k]) = Some x" "node_ptr I (q @ [k]) x ptr"
    "\<forall>i n f. x = NEntry i \<and> I i = Some (File n f) \<longrightarrow> f_id f = i" "deref root ptr = Some v"
  shows "iname v = k" "iid v = node_id x"
proof (atomize (full), cases x)
  case (NDir a)
  then have v: "tree_get root (q @ [k]) = Some v" using assms(3,5) by (simp add: deref_def)
  then have "shallow v = x" using assms(2) by (simp add: lookup_def)
  then show "iname v = k \<and> iid v = node_id x" using tree_get_iname[OF assms(1) v] by auto
qed (use assms(3,4,5) in \<open>auto simp: deref_def\<close>)

lemma graft_lookup:
  assumes "\<forall>u. L' u = (if prefix (r @ [l]) u then N (drop (Suc (length r)) u) else cut_off p L u)"
    and "\<forall>u. N u = (if u = [] then Some x else L (p @ u))"
  shows "L' = graft p (r @ [l]) x L"
proof
  fix u
  show "L' u = graft p (r @ [l]) x L u"
  proof (cases "prefix (r @ [l]) u")
    case True
    then obtain w where "u = (r @ [l]) @ w" by (auto simp: prefix_def)
    then show ?thesis using assms by (auto simp: graft_def moved_from_def)
  next
    case False
    then show ?thesis using assms(1) by (auto simp: graft_def moved_from_def cut_off_def)
  qed
qed

text \<open>The maps after a rename: the parents touched, then the subtree moved.\<close>

lemma fs_inv_renamed:
  assumes inv: "fs_inv L I Ed c" and q: "L q = Some (NDir d)" "L (q @ [k]) = Some x"
    and r: "L r = Some (NDir e)" "\<not> prefix (q @ [k]) r" "r @ [l] = q @ [k] \<or> L (r @ [l]) = None"
    and v: "moved_node I l x x' v"
    and nm: "q = [] \<or> n = last q" "r = [] \<or> m = last r"
  shows "fs_inv (graft (q @ [k]) (r @ [l]) x' (L(q \<mapsto> NDir (touch t d), r \<mapsto> NDir (touch t e))))
    (I(node_id x \<mapsto> v, d_id d \<mapsto> Dir n (touch t d) new_map, d_id e \<mapsto> Dir m (touch t e) new_map))
    (move_edges (d_id d) k (d_id e) l (node_id x) Ed) c"
proof -
  let ?L1 = "L(q \<mapsto> NDir (touch t d))" and ?I1 = "I(d_id d \<mapsto> Dir n (touch t d) new_map)"
  have t1: "fs_inv ?L1 ?I1 Ed c" by (rule fs_inv_touch[OF inv q(1) touch_id]) (use nm(1) in blast)
  define e1 where "e1 = (if r = q then touch t d else e)"
  have e1: "?L1 r = Some (NDir e1)" "d_id e1 = d_id e" "touch t e1 = touch t e"
    using q(1) r(1) by (auto simp: e1_def touch_twice)
  let ?L2 = "?L1(r \<mapsto> NDir (touch t e))" and ?I2 = "?I1(d_id e \<mapsto> Dir m (touch t e) new_map)"
  have ids: "d_id (touch t e) = d_id e1" using e1(2) by simp
  have t2: "fs_inv ?L2 ?I2 Ed c"
    using fs_inv_touch[OF t1 e1(1) ids, of m] nm(2) unfolding e1(2) by blast
  have ne: "q @ [k] \<noteq> q" "q @ [k] \<noteq> r" using r(2) by auto
  have x2: "?L2 (q @ [k]) = Some x" "?L2 q = Some (NDir (touch t d))"
    using q ne r(1) by auto
  have id: "node_id x \<noteq> d_id d" "node_id x \<noteq> d_id e"
    using ids_unique[OF fs_invD(2)[OF inv] _ q(1), of "q @ [k]"] ids_unique[OF fs_invD(2)[OF inv] _ r(1), of "q @ [k]"]
      entry_not_dir[OF inv _ q(1), of "q @ [k]"] entry_not_dir[OF inv _ r(1), of "q @ [k]"] q(2) ne v
    by (auto simp: moved_node_def)
  have pre: "move_pre ?L2 q (touch t d) k r (touch t e) l"
    using q r ne x2 by (auto simp: move_pre_def)
  have "moved_node ?I2 l x x' v" using v id by (auto simp: moved_node_def)
  from fs_inv_move[OF t2 pre x2(1) this] show ?thesis
    unfolding touch_id fun_upd_twist[OF id(1)] fun_upd_twist[OF id(2)] .
qed

lemma move_in_memory:
  assumes ok: "tree_ok (fd_root s)" and q: "paths s q = Some (NDir d)" and r: "paths s r = Some (NDir e)"
    and del: "on_ptr (Ref q) (delete_child i k) s = (Inr a, s1)"
    and add: "on_ptr (Ref r) (add_child ch) s1 = (Inr b, s')"
    and ch: "tree_ok (entry_of (d_id e) ch)"
      "\<not> prefix (q @ [k]) r \<longrightarrow> (\<forall>u. lookup (entry_of (d_id e) ch) u = (if u = [] then Some x else paths s ((q @ [k]) @ u)))"
  shows "\<exists>root. s' = s\<lparr>fd_root := root\<rparr> \<and> tree_ok root \<and> \<not> prefix (q @ [k]) r \<and>
    (r @ [iname ch] = q @ [k] \<or> paths s (r @ [iname ch]) = None) \<and>
    lookup root = graft (q @ [k]) (r @ [iname ch]) x (paths s)"
proof -
  obtain n m where nm: "tree_get (fd_root s) q = Some (dir_map n d m)" using ok q by (rule dir_at)
  obtain r1 where r1: "s1 = s\<lparr>fd_root := r1\<rparr>" "tree_ok r1" "lookup r1 = cut_off (q @ [k]) (paths s)"
    using remove_ptr[OF ok nm del] by blast
  have "tree_get (fd_root s1) r \<noteq> None" using add by (cases b) (auto simp: on_ptr_Ref_Inr)
  then have "lookup r1 r \<noteq> None" using r1(1) by (simp add: lookup_def)
  then have np: "\<not> prefix (q @ [k]) r" using r1(3) by (auto simp: cut_off_def)
  have ok1: "tree_ok (fd_root s1)" "paths s1 r = Some (NDir e)" using r1 r np by (simp_all add: cut_off_def)
  obtain n' m' where nm': "tree_get (fd_root s1) r = Some (dir_map n' e m')" using ok1 by (rule dir_at)
  obtain b1 b2 where b: "b = (b1, b2)" by (cases b)
  note added = add_ptr[OF ok1(1) nm' ch(1) add[unfolded b]]
  obtain r2 where r2: "s' = s1\<lparr>fd_root := r2\<rparr>" "tree_ok r2"
      "\<forall>u. lookup r2 u = (if prefix (r @ [iname ch]) u
         then lookup (entry_of (d_id e) ch) (drop (Suc (length r)) u) else paths s1 u)"
    using added(1) by blast
  have "lookup r2 = graft (q @ [k]) (r @ [iname ch]) x (paths s)"
    by (rule graft_lookup[OF _ ch(2)[rule_format, OF np, THEN allI]]) (use r2(3) r1 in simp)
  moreover have "r @ [iname ch] = q @ [k] \<or> paths s (r @ [iname ch]) = None"
    using added(3) r1(1,3) np by (auto simp: cut_off_def split: if_splits)
  ultimately show ?thesis using r2(1,2) r1(1) np by (intro exI[of _ r2]) simp
qed

lemma add_child_dir:
  assumes "on_ptr ptr (add_child ch) s = (Inr a, s')" "node_ptr I r y ptr"
  obtains e where "y = NDir e" "ptr = Ref r"
proof (cases y)
  case (NEntry i)
  then show thesis using assms by (cases a) (auto simp: on_ptr_Owned_Inr)
qed (use assms(2) that in auto)

lemma unprotected_rename_ok:
  assumes E: "env_ok E" and s: "dir_inv E s c"
    and src: "at_path (paths s) (m_inodes (meta E s)) src_inp p"
    and dst: "at_path (paths s) (m_inodes (meta E s)) dst_inp p2"
    and ren: "unprotected_rename E t src_inp dst_inp s = (Inr (), s')"
  obtains q k d x r l e where "p = q @ [k]" "paths s q = Some (NDir d)" "paths s p = Some x"
    "paths s r = Some (NDir e)" "paths s p2 = None \<and> p2 = r @ [l] \<or> p2 = r \<and> l = k"
    "\<not> prefix p r" "r @ [l] = p \<or> paths s (r @ [l]) = None"
    "paths s' = graft p (r @ [l]) (moved_attrs t (d_id e) x) ((paths s)(q \<mapsto> NDir (touch t d), r \<mapsto> NDir (touch t e)))"
    "dir_inv E s' c" "fd_inode_id s' = fd_inode_id s"
proof -
  note inv = dir_invD[OF s]
  obtain sp parent v l dp s0 a1 s1 a2 s2 spv sv dpv st a3 s4 a4 where op:
    "get_last_inode src_inp = Some sp" "get_inode src_inp (-2) = Some parent"
    "deref (fd_root s) sp = Some v" "rename_target src_inp dst_inp s = (Inr (l, dp), s0)"
    "on_ptr parent (pure_op (update_mtime t)) s0 = (Inr a1, s1)"
    "on_ptr dp (pure_op (update_mtime t)) s1 = (Inr a2, s2)"
    "deref (fd_root s2) parent = Some spv" "deref (fd_root s2) sp = Some sv" "deref (fd_root s2) dp = Some dpv"
    "apply_rename E spv sv dpv (renamed t l v) (fd_store s2) = (Inr (), st)"
    "on_ptr parent (delete_child (iid sv) (iname sv)) (s2\<lparr>fd_store := st\<rparr>) = (Inr a3, s4)"
    "on_ptr dp (add_child (renamed t l v)) s4 = (Inr a4, s')"
    using ren by (rule unprotected_rename_Inr)
  obtain q k d x where q: "p = q @ [k]" "paths s q = Some (NDir d)" "parent = Ref q" "paths s p = Some x"
      "node_ptr (m_inodes (meta E s)) p x sp" "ip_name src_inp = k"
    using fs_invD(1)[OF inv(3)] src op(1,2) by (rule existing_path)
  obtain r y where ry: "s0 = s" "paths s r = Some y" "node_ptr (m_inodes (meta E s)) r y dp"
      "paths s p2 = None \<and> p2 = r @ [l] \<or> p2 = r \<and> l = ip_name src_inp \<and> (\<exists>e. y = NDir e)"
    using fs_invD(1)[OF inv(3)] dst op(4) by (rule rename_dest)
  obtain e where e: "y = NDir e" "dp = Ref r" using op(12) ry(3) by (rule add_child_dir)
  note r = ry(2)[unfolded e(1)]
  let ?L = "(paths s)(q \<mapsto> NDir (touch t d), r \<mapsto> NDir (touch t e))"
  obtain r2 where r2: "s2 = s\<lparr>fd_root := r2\<rparr>" "tree_ok r2" "lookup r2 = ?L"
    using inv(1) q(2) r op(5)[unfolded ry(1) q(3)] op(6)[unfolded e(2)] by (rule touch_parents)
  note ent = renamed_entry[OF s q(4,5) op(3), of "d_id e" t l]
  have at: "lookup r2 q = Some (NDir (touch t d))" "lookup r2 r = Some (NDir (touch t e))"
    using r2(3) q(2) r by auto
  define x2 where "x2 = (if r = p then NDir (touch t e) else x)"
  have x2: "lookup r2 (q @ [k]) = Some x2" "node_ptr (m_inodes (meta E s)) (q @ [k]) x2 sp" "node_id x2 = node_id x"
    using r2(3) q(1,4,5) r by (auto simp: x2_def)
  have "\<forall>i n f. x2 = NEntry i \<and> m_inodes (meta E s) i = Some (File n f) \<longrightarrow> f_id f = i"
    using entry_facts(4)[OF inv(3)] q(4) by (auto simp: x2_def split: if_splits)
  note sv = moved_view[OF r2(2) x2(1,2) this]
  have svk: "iname sv = k" "iid sv = node_id x" using sv[of sv] op(8) r2(1) x2(3) by simp_all
  let ?s2 = "s2\<lparr>fd_store := st\<rparr>"
  have s2: "tree_ok (fd_root ?s2)" "paths ?s2 q = Some (NDir (touch t d))" "paths ?s2 r = Some (NDir (touch t e))"
    using r2(1,2) at by simp_all
  have ch: "tree_ok (entry_of (d_id (touch t e)) (renamed t l v))"
      "\<not> prefix (q @ [k]) r \<longrightarrow> (\<forall>u. lookup (entry_of (d_id (touch t e)) (renamed t l v)) u =
         (if u = [] then Some (moved_attrs t (d_id e) x) else paths ?s2 ((q @ [k]) @ u)))"
    using ent r2(1,3) q(1) by auto
  obtain root where root: "s' = ?s2\<lparr>fd_root := root\<rparr>" "tree_ok root" "\<not> prefix p r"
      "r @ [l] = p \<or> ?L (r @ [l]) = None" "lookup root = graft p (r @ [l]) (moved_attrs t (d_id e) x) ?L"
    using move_in_memory[OF s2 op(11)[unfolded q(3) svk(1)] op(12)[unfolded e(2)] ch] r2(1,3) q(1) by auto
  have free: "r @ [l] = p \<or> paths s (r @ [l]) = None" using root(4) by (auto split: if_splits)
  have spv: "tree_get r2 q = Some spv" "tree_get r2 r = Some dpv"
    using op(7,9) q(3) e(2) r2(1) by (simp_all add: deref_def)
  obtain n m where nm: "strip spv = Dir n (touch t d) new_map" "q = [] \<or> n = last q"
      "strip dpv = Dir m (touch t e) new_map" "r = [] \<or> m = last r"
    using dir_view(2)[OF r2(2) at(1) spv(1)] dir_view(2)[OF r2(2) at(2) spv(2)] by blast
  have ids: "iid spv = d_id d" "iid dpv = d_id e" "iid (renamed t l v) = node_id x"
    using dir_view(1)[OF r2(2) at(1) spv(1)] dir_view(1)[OF r2(2) at(2) spv(2)] ent by simp_all
  have "is_i64 (d_id d)" "is_i64 (d_id e)" "is_i64 (node_id x)"
    using dir_inv_i64[OF s q(2)] dir_inv_i64[OF s r] dir_inv_i64[OF s q(4)] by simp_all
  note st = apply_rename_metas[OF E _ _ _ op(10), unfolded ids, OF this]
  have "fs_inv (lookup root) (m_inodes (store_metas E st)) (m_edges (store_metas E st)) c"
    using fs_inv_renamed[OF inv(3) q(2) q(4)[unfolded q(1)] r root(3)[unfolded q(1)] free[unfolded q(1)], of
        "moved_attrs t (d_id e) x" "strip (renamed t l v)" n m t] ent nm q(1)
    unfolding root(5) st
    by (simp add: ids svk r2(1) move_edges_def)
  then have "dir_inv E s' c" using root(1,2) inv(2) r2(1) by (simp add: dir_inv_def)
  then show thesis
    using that[OF q(1,2,4) r _ root(3) free] ry(4) q(6) root(1,5) r2(1) by auto
qed

subsection \<open>Writing files\<close>

text \<open>A resolved path whose last pointer is read as a file is an entry of the tree, and the pointer is a
  copy of the stored inode: changing it changes neither the tree nor the store.\<close>

lemma file_ptr_read:
  assumes s: "dir_inv E s c" and inp: "at_path (paths s) (m_inodes (meta E s)) inp p"
    and last: "get_last_inode inp = Some ptr" and v: "deref (fd_root s) ptr = Some v" "\<not> is_dir v"
  obtains i n f where "paths s p = Some (NEntry i)" "m_inodes (meta E s) i = Some (File n f)" "f_id f = i"
    "is_i64 i" "ptr = Owned (File (last p) f)" "v = File (last p) f"
proof -
  have full: "is_full inp" "ptr = last (ip_inodes inp)"
    using last at_path_last[OF inp] by (auto split: if_splits)
  obtain y where y: "paths s p = Some y" "node_ptr (m_inodes (meta E s)) p y ptr"
    using at_pathD(6)[OF inp, of "length p"] at_pathD(3,8)[OF inp] full by (auto simp: last_conv_nth)
  obtain i where i: "y = NEntry i"
  proof (cases y)
    case (NDir d)
    then obtain n m where "tree_get (fd_root s) p = Some (dir_map n d m)"
      using dir_at[OF dir_invD(1)[OF s]] y(1) by blast
    then show thesis using NDir y(2) v by (auto simp: deref_def)
  qed (use y(2) that in auto)
  obtain n f where f: "m_inodes (meta E s) i = Some (File n f)" "ptr = Owned (File (last p) f)"
    using y(2) i by auto
  have "f_id f = i" using entry_facts(4)[OF dir_invD(3)[OF s] _ f(1)] y(1) i by blast
  moreover have "is_i64 i" using dir_inv_i64[OF s y(1)] i by simp
  ultimately show thesis using that[of i n f] y(1) i f v(1) by (simp add: deref_def)
qed

lemma file_op_Inr: "file_op m v = (Inr a, v') \<longleftrightarrow> (\<exists>n f f'. v = File n f \<and> m f = (Inr a, f') \<and> v' = File n f')"
  by (cases v) (auto split: prod.splits)

lemma file_ptr_op:
  assumes s: "dir_inv E s c" and inp: "at_path (paths s) (m_inodes (meta E s)) inp p"
    and last: "get_last_inode inp = Some ptr" and op: "on_ptr ptr (file_op m) s = (Inr (a, ptr'), s')"
  obtains i n f f' where "paths s p = Some (NEntry i)" "m_inodes (meta E s) i = Some (File n f)" "f_id f = i"
    "is_i64 i" "m f = (Inr a, f')" "ptr' = Owned (File (last p) f')" "s' = s"
proof -
  obtain v where v: "deref (fd_root s) ptr = Some v" "\<not> is_dir v"
  proof (cases ptr)
    case (Ref q)
    then show thesis using op that by (auto simp: on_ptr_Ref_Inr file_op_Inr deref_def)
  next
    case (Owned u)
    then show thesis using op that by (auto simp: on_ptr_Owned_Inr file_op_Inr deref_def)
  qed
  obtain i n f where f: "paths s p = Some (NEntry i)" "m_inodes (meta E s) i = Some (File n f)" "f_id f = i"
      "is_i64 i" "ptr = Owned (File (last p) f)"
    using s inp last v by (rule file_ptr_read)
  have "\<exists>f'. m f = (Inr a, f') \<and> ptr' = Owned (File (last p) f') \<and> s' = s"
    using op f(5) by (auto simp: on_ptr_Owned_Inr file_op_Inr split: prod.splits)
  with that[OF f(1-4)] show thesis by blast
qed

text \<open>The store after the changed inode was written.\<close>

lemma file_stored_ok:
  assumes s: "dir_inv E s c" and p: "paths s p = Some (NEntry i)" "m_inodes (meta E s) i = Some (File n f)"
    and f: "f_id f' = i" "f_nlink f' = f_nlink f"
    and st: "m_inodes (store_metas E st) = (m_inodes (meta E s))(i \<mapsto> File k f')"
      "m_edges (store_metas E st) = m_edges (meta E s)"
  shows "dir_inv E (s\<lparr>fd_tick := tk, fd_store := st, fd_journal := jw\<rparr>) c"
proof -
  note inv = dir_invD[OF s]
  have "f_id f = i" using entry_facts(4)[OF inv(3) p] by simp
  then have "fs_inv (paths s) ((m_inodes (meta E s))(i \<mapsto> File k f')) (m_edges (meta E s)) c"
    using fs_inv_write[OF inv(3) p] f by simp
  then show ?thesis using inv st by (simp add: dir_inv_def)
qed

lemma acquire_on_file_keeps:
  assumes "acquire_on_file c ws f = (Inr b, f')" shows "f_id f' = f_id f \<and> f_nlink f' = f_nlink f"
proof -
  have "f_nlink g' = f_nlink g" if "commit_block c g = (r, g')" for g g' r
    by (subst commit_block_frame(1)[OF that]) simp
  then show ?thesis
    using assms by (auto simp: acquire_on_file_def next_block_id_def add_block_def bind_op_Inr_iff
        dest: commit_block_same split: option.splits sum.splits prod.splits)
qed

lemma complete_on_file_keeps:
  assumes "complete_on_file t len c f = (Inr b, f')" shows "f_id f' = f_id f \<and> f_nlink f' = f_nlink f"
proof -
  have "f_nlink g' = f_nlink g" if "commit_block c g = (r, g')" for g g' r
    by (subst commit_block_frame(1)[OF that]) simp
  then show ?thesis
    using assms by (auto simp: complete_on_file_def bind_op_Inr_iff dest: commit_block_same split: if_splits)
qed

text \<open>Every location of a committed block is recorded.\<close>

definition located :: "commit_blk option \<Rightarrow> (i64 \<Rightarrow> u32 \<Rightarrow> block_location option) \<Rightarrow> bool" where
  "located com locs \<longleftrightarrow> (\<forall>cb. com = Some cb \<longrightarrow>
     (\<forall>l\<in>set (cb_locations cb). locs (cb_block_id cb) (bl_worker_id l) \<noteq> None))"

lemma put_locs_mem:
  "l \<in> set ls \<or> m_locs m i (bl_worker_id l) \<noteq> None \<Longrightarrow> m_locs (put_locs i ls m) i (bl_worker_id l) \<noteq> None"
  unfolding put_locs_def by (induction ls arbitrary: m) auto

lemma write_commit_ok:
  assumes E: "env_ok E" and s: "dir_inv E s c" and p: "paths s p = Some (NEntry i)" "m_inodes (meta E s) i = Some (File n f)"
    and f: "f_id f' = i" "f_nlink f' = f_nlink f" and i: "is_i64 i" "\<forall>cb. com = Some cb \<longrightarrow> is_i64 (cb_block_id cb)"
    and st: "write_file_commit E (File k f') com (fd_store s) = (Inr (), st)"
  shows "dir_inv E (s\<lparr>fd_tick := tk, fd_store := st, fd_journal := jw\<rparr>) c"
    "m_inodes (store_metas E st) = (m_inodes (meta E s))(i \<mapsto> File k f')"
    "located com (m_locs (store_metas E st))"
proof -
  have "is_i64 (iid (File k f'))" using i(1) f(1) by simp
  from write_file_metas[OF E this _ st] i(2)
  have m: "store_metas E st = (case com of None \<Rightarrow> put_inode (File k f') (meta E s)
    | Some cb \<Rightarrow> put_locs (cb_block_id cb) (cb_locations cb) (put_inode (File k f') (meta E s)))" by blast
  show ino: "m_inodes (store_metas E st) = (m_inodes (meta E s))(i \<mapsto> File k f')"
    unfolding m using f(1) by (cases com) simp_all
  have "m_edges (store_metas E st) = m_edges (meta E s)" unfolding m by (cases com) simp_all
  from file_stored_ok[OF s p f ino this]
  show "dir_inv E (s\<lparr>fd_tick := tk, fd_store := st, fd_journal := jw\<rparr>) c" .
  show "located com (m_locs (store_metas E st))"
    unfolding m located_def using put_locs_mem by (auto simp del: not_None_eq)
qed

lemma write_tail_Inr:
  fixes W :: "inode_view \<Rightarrow> ('db inode_store, unit) op"
  assumes "bind_op (read_ptr ptr) (\<lambda>v. bind_op (on_store (W v)) (\<lambda>_. bind_op (lift_res (as_file v)) (\<lambda>f.
    bind_op (on_journal (J f)) (\<lambda>_ s. (Inr r, s))))) s = (Inr b, s')"
  shows "b = r \<and> (\<exists>v st jw. deref (fd_root s) ptr = Some v \<and> W v (fd_store s) = (Inr (), st) \<and>
    s' = s\<lparr>fd_store := st, fd_journal := jw\<rparr>)"
  using assms by (auto simp: bind_op_Inr_iff read_ptr_Inr on_store_Inr on_journal_Inr)

lemma acquire_new_block_Inr:
  assumes "acquire_new_block E inp com ws s = (Inr block, s')"
  obtains ptr fresh ptr' s1 where "get_last_inode inp = Some ptr"
    "on_ptr ptr (file_op (acquire_on_file com ws)) (s\<lparr>fd_tick := Suc (fd_tick s)\<rparr>) = (Inr ((block, fresh), ptr'), s1)"
    "\<not> fresh \<and> s' = s1 \<or> fresh \<and> (\<exists>v st jw. deref (fd_root s1) ptr' = Some v \<and>
       apply_new_block E v com (fd_store s1) = (Inr (), st) \<and> s' = s1\<lparr>fd_store := st, fd_journal := jw\<rparr>)"
proof -
  obtain ptr b fresh ptr' s1 where op: "get_last_inode inp = Some ptr"
      "on_ptr ptr (file_op (acquire_on_file com ws)) (s\<lparr>fd_tick := Suc (fd_tick s)\<rparr>) = (Inr ((b, fresh), ptr'), s1)"
      "(if \<not> fresh then (\<lambda>s. (Inr b, s)) else bind_op (read_ptr ptr') (\<lambda>v.
         bind_op (on_store (apply_new_block E v com)) (\<lambda>_. bind_op (lift_res (as_file v)) (\<lambda>f.
         bind_op (on_journal (log_add_block (fd_clock s (fd_tick s)) (ip_path inp) f com)) (\<lambda>_ s.
           (Inr b, s)))))) s1 = (Inr block, s')"
    using assms unfolding acquire_new_block_def bind_op_Inr_iff now_ms_Inr try_option_def
    by (cases "get_last_inode inp") auto
  show thesis
  proof (cases fresh)
    case True
    then have "block = b \<and> (\<exists>v st jw. deref (fd_root s1) ptr' = Some v \<and>
        apply_new_block E v com (fd_store s1) = (Inr (), st) \<and> s' = s1\<lparr>fd_store := st, fd_journal := jw\<rparr>)"
      using op(3) by (intro write_tail_Inr) simp
    then show thesis using that[OF op(1)] op(2) True by blast
  next
    case False
    then have "b = block" "s' = s1" using op(3) by simp_all
    then show thesis using that[OF op(1)] op(2) False by blast
  qed
qed

lemma acquire_new_block_ok:
  assumes E: "env_ok E" and s: "dir_ok E s" and inp: "at_path (paths s) (m_inodes (meta E s)) inp p"
    and com: "\<forall>cb. com = Some cb \<longrightarrow> is_i64 (cb_block_id cb)"
    and op: "acquire_new_block E inp com ws s = (Inr block, s')"
  shows "\<exists>i n f f' fresh. paths s p = Some (NEntry i) \<and> m_inodes (meta E s) i = Some (File n f) \<and>
    acquire_on_file com ws f = (Inr (block, fresh), f') \<and> dir_ok E s' \<and> paths s' = paths s \<and>
    m_inodes (meta E s') = (if fresh then (m_inodes (meta E s))(i \<mapsto> File (last p) f') else m_inodes (meta E s)) \<and>
    (fresh \<longrightarrow> located com (m_locs (meta E s')))"
proof -
  let ?s0 = "s\<lparr>fd_tick := Suc (fd_tick s)\<rparr>"
  have s0: "dir_inv E ?s0 (fd_inode_id s)" "at_path (paths ?s0) (m_inodes (meta E ?s0)) inp p"
    using s inp by (simp_all add: dir_ok_def dir_inv_def)
  obtain ptr fresh ptr' s1 where op1: "get_last_inode inp = Some ptr"
      "on_ptr ptr (file_op (acquire_on_file com ws)) ?s0 = (Inr ((block, fresh), ptr'), s1)"
      "\<not> fresh \<and> s' = s1 \<or> fresh \<and> (\<exists>v st jw. deref (fd_root s1) ptr' = Some v \<and>
       apply_new_block E v com (fd_store s1) = (Inr (), st) \<and> s' = s1\<lparr>fd_store := st, fd_journal := jw\<rparr>)"
    using op by (rule acquire_new_block_Inr)
  obtain i n f f' where f: "paths ?s0 p = Some (NEntry i)" "m_inodes (meta E ?s0) i = Some (File n f)" "f_id f = i"
      "is_i64 i" "acquire_on_file com ws f = (Inr (block, fresh), f')" "ptr' = Owned (File (last p) f')" "s1 = ?s0"
    using s0 op1(1,2) by (rule file_ptr_op)
  note keep = acquire_on_file_keeps[OF f(5)]
  show ?thesis
  proof (cases fresh)
    case False
    then have "s' = ?s0" using op1(3) f(7) by simp
    then show ?thesis using False f(1,2,5) s0(1) by (auto simp: dir_ok_def)
  next
    case True
    then obtain st jw where st: "apply_new_block E (File (last p) f') com (fd_store ?s0) = (Inr (), st)"
        "s' = ?s0\<lparr>fd_store := st, fd_journal := jw\<rparr>"
      using op1(3) f(6,7) by (auto simp: deref_def)
    have "f_id f' = i" "f_nlink f' = f_nlink f" using keep f(3) by simp_all
    note wr = write_commit_ok[OF E s0(1) f(1,2) this f(4) com st(1)[unfolded apply_new_block_def]]
    have "dir_ok E s'" using wr(1)[of jw "Suc (fd_tick s)"] by (simp add: dir_ok_def st(2))
    then show ?thesis using wr(2,3) f(1,2,5) True by (intro exI conjI) (simp add: st(2))+
  qed
qed

lemma complete_file_ok:
  assumes E: "env_ok E" and s: "dir_ok E s" and inp: "at_path (paths s) (m_inodes (meta E s)) inp p"
    and com: "\<forall>cb. com = Some cb \<longrightarrow> is_i64 (cb_block_id cb)"
    and op: "complete_file E inp len com s = (Inr b, s')"
  shows "\<exists>i n f f' t. paths s p = Some (NEntry i) \<and> m_inodes (meta E s) i = Some (File n f) \<and>
    complete_on_file t len com f = (Inr b, f') \<and> dir_ok E s' \<and> paths s' = paths s \<and>
    m_inodes (meta E s') = (if b then (m_inodes (meta E s))(i \<mapsto> File (last p) f') else m_inodes (meta E s)) \<and>
    (b \<longrightarrow> located com (m_locs (meta E s')))"
proof -
  let ?s0 = "s\<lparr>fd_tick := Suc (Suc (fd_tick s))\<rparr>"
  have s0: "dir_inv E ?s0 (fd_inode_id s)" "at_path (paths ?s0) (m_inodes (meta E ?s0)) inp p"
    using s inp by (simp_all add: dir_ok_def dir_inv_def)
  let ?t = "fd_clock s (Suc (fd_tick s))"
  obtain ptr done' ptr' s1 where op1: "get_last_inode inp = Some ptr"
      "on_ptr ptr (file_op (complete_on_file ?t len com)) ?s0 = (Inr (done', ptr'), s1)"
      "(if \<not> done' then (\<lambda>s. (Inr False, s)) else bind_op (read_ptr ptr') (\<lambda>v.
         bind_op (on_store (apply_complete_file E v com)) (\<lambda>_. bind_op (lift_res (as_file v)) (\<lambda>f.
         bind_op (on_journal (log_complete_file (fd_clock s (fd_tick s)) (ip_path inp) f com)) (\<lambda>_ s.
           (Inr True, s)))))) s1 = (Inr b, s')"
    using op unfolding complete_file_def bind_op_Inr_iff now_ms_Inr try_option_def
    by (cases "get_last_inode inp") auto
  obtain i n f f' where f: "paths ?s0 p = Some (NEntry i)" "m_inodes (meta E ?s0) i = Some (File n f)" "f_id f = i"
      "is_i64 i" "complete_on_file ?t len com f = (Inr done', f')" "ptr' = Owned (File (last p) f')" "s1 = ?s0"
    using s0 op1(1,2) by (rule file_ptr_op)
  show ?thesis
  proof (cases done')
    case False
    then have "s' = ?s0" "b = False" using op1(3) f(7) by simp_all
    then show ?thesis using False f(1,2,5) s0(1) by (auto simp: dir_ok_def)
  next
    case True
    then have "b = True \<and> (\<exists>v st jw. deref (fd_root s1) ptr' = Some v \<and>
        apply_complete_file E v com (fd_store s1) = (Inr (), st) \<and> s' = s1\<lparr>fd_store := st, fd_journal := jw\<rparr>)"
      using op1(3) by (intro write_tail_Inr) simp
    then obtain st jw where st: "apply_complete_file E (File (last p) f') com (fd_store ?s0) = (Inr (), st)"
        "s' = ?s0\<lparr>fd_store := st, fd_journal := jw\<rparr>" "b = True"
      using f(6,7) by (auto simp: deref_def)
    have "f_id f' = i" "f_nlink f' = f_nlink f" using complete_on_file_keeps[OF f(5)] f(3) by simp_all
    note wr = write_commit_ok[OF E s0(1) f(1,2) this f(4) com st(1)[unfolded apply_complete_file_def]]
    have "dir_ok E s'" using wr(1)[of jw "Suc (Suc (fd_tick s))"] by (simp add: dir_ok_def st(2))
    then show ?thesis using wr(2,3) f(1,2,5) True st(3) by (intro exI conjI) (simp_all add: st(2))
  qed
qed

lemma append_file_ok:
  assumes E: "env_ok E" and s: "dir_ok E s" and inp: "at_path (paths s) (m_inodes (meta E s)) inp p"
    and op: "append_file E inp client s = (Inr (lb, status), s')"
  shows "\<exists>i n f f'. paths s p = Some (NEntry i) \<and> m_inodes (meta E s) i = Some (File n f) \<and> is_complete f \<and>
    append_to client f = (lb, f') \<and> dir_ok E s' \<and> paths s' = paths s \<and>
    m_inodes (meta E s') = (m_inodes (meta E s))(i \<mapsto> File (last p) f')"
proof -
  let ?s0 = "s\<lparr>fd_tick := Suc (fd_tick s)\<rparr>"
  have s0: "dir_inv E ?s0 (fd_inode_id s)" "at_path (paths ?s0) (m_inodes (meta E ?s0)) inp p"
    using s inp by (simp_all add: dir_ok_def dir_inv_def)
  obtain ptr v where pv: "get_last_inode inp = Some ptr" "deref (fd_root ?s0) ptr = Some v" "(case v of
         FileEntry _ _ \<Rightarrow> (\<lambda>s. (Inl (Panic ''assertion failed''), s))
       | Dir _ _ _ \<Rightarrow> (\<lambda>s. (Inl (FileAlreadyExists ''Cannot append to already exists directory''), s))
       | File n f \<Rightarrow>
           if \<not> is_complete f then (\<lambda>s. (Inl (Common ''Cannot append not complete file''), s))
           else let (last_block, f') = append_to client f in
             bind_op (lift_res (to_file_status (ip_path inp) (File n f'))) (\<lambda>status.
             bind_op (on_store (apply_append_file E (File n f'))) (\<lambda>_.
             bind_op (on_journal (log_append_file (fd_clock s (fd_tick s)) (ip_path inp) f')) (\<lambda>_ s.
               (Inr (last_block, status), s))))) ?s0 = (Inr (lb, status), s')"
    using op unfolding append_file_def
    by (cases "get_last_inode inp") (auto simp: bind_op_Inr_iff now_ms_Inr read_ptr_Inr simp del: to_file_status.simps)
  obtain nm fl where vf: "v = File nm fl" using pv(3) by (cases v) simp_all
  obtain lb' fl' where app: "append_to client fl = (lb', fl')" by fastforce
  obtain st jw where op1: "get_last_inode inp = Some ptr" "deref (fd_root ?s0) ptr = Some (File nm fl)"
      "is_complete fl" "append_to client fl = (lb, fl')" "apply_append_file E (File nm fl') (fd_store ?s0) = (Inr (), st)"
      "s' = ?s0\<lparr>fd_store := st, fd_journal := jw\<rparr>"
    using pv by (cases "is_complete fl") (auto simp: vf app bind_op_Inr_iff on_store_Inr on_journal_Inr)
  have nd: "\<not> is_dir (File nm fl)" by simp
  obtain i n f where f: "paths ?s0 p = Some (NEntry i)" "m_inodes (meta E ?s0) i = Some (File n f)" "f_id f = i"
      "is_i64 i" "ptr = Owned (File (last p) f)" "File nm fl = File (last p) f"
    using s0 op1(1,2) nd by (rule file_ptr_read)
  have keep: "f_id fl' = i" "f_nlink fl' = f_nlink f"
    using op1(4) f(3,6) by (auto simp: append_to_def Let_def split: option.splits if_splits)
  have "is_i64 (iid (File nm fl'))" using f(4) keep by simp
  note m = apply_append_metas[OF E this op1(5)]
  have upd: "m_inodes (store_metas E st) = (m_inodes (meta E ?s0))(i \<mapsto> File (last p) fl')"
      "m_edges (store_metas E st) = m_edges (meta E ?s0)"
    unfolding m using f(6) keep(1) by simp_all
  have "dir_ok E s'" using file_stored_ok[OF s0(1) f(1,2) keep upd, of jw "Suc (fd_tick s)"] by (simp add: dir_ok_def op1(6))
  then show ?thesis using f(1,2,6) op1(3,4) upd(1) by (auto simp: op1(6))
qed

lemma overwrite_file_ok:
  assumes E: "env_ok E" and s: "dir_ok E s" and inp: "at_path (paths s) (m_inodes (meta E s)) inp p"
    and op: "overwrite_file E opts inp s = (Inr (res, inp'), s')"
  shows "\<exists>i n f t. paths s p = Some (NEntry i) \<and> m_inodes (meta E s) i = Some (File n f) \<and>
    dir_ok E s' \<and> paths s' = paths s \<and>
    m_inodes (meta E s') = (m_inodes (meta E s))(i \<mapsto> File (last p) (overwrite_meta opts t f)) \<and>
    dr_inodes res = 0 \<and> dr_blocks res = overwritten_blocks E (st_db (fd_store s)) (f_blocks f) []"
proof -
  let ?s0 = "s\<lparr>fd_tick := Suc (fd_tick s)\<rparr>" and ?t = "fd_clock s (fd_tick s)"
  have s0: "dir_inv E ?s0 (fd_inode_id s)" "at_path (paths ?s0) (m_inodes (meta E ?s0)) inp p"
    using s inp by (simp_all add: dir_ok_def dir_inv_def)
  obtain ptr v fl a ptr' s1 v' st jw where op1: "get_last_inode inp = Some ptr" "deref (fd_root ?s0) ptr = Some v"
      "is_file v" "as_file v = Inr fl"
      "on_ptr ptr (file_op (\<lambda>f. (Inr (), overwrite_meta opts ?t f))) ?s0 = (Inr (a, ptr'), s1)"
      "deref (fd_root s1) ptr' = Some v'" "apply_overwrite_file E v' (fd_store s1) = (Inr (), st)"
      "s' = s1\<lparr>fd_store := st, fd_journal := jw\<rparr>"
      "res = \<lparr>dr_inodes = 0, dr_blocks = overwritten_blocks E (st_db (fd_store ?s0)) (f_blocks fl) []\<rparr>"
    using op unfolding overwrite_file_def
    by (cases "get_last_inode inp") (auto simp: bind_op_Inr_iff now_ms_Inr read_ptr_Inr on_store_Inr on_journal_Inr
        Let_def split: if_splits)
  obtain i n f f' where f: "paths ?s0 p = Some (NEntry i)" "m_inodes (meta E ?s0) i = Some (File n f)" "f_id f = i"
      "is_i64 i" "((Inr (), overwrite_meta opts ?t f) :: unit res \<times> inode_file) = (Inr a, f')" "ptr' = Owned (File (last p) f')" "s1 = ?s0"
    using s0 op1(1,5) by (rule file_ptr_op)
  have nd: "\<not> is_dir v" using op1(3) by (simp add: is_file_def)
  obtain j m g where g: "paths ?s0 p = Some (NEntry j)" "m_inodes (meta E ?s0) j = Some (File m g)" "f_id g = j"
      "is_i64 j" "ptr = Owned (File (last p) g)" "v = File (last p) g"
    using s0 op1(1,2) nd by (rule file_ptr_read)
  have fl: "fl = f" using g f op1(4) by simp
  have keep: "f_id (overwrite_meta opts ?t f) = i" "f_nlink (overwrite_meta opts ?t f) = f_nlink f"
    using f(3) by (auto simp: overwrite_meta_def Let_def)
  have v': "v' = File (last p) (overwrite_meta opts ?t f)" using op1(6) f(5,6) by (simp add: deref_def)
  have "is_i64 (iid v')" using f(4) keep v' by simp
  note m = apply_overwrite_metas[OF E this op1(7)]
  have upd: "m_inodes (store_metas E st) = (m_inodes (meta E ?s0))(i \<mapsto> File (last p) (overwrite_meta opts ?t f))"
      "m_edges (store_metas E st) = m_edges (meta E ?s0)"
    unfolding m using keep(1) by (simp_all add: v' f(7))
  have "dir_ok E s'" using file_stored_ok[OF s0(1) f(1,2) keep upd, of jw "Suc (fd_tick s)"] by (simp add: dir_ok_def op1(8) f(7))
  then show ?thesis using f(1,2,7) upd(1) op1(9) fl by (auto simp: op1(8))
qed

subsection \<open>Hard links\<close>

lemma increment_nlink_metas:
  assumes "env_ok E" "is_i64 i" "increment_inode_nlink E i st = (Inr (), st')"
    "m_inodes (store_metas E st) i = Some (File n f)" "f_id f = i"
  shows "store_metas E st' = put_inode (File n (increment_nlink f)) (store_metas E st)"
proof -
  have keep: "f_id (increment_nlink fl) = f_id fl" for fl by (simp add: increment_nlink_def)
  have key: "iid v = i" if "m_inodes (store_metas E st) i = Some v" for v using that assms(4,5) by auto
  obtain n' f' where "m_inodes (store_metas E st) i = Some (File n' f')"
      "store_metas E st' = put_inode (File n' (increment_nlink f')) (store_metas E st)"
    using assms(1,2) assms(3)[unfolded increment_inode_nlink_def] keep key by (rule change_nlink_metas)
  then show ?thesis using assms(4) by simp
qed

lemma unprotected_link_Inr:
  assumes "unprotected_link E inp i t s = (Inr inp', s')"
  obtains inp1 s1 parent a s2 added b s3 v pv st where "get_last_inode inp = None"
    "create_parent_dir E (mkdir_with_create True) inp s = (Inr inp1, s1)" "get_inode inp1 (-2) = Some parent"
    "on_ptr parent (pure_op (update_mtime t)) s1 = (Inr a, s2)"
    "on_ptr parent (add_child (FileEntry (ip_name inp1) i)) s2 = (Inr (added, b), s3)"
    "deref (fd_root s3) (rebase parent added) = Some v" "deref (fd_root s3) parent = Some pv"
    "apply_link E pv v i (fd_store s3) = (Inr (), st)" "s' = s3\<lparr>fd_store := st\<rparr>"
  using assms unfolding unprotected_link_def
  by (auto simp: bind_op_Inr_iff read_ptr_Inr on_store_Inr split: if_splits option.splits)

text \<open>The maps after the new name was added.\<close>

lemma fs_inv_linked:
  assumes inv: "fs_inv L I Ed c" and p: "L q = Some (NDir d)" "L (q @ [k]) = None"
    and i: "L u = Some (NEntry i)" "I i = Some (File n f)" "Suc (unat (f_nlink f)) < 2 ^ 32"
    and nm: "q = [] \<or> m = last q"
  shows "fs_inv (L(q \<mapsto> NDir (touch t d), q @ [k] \<mapsto> NEntry i))
    (I(i \<mapsto> File n (increment_nlink f), d_id d \<mapsto> Dir m (touch t d) new_map))
    (Ed(d_id d := (Ed (d_id d))(k \<mapsto> i))) c"
proof -
  have t: "fs_inv (L(q \<mapsto> NDir (touch t d))) (I(d_id d \<mapsto> Dir m (touch t d) new_map)) Ed c"
    by (rule fs_inv_touch[OF inv p(1) touch_id]) (use nm in blast)
  have "i \<noteq> d_id d" using inv i(1) p(1) by (rule entry_not_dir)
  moreover have "u \<noteq> q" using i(1) p(1) by auto
  ultimately show ?thesis
    using fs_inv_link[OF t, of q "touch t d" k u i n f] p(2) i by (simp add: fun_upd_twist)
qed

lemma unprotected_link_ok:
  assumes E: "env_ok E" and s: "dir_ok E s" and inp: "at_path (paths s) (m_inodes (meta E s)) inp p"
    and u: "paths s u = Some (NEntry i)" "m_inodes (meta E s) i = Some (File n f)" "Suc (unat (f_nlink f)) < 2 ^ 32"
    and op: "unprotected_link E inp i t s = (Inr inp', s')"
  shows "paths s p = None \<and> dir_ok E s' \<and> paths s' p = Some (NEntry i) \<and>
    m_inodes (meta E s') i = Some (File n (increment_nlink f)) \<and>
    (\<forall>q x. paths s q = Some x \<longrightarrow> (\<exists>y. paths s' q = Some y \<and> same_node x y)) \<and>
    (\<forall>q y. paths s q = None \<longrightarrow> paths s' q = Some y \<longrightarrow> prefix q p \<and> (q \<noteq> p \<longrightarrow> fd_inode_id s < node_id y))"
proof -
  obtain inp1 s1 parent a s2 added b s3 v pv st where st: "get_last_inode inp = None"
    "create_parent_dir E (mkdir_with_create True) inp s = (Inr inp1, s1)" "get_inode inp1 (-2) = Some parent"
    "on_ptr parent (pure_op (update_mtime t)) s1 = (Inr a, s2)"
    "on_ptr parent (add_child (FileEntry (ip_name inp1) i)) s2 = (Inr (added, b), s3)"
    "deref (fd_root s3) (rebase parent added) = Some v" "deref (fd_root s3) parent = Some pv"
    "apply_link E pv v i (fd_store s3) = (Inr (), st)" "s' = s3\<lparr>fd_store := st\<rparr>"
    using op by (rule unprotected_link_Inr)
  note shape = fs_invD(1)[OF dir_invD(3)[OF s[unfolded dir_ok_def]]]
  have nf: "\<not> is_full inp" using st(1) at_path_last[OF inp] by (simp split: if_splits)
  note par = create_parent_dir_ok[OF E s inp st(2)]
  note s1 = par(1)[unfolded dir_ok_def] and inv = dir_invD[OF par(1)[unfolded dir_ok_def]]
  note d1 = at_pathD[OF par(2)]
  have len: "length (ip_inodes inp1) = length p" using par(3) at_pathD(5,8)[OF inp] nf by simp
  then have nf1: "\<not> is_full inp1" using d1(8) by simp
  have p: "p \<noteq> []" "parent = ip_inodes inp1 ! (length p - 1)"
    using st(3) at_path_parent[OF par(2)] by (auto split: if_splits)
  define q k where "q = butlast p" and "k = ip_name inp1"
  have pq: "p = q @ [k]" using p(1) d1(4) by (simp add: q_def k_def)
  obtain y where y: "paths s1 q = Some y" "node_ptr (m_inodes (meta E s1)) q y parent"
    using d1(6)[of "length p - 1"] p len by (cases p) (auto simp: butlast_conv_take q_def)
  obtain d where d: "y = NDir d" "parent = Ref q" using st(5) y(2) by (rule add_child_dir)
  have none: "paths s1 (q @ [k]) = None" "paths s p = None"
    using at_path_exists[OF fs_invD(1)[OF inv(3)] par(2)] at_path_exists[OF shape inp] nf nf1 pq by simp_all
  have leaf: "tree_ok (entry_of (d_id d) (FileEntry k i))" "entry_of (d_id d) (FileEntry k i) = FileEntry k i"
    by (simp_all add: entry_of_def is_file_def tree_ok_leaf)
  obtain r pv' m where r: "s3 = s1\<lparr>fd_root := r\<rparr>" "tree_ok r"
      "\<forall>w. lookup r w = (if prefix (q @ [iname (FileEntry k i)]) w
         then lookup (entry_of (d_id d) (FileEntry k i)) (drop (Suc (length q)) w) else ((paths s1)(q \<mapsto> NDir (touch t d))) w)"
      "tree_get r q = Some pv'" "iid pv' = d_id d" "strip pv' = Dir m (touch t d) new_map" "q = [] \<or> m = last q"
      "deref r (rebase (Ref q) added) = Some (set_parent_id (d_id d) (FileEntry k i))"
    using inv(1) y(1)[unfolded d(1)] leaf(1) st(4,5)[unfolded d(2) k_def[symmetric]] by (rule add_in_memory)
  have L: "lookup r = (paths s1)(q \<mapsto> NDir (touch t d), q @ [k] \<mapsto> NEntry i)"
    using shape_below_None[OF fs_invD(1)[OF inv(3)] none(1)] r(3) leaf(2)
    by (auto simp: fun_eq_iff prefix_def lookup_leaf)
  have pv: "pv = pv'" "iname v = k" using st(6,7) r(1,4,8) d(2) by (simp_all add: deref_def)
  have u1: "paths s1 u = Some (NEntry i)" "m_inodes (meta E s1) i = Some (File n f)"
    using par(4,7) u(1,2) unfolding grown_def files_kept_def same_node_def by fastforce+
  have ids: "is_i64 (iid pv)" "is_i64 i" "f_id f = i"
    using dir_inv_i64[OF s1 y(1)] dir_inv_i64[OF s1 u1(1)] entry_facts(4)[OF inv(3) u1] d(1) pv(1) r(5) by simp_all
  obtain st1 where m: "increment_inode_nlink E i (fd_store s3) = (Inr (), st1)"
      "store_metas E st = put_edge (iid pv) (iname v) i (put_inode pv (store_metas E st1))"
    using E ids(1,2) st(8) by (rule apply_link_metas)
  have "m_inodes (store_metas E (fd_store s3)) i = Some (File n f)" using u1(2) r(1) by simp
  note inc = increment_nlink_metas[OF E ids(2) m(1) this ids(3)]
  have I: "m_inodes (store_metas E st) = (m_inodes (meta E s1))(i \<mapsto> File n (increment_nlink f), d_id d \<mapsto> Dir m (touch t d) new_map)"
      "m_edges (store_metas E st) = (m_edges (meta E s1))(d_id d := (m_edges (meta E s1) (d_id d))(k \<mapsto> i))"
    using r(1,5,6) pv ids(3) by (simp_all add: m(2) inc increment_nlink_def)
  have "fs_inv (lookup r) (m_inodes (store_metas E st)) (m_edges (store_metas E st)) (fd_inode_id s1)"
    unfolding L I by (rule fs_inv_linked[OF inv(3) y(1)[unfolded d(1)] none(1) u1 u(3) r(7)])
  then have "dir_ok E s'" using r(1,2) inv(2) st(9) by (simp add: dir_ok_def dir_inv_def)
  moreover have "m_inodes (meta E s') i = Some (File n (increment_nlink f))"
    using entry_not_dir[OF inv(3) u1(1) y(1)[unfolded d(1)]] I(1) st(9) by simp
  moreover have "\<exists>y. paths s' w = Some y \<and> same_node x y" if w: "paths s w = Some x" for w x
  proof -
    obtain z where "paths s1 w = Some z" "same_node x z" using par(4) w unfolding grown_def by blast
    moreover have "w \<noteq> q @ [k]" using none(2) w pq by auto
    ultimately show ?thesis using y(1) d(1) same_node_trans[of x "NDir d"] by (auto simp: st(9) r(1) L)
  qed
  moreover have "prefix w p \<and> (w \<noteq> p \<longrightarrow> fd_inode_id s < node_id z)" if w: "paths s w = None" "paths s' w = Some z" for w z
  proof (cases "w = q @ [k]")
    case False
    then obtain z1 where "paths s1 w = Some z1" "node_id z1 = node_id z"
      using w(2) y(1) d(1) by (auto simp: st(9) r(1) L split: if_splits)
    then show ?thesis using par(4) w(1) unfolding grown_def by metis
  qed (simp add: pq)
  ultimately show ?thesis using none(2) pq by (simp add: st(9) r(1) L)
qed

lemma link_ok:
  assumes E: "env_ok E" and s: "dir_ok E s" and src: "at_path (paths s) (m_inodes (meta E s)) src_inp p"
    and dst: "at_path (paths s) (m_inodes (meta E s)) dst_inp p2"
    and op: "link E src_inp dst_inp s = (Inr (), s')"
  obtains i n f where "paths s p = Some (NEntry i)" "m_inodes (meta E s) i = Some (File n f)" "f_file_type f = FtFile"
    "Suc (unat (f_nlink f)) < 2 ^ 32 \<longrightarrow> paths s p2 = None \<and> dir_ok E s' \<and> paths s' p2 = Some (NEntry i) \<and>
      m_inodes (meta E s') i = Some (File n (increment_nlink f)) \<and>
      (\<forall>q x. paths s q = Some x \<longrightarrow> (\<exists>y. paths s' q = Some y \<and> same_node x y)) \<and>
      (\<forall>q y. paths s q = None \<longrightarrow> paths s' q = Some y \<longrightarrow> prefix q p2 \<and> (q \<noteq> p2 \<longrightarrow> fd_inode_id s < node_id y))"
proof -
  let ?s0 = "s\<lparr>fd_tick := Suc (fd_tick s)\<rparr>" and ?t = "fd_clock s (fd_tick s)"
  have s0: "dir_ok E ?s0" "dir_inv E ?s0 (fd_inode_id s)" "at_path (paths ?s0) (m_inodes (meta E ?s0)) src_inp p"
      "at_path (paths ?s0) (m_inodes (meta E ?s0)) dst_inp p2"
    using s src dst by (simp_all add: dir_ok_def dir_inv_def)
  obtain ptr v j s2 inp' s1 jw where pv: "get_last_inode src_inp = Some ptr" "deref (fd_root ?s0) ptr = Some v"
      "(case v of
         File n f \<Rightarrow> if f_file_type f \<noteq> FtFile then (\<lambda>s. (Inl (Common ''Cannot create link to non-regular file''), s))
           else bind_op (on_ptr ptr (pure_op (\<lambda>_. File n (increment_nlink f)))) (\<lambda>_ s. (Inr (f_id f), s))
       | FileEntry _ i \<Rightarrow> (\<lambda>s. (Inr i, s))
       | Dir _ _ _ \<Rightarrow> (\<lambda>s. (Inl (Common ''Cannot create link to directory''), s))) ?s0 = (Inr j, s2)"
      "unprotected_link E dst_inp j ?t s2 = (Inr inp', s1)" "s' = s1\<lparr>fd_journal := jw\<rparr>"
    using op unfolding link_def
    by (cases "get_last_inode src_inp") (auto simp only: bind_op_Inr_iff now_ms_Inr read_ptr_Inr on_journal_Inr option.case)
  have nd: "\<not> is_dir v" using pv(3) by (cases v) auto
  obtain i n f where f: "paths ?s0 p = Some (NEntry i)" "m_inodes (meta E ?s0) i = Some (File n f)" "f_id f = i"
      "is_i64 i" "ptr = Owned (File (last p) f)" "v = File (last p) f"
    using s0(2,3) pv(1,2) nd by (rule file_ptr_read)
  have ft: "f_file_type f = FtFile" "j = i" "s2 = ?s0"
    using pv(3) f(3,5,6) by (auto simp: bind_op_Inr_iff on_ptr_Owned_Inr pure_op_def split: if_splits)
  show thesis
    using that[of i n f] f(1,2) ft(1) unprotected_link_ok[OF E s0(1,4) f(1,2) _ pv(4)[unfolded ft(2,3)]]
    by (simp add: pv(5) dir_ok_def dir_inv_def)
qed

subsection \<open>Symbolic links\<close>

lemma unprotected_symlink_new_Inr:
  assumes "unprotected_symlink E inp f force s = (Inr inp', s')" "get_last_inode inp = None"
  obtains parent a s1 added b s2 pv cv st where "get_inode inp (-2) = Some parent"
    "on_ptr parent (pure_op (update_mtime (f_mtime f))) s = (Inr a, s1)"
    "on_ptr parent (add_child (File (ip_name inp) f)) s1 = (Inr (added, b), s2)"
    "deref (fd_root s2) parent = Some pv" "deref (fd_root s2) (rebase parent added) = Some cv"
    "apply_symlink E pv cv (fd_store s2) = (Inr (), st)" "s' = s2\<lparr>fd_store := st\<rparr>"
  using assms unfolding unprotected_symlink_def
  by (auto simp: bind_op_Inr_iff read_ptr_Inr on_store_Inr split: option.splits prod.splits)

lemma unprotected_symlink_ok:
  assumes E: "env_ok E" and s: "dir_inv E s c" and inp: "at_path (paths s) (m_inodes (meta E s)) inp p"
    and none: "paths s p = None" and f: "f_nlink f = 1" "c < f_id f" "f_id f < 2 ^ 63 - 1"
    and op: "unprotected_symlink E inp f force s = (Inr inp', s')"
  shows "\<exists>q k d. p = q @ [k] \<and> paths s q = Some (NDir d) \<and>
    paths s' = (paths s)(q \<mapsto> NDir (touch (f_mtime f) d), p \<mapsto> NEntry (f_id f)) \<and> dir_inv E s' (f_id f) \<and>
    fd_inode_id s' = fd_inode_id s \<and> files_kept (paths s) (m_inodes (meta E s)) (m_inodes (meta E s')) \<and>
    m_inodes (meta E s') (f_id f) = Some (File k (f\<lparr>f_parent_id := d_id d\<rparr>))"
proof -
  note inv = dir_invD[OF s] and d0 = at_pathD[OF inp]
  have nf: "\<not> is_full inp" using at_path_exists[OF fs_invD(1)[OF inv(3)] inp] none by simp
  then have last: "get_last_inode inp = None" using at_path_last[OF inp] by simp
  obtain parent a s1 added b s2 pv cv st where st: "get_inode inp (-2) = Some parent"
    "on_ptr parent (pure_op (update_mtime (f_mtime f))) s = (Inr a, s1)"
    "on_ptr parent (add_child (File (ip_name inp) f)) s1 = (Inr (added, b), s2)"
    "deref (fd_root s2) parent = Some pv" "deref (fd_root s2) (rebase parent added) = Some cv"
    "apply_symlink E pv cv (fd_store s2) = (Inr (), st)" "s' = s2\<lparr>fd_store := st\<rparr>"
    using op last by (rule unprotected_symlink_new_Inr)
  have p: "p \<noteq> []" "length p \<le> length (ip_inodes inp)" "parent = ip_inodes inp ! (length p - 1)"
    using st(1) at_path_parent[OF inp] by (auto split: if_splits)
  define q k where "q = butlast p" and "k = ip_name inp"
  have pq: "p = q @ [k]" using p(1) d0(4) by (simp add: q_def k_def)
  obtain y where y: "paths s q = Some y" "node_ptr (m_inodes (meta E s)) q y parent"
    using d0(6)[of "length p - 1"] p by (cases p) (auto simp: butlast_conv_take q_def)
  obtain d where d: "y = NDir d" "parent = Ref q" using st(3) y(2) by (rule add_child_dir)
  note qd = y(1)[unfolded d(1)]
  let ?c = "File k f"
  have ch: "fresh_child ?c" "c < iid ?c" "iid ?c < 2 ^ 63 - 1" using f by (simp_all add: fresh_child_def)
  obtain r pv' m where r: "s2 = s\<lparr>fd_root := r\<rparr>" "tree_ok r" "paths s (q @ [iname ?c]) = None"
      "\<forall>w. lookup r w = (if prefix (q @ [iname ?c]) w then lookup (entry_of (d_id d) ?c) (drop (Suc (length q)) w)
         else ((paths s)(q \<mapsto> NDir (touch (f_mtime f) d))) w)"
      "tree_get r q = Some pv'" "iid pv' = d_id d" "strip pv' = Dir m (touch (f_mtime f) d) new_map" "q = [] \<or> m = last q"
      "deref r (rebase (Ref q) added) = Some (set_parent_id (d_id d) ?c)"
    using inv(1) qd fresh_child_entry(1)[OF ch(1)] st(2,3)[unfolded d(2) k_def[symmetric]] by (rule add_in_memory)
  have views: "pv = pv'" "cv = set_parent_id (d_id d) ?c" using st(4,5) r(1,5,9) d(2) by (simp_all add: deref_def)
  have ids: "is_i64 (iid pv)" "is_i64 (iid cv)"
    using dir_inv_i64[OF s qd] f(2,3) ids_ok_counter[OF fs_invD(2)[OF inv(3)]] r(6) views
    by (simp_all add: is_i64_def)
  have ne: "iid pv' \<noteq> iid cv" using ids_bound(1)[OF fs_invD(2)[OF inv(3)] qd] f(2) r(6) views(2) by simp
  have "meta E s' = put_edge (iid pv) (iname cv) (iid cv) (put_inode cv (put_inode pv (meta E s)))"
    using apply_symlink_metas[OF E ids st(6)] st(7) r(1) by simp
  then have I: "m_inodes (meta E s') = (m_inodes (meta E s))(iid cv \<mapsto> strip cv, iid pv' \<mapsto> strip pv')"
      "m_edges (meta E s') = (m_edges (meta E s))(iid pv' := (m_edges (meta E s) (iid pv'))(iname cv \<mapsto> iid cv))"
    unfolding views(1) by (simp_all add: fun_upd_twist[OF ne])
  have r': "tree_ok (fd_root s')" "\<forall>w. paths s' w = (if prefix (q @ [iname ?c]) w
         then lookup (entry_of (d_id d) ?c) (drop (Suc (length q)) w) else ((paths s)(q \<mapsto> NDir (touch (f_mtime f) d))) w)"
    using r(1,2,4) st(7) by simp_all
  note ok = added_ok[OF s qd r(3) ch r' r(6-8) views(2) I]
  have "files_kept (paths s) (m_inodes (meta E s)) (m_inodes (meta E s'))"
    using files_kept_add[OF inv(3) qd f(2)] by (simp add: I(1) views(2) r(6))
  moreover have "m_inodes (meta E s') (f_id f) = Some (File k (f\<lparr>f_parent_id := d_id d\<rparr>))"
    using ne by (simp add: I(1) views(2))
  ultimately show ?thesis
    using ok(1,2) qd st(7) r(1) by (intro exI[of _ q] exI[of _ k] exI[of _ d]) (simp add: pq entry_of_def is_file_def)
qed

lemma symlink_ok:
  assumes E: "env_ok E" and s: "dir_ok E s" and inp: "at_path (paths s) (m_inodes (meta E s)) inp p"
    and none: "paths s p = None" and op: "symlink E target inp force mode s = (Inr (), s')"
  shows "dir_ok E s' \<and> grown p (fd_inode_id s) (paths s) (paths s') \<and>
    files_kept (paths s) (m_inodes (meta E s)) (m_inodes (meta E s')) \<and>
    (\<exists>i t n pid. paths s' p = Some (NEntry i) \<and> fd_inode_id s < i \<and>
       m_inodes (meta E s') i = Some (File n ((file_with_link i t target mode)\<lparr>f_parent_id := pid\<rparr>)))"
proof -
  let ?s0 = "s\<lparr>fd_tick := Suc (fd_tick s)\<rparr>" and ?t = "fd_clock s (fd_tick s)"
  obtain i s1 inp' s2 jw where st: "next_inode_id ?s0 = (Inr i, s1)"
      "unprotected_symlink E inp (file_with_link i ?t target mode) force s1 = (Inr inp', s2)" "s' = s2\<lparr>fd_journal := jw\<rparr>"
    using op by (auto simp: symlink_def bind_op_Inr_iff now_ms_Inr on_journal_Inr Let_def)
  let ?f = "file_with_link i ?t target mode"
  note inv = dir_invD[OF s[unfolded dir_ok_def]]
  have "ROOT_INODE_ID \<le> fd_inode_id s" using ids_ok_counter[OF fs_invD(2)[OF inv(3)]] by simp
  then have lo: "- (2 ^ 63) \<le> fd_inode_id ?s0" "fd_inode_id ?s0 < 2 ^ 63 - 1"
    using inv(2) by (simp_all add: ROOT_INODE_ID_def)
  note nx = next_inode_id_Inr[OF st(1) lo]
  have s1: "dir_inv E s1 (fd_inode_id s)" "at_path (paths s1) (m_inodes (meta E s1)) inp p" "paths s1 p = None"
      "meta E s1 = meta E s" "paths s1 = paths s"
    using s inp none nx(2) by (simp_all add: dir_ok_def dir_inv_def)
  have f: "f_nlink ?f = 1" "f_id ?f = i" by (simp_all add: file_with_link_def Let_def)
  have i: "fd_inode_id s < f_id ?f" "f_id ?f < 2 ^ 63 - 1" using nx(1,3) f(2) by (simp_all add: ID_MASK_val)
  obtain q k d where q: "p = q @ [k]" "paths s q = Some (NDir d)"
      "paths s2 = (paths s)(q \<mapsto> NDir (touch (f_mtime ?f) d), p \<mapsto> NEntry i)" "dir_inv E s2 i"
      "fd_inode_id s2 = fd_inode_id s1" "files_kept (paths s) (m_inodes (meta E s)) (m_inodes (meta E s2))"
      "m_inodes (meta E s2) i = Some (File k (?f\<lparr>f_parent_id := d_id d\<rparr>))"
    using unprotected_symlink_ok[OF E s1(1-3) f(1) i st(2)] unfolding s1(4,5) f(2) by blast
  have "dir_ok E s'" using q(4,5) nx(2) st(3) by (simp add: dir_ok_def dir_inv_def)
  moreover have "grown p (fd_inode_id s) (paths s) (paths s')"
    using grown_add[of "paths s" q d k p "fd_inode_id s" "NEntry i" "f_mtime ?f"] q(2) none q(1,3) i(1) f(2) st(3) by simp
  ultimately show ?thesis using q(3,6,7) st(3) i(1) f(2) by auto
qed

end
