(* ===== verification/Worker_State.thy ===== *)
theory Worker_State
  imports Inode_Store "HOL-Library.AList" "HOL-Library.Multiset"
begin

text \<open>
  What the master knows of its workers: \<^verbatim>\<open>WorkerInfo\<close> (\<^verbatim>\<open>common/src/state/worker_info.rs\<close>), the map of
  live and lost workers (\<^verbatim>\<open>master/fs/state/worker_map.rs\<close>) and the blocks that workers are still to
  delete (\<^verbatim>\<open>master/fs/state/block_map.rs\<close>). An \<^verbatim>\<open>IndexMap\<close> is the list of its entries in insertion
  order; a \<^verbatim>\<open>HashSet\<close> is a list without duplicates.
\<close>

subsection \<open>IndexMap\<close>

text \<open>\<^verbatim>\<open>IndexMap::insert\<close> is \<open>AList.update\<close>: in place for a key that is present, else at the end.
  \<^verbatim>\<open>swap_remove\<close> fills the gap with the last entry.\<close>

fun im_index :: "'k \<Rightarrow> ('k \<times> 'v) list \<Rightarrow> nat option" where
  "im_index k [] = None"
| "im_index k (e # m) = (if fst e = k then Some 0 else map_option Suc (im_index k m))"

definition swap_remove :: "'k \<Rightarrow> ('k \<times> 'v) list \<Rightarrow> 'v option \<times> ('k \<times> 'v) list" where
  "swap_remove k m =
     (case im_index k m of
        None \<Rightarrow> (None, m)
      | Some i \<Rightarrow> (Some (snd (m ! i)), butlast (m[i := last m])))"

definition im_ok :: "('k \<times> 'v) list \<Rightarrow> bool" where
  "im_ok m \<longleftrightarrow> distinct (map fst m)"

lemma im_index_None: "im_index k m = None \<longleftrightarrow> k \<notin> fst ` set m"
  by (induction m) auto

lemma im_index_Some:
  "im_index k m = Some i \<Longrightarrow> \<exists>xs v ys. m = xs @ (k, v) # ys \<and> i = length xs \<and> k \<notin> fst ` set xs"
proof (induction m arbitrary: i)
  case (Cons e m)
  show ?case
  proof (cases "fst e = k")
    case True
    then show ?thesis using Cons.prems by (intro exI[of _ "[]"]) (cases e, auto)
  next
    case False
    then obtain j where j: "im_index k m = Some j" "i = Suc j" using Cons.prems by auto
    with Cons.IH obtain xs v ys where "m = xs @ (k, v) # ys" "j = length xs" "k \<notin> fst ` set xs" by blast
    with j(2) False show ?thesis by (intro exI[of _ "e # xs"] exI[of _ v] exI[of _ ys]) auto
  qed
qed simp

definition last_first :: "'a list \<Rightarrow> 'a list" where
  "last_first ys = (if ys = [] then [] else last ys # butlast ys)"

lemma mset_last_first: "mset (last_first ys) = mset ys"
  by (cases ys rule: rev_cases) (simp_all add: last_first_def)

lemma set_last_first: "set (last_first ys) = set ys"
  using mset_last_first by (rule mset_eq_setD)

lemma swap_remove_split:
  assumes "m = xs @ (k, v) # ys" "k \<notin> fst ` set xs"
  shows "swap_remove k m = (Some v, xs @ last_first ys)"
proof -
  have "im_index k m = Some (length xs)" unfolding assms(1) using assms(2) by (induction xs) auto
  then show ?thesis
    unfolding swap_remove_def assms(1) by (cases ys rule: rev_cases) (auto simp: butlast_append last_first_def)
qed

lemma map_of_eqI_set: "(\<And>j w. f j = Some w \<longleftrightarrow> g j = Some w) \<Longrightarrow> f = g"
  by (metis ext not_None_eq)

lemma swap_remove_all:
  assumes "im_ok m"
  shows "fst (swap_remove k m) = map_of m k \<and> map_of (snd (swap_remove k m)) = (map_of m)(k := None) \<and>
    im_ok (snd (swap_remove k m)) \<and> set (snd (swap_remove k m)) = {e \<in> set m. fst e \<noteq> k}"
proof (cases "im_index k m")
  case None
  then have "k \<notin> fst ` set m" by (simp add: im_index_None)
  then have "map_of m k = None" "{e \<in> set m. fst e \<noteq> k} = set m" by (auto simp: map_of_eq_None_iff)
  then show ?thesis
    using assms by (simp add: swap_remove_def None fun_upd_idem)
next
  case (Some i)
  then obtain xs v ys where m: "m = xs @ (k, v) # ys" "k \<notin> fst ` set xs" by (blast dest: im_index_Some)
  define zs where "zs = last_first ys"
  note sr = swap_remove_split[OF m, folded zs_def]
  have zs: "set zs = set ys" "mset (map fst zs) = mset (map fst ys)"
    unfolding zs_def by (simp_all only: mset_map mset_last_first set_last_first)
  have ok: "distinct (map fst (xs @ ys))" "k \<notin> fst ` set ys"
    using assms unfolding im_ok_def m(1) by auto
  have dz: "im_ok (xs @ zs)"
    using ok(1) zs(1) mset_eq_imp_distinct_iff[OF zs(2)] unfolding im_ok_def by auto
  have "map_of m k = Some v" using assms m(1) unfolding im_ok_def by (intro map_of_is_SomeI) auto
  moreover have sets: "set (xs @ zs) = {e \<in> set m. fst e \<noteq> k}" using m ok(2) zs(1) by force
  moreover have "map_of (xs @ zs) = (map_of m)(k := None)"
  proof (rule map_of_eqI_set)
    fix j w
    have "map_of (xs @ zs) j = Some w \<longleftrightarrow> (j, w) \<in> set (xs @ zs)" using dz unfolding im_ok_def by (rule map_of_eq_Some_iff)
    moreover have "map_of m j = Some w \<longleftrightarrow> (j, w) \<in> set m" using assms unfolding im_ok_def by (rule map_of_eq_Some_iff)
    ultimately show "map_of (xs @ zs) j = Some w \<longleftrightarrow> ((map_of m)(k := None)) j = Some w"
      unfolding sets by simp
  qed
  ultimately show ?thesis
    using dz unfolding sr by simp
qed

lemma swap_remove_spec:
  assumes "im_ok m"
  shows "fst (swap_remove k m) = map_of m k" "map_of (snd (swap_remove k m)) = (map_of m)(k := None)"
    "im_ok (snd (swap_remove k m))" "set (snd (swap_remove k m)) = {e \<in> set m. fst e \<noteq> k}"
  using swap_remove_all[OF assms] by blast+

lemma im_ok_update: "im_ok m \<Longrightarrow> im_ok (AList.update k v m)"
  by (simp add: im_ok_def distinct_update)

subsection \<open>WorkerInfo\<close>

datatype worker_status = Unknown | Live | Blacklist | Decommission | Lost

record storage_info =
  si_dir_id :: u32
  si_storage_id :: string
  si_failed :: bool
  si_capacity :: i64
  si_fs_used :: i64
  si_non_fs_used :: i64
  si_available :: i64
  si_reserved_bytes :: i64
  si_storage_type :: storage_type
  si_block_num :: i64

record worker_info =
  wi_address :: worker_address
  wi_capacity :: i64
  wi_available :: i64
  wi_fs_used :: i64
  wi_non_fs_used :: i64
  wi_reserved_bytes :: i64
  wi_last_update :: int
  wi_block_num :: i64
  wi_storage_map :: "(string \<times> storage_info) list"
  wi_status :: worker_status

definition worker_info_new :: "int \<Rightarrow> worker_address \<Rightarrow> worker_info" where
  "worker_info_new now addr =
     \<lparr>wi_address = addr, wi_capacity = 0, wi_available = 0, wi_fs_used = 0, wi_non_fs_used = 0,
      wi_reserved_bytes = 0, wi_last_update = now, wi_block_num = 0, wi_storage_map = [],
      wi_status = Live\<rparr>"

definition add_storage :: "storage_info \<Rightarrow> worker_info \<Rightarrow> worker_info" where
  "add_storage storage w =
     (let w = (if si_failed storage then w
               else w\<lparr>wi_capacity := i64_of (wi_capacity w + si_capacity storage),
                      wi_available := i64_of (wi_available w + si_available storage),
                      wi_fs_used := i64_of (wi_fs_used w + si_fs_used storage),
                      wi_non_fs_used := i64_of (wi_non_fs_used w + si_non_fs_used storage),
                      wi_reserved_bytes := i64_of (wi_reserved_bytes w + si_reserved_bytes storage),
                      wi_block_num := i64_of (wi_block_num w + si_block_num storage)\<rparr>)
      in w\<lparr>wi_storage_map := bt_insert (si_storage_id storage) storage (wi_storage_map w)\<rparr>)"

definition wi_worker_id :: "worker_info \<Rightarrow> u32" where
  "wi_worker_id w = wa_worker_id (wi_address w)"

definition is_live :: "worker_info \<Rightarrow> bool" where
  "is_live w \<longleftrightarrow> wi_status w = Live"

definition is_local :: "worker_address \<Rightarrow> string \<Rightarrow> bool" where
  "is_local a hostname \<longleftrightarrow> wa_hostname a = hostname"

subsection \<open>WorkerMap\<close>

type_synonym workers = "(u32 \<times> worker_info) list"

record worker_map =
  wm_workers :: workers
  wm_lost_workers :: workers

definition worker_map_new :: worker_map where
  "worker_map_new = \<lparr>wm_workers = [], wm_lost_workers = []\<rparr>"

definition insert_worker :: "int \<Rightarrow> worker_address \<Rightarrow> storage_info list \<Rightarrow> (worker_map, unit) op" where
  "insert_worker now addr storages wm =
     (if (case map_of (wm_workers wm) (wa_worker_id addr) of
            Some v \<Rightarrow> \<not> worker_eq (wi_address v) addr
          | None \<Rightarrow> False)
      then (Inl (Common ''worker id addr mismatch''), wm)
      else
        let info = worker_info_new now addr;
            worker_id = wi_worker_id info;
            info = foldl (\<lambda>info item. add_storage item info) info storages;
            status = (case map_of (wm_workers wm) worker_id of
                        Some v \<Rightarrow> if wi_status v = Decommission then wi_status v else Live
                      | None \<Rightarrow> Live);
            info = info\<lparr>wi_status := status\<rparr>
        in (Inr (), wm\<lparr>wm_workers := AList.update worker_id info (wm_workers wm),
                       wm_lost_workers := snd (swap_remove worker_id (wm_lost_workers wm))\<rparr>))"

definition remove_expired :: "u32 \<Rightarrow> worker_map \<Rightarrow> worker_info option \<times> worker_map" where
  "remove_expired i wm =
     (case swap_remove i (wm_workers wm) of
        (None, _) \<Rightarrow> (None, wm)
      | (Some worker, ws) \<Rightarrow>
          (Some worker, wm\<lparr>wm_workers := ws, wm_lost_workers := AList.update i worker (wm_lost_workers wm)\<rparr>))"

definition remove_offline :: "u32 \<Rightarrow> worker_map \<Rightarrow> worker_info option \<times> worker_map" where
  "remove_offline = remove_expired"

text \<open>Every worker is under its own id, and in one of the two maps only.\<close>

definition workers_ok :: "workers \<Rightarrow> bool" where
  "workers_ok ws \<longleftrightarrow> im_ok ws \<and> (\<forall>(i, w) \<in> set ws. wi_worker_id w = i)"

definition worker_map_ok :: "worker_map \<Rightarrow> bool" where
  "worker_map_ok wm \<longleftrightarrow> workers_ok (wm_workers wm) \<and> workers_ok (wm_lost_workers wm) \<and>
     fst ` set (wm_workers wm) \<inter> fst ` set (wm_lost_workers wm) = {}"

lemma set_update: "im_ok m \<Longrightarrow> set (AList.update k v m) = insert (k, v) {e \<in> set m. fst e \<noteq> k}"
proof (induction m)
  case (Cons e m)
  then show ?case by (cases e) (auto simp: im_ok_def)
qed simp

lemma workers_ok_update:
  "workers_ok ws \<Longrightarrow> wi_worker_id w = i \<Longrightarrow> workers_ok (AList.update i w ws)"
  by (auto simp: workers_ok_def im_ok_update set_update)

lemma workers_ok_swap_remove: "workers_ok ws \<Longrightarrow> workers_ok (snd (swap_remove i ws))"
  using swap_remove_spec[of ws i] by (auto simp: workers_ok_def)

lemma add_storages_keep:
  "wi_address (foldl (\<lambda>info item. add_storage item info) w storages) = wi_address w"
  "wi_last_update (foldl (\<lambda>info item. add_storage item info) w storages) = wi_last_update w"
  by (induction storages arbitrary: w) (simp_all add: add_storage_def Let_def)

lemma workers_ok_lookup: "workers_ok ws \<Longrightarrow> map_of ws i = Some w \<Longrightarrow> wi_worker_id w = i"
  by (auto simp: workers_ok_def dest: map_of_SomeD)

text \<open>The check for a second worker under a known id compares only the ids, which are equal.\<close>

lemma insert_worker_Inr:
  assumes "worker_map_ok wm"
  shows "fst (insert_worker now addr storages wm) = Inr ()"
proof -
  have "worker_eq (wi_address v) addr" if "map_of (wm_workers wm) (wa_worker_id addr) = Some v" for v
    using workers_ok_lookup[OF _ that] assms by (simp add: worker_map_ok_def worker_eq_def wi_worker_id_def)
  then show ?thesis by (auto simp: insert_worker_def Let_def split: option.splits)
qed

lemma worker_map_ok_swap:
  assumes "workers_ok ws" "workers_ok vs" "fst ` set ws \<inter> fst ` set vs = {}" "wi_worker_id w = i"
  shows "workers_ok (AList.update i w ws) \<and> workers_ok (snd (swap_remove i vs)) \<and>
    fst ` set (AList.update i w ws) \<inter> fst ` set (snd (swap_remove i vs)) = {}"
proof -
  have "set (snd (swap_remove i vs)) = {e \<in> set vs. fst e \<noteq> i}"
    using swap_remove_spec(4)[of vs i] assms(2) by (simp add: workers_ok_def)
  moreover have "fst ` set (AList.update i w ws) = insert i (fst ` set ws)"
    by (induction ws) auto
  ultimately show ?thesis
    using assms(3) workers_ok_update[OF assms(1,4)] workers_ok_swap_remove[OF assms(2)] by auto
qed

lemma insert_worker_state:
  assumes "worker_map_ok wm"
  shows "\<exists>info. wi_address info = addr \<and> wi_last_update info = now \<and>
    wi_status info = (case map_of (wm_workers wm) (wa_worker_id addr) of
      Some v \<Rightarrow> if wi_status v = Decommission then Decommission else Live | None \<Rightarrow> Live) \<and>
    insert_worker now addr storages wm =
      (Inr (), wm\<lparr>wm_workers := AList.update (wa_worker_id addr) info (wm_workers wm),
        wm_lost_workers := snd (swap_remove (wa_worker_id addr) (wm_lost_workers wm))\<rparr>)"
proof -
  let ?st = "case map_of (wm_workers wm) (wa_worker_id addr) of
      Some v \<Rightarrow> if wi_status v = Decommission then wi_status v else Live | None \<Rightarrow> Live"
  let ?w = "(foldl (\<lambda>info item. add_storage item info) (worker_info_new now addr) storages)\<lparr>wi_status := ?st\<rparr>"
  have "\<not> (case map_of (wm_workers wm) (wa_worker_id addr) of
      Some v \<Rightarrow> \<not> worker_eq (wi_address v) addr | None \<Rightarrow> False)"
    using insert_worker_Inr[OF assms, of now addr storages] by (auto simp: insert_worker_def Let_def split: if_splits)
  moreover have "wi_worker_id (worker_info_new now addr) = wa_worker_id addr"
    by (simp add: wi_worker_id_def worker_info_new_def)
  ultimately have "insert_worker now addr storages wm =
      (Inr (), wm\<lparr>wm_workers := AList.update (wa_worker_id addr) ?w (wm_workers wm),
        wm_lost_workers := snd (swap_remove (wa_worker_id addr) (wm_lost_workers wm))\<rparr>)"
    unfolding insert_worker_def Let_def by simp
  moreover have "wi_address ?w = addr" "wi_last_update ?w = now" "wi_status ?w = ?st"
    using add_storages_keep[of "worker_info_new now addr" storages] by (simp_all add: worker_info_new_def)
  moreover have "?st = (case map_of (wm_workers wm) (wa_worker_id addr) of
      Some v \<Rightarrow> if wi_status v = Decommission then Decommission else Live | None \<Rightarrow> Live)"
    by (simp split: option.split)
  ultimately show ?thesis by (intro exI[of _ ?w]) simp
qed

lemma worker_map_ok_insert:
  assumes "worker_map_ok wm" shows "worker_map_ok (snd (insert_worker now addr storages wm))"
proof -
  obtain info where info: "wi_address info = addr" "insert_worker now addr storages wm =
      (Inr (), wm\<lparr>wm_workers := AList.update (wa_worker_id addr) info (wm_workers wm),
        wm_lost_workers := snd (swap_remove (wa_worker_id addr) (wm_lost_workers wm))\<rparr>)"
    using insert_worker_state[OF assms] by blast
  have "wi_worker_id info = wa_worker_id addr" using info(1) by (simp add: wi_worker_id_def)
  with worker_map_ok_swap[of "wm_workers wm" "wm_lost_workers wm" info "wa_worker_id addr"] assms
  show ?thesis by (simp add: info(2) worker_map_ok_def)
qed

lemma remove_expired_state:
  assumes "worker_map_ok wm"
  shows "remove_expired i wm = (case map_of (wm_workers wm) i of
      None \<Rightarrow> (None, wm)
    | Some w \<Rightarrow> (Some w, wm\<lparr>wm_workers := snd (swap_remove i (wm_workers wm)),
        wm_lost_workers := AList.update i w (wm_lost_workers wm)\<rparr>))"
proof -
  have "fst (swap_remove i (wm_workers wm)) = map_of (wm_workers wm) i"
    using swap_remove_spec(1)[of "wm_workers wm" i] assms by (simp add: worker_map_ok_def workers_ok_def)
  then show ?thesis
    unfolding remove_expired_def by (cases "swap_remove i (wm_workers wm)") (simp split: option.split)
qed

lemma worker_map_ok_remove:
  assumes "worker_map_ok wm" shows "worker_map_ok (snd (remove_expired i wm))"
proof (cases "map_of (wm_workers wm) i")
  case None
  then show ?thesis using assms by (simp add: remove_expired_state[OF assms])
next
  case (Some w)
  have "wi_worker_id w = i" using assms workers_ok_lookup[OF _ Some] by (simp add: worker_map_ok_def)
  with worker_map_ok_swap[of "wm_lost_workers wm" "wm_workers wm" w i] assms
  show ?thesis by (simp add: remove_expired_state[OF assms] Some worker_map_ok_def Int_commute)
qed

subsection \<open>BlockMap\<close>

type_synonym block_map = "(u32 \<times> i64 list) list"

datatype worker_command = DeleteBlock "i64 list"

definition entry_or_default :: "block_map \<Rightarrow> u32 \<Rightarrow> i64 list" where
  "entry_or_default bm w = (case map_of bm w of Some s \<Rightarrow> s | None \<Rightarrow> [])"

definition remove_block :: "u32 \<Rightarrow> i64 \<Rightarrow> block_map \<Rightarrow> block_map" where
  "remove_block worker_id block_id bm =
     bt_insert worker_id (List.insert block_id (entry_or_default bm worker_id)) bm"

definition remove_blocks :: "delete_result \<Rightarrow> block_map \<Rightarrow> block_map" where
  "remove_blocks del_res bm =
     foldl (\<lambda>bm (block_id, locs). foldl (\<lambda>bm loc. remove_block (bl_worker_id loc) block_id bm) bm locs)
       bm (dr_blocks del_res)"

definition handle_heartbeat :: "u32 \<Rightarrow> block_map \<Rightarrow> worker_command list" where
  "handle_heartbeat worker_id bm =
     (case map_of bm worker_id of None \<Rightarrow> [] | Some s \<Rightarrow> [DeleteBlock s])"

definition deleted_block :: "u32 \<Rightarrow> i64 \<Rightarrow> block_map \<Rightarrow> block_map" where
  "deleted_block worker_id block_id bm =
     bt_insert worker_id (removeAll block_id (entry_or_default bm worker_id)) bm"

text \<open>The specification: the set of pairs of a worker and a block it is still to delete.\<close>

definition pending :: "block_map \<Rightarrow> (u32 \<times> i64) set" where
  "pending bm = {(w, b). b \<in> set (entry_or_default bm w)}"

definition commanded :: "u32 \<Rightarrow> worker_command list \<Rightarrow> (u32 \<times> i64) set" where
  "commanded w cmds = {(w, b) | b. \<exists>bs. DeleteBlock bs \<in> set cmds \<and> b \<in> set bs}"

lemma pending_remove_block: "pending (remove_block w b bm) = insert (w, b) (pending bm)"
  by (auto simp: pending_def remove_block_def entry_or_default_def split: if_splits)

lemma pending_remove_locs:
  "pending (foldl (\<lambda>bm loc. remove_block (bl_worker_id loc) b bm) bm locs) =
   pending bm \<union> {(bl_worker_id loc, b) | loc. loc \<in> set locs}"
  by (induction locs arbitrary: bm) (auto simp: pending_remove_block)

lemma pending_remove_blocks:
  "pending (remove_blocks res bm) =
   pending bm \<union> {(bl_worker_id loc, b) | loc b locs. (b, locs) \<in> set (dr_blocks res) \<and> loc \<in> set locs}"
proof -
  have "pending (foldl (\<lambda>bm (b, locs). foldl (\<lambda>bm loc. remove_block (bl_worker_id loc) b bm) bm locs) bm bs) =
      pending bm \<union> {(bl_worker_id loc, b) | loc b locs. (b, locs) \<in> set bs \<and> loc \<in> set locs}" for bs
  proof (induction bs arbitrary: bm)
    case (Cons x bs)
    then show ?case by (cases x) (auto simp: pending_remove_locs)
  qed simp
  then show ?thesis by (simp add: remove_blocks_def)
qed

lemma pending_deleted_block: "pending (deleted_block w b bm) = pending bm - {(w, b)}"
  by (auto simp: pending_def deleted_block_def entry_or_default_def split: if_splits)

lemma commanded_heartbeat: "commanded w (handle_heartbeat w bm) = {p \<in> pending bm. fst p = w}"
  by (auto simp: commanded_def handle_heartbeat_def pending_def entry_or_default_def split: option.splits)

end
