(* ===== verification/Worker_Policy.thy ===== *)
theory Worker_Policy
  imports Worker_State "HOL-Library.Log_Nat"
begin

text \<open>
  The policies that select the workers of a new block (\<^verbatim>\<open>master/fs/policy\<close>): round robin, the local
  worker first, at random, and by free space. A policy with a position in the list of workers
  carries it as its state. The random choice is the one of the \<^verbatim>\<open>rand\<close> crate, the parameter
  \<open>pick\<close>. Every policy meets the contract of the locale \<open>worker_policy\<close>.
\<close>

record choose_context =
  cc_replicas :: nat
  cc_block_size :: i64
  cc_storage_policy :: storage_policy
  cc_client_host :: string
  cc_exclude_workers :: "u32 list"

definition with_num :: "nat \<Rightarrow> i64 \<Rightarrow> u32 list \<Rightarrow> choose_context" where
  "with_num num sz exclude =
     \<lparr>cc_replicas = num, cc_block_size = sz, cc_storage_policy = default_storage_policy,
      cc_client_host = [], cc_exclude_workers = exclude\<rparr>"

text \<open>\<^verbatim>\<open>WorkerPolicy::choose_workers\<close>, the default method of the trait; \<^verbatim>\<open>as u16\<close> keeps 16 bits.\<close>

definition choose_workers ::
  "(workers \<Rightarrow> choose_context \<Rightarrow> ('p, worker_address list) op) \<Rightarrow> workers \<Rightarrow> nat option \<Rightarrow> u32 list \<Rightarrow>
   ('p, worker_address list) op" where
  "choose_workers select ws cnt exclude =
     select ws (with_num ((case cnt of Some n \<Rightarrow> n | None \<Rightarrow> 1) mod 2 ^ 16) 0 exclude)"

subsection \<open>Round robin\<close>

definition get_index :: "'a list \<Rightarrow> nat \<Rightarrow> 'a option" where
  "get_index xs i = (if i < length xs then Some (xs ! i) else None)"

definition usable :: "u32 list \<Rightarrow> i64 \<Rightarrow> u32 \<times> worker_info \<Rightarrow> bool" where
  "usable exclude block_size e \<longleftrightarrow>
     fst e \<notin> set exclude \<and> wi_available (snd e) > block_size \<and> is_live (snd e)"

text \<open>The loop; \<open>None\<close> when the fuel does not suffice.\<close>

fun robin_loop ::
  "nat \<Rightarrow> workers \<Rightarrow> nat \<Rightarrow> i64 \<Rightarrow> nat \<Rightarrow> nat \<Rightarrow> u32 list \<Rightarrow> worker_address list \<Rightarrow>
   (nat \<times> worker_address list) res option" where
  "robin_loop 0 ws replicas block_size start index exclude res = None"
| "robin_loop (Suc fuel) ws replicas block_size start index exclude res =
     (if length res < replicas then
        (case get_index ws index of
           None \<Rightarrow> Some (Inl (Common ''Option is none''))
         | Some e \<Rightarrow>
             let (exclude, res) = (if usable exclude block_size e
                                   then (fst e # exclude, res @ [wi_address (snd e)])
                                   else (exclude, res));
                 index = (index + 1) mod length ws
             in if index = start then Some (Inr (index, res))
                else robin_loop fuel ws replicas block_size start index exclude res)
      else Some (Inr (index, res)))"

definition robin_choose :: "workers \<Rightarrow> choose_context \<Rightarrow> (nat, worker_address list) op" where
  "robin_choose ws ctx start =
     (if ws = [] then (Inl (Common ''No workers available''), start)
      else if cc_replicas ctx < 1 then (Inl (Common ''The number of replicas cannot be 0''), start)
      else
        case robin_loop (Suc (length ws)) ws (cc_replicas ctx) (cc_block_size ctx) start start
               (cc_exclude_workers ctx) [] of
          None \<Rightarrow> (Inl (Panic ''the loop does not end''), start)
        | Some (Inl e) \<Rightarrow> (Inl e, start)
        | Some (Inr (index, res)) \<Rightarrow> (Inr res, index))"

subsection \<open>Local worker first\<close>

fun find_local :: "choose_context \<Rightarrow> workers \<Rightarrow> (u32 \<times> worker_info) option" where
  "find_local ctx [] = None"
| "find_local ctx ((i, w) # ws) =
     (if i \<notin> set (cc_exclude_workers ctx) \<and> is_local (wi_address w) (cc_client_host ctx) \<and>
         wi_available w > cc_block_size ctx \<and> is_live w
      then Some (i, w) else find_local ctx ws)"

definition local_choose :: "workers \<Rightarrow> choose_context \<Rightarrow> (nat, worker_address list) op" where
  "local_choose ws ctx s =
     (if ws = [] then (Inl (Common ''No workers available''), s)
      else if cc_replicas ctx < 1 then (Inl (Common ''The number of replicas cannot be 0''), s)
      else
        let (res, ctx') = (case find_local ctx ws of
               None \<Rightarrow> ([], ctx)
             | Some (i, w) \<Rightarrow> ([wi_address w], ctx\<lparr>cc_exclude_workers := i # cc_exclude_workers ctx\<rparr>))
        in if length res < cc_replicas ctx
           then bind_op (robin_choose ws ctx') (\<lambda>remote s.
                  (Inr (res @ take (cc_replicas ctx - length res) remote), s)) s
           else (Inr res, s))"

subsection \<open>Random choice\<close>

definition random_choose ::
  "(nat \<Rightarrow> (u32 \<times> worker_info) list \<Rightarrow> (u32 \<times> worker_info) list) \<Rightarrow>
   workers \<Rightarrow> choose_context \<Rightarrow> ('s, worker_address list) op" where
  "random_choose pick ws ctx s =
     (if ws = [] then (Inl (Common ''No workers available''), s)
      else if cc_replicas ctx < 1 then (Inl (Common ''The number of replicas cannot be 0''), s)
      else
        let available = filter (usable (cc_exclude_workers ctx) (cc_block_size ctx)) ws
        in if available = [] then (Inl (Common ''The cluster does not have enough space''), s)
           else let res = map (wi_address \<circ> snd) (pick (cc_replicas ctx) available)
                in if res = [] then (Inl (Common ''The cluster does not have enough space''), s)
                   else (Inr res, s))"

text \<open>What \<^verbatim>\<open>IteratorRandom::choose_multiple\<close> documents: the requested number of elements, or all
  of them when there are fewer, each taken once.\<close>

definition pick_ok :: "(nat \<Rightarrow> 'a list \<Rightarrow> 'a list) \<Rightarrow> bool" where
  "pick_ok pick \<longleftrightarrow>
     (\<forall>n xs. mset (pick n xs) \<subseteq># mset xs \<and> length (pick n xs) = min n (length xs))"

subsection \<open>By free space\<close>

text \<open>\<^verbatim>\<open>as f64\<close> of a non-negative integer and the division of two such values, both rounded to the
  nearest value of 53 significant bits, ties to even. A score is the mantissa and the binary exponent
  of the quotient; the quotients here are in the normal range.\<close>

definition round_half_even :: "nat \<Rightarrow> nat \<Rightarrow> nat" where
  "round_half_even a b =
     (let q = a div b; r = a mod b
      in if 2 * r < b \<or> 2 * r = b \<and> even q then q else q + 1)"

definition to_f64 :: "nat \<Rightarrow> nat" where
  "to_f64 n = (let k = floorlog 2 n - 53 in round_half_even n (2 ^ k) * 2 ^ k)"

text \<open>The quotient of the rounded values as a multiple of \<open>2 ^ - 200\<close>: the quotient of two numbers below
  \<open>2 ^ 64\<close> is zero or at least \<open>2 ^ - 64\<close>, so a value of 53 significant bits is such a multiple.\<close>

definition f64_div :: "nat \<Rightarrow> nat \<Rightarrow> nat" where
  "f64_div a b =
     (let k = floorlog 2 (a * 2 ^ 200 div b) - 53
      in round_half_even (a * 2 ^ 200) (b * 2 ^ k) * 2 ^ k)"

definition calculate_score :: "worker_info \<Rightarrow> nat" where
  "calculate_score w =
     (if wi_capacity w = 0 then 0
      else f64_div (to_f64 (nat (wi_available w))) (to_f64 (nat (wi_capacity w))))"

definition has_space :: "u32 list option \<Rightarrow> int option \<Rightarrow> u32 \<times> worker_info \<Rightarrow> bool" where
  "has_space exclude min_available e \<longleftrightarrow>
     is_live (snd e) \<and> wi_capacity (snd e) > 0 \<and> wi_available (snd e) \<ge> 0 \<and>
     (case exclude of Some ex \<Rightarrow> fst e \<notin> set ex | None \<Rightarrow> True) \<and>
     (case min_available of
        Some m \<Rightarrow> wi_available (snd e) \<ge> i64_of m
      | None \<Rightarrow> wi_available (snd e) > 0)"

definition select_workers_by_load ::
  "workers \<Rightarrow> nat \<Rightarrow> u32 list option \<Rightarrow> int option \<Rightarrow> worker_address list res" where
  "select_workers_by_load ws cnt exclude min_available =
     (let available = filter (has_space exclude min_available) ws
      in if available = [] then Inl (Common ''No available workers found'')
         else Inr (map (wi_address \<circ> snd)
                (take cnt (sort_key (\<lambda>e. - int (calculate_score (snd e))) available))))"

definition load_choose :: "workers \<Rightarrow> choose_context \<Rightarrow> ('s, worker_address list) op" where
  "load_choose ws ctx s =
     (if ws = [] then (Inl (Common ''No workers available''), s)
      else if cc_replicas ctx < 1 then (Inl (Common ''The number of replicas cannot be 0''), s)
      else (select_workers_by_load ws (cc_replicas ctx) (Some (cc_exclude_workers ctx))
              (Some (u64_of (cc_block_size ctx))), s))"

subsection \<open>The adapter\<close>

datatype policy = Robin nat | Local nat | Random | LoadBased

definition policy_from_conf :: "string \<Rightarrow> policy res" where
  "policy_from_conf name =
     (if name = ''local'' then Inr (Local 0)
      else if name = ''robin'' then Inr (Robin 0)
      else if name = ''random'' then Inr Random
      else if name = ''load_based'' then Inr LoadBased
      else Inl (Common ''Unsupported worker policy''))"

fun adapter_choose ::
  "(nat \<Rightarrow> (u32 \<times> worker_info) list \<Rightarrow> (u32 \<times> worker_info) list) \<Rightarrow>
   workers \<Rightarrow> choose_context \<Rightarrow> (policy, worker_address list) op" where
  "adapter_choose pick ws ctx (Robin i) = (let (r, i') = robin_choose ws ctx i in (r, Robin i'))"
| "adapter_choose pick ws ctx (Local i) = (let (r, i') = local_choose ws ctx i in (r, Local i'))"
| "adapter_choose pick ws ctx Random = random_choose pick ws ctx Random"
| "adapter_choose pick ws ctx LoadBased = load_choose ws ctx LoadBased"

fun adapter_choose_workers ::
  "(nat \<Rightarrow> (u32 \<times> worker_info) list \<Rightarrow> (u32 \<times> worker_info) list) \<Rightarrow>
   workers \<Rightarrow> nat \<Rightarrow> u32 list \<Rightarrow> (policy, worker_address list) op" where
  "adapter_choose_workers pick ws cnt exclude (Robin i) =
     (let (r, i') = choose_workers robin_choose ws (Some cnt) exclude i in (r, Robin i'))"
| "adapter_choose_workers pick ws cnt exclude (Local i) =
     (let (r, i') = choose_workers robin_choose ws (Some cnt) exclude i in (r, Local i'))"
| "adapter_choose_workers pick ws cnt exclude Random =
     choose_workers (random_choose pick) ws (Some cnt) exclude Random"
| "adapter_choose_workers pick ws cnt exclude LoadBased =
     choose_workers load_choose ws (Some cnt) exclude LoadBased"

subsection \<open>The contract\<close>

text \<open>The workers of a choice are registered, live, not excluded and have room for the block; there are
  at most as many as replicas, on different workers.\<close>

definition good_worker :: "workers \<Rightarrow> choose_context \<Rightarrow> worker_address \<Rightarrow> bool" where
  "good_worker ws ctx a \<longleftrightarrow> (\<exists>(i, w) \<in> set ws. wi_address w = a \<and> i \<notin> set (cc_exclude_workers ctx) \<and>
     is_live w \<and> cc_block_size ctx \<le> wi_available w)"

definition chosen_ok :: "workers \<Rightarrow> choose_context \<Rightarrow> worker_address list \<Rightarrow> bool" where
  "chosen_ok ws ctx as \<longleftrightarrow> length as \<le> cc_replicas ctx \<and> distinct (map wa_worker_id as) \<and>
     (\<forall>a \<in> set as. good_worker ws ctx a)"

locale worker_policy =
  fixes select :: "workers \<Rightarrow> choose_context \<Rightarrow> ('p, worker_address list) op"
  assumes chosen: "workers_ok ws \<Longrightarrow> is_i64 (cc_block_size ctx) \<Longrightarrow> select ws ctx p = (Inr as, p') \<Longrightarrow> chosen_ok ws ctx as"
begin

lemma chosen_lookup:
  assumes "workers_ok ws" "is_i64 (cc_block_size ctx)" "select ws ctx p = (Inr as, p')" "a \<in> set as"
  shows "\<exists>w. map_of ws (wa_worker_id a) = Some w \<and> wi_address w = a \<and> is_live w"
proof -
  obtain i w where "(i, w) \<in> set ws" "wi_address w = a" "is_live w"
    using chosen[OF assms(1-3)] assms(4) by (auto simp: chosen_ok_def good_worker_def)
  moreover from this have "wa_worker_id a = i" using assms(1) by (auto simp: workers_ok_def wi_worker_id_def)
  ultimately show ?thesis using assms(1) unfolding workers_ok_def im_ok_def by (auto intro!: exI[of _ w] map_of_is_SomeI)
qed

lemma chosen_without_block:
  assumes "workers_ok ws" "choose_workers select ws (Some n) exclude p = (Inr as, p')"
  shows "length as \<le> n" "distinct (map wa_worker_id as)" "\<forall>a\<in>set as. wa_worker_id a \<notin> set exclude"
proof -
  let ?ctx = "with_num (n mod 2 ^ 16) 0 exclude"
  have run: "select ws ?ctx p = (Inr as, p')" using assms(2) by (simp only: choose_workers_def option.case)
  have ok: "chosen_ok ws ?ctx as" by (rule chosen[OF assms(1) _ run]) (simp add: with_num_def is_i64_def)
  then show "distinct (map wa_worker_id as)" by (simp add: chosen_ok_def)
  have "n mod 2 ^ 16 \<le> n" by simp
  moreover have "length as \<le> n mod 2 ^ 16" using ok by (simp add: chosen_ok_def with_num_def)
  ultimately show "length as \<le> n" by (rule order_trans[rotated])
  show "\<forall>a\<in>set as. wa_worker_id a \<notin> set exclude"
    using ok assms(1) by (fastforce simp: chosen_ok_def good_worker_def with_num_def workers_ok_def wi_worker_id_def)
qed

end

subsection \<open>The policies meet the contract\<close>

text \<open>Taking some of the usable entries, each once, gives a good choice.\<close>

lemma good_choice:
  assumes ws: "workers_ok ws" and sub: "distinct es" "set es \<subseteq> set ws" "length es \<le> cc_replicas ctx"
    and es: "\<forall>(i, w)\<in>set es. i \<notin> set (cc_exclude_workers ctx) \<and> is_live w \<and> cc_block_size ctx \<le> wi_available w"
  shows "chosen_ok ws ctx (map (wi_address \<circ> snd) es)"
proof -
  have id: "wa_worker_id (wi_address w) = i" if "(i, w) \<in> set es" for i w
    using that sub(2) ws by (auto simp: workers_ok_def wi_worker_id_def)
  have "inj_on (\<lambda>e. wa_worker_id (wi_address (snd e))) (set es)"
  proof (rule inj_onI)
    fix e f assume ef: "e \<in> set es" "f \<in> set es" "wa_worker_id (wi_address (snd e)) = wa_worker_id (wi_address (snd f))"
    then have "fst e = fst f" using id[of "fst e" "snd e"] id[of "fst f" "snd f"] by simp
    moreover have "inj_on fst (set ws)" using ws by (simp add: workers_ok_def im_ok_def distinct_map)
    ultimately show "e = f" using ef(1,2) sub(2) by (meson inj_onD subsetD)
  qed
  then have "distinct (map wa_worker_id (map (wi_address \<circ> snd) es))"
    using sub(1) by (simp add: distinct_map comp_def)
  moreover have "good_worker ws ctx a" if "a \<in> set (map (wi_address \<circ> snd) es)" for a
    using that sub(2) es by (fastforce simp: good_worker_def)
  ultimately show ?thesis using sub(3) by (simp add: chosen_ok_def)
qed

lemma workers_ok_distinct: "workers_ok ws \<Longrightarrow> distinct ws"
  by (simp add: workers_ok_def im_ok_def distinct_map)

text \<open>The loop visits every worker once, from the start on.\<close>

lemma robin_loop_eq:
  assumes "workers_ok ws" "start < length ws" "k < length ws" "length ws - k \<le> fuel"
    "set exclude \<inter> fst ` set (drop k (rotate start ws)) = set exclude0 \<inter> fst ` set (drop k (rotate start ws))"
    "length res < replicas"
  shows "\<exists>index. robin_loop (Suc fuel) ws replicas bs start ((start + k) mod length ws) exclude res =
    Some (Inr (index, res @ map (wi_address \<circ> snd)
      (take (replicas - length res) (filter (usable exclude0 bs) (drop k (rotate start ws)))))) \<and> index < length ws"
  using assms(3-6)
proof (induction fuel arbitrary: k exclude res)
  case (Suc fuel)
  let ?n = "length ws" and ?i = "(start + k) mod length ws" and ?r = "rotate start ws"
  have n: "0 < ?n" using assms(2) by (cases ws) simp_all
  define e where "e = ws ! ?i"
  have drop: "drop k ?r = e # drop (Suc k) ?r"
    using Suc.prems(1) by (simp add: Cons_nth_drop_Suc[symmetric] nth_rotate e_def)
  have get: "get_index ws ?i = Some e" using n by (simp add: get_index_def e_def)
  have "distinct (map fst (drop k ?r))"
    using assms(1) by (simp add: workers_ok_def im_ok_def distinct_drop flip: drop_map rotate_map)
  then have fresh: "fst e \<notin> fst ` set (drop (Suc k) ?r)" by (simp add: drop)
  have "fst e \<in> fst ` set (drop k ?r)" by (simp add: drop)
  then have same: "usable exclude bs e = usable exclude0 bs e"
    using Suc.prems(3) unfolding usable_def by blast
  define ex' res' where "ex' = (if usable exclude0 bs e then fst e # exclude else exclude)"
    and "res' = (if usable exclude0 bs e then res @ [wi_address (snd e)] else res)"
  have ex': "set ex' \<inter> fst ` set (drop (Suc k) ?r) = set exclude0 \<inter> fst ` set (drop (Suc k) ?r)"
    using Suc.prems(3) fresh unfolding ex'_def drop by auto
  have nxt: "((start + k) mod ?n + 1) mod ?n = (start + Suc k) mod ?n" by (simp add: mod_Suc_eq)
  have stop: "(start + Suc k) mod ?n = start \<longleftrightarrow> Suc k = ?n"
  proof
    assume "(start + Suc k) mod ?n = start"
    then have "?n dvd Suc k" using assms(2) by (metis add_diff_cancel_left' mod_eq_dvd_iff_nat mod_less le_add1)
    then show "Suc k = ?n" using Suc.prems(1) by (meson Suc_leI dvd_imp_le le_antisym zero_less_Suc)
  qed (use assms(2) in simp)
  have step: "robin_loop (Suc (Suc fuel)) ws replicas bs start ?i exclude res =
    (if (start + Suc k) mod ?n = start then Some (Inr ((start + Suc k) mod ?n, res'))
     else robin_loop (Suc fuel) ws replicas bs start ((start + Suc k) mod ?n) ex' res')"
    using Suc.prems(4) unfolding robin_loop.simps(2)[of "Suc fuel"] get option.case same res'_def ex'_def nxt Let_def
    by (simp del: robin_loop.simps add: mod_Suc_eq)
  have out: "res @ map (wi_address \<circ> snd) (take (replicas - length res) (filter (usable exclude0 bs) (drop k ?r))) =
    res' @ map (wi_address \<circ> snd) (take (replicas - length res') (filter (usable exclude0 bs) (drop (Suc k) ?r)))"
    using Suc.prems(4) unfolding drop res'_def by (auto simp: Suc_diff_Suc[symmetric] simp del: Suc_diff_Suc)
  show ?case
  proof (cases "Suc k = ?n")
    case True
    then have "drop (Suc k) ?r = []" by simp
    then have "robin_loop (Suc (Suc fuel)) ws replicas bs start ?i exclude res = Some (Inr (start, res'))"
        "res @ map (wi_address \<circ> snd) (take (replicas - length res) (filter (usable exclude0 bs) (drop k ?r))) = res'"
      using step stop out True by (simp_all del: robin_loop.simps)
    then show ?thesis using assms(2) by (intro exI[of _ start]) (simp only: simp_thms)
  next
    case False
    then have ne: "(start + Suc k) mod ?n \<noteq> start" using stop by simp
    show ?thesis
    proof (cases "length res' < replicas")
      case True
      have "Suc k < ?n" "?n - Suc k \<le> fuel" using False Suc.prems(1,2) by simp_all
      from Suc.IH[OF this ex' True] show ?thesis unfolding out step if_not_P[OF ne] .
    next
      case full: False
      have "robin_loop (Suc fuel) ws replicas bs start ((start + Suc k) mod ?n) ex' res' =
          Some (Inr ((start + Suc k) mod ?n, res'))" using full by simp
      moreover have "replicas - length res' = 0" using full by simp
      ultimately show ?thesis unfolding out step if_not_P[OF ne]
        using n by (intro exI[of _ "(start + Suc k) mod ?n"]) (simp del: robin_loop.simps)
    qed
  qed
qed simp

lemma robin_choose_eq:
  assumes "workers_ok ws" "start < length ws" "1 \<le> cc_replicas ctx"
  shows "\<exists>index < length ws. robin_choose ws ctx start =
    (Inr (map (wi_address \<circ> snd) (take (cc_replicas ctx)
       (filter (usable (cc_exclude_workers ctx) (cc_block_size ctx)) (rotate start ws)))), index)"
proof -
  have "ws \<noteq> []" "0 < length ws" using assms(2) by auto
  with robin_loop_eq[OF assms(1,2), of 0 "length ws" "cc_exclude_workers ctx" "cc_exclude_workers ctx" "[]" "cc_replicas ctx" "cc_block_size ctx"]
  show ?thesis using assms(2,3) by (auto simp: robin_choose_def)
qed

lemma robin_chosen:
  assumes ws: "workers_ok ws" and run: "robin_choose ws ctx p = (Inr as, p')"
  shows "chosen_ok ws ctx as"
proof -
  have pre: "ws \<noteq> []" "1 \<le> cc_replicas ctx" "p < length ws"
  proof -
    show "ws \<noteq> []" "1 \<le> cc_replicas ctx" using run by (auto simp: robin_choose_def split: if_splits)
    then show "p < length ws" using run by (auto simp: robin_choose_def get_index_def split: if_splits)
  qed
  define es where "es = take (cc_replicas ctx) (filter (usable (cc_exclude_workers ctx) (cc_block_size ctx)) (rotate p ws))"
  have as: "as = map (wi_address \<circ> snd) es" using robin_choose_eq[OF ws pre(3,2)] run by (auto simp: es_def)
  have sub: "set es \<subseteq> {e \<in> set ws. usable (cc_exclude_workers ctx) (cc_block_size ctx) e}"
    unfolding es_def by (auto dest!: in_set_takeD)
  show ?thesis
    unfolding as
  proof (rule good_choice[OF ws])
    show "distinct es" using workers_ok_distinct[OF ws] by (simp add: es_def)
    show "length es \<le> cc_replicas ctx" by (simp add: es_def)
  qed (use sub in \<open>auto simp: usable_def\<close>)
qed

lemma find_local_Some:
  "find_local ctx ws = Some (i, w) \<Longrightarrow> (i, w) \<in> set ws \<and> i \<notin> set (cc_exclude_workers ctx) \<and>
    is_local (wi_address w) (cc_client_host ctx) \<and> wi_available w > cc_block_size ctx \<and> is_live w"
  by (induction ctx ws rule: find_local.induct) (auto split: if_splits)

lemma chosen_ok_take: "chosen_ok ws ctx as \<Longrightarrow> chosen_ok ws ctx (take n as)"
  by (auto simp: chosen_ok_def take_map[symmetric] dest: in_set_takeD)

lemma local_chosen:
  assumes ws: "workers_ok ws" and run: "local_choose ws ctx p = (Inr as, p')"
  shows "chosen_ok ws ctx as"
proof (cases "find_local ctx ws")
  case None
  then obtain remote where "robin_choose ws ctx p = (Inr remote, p')" "as = take (cc_replicas ctx) remote"
    using run by (auto simp: local_choose_def bind_op_Inr_iff split: if_splits)
  then show ?thesis using robin_chosen[OF ws] chosen_ok_take by blast
next
  case (Some e)
  obtain i w where e: "e = (i, w)" by (cases e)
  note loc = find_local_Some[OF Some[unfolded e]]
  have id: "wa_worker_id (wi_address w) = i" using loc ws by (auto simp: workers_ok_def wi_worker_id_def)
  have good: "good_worker ws ctx (wi_address w)" using loc by (force simp: good_worker_def)
  let ?ctx = "ctx\<lparr>cc_exclude_workers := i # cc_exclude_workers ctx\<rparr>"
  consider "as = [wi_address w]" "1 \<le> cc_replicas ctx" | remote where "robin_choose ws ?ctx p = (Inr remote, p')"
      "as = wi_address w # take (cc_replicas ctx - 1) remote" "1 \<le> cc_replicas ctx"
    using run by (auto simp: local_choose_def Some e bind_op_Inr_iff split: if_splits)
  then show ?thesis
  proof cases
    case 1
    then show ?thesis using good by (simp add: chosen_ok_def)
  next
    case 2
    note rem = chosen_ok_take[OF robin_chosen[OF ws 2(1)], of "cc_replicas ctx - 1", unfolded chosen_ok_def]
    have "i \<notin> wa_worker_id ` set (take (cc_replicas ctx - 1) remote)"
      using rem ws by (fastforce simp: good_worker_def workers_ok_def wi_worker_id_def)
    moreover have "good_worker ws ctx a" if "a \<in> set (take (cc_replicas ctx - 1) remote)" for a
      using rem that by (fastforce simp: good_worker_def)
    ultimately show ?thesis using rem good id 2(2,3) by (auto simp: chosen_ok_def)
  qed
qed

lemma distinct_submset: "mset xs \<subseteq># mset ys \<Longrightarrow> distinct ys \<Longrightarrow> distinct xs"
  unfolding distinct_count_atmost_1 by (metis (no_types, lifting) count_mset_0_iff gr_zeroI le_antisym less_one mset_subset_eq_count mset_subset_eqD set_mset_mset linorder_not_le)

lemma random_chosen:
  assumes pick: "pick_ok pick" and ws: "workers_ok ws" and run: "random_choose pick ws ctx p = (Inr as, p')"
  shows "chosen_ok ws ctx as"
proof -
  define av where "av = filter (usable (cc_exclude_workers ctx) (cc_block_size ctx)) ws"
  define es where "es = pick (cc_replicas ctx) av"
  have as: "as = map (wi_address \<circ> snd) es"
    using run by (auto simp: random_choose_def Let_def es_def av_def split: if_splits)
  have es: "mset es \<subseteq># mset av" "length es \<le> cc_replicas ctx" using pick by (simp_all add: pick_ok_def es_def)
  have "set es \<subseteq> set av" using set_mset_mono[OF es(1)] by simp
  moreover have "distinct es"
    using distinct_submset[OF es(1)] workers_ok_distinct[OF ws] by (simp add: av_def)
  ultimately show ?thesis
    unfolding as by (intro good_choice[OF ws _ _ es(2)]) (auto simp: av_def usable_def)
qed

lemma load_chosen:
  assumes ws: "workers_ok ws" and bs: "is_i64 (cc_block_size ctx)" and run: "load_choose ws ctx p = (Inr as, p')"
  shows "chosen_ok ws ctx as"
proof -
  define av where "av = filter (has_space (Some (cc_exclude_workers ctx)) (Some (u64_of (cc_block_size ctx)))) ws"
  define es where "es = take (cc_replicas ctx) (sort_key (\<lambda>e. - int (calculate_score (snd e))) av)"
  have as: "as = map (wi_address \<circ> snd) es"
    using run by (auto simp: load_choose_def select_workers_by_load_def Let_def es_def av_def split: if_splits)
  have "i64_of (u64_of (cc_block_size ctx)) = cc_block_size ctx"
    using bs unfolding u64_of_def i64_of_mod by simp
  moreover have "set es \<subseteq> set av" unfolding es_def by (auto dest!: in_set_takeD)
  moreover have "distinct es" using workers_ok_distinct[OF ws] by (simp add: es_def av_def)
  ultimately show ?thesis
    unfolding as by (intro good_choice[OF ws]) (auto simp: av_def has_space_def es_def)
qed

interpretation robin: worker_policy robin_choose
  by unfold_locales (rule robin_chosen)

interpretation local_first: worker_policy local_choose
  by unfold_locales (rule local_chosen)

interpretation load_based: worker_policy load_choose
  by unfold_locales (rule load_chosen)

lemma adapter_policy: "pick_ok pick \<Longrightarrow> worker_policy (adapter_choose pick)"
proof
  fix ws :: workers and ctx p as p'
  assume pick: "pick_ok pick" and ok: "workers_ok ws" "is_i64 (cc_block_size ctx)"
    and run: "adapter_choose pick ws ctx p = (Inr as, p')"
  show "chosen_ok ws ctx as"
  proof (cases p)
    case (Robin i)
    then show ?thesis using run robin_chosen[OF ok(1)] by (auto split: prod.splits)
  next
    case (Local i)
    then show ?thesis using run local_chosen[OF ok(1)] by (auto split: prod.splits)
  next
    case Random
    then show ?thesis using run random_chosen[OF pick ok(1), of ctx Random] by simp
  next
    case LoadBased
    then show ?thesis using run load_chosen[OF ok, of LoadBased] by simp
  qed
qed

end
