(* ===== verification/Worker_Manager.thy ===== *)
theory Worker_Manager
  imports Worker_Policy
begin

text \<open>
  \<^verbatim>\<open>WorkerManager\<close> (\<^verbatim>\<open>master/fs/worker_manager.rs\<close>): registration and heartbeats of workers, the choice
  of workers for a block, decommissioning, and the check for late heartbeats
  (\<^verbatim>\<open>master/fs/heartbeat_checker.rs\<close>). Its configuration is left out but for the cluster id and the
  policy.
\<close>

record worker_manager =
  wg_worker_map :: worker_map
  wg_block_map :: block_map
  wg_worker_policy :: policy
  wg_cluster_id :: string

definition worker_manager_new :: "string \<Rightarrow> policy \<Rightarrow> worker_manager" where
  "worker_manager_new cluster_id policy =
     \<lparr>wg_worker_map = worker_map_new, wg_block_map = [], wg_worker_policy = policy,
      wg_cluster_id = cluster_id\<rparr>"

abbreviation live_workers :: "worker_manager \<Rightarrow> workers" where
  "live_workers wg \<equiv> wm_workers (wg_worker_map wg)"

abbreviation lost_workers :: "worker_manager \<Rightarrow> workers" where
  "lost_workers wg \<equiv> wm_lost_workers (wg_worker_map wg)"

datatype heartbeat_status = HbStart | HbRunning | HbEnd

definition heartbeat ::
  "int \<Rightarrow> string \<Rightarrow> heartbeat_status \<Rightarrow> worker_address \<Rightarrow> storage_info list \<Rightarrow>
   (worker_manager, worker_command list) op" where
  "heartbeat now cluster_id status addr storages wg =
     (if cluster_id \<noteq> wg_cluster_id wg then (Inl (Common ''Registered cluster_id mismatch''), wg)
      else if status = HbEnd
      then (Inr [], wg\<lparr>wg_worker_map := snd (remove_offline (wa_worker_id addr) (wg_worker_map wg))\<rparr>)
      else
        let cmds = (if status = HbRunning then handle_heartbeat (wa_worker_id addr) (wg_block_map wg) else []);
            (r, wm) = insert_worker now addr storages (wg_worker_map wg)
        in (map_sum id (\<lambda>_. cmds) r, wg\<lparr>wg_worker_map := wm\<rparr>))"

definition choose_worker ::
  "(nat \<Rightarrow> (u32 \<times> worker_info) list \<Rightarrow> (u32 \<times> worker_info) list) \<Rightarrow> choose_context \<Rightarrow>
   (worker_manager, worker_address list) op" where
  "choose_worker pick ctx wg =
     (case adapter_choose pick (live_workers wg) ctx (wg_worker_policy wg) of
        (Inl e, p) \<Rightarrow> (Inl e, wg\<lparr>wg_worker_policy := p\<rparr>)
      | (Inr workers, p) \<Rightarrow>
          (if workers = [] then Inl (Common ''No available worker found'')
           else if length workers > cc_replicas ctx
           then Inl (Common ''The number of workers exceeds the number of replicas'')
           else Inr workers, wg\<lparr>wg_worker_policy := p\<rparr>))"

definition manager_choose_workers ::
  "(nat \<Rightarrow> (u32 \<times> worker_info) list \<Rightarrow> (u32 \<times> worker_info) list) \<Rightarrow> nat \<Rightarrow> u32 list \<Rightarrow>
   (worker_manager, worker_address list) op" where
  "manager_choose_workers pick cnt exclude wg =
     (case adapter_choose_workers pick (live_workers wg) cnt exclude (wg_worker_policy wg) of
        (Inl e, p) \<Rightarrow> (Inl e, wg\<lparr>wg_worker_policy := p\<rparr>)
      | (Inr workers, p) \<Rightarrow>
          (if workers = [] then Inl (Common ''No available worker found'')
           else if length workers > cnt
           then Inl (Common ''The number of workers exceeds the requested count'')
           else Inr workers, wg\<lparr>wg_worker_policy := p\<rparr>))"

definition get_last_heartbeat :: "worker_manager \<Rightarrow> (u32 \<times> int) list" where
  "get_last_heartbeat wg = map (\<lambda>(i, w). (i, wi_last_update w)) (live_workers wg)"

definition remove_expired_worker :: "u32 \<Rightarrow> worker_manager \<Rightarrow> worker_info option \<times> worker_manager" where
  "remove_expired_worker i wg =
     (let (r, wm) = remove_expired i (wg_worker_map wg) in (r, wg\<lparr>wg_worker_map := wm\<rparr>))"

text \<open>An entry that is there, changed through \<^verbatim>\<open>get_mut\<close>.\<close>

definition set_worker :: "u32 \<Rightarrow> worker_info \<Rightarrow> worker_manager \<Rightarrow> worker_manager" where
  "set_worker i w wg =
     wg\<lparr>wg_worker_map := (wg_worker_map wg)\<lparr>wm_workers := AList.update i w (live_workers wg)\<rparr>\<rparr>"

definition add_blacklist_worker :: "u32 \<Rightarrow> worker_manager \<Rightarrow> worker_info option \<times> worker_manager" where
  "add_blacklist_worker i wg =
     (case map_of (live_workers wg) i of
        Some v \<Rightarrow> let v = v\<lparr>wi_status := Blacklist\<rparr> in (Some v, set_worker i v wg)
      | None \<Rightarrow> (None, wg))"

definition manager_remove_block :: "u32 \<Rightarrow> i64 \<Rightarrow> worker_manager \<Rightarrow> worker_manager" where
  "manager_remove_block w b wg = wg\<lparr>wg_block_map := remove_block w b (wg_block_map wg)\<rparr>"

definition manager_remove_blocks :: "delete_result \<Rightarrow> worker_manager \<Rightarrow> worker_manager" where
  "manager_remove_blocks res wg = wg\<lparr>wg_block_map := remove_blocks res (wg_block_map wg)\<rparr>"

definition manager_deleted_block :: "u32 \<Rightarrow> i64 \<Rightarrow> worker_manager \<Rightarrow> worker_manager" where
  "manager_deleted_block w b wg = wg\<lparr>wg_block_map := deleted_block w b (wg_block_map wg)\<rparr>"

definition get_worker :: "u32 \<Rightarrow> worker_manager \<Rightarrow> worker_info option" where
  "get_worker i wg = map_of (live_workers wg) i"

definition create_locate_block ::
  "extended_block \<Rightarrow> block_location list \<Rightarrow> worker_manager \<Rightarrow> located_block res" where
  "create_locate_block block locs wg =
     (let addrs = map wi_address (List.map_filter (\<lambda>loc. get_worker (bl_worker_id loc) wg) locs)
      in if addrs = [] \<and> locs \<noteq> [] then Inl (Common ''all replicas has been lost'')
         else Inr \<lparr>lb_block = block, lb_locs = addrs\<rparr>)"

subsubsection \<open>Decommissioning\<close>

fun show_nat :: "nat \<Rightarrow> string" where
  "show_nat n = (if n < 10 then [char_of (48 + n)] else show_nat (n div 10) @ [char_of (48 + n mod 10)])"

fun show_status :: "worker_status \<Rightarrow> string" where
  "show_status Unknown = ''Unknown''"
| "show_status Live = ''Live''"
| "show_status Blacklist = ''Blacklist''"
| "show_status Decommission = ''Decommission''"
| "show_status Lost = ''Lost''"

definition simple_string :: "worker_info \<Rightarrow> string" where
  "simple_string w =
     show_nat (unat (wi_worker_id w)) @ '','' @ wa_hostname (wi_address w) @ '':'' @
     show_nat (unat (wa_rpc_port (wi_address w))) @ '','' @ show_status (wi_status w)"

definition set_hosts_status ::
  "worker_status \<Rightarrow> string list \<Rightarrow> worker_manager \<Rightarrow> string list \<times> worker_manager" where
  "set_hosts_status st hosts wg =
     (let hit = (\<lambda>w. wa_hostname (wi_address w) \<in> set hosts);
          ws = map (\<lambda>(i, w). (i, if hit w then w\<lparr>wi_status := st\<rparr> else w)) (live_workers wg)
      in (map (simple_string \<circ> snd) (filter (hit \<circ> snd) ws),
          wg\<lparr>wg_worker_map := (wg_worker_map wg)\<lparr>wm_workers := ws\<rparr>\<rparr>))"

definition add_dcm :: "string list \<Rightarrow> worker_manager \<Rightarrow> string list \<times> worker_manager" where
  "add_dcm = set_hosts_status Decommission"

definition get_dcm :: "worker_manager \<Rightarrow> string list" where
  "get_dcm wg = map (simple_string \<circ> snd) (filter (\<lambda>e. wi_status (snd e) = Decommission) (live_workers wg))"

definition remove_dcm :: "string list \<Rightarrow> worker_manager \<Rightarrow> string list \<times> worker_manager" where
  "remove_dcm = set_hosts_status Live"

definition worker_list :: "worker_manager \<Rightarrow> string list" where
  "worker_list wg = map (simple_string \<circ> snd) (live_workers wg)"

subsubsection \<open>HeartbeatChecker\<close>

text \<open>One run over the snapshot of last heartbeats. A removed worker's locations are deleted by a task of
  its own: the run returns the ids such a task was spawned for.\<close>

fun check_loop :: "int \<Rightarrow> int \<Rightarrow> int \<Rightarrow> (u32 \<times> int) list \<Rightarrow> worker_manager \<Rightarrow> u32 list \<times> worker_manager" where
  "check_loop now blacklist_ms lost_ms [] wg = ([], wg)"
| "check_loop now blacklist_ms lost_ms ((i, last_update) # ws) wg =
     (let wg = (if now > u64_of (last_update + blacklist_ms) then snd (add_blacklist_worker i wg) else wg);
          lost = now > u64_of (last_update + lost_ms);
          wg = (if lost then snd (remove_expired_worker i wg) else wg);
          (tasks, wg) = check_loop now blacklist_ms lost_ms ws wg
      in (if lost then i # tasks else tasks, wg))"

definition heartbeat_check ::
  "bool \<Rightarrow> int \<Rightarrow> int \<Rightarrow> int \<Rightarrow> worker_manager \<Rightarrow> u32 list \<times> worker_manager" where
  "heartbeat_check active now blacklist_ms lost_ms wg =
     (if \<not> active then ([], wg)
      else check_loop now blacklist_ms lost_ms (get_last_heartbeat wg) wg)"

subsection \<open>Registration\<close>

definition manager_ok :: "worker_manager \<Rightarrow> bool" where
  "manager_ok wg \<longleftrightarrow> worker_map_ok (wg_worker_map wg)"

lemma set_worker_ok:
  assumes "manager_ok wg" "wi_worker_id w = i" "i \<in> fst ` set (live_workers wg)"
  shows "manager_ok (set_worker i w wg)"
proof -
  have "fst ` set (AList.update i w (live_workers wg)) = fst ` set (live_workers wg)"
    using assms(3) by (simp add: dom_update insert_absorb)
  then show ?thesis
    using assms(1,2) workers_ok_update[of "live_workers wg" w i]
    by (simp add: manager_ok_def worker_map_ok_def set_worker_def)
qed

lemma add_blacklist_ok:
  assumes "manager_ok wg" shows "manager_ok (snd (add_blacklist_worker i wg))"
proof (cases "map_of (live_workers wg) i")
  case (Some v)
  have "wi_worker_id v = i" using assms workers_ok_lookup[OF _ Some] by (simp add: manager_ok_def worker_map_ok_def)
  moreover have "i \<in> fst ` set (live_workers wg)" using map_of_SomeD[OF Some] by force
  ultimately show ?thesis
    using set_worker_ok[OF assms, of "v\<lparr>wi_status := Blacklist\<rparr>" i]
    by (simp add: add_blacklist_worker_def Some Let_def wi_worker_id_def)
qed (use assms in \<open>simp add: add_blacklist_worker_def\<close>)

lemma remove_expired_worker_ok: "manager_ok wg \<Longrightarrow> manager_ok (snd (remove_expired_worker i wg))"
  using worker_map_ok_remove[of "wg_worker_map wg" i]
  by (auto simp: manager_ok_def remove_expired_worker_def split: prod.splits)

lemma heartbeat_ok: "manager_ok wg \<Longrightarrow> manager_ok (snd (heartbeat now cid st addr storages wg))"
  using worker_map_ok_insert[of "wg_worker_map wg" now addr storages] worker_map_ok_remove[of "wg_worker_map wg" "wa_worker_id addr"]
  by (auto simp: manager_ok_def heartbeat_def remove_offline_def Let_def split: prod.splits)

definition mark_hosts :: "worker_status \<Rightarrow> string list \<Rightarrow> workers \<Rightarrow> workers" where
  "mark_hosts st hosts ws =
     map (\<lambda>(i, w). (i, if wa_hostname (wi_address w) \<in> set hosts then w\<lparr>wi_status := st\<rparr> else w)) ws"

lemma mark_hosts_keys: "map fst (mark_hosts st hosts ws) = map fst ws"
  by (induction ws) (auto simp: mark_hosts_def)

lemma mark_hosts_ok: "workers_ok ws \<Longrightarrow> workers_ok (mark_hosts st hosts ws)"
  unfolding workers_ok_def im_ok_def mark_hosts_keys by (auto simp: mark_hosts_def wi_worker_id_def)

lemma set_hosts_status_ok:
  assumes "manager_ok wg" shows "manager_ok (snd (set_hosts_status st hosts wg))"
proof -
  have "fst ` set (mark_hosts st hosts (live_workers wg)) = fst ` set (live_workers wg)"
    using mark_hosts_keys by (metis list.set_map)
  moreover have "live_workers (snd (set_hosts_status st hosts wg)) = mark_hosts st hosts (live_workers wg)"
      "lost_workers (snd (set_hosts_status st hosts wg)) = lost_workers wg"
    by (simp_all add: set_hosts_status_def mark_hosts_def Let_def)
  ultimately show ?thesis
    using assms mark_hosts_ok[of "live_workers wg" st hosts] by (simp add: manager_ok_def worker_map_ok_def)
qed

subsection \<open>Late heartbeats\<close>

text \<open>The verdict on a worker: late beyond the second limit, beyond the first, or not.\<close>

definition late :: "int \<Rightarrow> int \<Rightarrow> worker_info \<Rightarrow> bool" where
  "late now ms w \<longleftrightarrow> now > u64_of (wi_last_update w + ms)"

definition blacklisted :: "int \<Rightarrow> int \<Rightarrow> worker_info \<Rightarrow> worker_info" where
  "blacklisted now ms w = (if late now ms w then w\<lparr>wi_status := Blacklist\<rparr> else w)"

lemma live_blacklist:
  assumes "map_of (live_workers wg) i = Some w"
  shows "map_of (live_workers (snd (add_blacklist_worker i wg))) = (map_of (live_workers wg))(i \<mapsto> w\<lparr>wi_status := Blacklist\<rparr>)"
    "lost_workers (snd (add_blacklist_worker i wg)) = lost_workers wg"
    "wg_block_map (snd (add_blacklist_worker i wg)) = wg_block_map wg"
  using assms by (simp_all add: add_blacklist_worker_def set_worker_def update_conv' Let_def)

lemma live_remove:
  assumes "manager_ok wg" "map_of (live_workers wg) i = Some w"
  shows "map_of (live_workers (snd (remove_expired_worker i wg))) = (map_of (live_workers wg))(i := None)"
    "map_of (lost_workers (snd (remove_expired_worker i wg))) = (map_of (lost_workers wg))(i \<mapsto> w)"
  using assms swap_remove_spec(2)[of "live_workers wg" i]
  by (simp_all add: remove_expired_worker_def remove_expired_state manager_ok_def worker_map_ok_def workers_ok_def update_conv')

text \<open>The two steps of the loop for one worker.\<close>

lemma check_one:
  assumes ok: "manager_ok wg" and w: "map_of (live_workers wg) i = Some w"
    and wg1: "wg1 = (if late now b w then snd (add_blacklist_worker i wg) else wg)"
    and wg2: "wg2 = (if late now l w then snd (remove_expired_worker i wg1) else wg1)"
  shows "manager_ok wg2"
    "map_of (live_workers wg2) = (map_of (live_workers wg))(i := if late now l w then None else Some (blacklisted now b w))"
    "map_of (lost_workers wg2) = (if late now l w then (map_of (lost_workers wg))(i \<mapsto> blacklisted now b w) else map_of (lost_workers wg))"
proof -
  have ok1: "manager_ok wg1" using ok add_blacklist_ok wg1 by simp
  have m1: "map_of (live_workers wg1) = (map_of (live_workers wg))(i \<mapsto> blacklisted now b w)" "lost_workers wg1 = lost_workers wg"
    using live_blacklist[OF w] w by (auto simp: wg1 blacklisted_def)
  then have w1: "map_of (live_workers wg1) i = Some (blacklisted now b w)" by simp
  show "manager_ok wg2" using ok1 remove_expired_worker_ok wg2 by simp
  show "map_of (live_workers wg2) = (map_of (live_workers wg))(i := if late now l w then None else Some (blacklisted now b w))"
    "map_of (lost_workers wg2) = (if late now l w then (map_of (lost_workers wg))(i \<mapsto> blacklisted now b w) else map_of (lost_workers wg))"
    using live_remove[OF ok1 w1] m1 by (simp_all add: wg2)
qed

lemma check_loop_spec:
  assumes "manager_ok wg" "distinct (map fst ws)"
    and "\<forall>(i, lu)\<in>set ws. \<exists>w. map_of (live_workers wg) i = Some w \<and> lu = wi_last_update w"
    and "check_loop now b l ws wg = (tasks, wg')"
  shows "manager_ok wg' \<and> set tasks = {i. i \<in> fst ` set ws \<and> (\<exists>w. map_of (live_workers wg) i = Some w \<and> late now l w)} \<and>
    (\<forall>i. map_of (live_workers wg') i = (if i \<in> fst ` set ws
       then (case map_of (live_workers wg) i of None \<Rightarrow> None
             | Some w \<Rightarrow> if late now l w then None else Some (blacklisted now b w))
       else map_of (live_workers wg) i)) \<and>
    (\<forall>i. map_of (lost_workers wg') i = (if i \<in> set tasks
       then map_option (blacklisted now b) (map_of (live_workers wg) i) else map_of (lost_workers wg) i))"
  using assms
proof (induction ws arbitrary: wg tasks)
  case (Cons x ws)
  obtain i lu where x: "x = (i, lu)" by (cases x)
  note prems = Cons.prems[unfolded x]
  obtain w where w: "map_of (live_workers wg) i = Some w" "lu = wi_last_update w" using prems(3) by auto
  have late: "now > u64_of (lu + ms) \<longleftrightarrow> late now ms w" for ms by (simp add: late_def w(2))
  define wg1 where "wg1 = (if late now b w then snd (add_blacklist_worker i wg) else wg)"
  define wg2 where "wg2 = (if late now l w then snd (remove_expired_worker i wg1) else wg1)"
  obtain ts where ts: "check_loop now b l ws wg2 = (ts, wg')" "tasks = (if late now l w then i # ts else ts)"
    using prems(4) by (auto simp: late Let_def wg1_def[symmetric] wg2_def[symmetric] split: prod.splits)
  note one = check_one[OF prems(1) w(1) wg1_def wg2_def]
  have i: "i \<notin> fst ` set ws" using prems(2) by simp
  have "\<forall>(j, lu)\<in>set ws. \<exists>w. map_of (live_workers wg2) j = Some w \<and> lu = wi_last_update w"
    using prems(3) i one(2) by (fastforce simp: image_iff)
  note ih = Cons.IH[OF one(1) _ this ts(1)]
  have d: "distinct (map fst ws)" using prems(2) by simp
  have at: "map_of (live_workers wg2) j = map_of (live_workers wg) j" if "j \<noteq> i" for j using one(2) that by simp
  have tasks: "set ts = {j. j \<in> fst ` set ws \<and> (\<exists>w. map_of (live_workers wg) j = Some w \<and> late now l w)}"
    using ih[OF d] at i by (auto simp: image_iff)
  have "set tasks = {j. j \<in> fst ` set (x # ws) \<and> (\<exists>w. map_of (live_workers wg) j = Some w \<and> late now l w)}"
    using ts(2) tasks w(1) i by (auto simp: x)
  moreover have "map_of (live_workers wg') j = (if j \<in> fst ` set (x # ws)
       then (case map_of (live_workers wg) j of None \<Rightarrow> None
             | Some w \<Rightarrow> if late now l w then None else Some (blacklisted now b w))
       else map_of (live_workers wg) j)" for j
    using ih[OF d] one(2) at i w(1) by (cases "j = i") (auto simp: x)
  moreover have "map_of (lost_workers wg') j = (if j \<in> set tasks
       then map_option (blacklisted now b) (map_of (live_workers wg) j) else map_of (lost_workers wg) j)" for j
    using ih[OF d] one(3) at i w(1) ts(2) tasks by (cases "j = i") auto
  ultimately show ?case using ih[OF d] by blast
qed simp

lemma heartbeat_check_spec:
  assumes ok: "manager_ok wg" and run: "heartbeat_check True now b l wg = (tasks, wg')"
  shows "manager_ok wg'" "set tasks = {i. \<exists>w. map_of (live_workers wg) i = Some w \<and> late now l w}"
    "map_of (live_workers wg') i = (case map_of (live_workers wg) i of None \<Rightarrow> None
       | Some w \<Rightarrow> if late now l w then None else Some (blacklisted now b w))"
    "map_of (lost_workers wg') i = (if i \<in> set tasks
       then map_option (blacklisted now b) (map_of (live_workers wg) i) else map_of (lost_workers wg) i)"
proof -
  let ?ws = "get_last_heartbeat wg"
  have im: "im_ok (live_workers wg)" using ok by (simp add: manager_ok_def worker_map_ok_def workers_ok_def)
  have keys: "map fst ?ws = map fst (live_workers wg)" by (auto simp: get_last_heartbeat_def)
  then have dom: "j \<in> fst ` set ?ws \<longleftrightarrow> map_of (live_workers wg) j \<noteq> None" for j
    by (metis image_set map_of_eq_None_iff)
  have "\<forall>(i, lu)\<in>set ?ws. \<exists>w. map_of (live_workers wg) i = Some w \<and> lu = wi_last_update w"
    using im by (auto simp: get_last_heartbeat_def im_ok_def)
  note spec = check_loop_spec[OF ok _ this, of now b l tasks wg']
  have "distinct (map fst ?ws)" "check_loop now b l ?ws wg = (tasks, wg')"
    using im keys run by (simp_all add: im_ok_def heartbeat_check_def)
  note spec = spec[OF this]
  show "manager_ok wg'" "set tasks = {i. \<exists>w. map_of (live_workers wg) i = Some w \<and> late now l w}"
    "map_of (live_workers wg') i = (case map_of (live_workers wg) i of None \<Rightarrow> None
       | Some w \<Rightarrow> if late now l w then None else Some (blacklisted now b w))"
    "map_of (lost_workers wg') i = (if i \<in> set tasks
       then map_option (blacklisted now b) (map_of (live_workers wg) i) else map_of (lost_workers wg) i)"
    using spec dom by (auto split: option.splits)
qed

subsection \<open>The choice of workers\<close>

lemma choose_worker_ok:
  assumes pick: "pick_ok pick" and ok: "manager_ok wg" "is_i64 (cc_block_size ctx)"
    and run: "choose_worker pick ctx wg = (Inr as, wg')"
  shows "as \<noteq> []" "chosen_ok (live_workers wg) ctx as" "wg_worker_map wg' = wg_worker_map wg"
proof -
  obtain p where p: "adapter_choose pick (live_workers wg) ctx (wg_worker_policy wg) = (Inr as, p)"
      "as \<noteq> []" "wg' = wg\<lparr>wg_worker_policy := p\<rparr>"
    using run by (auto simp: choose_worker_def split: prod.splits sum.splits if_splits)
  have "workers_ok (live_workers wg)" using ok(1) by (simp add: manager_ok_def worker_map_ok_def)
  from worker_policy.chosen[OF adapter_policy[OF pick] this ok(2) p(1)]
  show "chosen_ok (live_workers wg) ctx as" .
  show "as \<noteq> []" "wg_worker_map wg' = wg_worker_map wg" using p by simp_all
qed

end
