(* ===== verification/Master_Fs.thy ===== *)
theory Master_Fs
  imports Fs_Dir Worker_Manager
begin

text \<open>
  \<^verbatim>\<open>MasterFilesystem\<close> (\<^verbatim>\<open>master/fs/master_filesystem.rs\<close>): the file-system requests the master
  serves. Each resolves its paths, checks the request, runs the operation on the directory tree and
  passes the blocks to be deleted to the worker manager. Every request holds the lock of the tree for
  its whole run, so a request is one step.
\<close>

record master_conf =
  mc_min_block_size :: i64
  mc_max_block_size :: i64
  mc_min_replication :: nat
  mc_max_replication :: nat
  mc_max_path_len :: nat
  mc_max_path_depth :: nat

record 'db master_fs =
  mf_dir :: "'db fs_dir"
  mf_workers :: worker_manager
  mf_conf :: master_conf

definition on_dir :: "('db fs_dir, 'a) op \<Rightarrow> ('db master_fs, 'a) op" where
  "on_dir m s = (let (r, d) = m (mf_dir s) in (r, s\<lparr>mf_dir := d\<rparr>))"

definition on_workers :: "(worker_manager \<Rightarrow> worker_manager) \<Rightarrow> ('db master_fs, unit) op" where
  "on_workers f s = (Inr (), s\<lparr>mf_workers := f (mf_workers s)\<rparr>)"

definition fail :: "string \<Rightarrow> ('s, 'a) op" where
  "fail msg s = (Inl (Common msg), s)"

definition return :: "'a \<Rightarrow> ('s, 'a) op" where
  "return x s = (Inr x, s)"

definition resolved :: "('db, 'b) meta_env \<Rightarrow> string \<Rightarrow> ('db master_fs, inode_path) op" where
  "resolved E path s = (resolve_path E (mf_dir s) path, s)"

text \<open>The node a pointer leads to.\<close>

definition read_inode :: "inode_ptr \<Rightarrow> ('db master_fs, inode_view) op" where
  "read_inode ptr = on_dir (read_ptr ptr)"

definition check_parent :: "inode_path \<Rightarrow> ('db master_fs, unit) op" where
  "check_parent path =
     (if length (ip_components path) > 2 then
        (case get_inode path (-2) of
           Some ptr \<Rightarrow> bind_op (read_inode ptr) (\<lambda>v.
             if \<not> is_dir v then fail ''Parent path is not a directory'' else return ())
         | None \<Rightarrow> fail ''Parent directory does not exist'')
      else return ())"

definition check_path_length :: "master_conf \<Rightarrow> string \<Rightarrow> unit res" where
  "check_path_length conf path =
     (if length path > mc_max_path_len conf then Inl (Common ''create: Path too long'')
      else if length (split_on PATH_SEPARATOR path) > mc_max_path_depth conf
      then Inl (Common ''create: Path too long'')
      else Inr ())"

subsection \<open>Directories and files\<close>

definition mkdir_with_opts :: "('db, 'b) meta_env \<Rightarrow> mkdir_opts \<Rightarrow> string \<Rightarrow> ('db master_fs, bool) op" where
  "mkdir_with_opts E opts path =
     bind_op (resolved E path) (\<lambda>inp.
     if ip_is_root inp then fail ''Not allowed to create existing root path''
     else if is_full inp then return True
     else bind_op (if mo_create_parent opts then return () else check_parent inp) (\<lambda>_.
          bind_op (on_dir (mkdir E opts inp)) (\<lambda>_. return True)))"

definition master_mkdir :: "('db, 'b) meta_env \<Rightarrow> string \<Rightarrow> bool \<Rightarrow> ('db master_fs, bool) op" where
  "master_mkdir E path create_parent = mkdir_with_opts E (mkdir_with_create create_parent) path"

definition master_delete :: "('db, 'b) meta_env \<Rightarrow> string \<Rightarrow> bool \<Rightarrow> ('db master_fs, bool) op" where
  "master_delete E path recursive =
     bind_op (resolved E path) (\<lambda>inp s.
       if \<not> is_empty_dir (fd_root (mf_dir s)) inp \<and> \<not> recursive then fail ''is non empty'' s
       else if ip_is_root inp then fail ''The root is not allowed to be deleted'' s
       else if ip_components inp = [] \<or> get_last_inode inp = None
       then fail ''Failed to remove because it does not exist'' s
       else bind_op (on_dir (delete E recursive inp)) (\<lambda>delete_result.
            bind_op (on_workers (manager_remove_blocks delete_result)) (\<lambda>_. return True)) s)"

text \<open>\<^verbatim>\<open>str::strip_prefix\<close>.\<close>

fun strip_prefix :: "'a list \<Rightarrow> 'a list \<Rightarrow> 'a list option" where
  "strip_prefix [] ys = Some ys"
| "strip_prefix (x # xs) [] = None"
| "strip_prefix (x # xs) (y # ys) = (if x = y then strip_prefix xs ys else None)"

definition under_src :: "string \<Rightarrow> string \<Rightarrow> bool" where
  "under_src src dst =
     (case strip_prefix src dst of Some (c # _) \<Rightarrow> c = PATH_SEPARATOR | _ \<Rightarrow> False)"

definition master_rename :: "('db, 'b) meta_env \<Rightarrow> string \<Rightarrow> string \<Rightarrow> ('db master_fs, bool) op" where
  "master_rename E src dst =
     bind_op (resolved E src) (\<lambda>src_inp.
     bind_op (resolved E dst) (\<lambda>dst_inp.
     if ip_is_root src_inp then fail ''Cannot rename root path''
     else if src = dst then return False
     else if under_src src dst then fail ''Rename dst is a directory or file under src''
     else bind_op (on_dir (rename E src_inp dst_inp)) (\<lambda>_. return True)))"

text \<open>An existing file is overwritten when the flags say so; its blocks are to be deleted.\<close>

definition create_or_overwrite ::
  "('db, 'b) meta_env \<Rightarrow> create_file_opts \<Rightarrow> inode_path \<Rightarrow> ('db master_fs, inode_path) op" where
  "create_or_overwrite E opts inp =
     (if get_last_inode inp \<noteq> None \<and> flag_overwrite (co_create_flag opts)
      then bind_op (on_dir (overwrite_file E opts inp)) (\<lambda>(clean_result, inp').
             if dr_blocks clean_result \<noteq> []
             then bind_op (on_workers (manager_remove_blocks clean_result)) (\<lambda>_. return inp')
             else return inp')
      else on_dir (create_file E opts inp))"

definition create_with_opts ::
  "('db, 'b) meta_env \<Rightarrow> create_file_opts \<Rightarrow> string \<Rightarrow> ('db master_fs, file_status) op" where
  "create_with_opts E opts path s =
     (let conf = mf_conf s in
      if \<not> flag_create (co_create_flag opts) then fail ''Flag error, cannot create file'' s
      else
        bind_op (lift_res (check_path_length conf path)) (\<lambda>_.
        if co_replicas opts < mc_min_replication conf \<or> co_replicas opts \<ge> mc_max_replication conf
        then fail ''The replica number is out of range''
        else if co_block_size opts < mc_min_block_size conf \<or> co_block_size opts \<ge> mc_max_block_size conf
        then fail ''Block size is out of range''
        else
          bind_op (resolved E path) (\<lambda>inp.
          bind_op (case get_last_inode inp of
                     Some ptr \<Rightarrow> bind_op (read_inode ptr) (\<lambda>v.
                       if is_dir v then fail ''already exists as a dir'' else return ())
                   | None \<Rightarrow> return ()) (\<lambda>_.
          bind_op (if co_create_parent opts then return () else check_parent inp) (\<lambda>_.
          bind_op (create_or_overwrite E opts inp) (\<lambda>inp.
          on_dir (dir_file_status inp)))))) s)"

definition master_create :: "('db, 'b) meta_env \<Rightarrow> string \<Rightarrow> bool \<Rightarrow> ('db master_fs, file_status) op" where
  "master_create E path create_parent = create_with_opts E (create_with_create create_parent) path"

definition master_append_file ::
  "('db, 'b) meta_env \<Rightarrow> create_file_opts \<Rightarrow> string \<Rightarrow>
   ('db master_fs, located_block option \<times> file_status) op" where
  "master_append_file E opts path =
     (if \<not> flag_append (co_create_flag opts) then fail ''Flag error, cannot append file''
      else bind_op (resolved E path) (\<lambda>inp.
        if get_last_inode inp = None then
          (if flag_create (co_create_flag opts)
           then bind_op (create_with_opts E opts path) (\<lambda>status. return (None, status))
           else (\<lambda>s. (Inl (FileNotFound (ip_path inp)), s)))
        else
          bind_op (on_dir (append_file E inp (co_client_name opts))) (\<lambda>(last_block, file_status).
          case last_block of
            Some b \<Rightarrow>
              (\<lambda>s. (bind_res (get_locations E (st_db (fd_store (mf_dir s))) (eb_id b)) (\<lambda>locs.
                    bind_res (create_locate_block b locs (mf_workers s)) (\<lambda>lb.
                      Inr (Some lb, file_status))), s))
          | None \<Rightarrow> return (None, file_status))))"

definition master_file_status :: "('db, 'b) meta_env \<Rightarrow> string \<Rightarrow> ('db master_fs, file_status) op" where
  "master_file_status E path = bind_op (resolved E path) (\<lambda>inp. on_dir (dir_file_status inp))"

definition master_exists :: "('db, 'b) meta_env \<Rightarrow> string \<Rightarrow> ('db master_fs, bool) op" where
  "master_exists E path = bind_op (resolved E path) (\<lambda>inp. return (get_last_inode inp \<noteq> None))"

definition master_list_status ::
  "('db, 'b) meta_env \<Rightarrow> string \<Rightarrow> ('db master_fs, file_status list) op" where
  "master_list_status E path = bind_op (resolved E path) (\<lambda>inp. on_dir (dir_list_status E inp))"

subsection \<open>Blocks\<close>

record client_address =
  ca_client_name :: string
  ca_hostname :: string
  ca_ip_addr :: string
  ca_port :: int

text \<open>The validated request, without the pointer to the file, which no caller reads.\<close>

definition validate_add_block ::
  "inode_path \<Rightarrow> client_address \<Rightarrow> commit_blk option \<Rightarrow> u32 list \<Rightarrow> ('db master_fs, choose_context) op" where
  "validate_add_block inp client_addr previous exclude =
     (case get_last_inode inp of
        None \<Rightarrow> fail ''File not exists''
      | Some ptr \<Rightarrow>
          bind_op (read_inode ptr) (\<lambda>v.
          bind_op (lift_res (as_file v)) (\<lambda>file.
          if (case previous of Some p \<Rightarrow> cb_block_len p \<noteq> f_block_size file | None \<Rightarrow> False)
          then fail ''The block size is incorrect''
          else
            case ff_file_write (f_features file) of
              None \<Rightarrow> fail ''File is not open for writing''
            | Some w \<Rightarrow>
                if wf_client_name w \<noteq> ca_client_name client_addr
                then fail ''The client name written to file is incorrect''
                else return \<lparr>cc_replicas = f_replicas file, cc_block_size = f_block_size file,
                             cc_storage_policy = f_storage_policy file,
                             cc_client_host = ca_hostname client_addr,
                             cc_exclude_workers = exclude\<rparr>)))"

definition choose_on_workers ::
  "(nat \<Rightarrow> (u32 \<times> worker_info) list \<Rightarrow> (u32 \<times> worker_info) list) \<Rightarrow> choose_context \<Rightarrow>
   ('db master_fs, worker_address list) op" where
  "choose_on_workers pick ctx s =
     (let (r, wg) = choose_worker pick ctx (mf_workers s) in (r, s\<lparr>mf_workers := wg\<rparr>))"

definition master_add_block ::
  "('db, 'b) meta_env \<Rightarrow> (nat \<Rightarrow> (u32 \<times> worker_info) list \<Rightarrow> (u32 \<times> worker_info) list) \<Rightarrow>
   string \<Rightarrow> client_address \<Rightarrow> commit_blk option \<Rightarrow> u32 list \<Rightarrow> ('db master_fs, located_block) op" where
  "master_add_block E pick path client_addr previous exclude =
     bind_op (resolved E path) (\<lambda>inp.
     bind_op (validate_add_block inp client_addr previous exclude) (\<lambda>ctx.
     bind_op (choose_on_workers pick ctx) (\<lambda>workers.
     bind_op (on_dir (acquire_new_block E inp previous workers)) (\<lambda>block.
       return \<lparr>lb_block = block, lb_locs = workers\<rparr>))))"

definition master_complete_file ::
  "('db, 'b) meta_env \<Rightarrow> string \<Rightarrow> i64 \<Rightarrow> commit_blk option \<Rightarrow> string \<Rightarrow> ('db master_fs, bool) op" where
  "master_complete_file E path len lst client_name =
     bind_op (resolved E path) (\<lambda>inp.
     case get_last_inode inp of
       None \<Rightarrow> fail ''File does not exist''
     | Some ptr \<Rightarrow>
         bind_op (read_inode ptr) (\<lambda>v.
         if \<not> is_file v then fail ''INode is not a regular file''
         else
           bind_op (\<lambda>s. (store_get_inode E (fd_store (mf_dir s)) (iid v) None, s)) (\<lambda>stored.
           case stored of
             None \<Rightarrow> fail ''File does not exist''
           | Some u \<Rightarrow>
               bind_op (lift_res (as_file u)) (\<lambda>file.
               if is_complete file then return False
               else if commit_len file lst \<noteq> len then fail ''complete_file file size exception''
               else if (case ff_file_write (f_features file) of
                          Some w \<Rightarrow> wf_client_name w \<noteq> client_name
                        | None \<Rightarrow> False)
               then fail ''Client is not the lease owner''
               else on_dir (complete_file E inp len lst)))))"

fun locate_blocks ::
  "inode_file \<Rightarrow> (i64 \<times> block_location list) list \<Rightarrow> worker_manager \<Rightarrow> block_meta list \<Rightarrow> located_block list res" where
  "locate_blocks file locs wg [] = Inr []"
| "locate_blocks file locs wg (meta # metas) =
     (if metas \<noteq> [] \<and> bm_len meta \<noteq> f_block_size file then Inl (Common ''block status abnormal'')
      else
        bind_res (try_option ''block Lost (no worker can read)'' (map_of locs (bm_id meta))) (\<lambda>lc.
        bind_res (create_locate_block
            \<lparr>eb_id = bm_id meta, eb_len = bm_len meta,
             eb_storage_type = sp_storage_type (f_storage_policy file),
             eb_file_type = f_file_type file\<rparr> lc wg) (\<lambda>lb.
        bind_res (locate_blocks file locs wg metas) (\<lambda>lbs. Inr (lb # lbs)))))"

definition master_get_block_locations ::
  "('db, 'b) meta_env \<Rightarrow> string \<Rightarrow> ('db master_fs, file_blocks) op" where
  "master_get_block_locations E path =
     bind_op (resolved E path) (\<lambda>inp.
     bind_op (lift_res (try_option ''File not exits'' (get_last_inode inp))) (\<lambda>ptr.
     bind_op (read_inode ptr) (\<lambda>v.
     bind_op (lift_res (as_file v)) (\<lambda>file s.
       (bind_res (get_file_locations E (fd_store (mf_dir s)) (f_blocks file)) (\<lambda>locs.
        bind_res (locate_blocks file locs (mf_workers s) (f_blocks file)) (\<lambda>lbs.
        bind_res (to_file_status path v) (\<lambda>st.
          Inr \<lparr>fb_status = st, fb_block_locs = lbs\<rparr>))), s)))))"

subsection \<open>Block reports\<close>

datatype report_status = Finalized | ReportWriting | Deleted

record block_report_info =
  br_id :: i64
  br_status :: report_status
  br_storage_type :: storage_type
  br_block_size :: i64

text \<open>The loop over the reported blocks: the changes to the locations, and the blocks to be removed or
  known to be gone.\<close>

fun report_loop ::
  "('db, 'b) meta_env \<Rightarrow> u32 \<Rightarrow> block_report_info list \<Rightarrow> (bool \<times> i64 \<times> block_location) list \<Rightarrow>
   'db master_fs \<Rightarrow> (bool \<times> i64 \<times> block_location) list \<times> 'db master_fs" where
  "report_loop E worker_id [] batch s = (batch, s)"
| "report_loop E worker_id (item # items) batch s =
     (let loc = \<lparr>bl_worker_id = worker_id, bl_storage_type = br_storage_type item\<rparr>;
          (batch, s) = (case br_status item of
              Deleted \<Rightarrow> (batch @ [(False, br_id item, loc)],
                s\<lparr>mf_workers := manager_deleted_block worker_id (br_id item) (mf_workers s)\<rparr>)
            | _ \<Rightarrow>
                (case fst (block_exists E (br_id item) (mf_dir s)) of
                   Inl _ \<Rightarrow> (batch, s)
                 | Inr True \<Rightarrow> (batch @ [(True, br_id item, loc)], s)
                 | Inr False \<Rightarrow> (batch,
                     s\<lparr>mf_workers := manager_remove_block worker_id (br_id item) (mf_workers s)\<rparr>)))
      in report_loop E worker_id items batch s)"

definition master_block_report ::
  "('db, 'b) meta_env \<Rightarrow> u32 \<Rightarrow> block_report_info list \<Rightarrow> ('db master_fs, unit) op" where
  "master_block_report E worker_id blocks s =
     (if blocks = [] then (Inr (), s)
      else let (batch, s) = report_loop E worker_id blocks [] s in on_dir (dir_block_report E batch) s)"

definition master_delete_locations :: "('db, 'b) meta_env \<Rightarrow> u32 \<Rightarrow> ('db master_fs, i64 list) op" where
  "master_delete_locations E worker_id = on_dir (dir_delete_locations E worker_id)"

subsection \<open>Attributes and links\<close>

definition master_set_attr :: "('db, 'b) meta_env \<Rightarrow> set_attr_opts \<Rightarrow> string \<Rightarrow> ('db master_fs, unit) op" where
  "master_set_attr E opts path = bind_op (resolved E path) (\<lambda>inp. on_dir (dir_set_attr E inp opts))"

definition master_symlink ::
  "('db, 'b) meta_env \<Rightarrow> string \<Rightarrow> string \<Rightarrow> bool \<Rightarrow> u32 \<Rightarrow> ('db master_fs, unit) op" where
  "master_symlink E target lnk force mode =
     bind_op (resolved E lnk) (\<lambda>inp. on_dir (symlink E target inp force mode))"

definition master_link :: "('db, 'b) meta_env \<Rightarrow> string \<Rightarrow> string \<Rightarrow> ('db master_fs, unit) op" where
  "master_link E src_path dst_path =
     bind_op (resolved E src_path) (\<lambda>src.
     bind_op (resolved E dst_path) (\<lambda>dst. on_dir (link E src dst)))"

end
