(* ===== verification/Fs_Spec.thy ===== *)
theory Fs_Spec
  imports Fs_Dir_Ops Master_Fs
begin

text \<open>
  What the requests of \<^verbatim>\<open>MasterFilesystem\<close> promise. The abstract file system is a map from paths to
  directories and files with their ids; a request is specified by a relation between two such maps.
  Every successful request on a consistent state meets its specification and leaves a consistent
  state: the tree in memory, the inodes and the edges in the store and the id counter agree.
\<close>

subsection \<open>The abstract file system\<close>

datatype kind = KDir i64 | KFile i64

type_synonym afs = "string list \<Rightarrow> kind option"

fun kid :: "kind \<Rightarrow> i64" where
  "kid (KDir i) = i"
| "kid (KFile i) = i"

fun kind_of :: "node \<Rightarrow> kind" where
  "kind_of (NDir d) = KDir (d_id d)"
| "kind_of (NEntry i) = KFile i"
| "kind_of (NFile f) = KFile (f_id f)"

definition kinds :: "fs_map \<Rightarrow> afs" where
  "kinds L p = map_option kind_of (L p)"

definition fs_view :: "'db master_fs \<Rightarrow> afs" where
  "fs_view s = kinds (paths (mf_dir s))"

definition fresh_id :: "afs \<Rightarrow> i64 \<Rightarrow> bool" where
  "fresh_id A i \<longleftrightarrow> (\<forall>q k. A q = Some k \<longrightarrow> kid k \<noteq> i)"

text \<open>A new node at \<open>p\<close>, with directories where its ancestors were missing.\<close>

definition add_path :: "string list \<Rightarrow> (kind \<Rightarrow> bool) \<Rightarrow> afs \<Rightarrow> afs \<Rightarrow> bool" where
  "add_path p leaf A A' \<longleftrightarrow> A p = None \<and> (\<forall>q. A q \<noteq> None \<longrightarrow> A' q = A q) \<and>
     (\<forall>q. A q = None \<longrightarrow>
        (if q = p then \<exists>k. A' q = Some k \<and> leaf k
         else if prefix q p then \<exists>i. A' q = Some (KDir i) \<and> fresh_id A i
         else A' q = None))"

definition remove_path :: "string list \<Rightarrow> afs \<Rightarrow> afs" where
  "remove_path p A = (\<lambda>q. if prefix p q then None else A q)"

definition move_path :: "string list \<Rightarrow> string list \<Rightarrow> afs \<Rightarrow> afs" where
  "move_path p t A =
     (\<lambda>q. if prefix t q then A (p @ drop (length t) q) else if prefix p q then None else A q)"

text \<open>The components of a path after the root.\<close>

definition path_of :: "string \<Rightarrow> string list" where
  "path_of path = (case path_components path of Inr cs \<Rightarrow> tl cs | Inl _ \<Rightarrow> [])"

subsection \<open>Requests\<close>

datatype request =
    Mkdir mkdir_opts string
  | Create create_file_opts string
  | Delete string bool
  | Rename string string
  | Append create_file_opts string
  | AddBlock string client_address "commit_blk option" "u32 list"
  | Complete string i64 "commit_blk option" string
  | Symlink string string bool u32
  | Link string string

definition ignore :: "('s, 'a) op \<Rightarrow> ('s, unit) op" where
  "ignore m = bind_op m (\<lambda>_. return ())"

fun serve ::
  "('db, 'b) meta_env \<Rightarrow> (nat \<Rightarrow> (u32 \<times> worker_info) list \<Rightarrow> (u32 \<times> worker_info) list) \<Rightarrow> request \<Rightarrow>
   ('db master_fs, unit) op" where
  "serve E pick (Mkdir opts path) = ignore (mkdir_with_opts E opts path)"
| "serve E pick (Create opts path) = ignore (create_with_opts E opts path)"
| "serve E pick (Delete path recursive) = ignore (master_delete E path recursive)"
| "serve E pick (Rename src dst) = ignore (master_rename E src dst)"
| "serve E pick (Append opts path) = ignore (master_append_file E opts path)"
| "serve E pick (AddBlock path client previous exclude) =
     ignore (master_add_block E pick path client previous exclude)"
| "serve E pick (Complete path len lst client) = ignore (master_complete_file E path len lst client)"
| "serve E pick (Symlink target lnk force mode) = ignore (master_symlink E target lnk force mode)"
| "serve E pick (Link src dst) = ignore (master_link E src dst)"

definition create_spec :: "string list \<Rightarrow> afs \<Rightarrow> afs \<Rightarrow> bool" where
  "create_spec p A A' \<longleftrightarrow>
     (if A p \<noteq> None then A' = A \<and> (\<exists>i. A p = Some (KFile i))
      else add_path p (\<lambda>k. \<exists>i. k = KFile i \<and> fresh_id A i) A A')"

text \<open>The specification of a request that succeeds.\<close>

fun spec :: "request \<Rightarrow> afs \<Rightarrow> afs \<Rightarrow> bool" where
  "spec (Mkdir opts path) A A' =
     (if A (path_of path) \<noteq> None then A' = A
      else add_path (path_of path) (\<lambda>k. \<exists>i. k = KDir i \<and> fresh_id A i) A A')"
| "spec (Create opts path) A A' = create_spec (path_of path) A A'"
| "spec (Delete path recursive) A A' =
     (path_of path \<noteq> [] \<and> A (path_of path) \<noteq> None \<and>
      (\<not> recursive \<longrightarrow> (\<forall>k. A (path_of path @ [k]) = None)) \<and> A' = remove_path (path_of path) A)"
| "spec (Rename src dst) A A' =
     (if src = dst then A' = A
      else let p = path_of src; d = path_of dst;
               t = (if A d = None then d else d @ [last p])
           in p \<noteq> [] \<and> A p \<noteq> None \<and> t \<noteq> [] \<and> (\<exists>i. A (butlast t) = Some (KDir i)) \<and>
              \<not> prefix p (butlast t) \<and> (t = p \<or> A t = None) \<and> A' = move_path p t A)"
| "spec (Append opts path) A A' = create_spec (path_of path) A A'"
| "spec (AddBlock path client previous exclude) A A' =
     (A' = A \<and> (\<exists>i. A (path_of path) = Some (KFile i)))"
| "spec (Complete path len lst client) A A' = (A' = A \<and> (\<exists>i. A (path_of path) = Some (KFile i)))"
| "spec (Symlink target lnk force mode) A A' =
     add_path (path_of lnk) (\<lambda>k. \<exists>i. k = KFile i \<and> fresh_id A i) A A'"
| "spec (Link src dst) A A' =
     (\<exists>i. A (path_of src) = Some (KFile i) \<and> add_path (path_of dst) (\<lambda>k. k = KFile i) A A')"

text \<open>
  What a request relies on. Paths are short enough for the \<^verbatim>\<open>i32\<close> arithmetic of \<^verbatim>\<open>get_inode\<close> and block ids
  are \<^verbatim>\<open>i64\<close> values. Three cases in which the code does not keep the state consistent are left out: deleting
  a directory that holds a link to a file with another link outside, replacing a symbolic link, and more
  than \<open>2 ^ 32 - 1\<close> links to a file.
\<close>

definition short :: "string \<Rightarrow> bool" where
  "short path \<longleftrightarrow> length path < 2 ^ 31 - 1"

fun admissible :: "('db, 'b) meta_env \<Rightarrow> request \<Rightarrow> 'db master_fs \<Rightarrow> bool" where
  "admissible E (Mkdir opts path) s = short path"
| "admissible E (Create opts path) s = short path"
| "admissible E (Delete path recursive) s =
     (short path \<and> (\<forall>e. paths (mf_dir s) (path_of path) = Some (NDir e) \<longrightarrow>
        links_inside (paths (mf_dir s)) (path_of path)))"
| "admissible E (Rename src dst) s = (short src \<and> short dst)"
| "admissible E (Append opts path) s = short path"
| "admissible E (AddBlock path client previous exclude) s =
     (short path \<and> (\<forall>cb. previous = Some cb \<longrightarrow> is_i64 (cb_block_id cb)))"
| "admissible E (Complete path len lst client) s =
     (short path \<and> (\<forall>cb. lst = Some cb \<longrightarrow> is_i64 (cb_block_id cb)))"
| "admissible E (Symlink target lnk force mode) s = (short lnk \<and> paths (mf_dir s) (path_of lnk) = None)"
| "admissible E (Link src dst) s =
     (short src \<and> short dst \<and> (\<forall>i n f. paths (mf_dir s) (path_of src) = Some (NEntry i) \<longrightarrow>
        m_inodes (meta E (mf_dir s)) i = Some (File n f) \<longrightarrow> Suc (unat (f_nlink f)) < 2 ^ 32))"

subsection \<open>From the tree to the abstract file system\<close>

lemma kinds_None [simp]: "kinds L p = None \<longleftrightarrow> L p = None"
  by (simp add: kinds_def)

lemma kinds_Some: "L p = Some x \<Longrightarrow> kinds L p = Some (kind_of x)"
  by (simp add: kinds_def)

lemma kid_kind_of [simp]: "kid (kind_of x) = node_id x"
  by (cases x) simp_all

lemma kind_of_same: "same_node x y \<Longrightarrow> kind_of y = kind_of x"
  by (auto simp: same_node_def)

lemma kinds_dir: "kinds L p = Some (KDir i) \<Longrightarrow> shape_ok L \<Longrightarrow> \<exists>d. L p = Some (NDir d) \<and> d_id d = i"
  by (cases "L p") (auto simp: kinds_def shape_ok_def elim!: kind_of.elims)

lemma fresh_above: "ids_ok L c \<Longrightarrow> c < i \<Longrightarrow> fresh_id (kinds L) i"
  using ids_bound(1) by (fastforce simp: fresh_id_def kinds_def)

lemma kinds_touch: "L q = Some (NDir d) \<Longrightarrow> kinds (L(q \<mapsto> NDir (touch t d))) = kinds L"
  by (auto simp: kinds_def fun_eq_iff)

lemma kinds_cut: "kinds (cut_off p L) = remove_path p (kinds L)"
  by (auto simp: kinds_def cut_off_def remove_path_def fun_eq_iff)

lemma kinds_graft:
  assumes "L p = Some x" "kind_of x' = kind_of x"
  shows "kinds (graft p t x' L) = move_path p t (kinds L)"
  using assms by (auto simp: kinds_def graft_def move_path_def moved_from_def fun_eq_iff)

lemma add_path_grown:
  assumes L: "shape_ok L'" "ids_ok L c" and p: "L p = None" "L' p = Some x" "leaf (kind_of x)"
    and kept: "\<forall>q x. L q = Some x \<longrightarrow> (\<exists>y. L' q = Some y \<and> same_node x y)"
    and new: "\<forall>q y. L q = None \<longrightarrow> L' q = Some y \<longrightarrow> q \<noteq> p \<longrightarrow> prefix q p \<and> c < node_id y"
  shows "add_path p leaf (kinds L) (kinds L')"
  unfolding add_path_def
proof (intro conjI allI impI)
  show "kinds L p = None" using p(1) by simp
  show "kinds L' q = kinds L q" if "kinds L q \<noteq> None" for q
    using that kept kind_of_same by (auto simp: kinds_def) metis
  fix q assume q: "kinds L q = None"
  show "if q = p then \<exists>k. kinds L' q = Some k \<and> leaf k
      else if prefix q p then \<exists>i. kinds L' q = Some (KDir i) \<and> fresh_id (kinds L) i
      else kinds L' q = None"
  proof (cases "q = p")
    case True
    then show ?thesis using p(2,3) by (simp add: kinds_def)
  next
    case False
    show ?thesis
    proof (cases "prefix q p")
      case True
      then obtain r where r: "p = q @ r" "r \<noteq> []" using False by (auto simp: prefix_def)
      then obtain d where d: "L' q = Some (NDir d)" using shape_prefix[OF L(1)] p(2) by blast
      then have "c < d_id d" using new[rule_format, of q "NDir d"] q False by simp
      then show ?thesis using True False d fresh_above[OF L(2)] by (auto simp: kinds_def)
    next
      case np: False
      then show ?thesis using False new q by (cases "L' q") (auto simp: kinds_def)
    qed
  qed
qed

lemma add_path_of_grown:
  assumes "shape_ok L'" "ids_ok L c" "L p = None" "L' p = Some x" "leaf (kind_of x)" "grown p c L L'"
  shows "add_path p leaf (kinds L) (kinds L')"
proof (rule add_path_grown[where c = c and x = x])
  show "\<forall>q x. L q = Some x \<longrightarrow> (\<exists>y. L' q = Some y \<and> same_node x y)"
    "\<forall>q y. L q = None \<longrightarrow> L' q = Some y \<longrightarrow> q \<noteq> p \<longrightarrow> prefix q p \<and> c < node_id y"
    using assms(6) by (auto simp: grown_def)
qed (use assms in blast)+

subsection \<open>Resolved paths\<close>

lemma resolve_path_fields:
  assumes "resolve_path E s path = Inr inp"
  shows "ip_path inp = path" "tl (ip_components inp) = path_of path"
proof -
  obtain cs ptrs where "path_components path = Inr cs"
      "inp = \<lparr>ip_path = path, ip_name = last cs, ip_components = cs, ip_inodes = ptrs\<rparr>"
    using assms unfolding resolve_path_def resolve_def Let_def bind_res_Inr_iff by (auto split: if_splits)
  then show "ip_path inp = path" "tl (ip_components inp) = path_of path" by (simp_all add: path_of_def)
qed

lemma resolved_at:
  assumes "env_ok E" "dir_ok E s" "resolve_path E s path = Inr inp" "short path"
  shows "at_path (paths s) (m_inodes (meta E s)) inp (path_of path)"
  using resolve_at_path[OF assms(1) assms(2)[unfolded dir_ok_def] assms(3)] assms(4)
  unfolding resolve_path_fields(2)[OF assms(3)] short_def by blast

lemma at_path_kind:
  assumes "dir_ok E s" "at_path (paths s) (m_inodes (meta E s)) inp p"
  shows "kinds (paths s) p = None \<longleftrightarrow> \<not> is_full inp" "get_last_inode inp = None \<longleftrightarrow> \<not> is_full inp"
    "ip_is_root inp \<longleftrightarrow> p = []"
proof -
  note shape = fs_invD(1)[OF dir_invD(3)[OF assms(1)[unfolded dir_ok_def]]]
  show "kinds (paths s) p = None \<longleftrightarrow> \<not> is_full inp" using at_path_exists[OF shape assms(2)] by simp
  show "get_last_inode inp = None \<longleftrightarrow> \<not> is_full inp" using at_path_last[OF assms(2)] by simp
  show "ip_is_root inp \<longleftrightarrow> p = []" by (rule at_pathD(9)[OF assms(2)])
qed

lemma on_dir_Inr [op_simps]:
  "on_dir m s = (Inr a, s') \<longleftrightarrow> (\<exists>d. m (mf_dir s) = (Inr a, d) \<and> s' = s\<lparr>mf_dir := d\<rparr>)"
  by (auto simp: on_dir_def split: prod.splits)

lemma resolved_Inr [op_simps]:
  "resolved E path s = (Inr inp, s') \<longleftrightarrow> resolve_path E (mf_dir s) path = Inr inp \<and> s' = s"
  by (auto simp: resolved_def)

lemma return_Inr [op_simps]: "return x s = (Inr y, s') \<longleftrightarrow> y = x \<and> s' = s"
  by (auto simp: return_def)

lemma fail_Inr [op_simps, simp]: "fail msg s \<noteq> (Inr y, s')"
  by (simp add: fail_def)

lemma ignore_Inr [op_simps]: "ignore m s = (Inr (), s') \<longleftrightarrow> (\<exists>a. m s = (Inr a, s'))"
  by (auto simp: ignore_def bind_op_Inr_iff return_Inr)

lemma read_inode_Inr [op_simps]:
  "read_inode ptr s = (Inr v, s') \<longleftrightarrow> deref (fd_root (mf_dir s)) ptr = Some v \<and> s' = s"
  by (auto simp: read_inode_def on_dir_Inr read_ptr_Inr)

lemma check_parent_keeps: "check_parent inp s = (Inr u, s') \<Longrightarrow> s' = s"
  by (auto simp: check_parent_def bind_op_Inr_iff read_inode_Inr return_Inr split: if_splits option.splits)

lemma on_workers_Inr [op_simps]:
  "on_workers f s = (Inr u, s') \<longleftrightarrow> s' = s\<lparr>mf_workers := f (mf_workers s)\<rparr>"
  by (auto simp: on_workers_def)

subsection \<open>Every request meets its specification\<close>

lemma dir_okD:
  assumes "dir_ok E s"
  shows "shape_ok (paths s)" "ids_ok (paths s) (fd_inode_id s)" "fs_inv (paths s) (m_inodes (meta E s)) (m_edges (meta E s)) (fd_inode_id s)"
  using dir_invD(3)[OF assms[unfolded dir_ok_def]] fs_invD by blast+

lemma kinds_file:
  assumes "dir_ok E s" "at_path (paths s) (m_inodes (meta E s)) inp p" "get_last_inode inp = Some ptr"
    "deref (fd_root s) ptr = Some v" "\<not> is_dir v"
  shows "\<exists>i. kinds (paths s) p = Some (KFile i)"
proof -
  obtain i where "paths s p = Some (NEntry i)"
    using file_ptr_read[OF assms(1)[unfolded dir_ok_def] assms(2-5)] by blast
  then show ?thesis by (simp add: kinds_def)
qed

lemma mkdir_step:
  assumes E: "env_ok E" and ok: "dir_ok E (mf_dir s)" and short: "short path"
    and op: "mkdir_with_opts E opts path s = (Inr b, s')"
  shows "dir_ok E (mf_dir s') \<and> mf_workers s' = mf_workers s \<and> spec (Mkdir opts path) (fs_view s) (fs_view s')"
proof -
  let ?p = "path_of path" and ?L = "paths (mf_dir s)"
  obtain inp where inp: "resolve_path E (mf_dir s) path = Inr inp"
    using op by (auto simp: mkdir_with_opts_def bind_op_Inr_iff resolved_Inr)
  note at = resolved_at[OF E ok inp short]
  note kind = at_path_kind[OF ok at]
  show ?thesis
  proof (cases "is_full inp")
    case True
    then have "s' = s" using op inp by (auto simp: mkdir_with_opts_def bind_op_Inr_iff resolved_Inr return_Inr split: if_splits)
    then show ?thesis using ok True kind(1) by (simp add: fs_view_def)
  next
    case False
    then obtain inp' d where mk: "mkdir E opts inp (mf_dir s) = (Inr inp', d)" "s' = s\<lparr>mf_dir := d\<rparr>"
      using op inp by (auto simp: mkdir_with_opts_def bind_op_Inr_iff resolved_Inr return_Inr on_dir_Inr
          split: if_splits dest!: check_parent_keeps)
    have none: "?L ?p = None" using False kind(1) by simp
    note m = mkdir_ok[OF E ok at mk(1)]
    then obtain e where e: "paths d ?p = Some (NDir e)" using none by auto
    have gr: "grown ?p (fd_inode_id (mf_dir s)) ?L (paths d)" using m by blast
    have "fd_inode_id (mf_dir s) < node_id (NDir e)" using gr none e by (rule grown_new)
    then have "fresh_id (kinds ?L) (d_id e)" using fresh_above[OF dir_okD(2)[OF ok]] by simp
    then have "add_path ?p (\<lambda>k. \<exists>i. k = KDir i \<and> fresh_id (kinds ?L) i) (kinds ?L) (kinds (paths d))"
      using add_path_of_grown[of "paths d" ?L "fd_inode_id (mf_dir s)" ?p "NDir e"] m dir_okD[OF ok] dir_okD(1)[of E d] none e by simp
    then show ?thesis using m none mk(2) by (simp add: fs_view_def)
  qed
qed

lemma empty_dir_kids:
  assumes ok: "dir_ok E s" and at: "at_path (paths s) (m_inodes (meta E s)) inp p" and full: "is_full inp"
    and emp: "is_empty_dir (fd_root s) inp"
  shows "paths s (p @ [n]) = None"
proof -
  note shape = dir_okD(1)[OF ok]
  obtain y where y: "paths s p = Some y" "node_ptr (m_inodes (meta E s)) p y (last (ip_inodes inp))"
    using at_pathD(6)[OF at, of "length p"] at_pathD(3,8)[OF at] full by (auto simp: last_conv_nth)
  have last: "get_last_inode inp = Some (last (ip_inodes inp))" using at_path_last[OF at] full by simp
  show ?thesis
  proof (cases y)
    case (NDir d)
    obtain k m where "tree_get (fd_root s) p = Some (dir_map k d m)"
      using dir_invD(1)[OF ok[unfolded dir_ok_def]] y(1)[unfolded NDir] by (rule dir_at)
    moreover from this have "m = []"
      using emp last y(2) NDir by (simp add: is_empty_dir_def deref_def children_len_def)
    ultimately show ?thesis by (simp add: lookup_append)
  next
    case (NEntry i)
    then show ?thesis using shape_below_entry[OF shape, of p i "p @ [n]"] y(1) by (simp add: strict_prefix_def)
  qed (use y(2) in simp)
qed

lemma delete_step:
  assumes E: "env_ok E" and ok: "dir_ok E (mf_dir s)" and short: "short path"
    and ins: "\<forall>e. paths (mf_dir s) (path_of path) = Some (NDir e) \<longrightarrow> links_inside (paths (mf_dir s)) (path_of path)"
    and op: "master_delete E path recursive s = (Inr b, s')"
  shows "dir_ok E (mf_dir s') \<and> wg_worker_map (mf_workers s') = wg_worker_map (mf_workers s) \<and>
    spec (Delete path recursive) (fs_view s) (fs_view s')"
proof -
  let ?p = "path_of path" and ?d = "mf_dir s"
  obtain inp res d where inp: "resolve_path E ?d path = Inr inp" "is_empty_dir (fd_root ?d) inp \<or> recursive"
      "delete E recursive inp ?d = (Inr res, d)" "s' = s\<lparr>mf_dir := d, mf_workers := manager_remove_blocks res (mf_workers s)\<rparr>"
    using op unfolding master_delete_def
    by (auto simp: bind_op_Inr_iff resolved_Inr on_dir_Inr on_workers_Inr return_Inr split: if_splits)
  note at = resolved_at[OF E ok inp(1) short]
  let ?s0 = "?d\<lparr>fd_tick := Suc (fd_tick ?d)\<rparr>" and ?t = "fd_clock ?d (fd_tick ?d)"
  obtain d1 jw where un: "unprotected_delete E ?t inp ?s0 = (Inr res, d1)" "d = d1\<lparr>fd_journal := jw\<rparr>"
    using inp(3) by (auto simp: delete_def bind_op_Inr_iff now_ms_Inr on_journal_Inr split: if_splits)
  have s0: "dir_inv E ?s0 (fd_inode_id ?d)" "at_path (paths ?s0) (m_inodes (meta E ?s0)) inp ?p"
    using ok at by (simp_all add: dir_ok_def dir_inv_def)
  have ins0: "links_inside (paths ?s0) ?p" if "paths ?s0 ?p = Some (NDir e)" for e using ins that by simp
  obtain q k e where q: "?p = q @ [k]" "paths ?s0 q = Some (NDir e)" "paths ?s0 ?p \<noteq> None"
      "paths d1 = cut_off ?p ((paths ?s0)(q \<mapsto> NDir (touch ?t e)))" "dir_inv E d1 (fd_inode_id ?d)"
      "fd_inode_id d1 = fd_inode_id ?s0"
    using E s0 ins0 un(1) by (rule unprotected_delete_ok)
  have "dir_ok E d" using q(5,6) un(2) by (simp add: dir_ok_def dir_inv_def)
  moreover have "kinds (paths d) = remove_path ?p (kinds (paths ?d))"
    using q(2,4) un(2) by (simp add: kinds_cut kinds_touch)
  moreover have "paths ?d (?p @ [n]) = None" if "\<not> recursive" for n
    using empty_dir_kids[OF ok at] at_path_kind(1)[OF ok at] inp(2) that q(3) by simp
  ultimately show ?thesis using q(1,3) inp(4) by (simp add: fs_view_def manager_remove_blocks_def)
qed

lemma rename_step:
  assumes E: "env_ok E" and ok: "dir_ok E (mf_dir s)" and short: "short src" "short dst"
    and op: "master_rename E src dst s = (Inr b, s')"
  shows "dir_ok E (mf_dir s') \<and> mf_workers s' = mf_workers s \<and> spec (Rename src dst) (fs_view s) (fs_view s')"
proof (cases "src = dst")
  case True
  then have "s' = s" using op unfolding master_rename_def
    by (auto simp: bind_op_Inr_iff resolved_Inr return_Inr split: if_splits)
  then show ?thesis using ok True by simp
next
  case False
  let ?p = "path_of src" and ?p2 = "path_of dst" and ?d = "mf_dir s"
  obtain si di d where inp: "resolve_path E ?d src = Inr si" "resolve_path E ?d dst = Inr di"
      "rename E si di ?d = (Inr True, d)" "s' = s\<lparr>mf_dir := d\<rparr>"
    using op False unfolding master_rename_def rename_def
    by (auto simp: bind_op_Inr_iff resolved_Inr on_dir_Inr return_Inr split: if_splits)
  let ?s0 = "?d\<lparr>fd_tick := Suc (fd_tick ?d)\<rparr>" and ?t = "fd_clock ?d (fd_tick ?d)"
  obtain d1 jw where un: "unprotected_rename E ?t si di ?s0 = (Inr (), d1)" "d = d1\<lparr>fd_journal := jw\<rparr>"
    using inp(3) by (auto simp: rename_def bind_op_Inr_iff now_ms_Inr on_journal_Inr)
  have s0: "dir_inv E ?s0 (fd_inode_id ?d)" "at_path (paths ?s0) (m_inodes (meta E ?s0)) si ?p"
      "at_path (paths ?s0) (m_inodes (meta E ?s0)) di ?p2"
    using ok resolved_at[OF E ok inp(1) short(1)] resolved_at[OF E ok inp(2) short(2)]
    by (simp_all add: dir_ok_def dir_inv_def)
  obtain q k e x r l g where q: "?p = q @ [k]" "paths ?s0 q = Some (NDir e)" "paths ?s0 ?p = Some x"
      "paths ?s0 r = Some (NDir g)" "paths ?s0 ?p2 = None \<and> ?p2 = r @ [l] \<or> ?p2 = r \<and> l = k"
      "\<not> prefix ?p r" "r @ [l] = ?p \<or> paths ?s0 (r @ [l]) = None"
      "paths d1 = graft ?p (r @ [l]) (moved_attrs ?t (d_id g) x)
         ((paths ?s0)(q \<mapsto> NDir (touch ?t e), r \<mapsto> NDir (touch ?t g)))"
      "dir_inv E d1 (fd_inode_id ?d)" "fd_inode_id d1 = fd_inode_id ?s0"
    using E s0 un(1) by (rule unprotected_rename_ok)
  let ?L = "(paths ?d)(q \<mapsto> NDir (touch ?t e), r \<mapsto> NDir (touch ?t g))"
  have ne: "?p \<noteq> q" "?p \<noteq> r" using q(1,6) by auto
  have kL: "kinds ?L = kinds (paths ?d)"
  proof
    fix u show "kinds ?L u = kinds (paths ?d) u" using q(2,4) by (auto simp: kinds_def)
  qed
  have "kind_of (moved_attrs ?t (d_id g) x) = kind_of x" by (cases x) simp_all
  moreover have "?L ?p = Some x" using q(3) ne by simp
  ultimately have view: "kinds (paths d) = move_path ?p (r @ [l]) (kinds (paths ?d))"
    using kinds_graft[of ?L ?p x "moved_attrs ?t (d_id g) x" "r @ [l]"] q(8) un(2) kL by simp
  have t: "(if kinds (paths ?d) ?p2 = None then ?p2 else ?p2 @ [last ?p]) = r @ [l]"
    using q(1,4,5) by auto
  have "kinds (paths ?d) r = Some (KDir (d_id g))" using q(4) by (simp add: kinds_def)
  then have "spec (Rename src dst) (fs_view s) (fs_view s')"
    using False q(1,3,6,7) view inp(4) unfolding fs_view_def spec.simps Let_def t by auto
  moreover have "dir_ok E d" using q(9,10) un(2) by (simp add: dir_ok_def dir_inv_def)
  ultimately show ?thesis using inp(4) by simp
qed

lemma dir_file_status_keeps: "dir_file_status inp s = (Inr st, s') \<Longrightarrow> s' = s"
  by (auto simp: dir_file_status_def bind_op_Inr_iff read_ptr_Inr split: option.splits if_splits)

lemma create_Inr:
  assumes "create_with_opts E opts path s = (Inr st, s')"
  obtains inp where "resolve_path E (mf_dir s) path = Inr inp"
    "(\<exists>inp' d. create_file E opts inp (mf_dir s) = (Inr inp', d) \<and> s' = s\<lparr>mf_dir := d\<rparr>) \<or>
     get_last_inode inp \<noteq> None \<and> (\<exists>res inp' d wg. overwrite_file E opts inp (mf_dir s) = (Inr (res, inp'), d) \<and>
       s' = s\<lparr>mf_dir := d, mf_workers := wg\<rparr> \<and> wg_worker_map wg = wg_worker_map (mf_workers s))"
proof -
  obtain inp inp' s1 where op: "resolve_path E (mf_dir s) path = Inr inp"
      "create_or_overwrite E opts inp s = (Inr inp', s1)" "on_dir (dir_file_status inp') s1 = (Inr st, s')"
    using assms unfolding create_with_opts_def Let_def
    by (auto simp: bind_op_Inr_iff resolved_Inr read_inode_Inr return_Inr split: if_splits option.splits
        dest!: check_parent_keeps)
  have s': "s' = s1" using op(3) dir_file_status_keeps by (fastforce simp: on_dir_Inr)
  show thesis
  proof (cases "get_last_inode inp \<noteq> None \<and> flag_overwrite (co_create_flag opts)")
    case True
    then obtain res inp2 d where ow: "overwrite_file E opts inp (mf_dir s) = (Inr (res, inp2), d)"
        "(if dr_blocks res \<noteq> [] then bind_op (on_workers (manager_remove_blocks res)) (\<lambda>_. return inp2)
          else return inp2) (s\<lparr>mf_dir := d\<rparr>) = (Inr inp', s1)"
      using op(2) by (auto simp: create_or_overwrite_def bind_op_Inr_iff on_dir_Inr)
    have "\<exists>wg. s1 = s\<lparr>mf_dir := d, mf_workers := wg\<rparr> \<and> wg_worker_map wg = wg_worker_map (mf_workers s)"
    proof (cases "dr_blocks res \<noteq> []")
      case True
      then show ?thesis
        using ow(2) by (auto simp: bind_op_Inr_iff on_workers_Inr return_Inr manager_remove_blocks_def)
    next
      case False
      then show ?thesis
        using ow(2) by (intro exI[of _ "mf_workers s"]) (simp add: return_Inr)
    qed
    then show thesis using that[OF op(1)] True ow(1) s' by blast
  next
    case False
    then show thesis using that[OF op(1)] op(2) s' by (auto simp: create_or_overwrite_def on_dir_Inr)
  qed
qed

lemma create_step:
  assumes E: "env_ok E" and ok: "dir_ok E (mf_dir s)" and short: "short path"
    and op: "create_with_opts E opts path s = (Inr st, s')"
  shows "dir_ok E (mf_dir s') \<and> wg_worker_map (mf_workers s') = wg_worker_map (mf_workers s) \<and>
    create_spec (path_of path) (fs_view s) (fs_view s')"
proof -
  let ?p = "path_of path" and ?L = "paths (mf_dir s)"
  obtain inp where inp: "resolve_path E (mf_dir s) path = Inr inp"
    "(\<exists>inp' d. create_file E opts inp (mf_dir s) = (Inr inp', d) \<and> s' = s\<lparr>mf_dir := d\<rparr>) \<or>
     get_last_inode inp \<noteq> None \<and> (\<exists>res inp' d wg. overwrite_file E opts inp (mf_dir s) = (Inr (res, inp'), d) \<and>
       s' = s\<lparr>mf_dir := d, mf_workers := wg\<rparr> \<and> wg_worker_map wg = wg_worker_map (mf_workers s))"
    using op by (rule create_Inr)
  note at = resolved_at[OF E ok inp(1) short]
  from inp(2) show ?thesis
  proof (elim disjE exE conjE)
    fix inp' d assume cr: "create_file E opts inp (mf_dir s) = (Inr inp', d)" "s' = s\<lparr>mf_dir := d\<rparr>"
    note c = create_file_ok[OF E ok at cr(1)]
    then obtain i where i: "paths d ?p = Some (NEntry i)" "fd_inode_id (mf_dir s) < i" by blast
    have none: "?L ?p = None" and gr: "grown ?p (fd_inode_id (mf_dir s)) ?L (paths d)" and okd: "dir_ok E d" using c by blast+
    have "fresh_id (kinds ?L) i" using fresh_above[OF dir_okD(2)[OF ok] i(2)] .
    then have "add_path ?p (\<lambda>k. \<exists>i. k = KFile i \<and> fresh_id (kinds ?L) i) (kinds ?L) (kinds (paths d))"
      using add_path_of_grown[of "paths d" ?L "fd_inode_id (mf_dir s)" ?p "NEntry i"] gr dir_okD[OF ok] dir_okD(1)[OF okd] none i(1)
      by simp
    then show ?thesis using okd none cr(2) by (simp add: fs_view_def create_spec_def)
  next
    fix res inp' d wg assume ow: "overwrite_file E opts inp (mf_dir s) = (Inr (res, inp'), d)"
      "s' = s\<lparr>mf_dir := d, mf_workers := wg\<rparr>" "wg_worker_map wg = wg_worker_map (mf_workers s)"
    from overwrite_file_ok[OF E ok at ow(1)] show ?thesis
      using ow(2,3) by (auto simp: fs_view_def create_spec_def kinds_def)
  qed
qed

lemma append_step:
  assumes E: "env_ok E" and ok: "dir_ok E (mf_dir s)" and short: "short path"
    and op: "master_append_file E opts path s = (Inr st, s')"
  shows "dir_ok E (mf_dir s') \<and> wg_worker_map (mf_workers s') = wg_worker_map (mf_workers s) \<and>
    create_spec (path_of path) (fs_view s) (fs_view s')"
proof -
  let ?p = "path_of path"
  obtain inp where inp: "resolve_path E (mf_dir s) path = Inr inp"
      "(\<exists>st. create_with_opts E opts path s = (Inr st, s')) \<or>
       (\<exists>lb fs d. append_file E inp (co_client_name opts) (mf_dir s) = (Inr (lb, fs), d) \<and> s' = s\<lparr>mf_dir := d\<rparr>)"
    using op unfolding master_append_file_def
    by (auto simp: bind_op_Inr_iff resolved_Inr return_Inr on_dir_Inr split: if_splits option.splits)
  note at = resolved_at[OF E ok inp(1) short]
  from inp(2) show ?thesis
  proof (elim disjE exE conjE)
    fix st assume "create_with_opts E opts path s = (Inr st, s')"
    then show ?thesis by (rule create_step[OF E ok short])
  next
    fix lb fs d assume ap: "append_file E inp (co_client_name opts) (mf_dir s) = (Inr (lb, fs), d)" "s' = s\<lparr>mf_dir := d\<rparr>"
    from append_file_ok[OF E ok at ap(1)] show ?thesis
      using ap(2) by (auto simp: fs_view_def create_spec_def kinds_def)
  qed
qed

lemma add_block_step:
  assumes E: "env_ok E" and ok: "dir_ok E (mf_dir s)" and short: "short path"
    and com: "\<forall>cb. previous = Some cb \<longrightarrow> is_i64 (cb_block_id cb)"
    and op: "master_add_block E pick path client previous exclude s = (Inr lb, s')"
  shows "dir_ok E (mf_dir s') \<and> wg_worker_map (mf_workers s') = wg_worker_map (mf_workers s) \<and>
    fs_view s' = fs_view s \<and> (\<exists>i. fs_view s (path_of path) = Some (KFile i))"
proof -
  obtain inp ctx s1 ws s2 b d where st: "resolve_path E (mf_dir s) path = Inr inp"
      "validate_add_block inp client previous exclude s = (Inr ctx, s1)" "choose_on_workers pick ctx s1 = (Inr ws, s2)"
      "acquire_new_block E inp previous ws (mf_dir s2) = (Inr b, d)" "s' = s2\<lparr>mf_dir := d\<rparr>"
    using op unfolding master_add_block_def
    by (auto simp: bind_op_Inr_iff resolved_Inr return_Inr on_dir_Inr)
  have s1: "s1 = s" using st(2) unfolding validate_add_block_def
    by (auto simp: bind_op_Inr_iff read_inode_Inr return_Inr split: option.splits if_splits)
  have s2: "mf_dir s2 = mf_dir s" "wg_worker_map (mf_workers s2) = wg_worker_map (mf_workers s)"
    using st(3) s1 by (auto simp: choose_on_workers_def choose_worker_def split: prod.splits sum.splits)
  note at = resolved_at[OF E ok st(1) short]
  from acquire_new_block_ok[OF E ok at com st(4)[unfolded s2(1)]] show ?thesis
    using st(5) s2 by (auto simp: fs_view_def kinds_def)
qed

lemma complete_step:
  assumes E: "env_ok E" and ok: "dir_ok E (mf_dir s)" and short: "short path"
    and com: "\<forall>cb. lst = Some cb \<longrightarrow> is_i64 (cb_block_id cb)"
    and op: "master_complete_file E path len lst client s = (Inr b, s')"
  shows "dir_ok E (mf_dir s') \<and> mf_workers s' = mf_workers s \<and> fs_view s' = fs_view s \<and>
    (\<exists>i. fs_view s (path_of path) = Some (KFile i))"
proof -
  obtain inp ptr v where st: "resolve_path E (mf_dir s) path = Inr inp" "get_last_inode inp = Some ptr"
      "deref (fd_root (mf_dir s)) ptr = Some v" "is_file v"
      "s' = s \<or> (\<exists>d. complete_file E inp len lst (mf_dir s) = (Inr b, d) \<and> s' = s\<lparr>mf_dir := d\<rparr>)"
    using op unfolding master_complete_file_def
    by (auto simp: bind_op_Inr_iff resolved_Inr read_inode_Inr return_Inr on_dir_Inr split: option.splits if_splits)
  note at = resolved_at[OF E ok st(1) short]
  have "\<not> is_dir v" using st(4) by (simp add: is_file_def)
  note fk = kinds_file[OF ok at st(2,3) this]
  from st(5) show ?thesis
  proof (elim disjE exE conjE)
    fix d assume c: "complete_file E inp len lst (mf_dir s) = (Inr b, d)" "s' = s\<lparr>mf_dir := d\<rparr>"
    from complete_file_ok[OF E ok at com c(1)] show ?thesis
      using c(2) fk by (auto simp: fs_view_def kinds_def)
  qed (use ok fk in \<open>simp add: fs_view_def\<close>)
qed

lemma symlink_step:
  assumes E: "env_ok E" and ok: "dir_ok E (mf_dir s)" and short: "short lnk"
    and none: "paths (mf_dir s) (path_of lnk) = None"
    and op: "master_symlink E target lnk force mode s = (Inr u, s')"
  shows "dir_ok E (mf_dir s') \<and> mf_workers s' = mf_workers s \<and>
    spec (Symlink target lnk force mode) (fs_view s) (fs_view s')"
proof -
  let ?p = "path_of lnk" and ?L = "paths (mf_dir s)"
  obtain inp d where st: "resolve_path E (mf_dir s) lnk = Inr inp" "symlink E target inp force mode (mf_dir s) = (Inr (), d)"
      "s' = s\<lparr>mf_dir := d\<rparr>"
    using op by (auto simp: master_symlink_def bind_op_Inr_iff resolved_Inr on_dir_Inr)
  note at = resolved_at[OF E ok st(1) short]
  note c = symlink_ok[OF E ok at none st(2)]
  then obtain i where i: "paths d ?p = Some (NEntry i)" "fd_inode_id (mf_dir s) < i" by blast
  have gr: "grown ?p (fd_inode_id (mf_dir s)) ?L (paths d)" and okd: "dir_ok E d" using c by blast+
  have "fresh_id (kinds ?L) i" using fresh_above[OF dir_okD(2)[OF ok] i(2)] .
  then have "add_path ?p (\<lambda>k. \<exists>i. k = KFile i \<and> fresh_id (kinds ?L) i) (kinds ?L) (kinds (paths d))"
    using add_path_of_grown[of "paths d" ?L "fd_inode_id (mf_dir s)" ?p "NEntry i"] gr dir_okD[OF ok] dir_okD(1)[OF okd] none i(1)
    by simp
  then show ?thesis using okd st(3) by (simp add: fs_view_def)
qed

lemma link_step:
  assumes E: "env_ok E" and ok: "dir_ok E (mf_dir s)" and short: "short src" "short dst"
    and lim: "\<forall>i n f. paths (mf_dir s) (path_of src) = Some (NEntry i) \<longrightarrow>
      m_inodes (meta E (mf_dir s)) i = Some (File n f) \<longrightarrow> Suc (unat (f_nlink f)) < 2 ^ 32"
    and op: "master_link E src dst s = (Inr u, s')"
  shows "dir_ok E (mf_dir s') \<and> mf_workers s' = mf_workers s \<and> spec (Link src dst) (fs_view s) (fs_view s')"
proof -
  let ?p = "path_of src" and ?p2 = "path_of dst" and ?L = "paths (mf_dir s)"
  obtain si di d where st: "resolve_path E (mf_dir s) src = Inr si" "resolve_path E (mf_dir s) dst = Inr di"
      "link E si di (mf_dir s) = (Inr (), d)" "s' = s\<lparr>mf_dir := d\<rparr>"
    using op by (auto simp: master_link_def bind_op_Inr_iff resolved_Inr on_dir_Inr)
  obtain i n f where f: "?L ?p = Some (NEntry i)" "m_inodes (meta E (mf_dir s)) i = Some (File n f)" "f_file_type f = FtFile"
      "Suc (unat (f_nlink f)) < 2 ^ 32 \<longrightarrow> ?L ?p2 = None \<and> dir_ok E d \<and> paths d ?p2 = Some (NEntry i) \<and>
      m_inodes (meta E d) i = Some (File n (increment_nlink f)) \<and>
      (\<forall>q x. ?L q = Some x \<longrightarrow> (\<exists>y. paths d q = Some y \<and> same_node x y)) \<and>
      (\<forall>q y. ?L q = None \<longrightarrow> paths d q = Some y \<longrightarrow> prefix q ?p2 \<and> (q \<noteq> ?p2 \<longrightarrow> fd_inode_id (mf_dir s) < node_id y))"
    using E ok resolved_at[OF E ok st(1) short(1)] resolved_at[OF E ok st(2) short(2)] st(3) by (rule link_ok)
  have few: "Suc (unat (f_nlink f)) < 2 ^ 32" using lim f(1,2) by blast
  have res: "?L ?p2 = None" "dir_ok E d" "paths d ?p2 = Some (NEntry i)"
      "\<forall>q x. ?L q = Some x \<longrightarrow> (\<exists>y. paths d q = Some y \<and> same_node x y)"
      "\<forall>q y. ?L q = None \<longrightarrow> paths d q = Some y \<longrightarrow> q \<noteq> ?p2 \<longrightarrow> prefix q ?p2 \<and> fd_inode_id (mf_dir s) < node_id y"
    using f(4)[rule_format, OF few] by blast+
  have "add_path ?p2 (\<lambda>k. k = KFile i) (kinds ?L) (kinds (paths d))"
    using add_path_grown[of "paths d" ?L "fd_inode_id (mf_dir s)" ?p2 "NEntry i" "\<lambda>k. k = KFile i"]
      dir_okD(1)[OF res(2)] dir_okD(2)[OF ok] res by simp
  then show ?thesis using res(2) st(4) f(1) by (auto simp: fs_view_def kinds_def)
qed

subsection \<open>The simulation and the reachable states\<close>

definition fs_ok :: "('db, 'b) meta_env \<Rightarrow> 'db master_fs \<Rightarrow> bool" where
  "fs_ok E s \<longleftrightarrow> dir_ok E (mf_dir s) \<and> manager_ok (mf_workers s)"

inductive fs_step ::
  "('db, 'b) meta_env \<Rightarrow> (nat \<Rightarrow> (u32 \<times> worker_info) list \<Rightarrow> (u32 \<times> worker_info) list) \<Rightarrow> request \<Rightarrow>
   'db master_fs \<Rightarrow> 'db master_fs \<Rightarrow> bool"
  for E pick where
  step: "serve E pick r s = (Inr (), s') \<Longrightarrow> admissible E r s \<Longrightarrow> fs_step E pick r s s'"

inductive_cases fs_stepE: "fs_step E pick r s s'"

inductive fs_reach ::
  "('db, 'b) meta_env \<Rightarrow> (nat \<Rightarrow> (u32 \<times> worker_info) list \<Rightarrow> (u32 \<times> worker_info) list) \<Rightarrow>
   'db master_fs \<Rightarrow> 'db master_fs \<Rightarrow> bool"
  for E pick s0 where
  init: "fs_reach E pick s0 s0"
| request: "fs_reach E pick s0 s \<Longrightarrow> fs_step E pick r s s' \<Longrightarrow> fs_reach E pick s0 s'"

lemma step_simulates:
  assumes E: "env_ok E" and ok: "fs_ok E s" and st: "fs_step E pick r s s'"
  shows "fs_ok E s' \<and> spec r (fs_view s) (fs_view s')"
proof -
  have d: "dir_ok E (mf_dir s)" and w: "manager_ok (mf_workers s)" using ok by (simp_all add: fs_ok_def)
  have adm: "admissible E r s" and sv: "serve E pick r s = (Inr (), s')" using st by (auto elim: fs_stepE)
  have "dir_ok E (mf_dir s') \<and> wg_worker_map (mf_workers s') = wg_worker_map (mf_workers s) \<and> spec r (fs_view s) (fs_view s')"
  proof (cases r)
    case (Mkdir opts path)
    then show ?thesis using mkdir_step[OF E d, of path opts] adm sv by (auto simp: ignore_Inr)
  next
    case (Create opts path)
    then show ?thesis using create_step[OF E d, of path opts] adm sv by (auto simp: ignore_Inr)
  next
    case (Delete path rec)
    then show ?thesis using delete_step[OF E d, of path rec] adm sv by (auto simp: ignore_Inr simp del: spec.simps)
  next
    case (Rename src dst)
    then show ?thesis using rename_step[OF E d, of src dst] adm sv by (auto simp: ignore_Inr simp del: spec.simps)
  next
    case (Append opts path)
    then show ?thesis using append_step[OF E d, of path opts] adm sv by (auto simp: ignore_Inr)
  next
    case (AddBlock path client previous exclude)
    then show ?thesis using add_block_step[OF E d, of path previous pick client exclude] adm sv by (auto simp: ignore_Inr)
  next
    case (Complete path len lst client)
    then show ?thesis using complete_step[OF E d, of path lst len client] adm sv by (auto simp: ignore_Inr)
  next
    case (Symlink target lnk force mode)
    then show ?thesis using symlink_step[OF E d, of lnk target force mode] adm sv by (auto simp: ignore_Inr simp del: spec.simps)
  next
    case (Link src dst)
    then show ?thesis using link_step[OF E d, of src dst] adm sv by (auto simp: ignore_Inr simp del: spec.simps)
  qed
  then show ?thesis using w by (simp add: fs_ok_def manager_ok_def)
qed

lemma reach_ok: "fs_reach E pick s0 s \<Longrightarrow> env_ok E \<Longrightarrow> fs_ok E s0 \<Longrightarrow> fs_ok E s"
  by (induction rule: fs_reach.induct) (use step_simulates in blast)+

end
