(* ===== verification/Fs_Example.thy ===== *)
theory Fs_Example
  imports Fs_Spec
begin

text \<open>
  A concrete file system to evaluate the operations on: the database in memory, values stored
  as they are, and a clock that ticks once per reading. The laws assumed of the database and of the
  serialization hold for it.
\<close>

datatype blob = BRaw bytes | BInode inode_view | BLoc block_location | BId i64 | BMount mount_info

definition ex_env :: "(blob mem_db, blob) meta_env" where
  "ex_env =
     \<lparr>me_rocks = mem_rocks BRaw (\<lambda>b. case b of BRaw bs \<Rightarrow> bs | _ \<Rightarrow> []),
      me_ser_inode = (\<lambda>v. Inr (BInode v)),
      me_de_inode = (\<lambda>b. case b of BInode v \<Rightarrow> Inr (strip v) | _ \<Rightarrow> Inl (Common [])),
      me_ser_loc = (\<lambda>v. Inr (BLoc v)),
      me_de_loc = (\<lambda>b. case b of BLoc v \<Rightarrow> Inr v | _ \<Rightarrow> Inl (Common [])),
      me_ser_i64 = (\<lambda>v. Inr (BId v)),
      me_de_i64 = (\<lambda>b. case b of BId v \<Rightarrow> Inr v | _ \<Rightarrow> Inl (Common [])),
      me_ser_mount = (\<lambda>v. Inr (BMount v)),
      me_de_mount = (\<lambda>b. case b of BMount v \<Rightarrow> Inr v | _ \<Rightarrow> Inl (Common []))\<rparr>"

lemma ex_env_ok: "env_ok ex_env"
  by (simp add: env_ok_def ex_env_def mem_rocks_ok)

definition ex_fs :: "blob mem_db fs_dir" where
  "ex_fs =
     \<lparr>fd_root = create_root, fd_inode_id = ROOT_INODE_ID,
      fd_store = \<lparr>st_db = [], st_file_num = 0, st_dir_num = 0, st_ttl = bucket_list_new 60000\<rparr>,
      fd_journal = \<lparr>jw_enable = True, jw_receiver = True, jw_entries = []\<rparr>,
      fd_clock = (\<lambda>n. 1000 + int n), fd_tick = 0\<rparr>"

lemma empty_paths: "lookup create_root = [[] \<mapsto> NDir (dir_new ROOT_INODE_ID 0)]"
proof
  fix p show "lookup create_root p = [[] \<mapsto> NDir (dir_new ROOT_INODE_ID 0)] p"
    by (cases p) (simp_all add: create_root_def new_map_def)
qed

lemma empty_store_inv:
  "fs_inv [[] \<mapsto> NDir (dir_new ROOT_INODE_ID 0)] (\<lambda>_. None) (\<lambda>_ _. None) ROOT_INODE_ID"
  by (auto simp: fs_inv_def shape_ok_def ids_ok_def edges_ok_def dirs_ok_def files_ok_def keys_ok_def
      dir_new_def is_i64_def ROOT_INODE_ID_def split: if_splits)

lemma ex_fs_ok: "dir_ok ex_env ex_fs"
proof -
  have "store_metas ex_env (fd_store ex_fs) =
      \<lparr>m_inodes = (\<lambda>_. None), m_edges = (\<lambda>_ _. None), m_locs = (\<lambda>_ _. None), m_wlocs = (\<lambda>_ _. None), m_mounts = (\<lambda>_. None)\<rparr>"
    by (auto simp: store_metas_def metas_of_def ex_env_def ex_fs_def mem_rocks_def mem_view_def decode_def fun_eq_iff)
  moreover have "tree_ok create_root"
    by (auto simp: create_root_def new_map_def map_inv_def intro!: tree_ok_DirI)
  ultimately show ?thesis
    using empty_store_inv by (simp add: dir_ok_def dir_inv_def empty_paths ex_fs_def ROOT_INODE_ID_def)
qed

definition ex_pick :: "nat \<Rightarrow> 'a list \<Rightarrow> 'a list" where
  "ex_pick n xs = take n xs"

lemma ex_pick_ok: "pick_ok ex_pick"
  unfolding pick_ok_def ex_pick_def
  by (metis append_take_drop_id length_take min.commute mset_append mset_subset_eq_add_left)

definition ex_address :: worker_address where
  "ex_address = \<lparr>wa_worker_id = 1, wa_hostname = ''h'', wa_ip_addr = ''i'', wa_rpc_port = 8995, wa_web_port = 9001\<rparr>"

definition ex_storage :: storage_info where
  "ex_storage = \<lparr>si_dir_id = 1, si_storage_id = ''d'', si_failed = False, si_capacity = 2 ^ 40, si_fs_used = 0,
     si_non_fs_used = 0, si_available = 2 ^ 40, si_reserved_bytes = 0, si_storage_type = Disk, si_block_num = 0\<rparr>"

definition ex_workers :: worker_manager where
  "ex_workers = snd (heartbeat 1000 ''c'' HbStart ex_address [ex_storage] (worker_manager_new ''c'' (Robin 0)))"

definition ex_master :: "blob mem_db master_fs" where
  "ex_master =
     \<lparr>mf_dir = ex_fs, mf_workers = ex_workers,
      mf_conf = \<lparr>mc_min_block_size = 2 ^ 20, mc_max_block_size = 2 ^ 30, mc_min_replication = 1,
        mc_max_replication = 4, mc_max_path_len = 50, mc_max_path_depth = 10\<rparr>\<rparr>"

lemma ex_workers_ok: "manager_ok ex_workers"
  unfolding ex_workers_def
  by (rule heartbeat_ok) (simp add: manager_ok_def worker_manager_new_def worker_map_new_def worker_map_ok_def
      workers_ok_def im_ok_def)

lemma ex_master_ok: "fs_ok ex_env ex_master"
  by (simp add: fs_ok_def ex_master_def ex_fs_ok ex_workers_ok)

text \<open>Running requests on it.\<close>

definition ex_after :: "request \<Rightarrow> blob mem_db master_fs \<Rightarrow> blob mem_db master_fs" where
  "ex_after r s = snd (serve ex_env ex_pick r s)"

definition ex_ok :: "request \<Rightarrow> blob mem_db master_fs \<Rightarrow> bool" where
  "ex_ok r s \<longleftrightarrow> (case fst (serve ex_env ex_pick r s) of Inr _ \<Rightarrow> True | Inl _ \<Rightarrow> False)"

lemma ex_okD: "ex_ok r s \<Longrightarrow> serve ex_env ex_pick r s = (Inr (), ex_after r s)"
  by (cases "serve ex_env ex_pick r s") (auto simp: ex_ok_def ex_after_def split: sum.splits)

lemma ex_step: "ex_ok r s \<Longrightarrow> admissible ex_env r s \<Longrightarrow> fs_step ex_env ex_pick r s (ex_after r s)"
  by (intro fs_step.step ex_okD)

definition ex_dir :: request where "ex_dir = Mkdir (mkdir_with_create True) ''/a/b''"
definition ex_file :: request where "ex_file = Create (create_with_create True) ''/a/f''"

definition ex_s1 :: "blob mem_db master_fs" where "ex_s1 = ex_after ex_dir ex_master"
definition ex_s2 :: "blob mem_db master_fs" where "ex_s2 = ex_after ex_file ex_s1"

lemma ex_run1: "ex_ok ex_dir ex_master"
  by code_simp

lemma ex_run2: "ex_ok ex_file ex_s1"
  by code_simp

lemma ex_s1_step: "fs_step ex_env ex_pick ex_dir ex_master ex_s1"
  unfolding ex_s1_def by (rule ex_step[OF ex_run1]) (simp add: ex_dir_def short_def)

lemma ex_s2_step: "fs_step ex_env ex_pick ex_file ex_s1 ex_s2"
  unfolding ex_s2_def by (rule ex_step[OF ex_run2]) (simp add: ex_file_def short_def)

lemma ex_s1_ok: "fs_ok ex_env ex_s1"
  using step_simulates[OF ex_env_ok ex_master_ok ex_s1_step] by blast

lemma ex_s2_ok: "fs_ok ex_env ex_s2"
  using step_simulates[OF ex_env_ok ex_s1_ok ex_s2_step] by blast

lemma ex_reach: "fs_reach ex_env ex_pick ex_master ex_s2"
  by (rule fs_reach.request[OF fs_reach.request[OF fs_reach.init ex_s1_step] ex_s2_step])

end
