(* ===== verification/Curvine_Path.thy ===== *)
theory Curvine_Path
  imports Inode_View "HOL-Library.Sublist"
begin

text \<open>
  \<^verbatim>\<open>Path\<close> of \<^verbatim>\<open>curvine-common/src/fs/path.rs\<close>: normalisation, the components of a path, the prefix test
  and the candidate mount points. The URI parser (\<^verbatim>\<open>hyper::Uri\<close>) is a parameter of the model: a record
  of the parser, the builder and the printer, with what the code relies on in \<open>uri_ok\<close>. The lemmas
  reduce every routine to the list of the non-empty pieces of a path.
\<close>

subsection \<open>Normalisation\<close>

text \<open>\<^verbatim>\<open>SLASHES.replace_all(path, "/")\<close>: every run of separators becomes one.\<close>

fun replace_slashes :: "string \<Rightarrow> string" where
  "replace_slashes [] = []"
| "replace_slashes [c] = [c]"
| "replace_slashes (c # d # cs) =
     (if c = PATH_SEPARATOR \<and> d = PATH_SEPARATOR then replace_slashes (d # cs)
      else c # replace_slashes (d # cs))"

definition ends_with :: "char \<Rightarrow> string \<Rightarrow> bool" where
  "ends_with c s = (s \<noteq> [] \<and> last s = c)"

definition trim_end_matches :: "char \<Rightarrow> string \<Rightarrow> string" where
  "trim_end_matches c s = rev (dropWhile (\<lambda>x. x = c) (rev s))"

definition normalize_path :: "string \<Rightarrow> string" where
  "normalize_path path =
     (let p = replace_slashes path in
      if length p > 1 \<and> ends_with PATH_SEPARATOR p then trim_end_matches PATH_SEPARATOR p else p)"

definition get_components :: "string \<Rightarrow> string list" where
  "get_components path =
     (let p = normalize_path path in
      if p = [PATH_SEPARATOR] then [] else split_on PATH_SEPARATOR p)"

fun same_components :: "string list \<Rightarrow> string list \<Rightarrow> nat \<Rightarrow> bool" where
  "same_components [] path_cs i = True"
| "same_components (component # cs) path_cs i =
     (if component \<noteq> path_cs ! i then False
      else same_components cs path_cs (i + 1))"

definition has_prefix :: "string \<Rightarrow> string \<Rightarrow> bool" where
  "has_prefix path pre =
     (let path_cs = get_components path; prefix_cs = get_components pre in
      if length path_cs < length prefix_cs then False
      else same_components prefix_cs path_cs 0)"

subsection \<open>Path\<close>

record uri =
  uri_scheme :: "string option"
  uri_authority :: "string option"
  uri_path :: string

record uri_env =
  ue_parse :: "string \<Rightarrow> uri res"
  ue_build :: "string option \<Rightarrow> string option \<Rightarrow> string \<Rightarrow> uri res"
  ue_show :: "uri \<Rightarrow> string"

record path =
  pa_uri :: uri
  pa_full_path :: string

definition path_from_str :: "uri_env \<Rightarrow> string \<Rightarrow> path res" where
  "path_from_str U s =
     bind_res (ue_parse U s) (\<lambda>pre_uri.
     bind_res (ue_build U (uri_scheme pre_uri) (uri_authority pre_uri)
                 (normalize_path (uri_path pre_uri))) (\<lambda>uri.
     Inr \<lparr>pa_uri = uri, pa_full_path = ue_show U uri\<rparr>))"

definition path_path :: "path \<Rightarrow> string" where
  "path_path p = uri_path (pa_uri p)"

definition is_cv :: "path \<Rightarrow> bool" where
  "is_cv p = (uri_scheme (pa_uri p) = None \<or> uri_scheme (pa_uri p) = Some ''cv'')"

text \<open>The text after the last separator.\<close>

definition path_name :: "path \<Rightarrow> string" where
  "path_name p =
     (if PATH_SEPARATOR \<in> set (path_path p) then last (split_on PATH_SEPARATOR (path_path p)) else [])"

definition normalize_uri :: "path \<Rightarrow> string option" where
  "normalize_uri p =
     (case uri_scheme (pa_uri p) of None \<Rightarrow> None | Some scheme \<Rightarrow>
      (case uri_authority (pa_uri p) of None \<Rightarrow> None | Some authority \<Rightarrow>
       (let path = normalize_path (path_path p) in
        if path = [PATH_SEPARATOR] then Some (scheme @ ''://'' @ authority)
        else Some (scheme @ ''://'' @ authority @ path))))"

definition path_parent :: "uri_env \<Rightarrow> path \<Rightarrow> path option res" where
  "path_parent U p =
     (if PATH_SEPARATOR \<in> set (pa_full_path p) then
        bind_res (path_from_str U (join_with PATH_SEPARATOR (butlast (split_on PATH_SEPARATOR (pa_full_path p)))))
          (\<lambda>res. Inr (Some res))
      else Inr None)"

fun possible_mounts_loop :: "string \<Rightarrow> string list \<Rightarrow> string list" where
  "possible_mounts_loop current_path [] = []"
| "possible_mounts_loop current_path (part # parts) =
     (let current_path' =
            (if ends_with PATH_SEPARATOR current_path then current_path
             else current_path @ [PATH_SEPARATOR]) @ part in
      current_path' # possible_mounts_loop current_path' parts)"

definition get_possible_mounts :: "path \<Rightarrow> string list" where
  "get_possible_mounts p =
     (let parts = split_on PATH_SEPARATOR (path_path p);
          current_path = (case uri_scheme (pa_uri p) of
              Some v \<Rightarrow> v @ ''://'' @ (case uri_authority (pa_uri p) of None \<Rightarrow> [] | Some a \<Rightarrow> a)
            | None \<Rightarrow> [PATH_SEPARATOR]) in
      possible_mounts_loop current_path parts)"

definition display_path :: "path \<Rightarrow> string" where
  "display_path p = (if is_cv p then path_path p else pa_full_path p)"

subsection \<open>The pieces of a path\<close>

definition pieces :: "string \<Rightarrow> string list" where
  "pieces p = filter (\<lambda>x. x \<noteq> []) (split_on PATH_SEPARATOR p)"

definition proper :: "string list \<Rightarrow> bool" where
  "proper cs \<longleftrightarrow> (\<forall>c\<in>set cs. c \<noteq> [] \<and> PATH_SEPARATOR \<notin> set c)"

definition abs_path :: "string list \<Rightarrow> string" where
  "abs_path cs = PATH_SEPARATOR # join_with PATH_SEPARATOR cs"

lemma proper_pieces [simp]: "proper (pieces p)"
  by (auto simp: proper_def pieces_def dest: split_on_pieces)

lemma pieces_sep [simp]: "pieces (PATH_SEPARATOR # p) = pieces p"
  by (simp add: pieces_def)

lemma pieces_Nil [simp]: "pieces [] = []"
  by (simp add: pieces_def)

lemma pieces_join:
  assumes "proper cs"
  shows "pieces (join_with PATH_SEPARATOR cs) = cs"
proof (cases "cs = []")
  case False
  then have "split_on PATH_SEPARATOR (join_with PATH_SEPARATOR cs) = cs"
    using assms by (intro split_on_join_with) (auto simp: proper_def)
  then show ?thesis using assms by (auto simp: pieces_def proper_def filter_id_conv)
qed simp

lemma pieces_abs_path [simp]: "proper cs \<Longrightarrow> pieces (abs_path cs) = cs"
  by (simp add: abs_path_def pieces_join)

lemma proper_append [simp]: "proper (xs @ ys) \<longleftrightarrow> proper xs \<and> proper ys"
  by (auto simp: proper_def)

lemma join_with_last:
  "cs \<noteq> [] \<Longrightarrow> last cs \<noteq> [] \<Longrightarrow>
   join_with c cs \<noteq> [] \<and> last (join_with c cs) = last (last cs)"
  by (induction c cs rule: join_with.induct) auto

lemma join_proper_end:
  "proper cs \<Longrightarrow> cs \<noteq> [] \<Longrightarrow>
   join_with PATH_SEPARATOR cs \<noteq> [] \<and> last (join_with PATH_SEPARATOR cs) \<noteq> PATH_SEPARATOR"
  using join_with_last [of cs PATH_SEPARATOR] last_in_set [of cs] last_in_set [of "last cs"]
  unfolding proper_def by metis

definition lead :: "string \<Rightarrow> string" where
  "lead p = (case p of c # _ \<Rightarrow> if c = PATH_SEPARATOR then [c] else [] | [] \<Rightarrow> [])"

definition trail :: "string \<Rightarrow> string" where
  "trail p = (if pieces p \<noteq> [] \<and> last p = PATH_SEPARATOR then [PATH_SEPARATOR] else [])"

lemma split_on_Cons_other:
  "c \<noteq> x \<Longrightarrow> split_on c (x # p) = (x # hd (split_on c p)) # tl (split_on c p)"
  by (cases "split_on c p") simp_all

lemma pieces_Cons_sep:
  "c \<noteq> PATH_SEPARATOR \<Longrightarrow> pieces (c # PATH_SEPARATOR # p) = [c] # pieces p"
  by (simp add: pieces_def)

lemma pieces_Cons_other:
  assumes "c \<noteq> PATH_SEPARATOR" "d \<noteq> PATH_SEPARATOR"
  shows "pieces (d # p) \<noteq> []" and
    "pieces (c # d # p) = (c # hd (pieces (d # p))) # tl (pieces (d # p))"
  using assms by (simp_all add: pieces_def split_on_Cons_other split: list.splits)

lemma pieces_empty: "pieces p = [] \<longleftrightarrow> set p \<subseteq> {PATH_SEPARATOR}"
proof (induction p)
  case (Cons c p)
  show ?case
  proof (cases "c = PATH_SEPARATOR")
    case True
    with Cons show ?thesis by simp
  next
    case False
    then show ?thesis
      unfolding pieces_def by (subst split_on_Cons_other) simp_all
  qed
qed simp

lemma replace_slashes_pieces:
  "replace_slashes p = lead p @ join_with PATH_SEPARATOR (pieces p) @ trail p"
proof (induction p rule: replace_slashes.induct)
  case 1
  show ?case by (simp add: lead_def trail_def)
next
  case (2 c)
  show ?case by (simp add: lead_def trail_def pieces_def)
next
  case (3 c d cs)
  let ?S = PATH_SEPARATOR
  show ?case
  proof (cases "c = ?S")
    case c: True
    show ?thesis
    proof (cases "d = ?S")
      case True
      with 3(1) c show ?thesis by (simp add: lead_def trail_def)
    next
      case False
      with 3(2) c show ?thesis by (simp add: lead_def trail_def)
    qed
  next
    case c: False
    show ?thesis
    proof (cases "d = ?S")
      case True
      show ?thesis
      proof (cases "pieces cs = []")
        case False
        then have "cs \<noteq> []" by auto
        with 3(2) c True False show ?thesis
          by (simp add: lead_def trail_def pieces_Cons_sep join_with_Cons)
      next
        case pc: True
        then have "cs = [] \<or> last cs = ?S" using pieces_empty[of cs] last_in_set[of cs] by blast
        with 3(2) c True pc show ?thesis
          by (auto simp: lead_def trail_def pieces_Cons_sep)
      qed
    next
      case False
      note pcs = pieces_Cons_other[OF c False, of cs]
      from 3(2) c False pcs show ?thesis
        by (cases "pieces (d # cs)") (simp_all add: lead_def trail_def join_with_Cons_head)
    qed
  qed
qed

subsection \<open>Normal forms\<close>

lemma trim_end_keep: "xs = [] \<or> last xs \<noteq> c \<Longrightarrow> trim_end_matches c xs = xs"
  by (cases xs rule: rev_cases) (simp_all add: trim_end_matches_def)

lemma trim_end_snoc [simp]: "trim_end_matches c (xs @ [c]) = trim_end_matches c xs"
  by (simp add: trim_end_matches_def)

lemma lead_sep: "lead p = [] \<or> lead p = [PATH_SEPARATOR]"
  by (cases p) (simp_all add: lead_def)

lemma normalize_path_pieces:
  "normalize_path p = lead p @ join_with PATH_SEPARATOR (pieces p)"
proof (cases "pieces p = []")
  case True
  then show ?thesis
    using lead_sep[of p] by (auto simp: normalize_path_def replace_slashes_pieces trail_def)
next
  case False
  let ?j = "lead p @ join_with PATH_SEPARATOR (pieces p)"
  have j: "?j \<noteq> []" "last ?j \<noteq> PATH_SEPARATOR"
    using join_proper_end[OF proper_pieces False] by simp_all
  show ?thesis
  proof (cases "trail p = []")
    case True
    then have "replace_slashes p = ?j" by (simp add: replace_slashes_pieces)
    then show ?thesis using j by (simp only: normalize_path_def Let_def ends_with_def) simp
  next
    case False
    then have "replace_slashes p = ?j @ [PATH_SEPARATOR]"
      by (simp add: replace_slashes_pieces trail_def split: if_splits)
    moreover have "length (?j @ [PATH_SEPARATOR]) > 1" using j(1) by (cases ?j) simp_all
    ultimately show ?thesis
      using trim_end_keep[of ?j PATH_SEPARATOR] j
      by (simp only: normalize_path_def Let_def ends_with_def trim_end_snoc) simp
  qed
qed

lemma normalize_path_abs: "normalize_path (PATH_SEPARATOR # p) = abs_path (pieces p)"
  by (simp add: normalize_path_pieces lead_def abs_path_def)

lemma pieces_normalize [simp]: "pieces (normalize_path p) = pieces p"
  using lead_sep[of p] by (auto simp: normalize_path_pieces pieces_join)

lemma lead_normalize [simp]: "lead (normalize_path p) = lead p"
proof (cases p)
  case (Cons c q)
  show ?thesis
  proof (cases "c = PATH_SEPARATOR")
    case True
    with Cons show ?thesis by (simp add: normalize_path_abs abs_path_def) (simp add: lead_def)
  next
    case False
    then obtain x xs where "pieces p = (c # x) # xs"
      using Cons unfolding pieces_def by (simp add: split_on_Cons_other del: split_on.simps)
    with Cons False show ?thesis
      by (simp add: normalize_path_pieces lead_def join_with_Cons_head)
  qed
qed (simp add: normalize_path_pieces lead_def)

lemma normalize_path_idem: "normalize_path (normalize_path p) = normalize_path p"
  by (simp add: normalize_path_pieces[of "normalize_path p"]) (simp add: normalize_path_pieces)

lemma normalize_abs_path [simp]: "proper cs \<Longrightarrow> normalize_path (abs_path cs) = abs_path cs"
  by (simp add: abs_path_def normalize_path_abs pieces_join)

lemma split_abs_path:
  "proper cs \<Longrightarrow> split_on PATH_SEPARATOR (abs_path cs) = [] # (if cs = [] then [[]] else cs)"
  by (auto simp: abs_path_def proper_def intro!: split_on_join_with)

lemma abs_path_eq_sep: "proper cs \<Longrightarrow> abs_path cs = [PATH_SEPARATOR] \<longleftrightarrow> cs = []"
  using join_proper_end[of cs] by (auto simp: abs_path_def)

lemma abs_path_inject: "proper cs \<Longrightarrow> proper ds \<Longrightarrow> abs_path cs = abs_path ds \<longleftrightarrow> cs = ds"
  by (metis pieces_abs_path)

lemma get_components_abs:
  "proper cs \<Longrightarrow> get_components (abs_path cs) = (if cs = [] then [] else [] # cs)"
  by (simp add: get_components_def abs_path_eq_sep split_abs_path)

lemma same_components_prefix:
  "i + length cs \<le> length ps \<Longrightarrow> same_components cs ps i \<longleftrightarrow> prefix cs (drop i ps)"
proof (induction cs arbitrary: i)
  case (Cons c cs)
  then have "drop i ps = ps ! i # drop (i + 1) ps" by (simp add: Cons_nth_drop_Suc)
  with Cons show ?case by auto
qed simp

lemma has_prefix_iff: "has_prefix path pre \<longleftrightarrow> prefix (get_components pre) (get_components path)"
  using same_components_prefix[of 0 "get_components pre" "get_components path"] prefix_length_le
  by (force simp: has_prefix_def Let_def not_less)

lemma has_prefix_abs:
  "proper cs \<Longrightarrow> proper ds \<Longrightarrow> has_prefix (abs_path cs) (abs_path ds) \<longleftrightarrow> prefix ds cs"
  by (auto simp: has_prefix_iff get_components_abs)

lemma has_prefix_refl [simp]: "has_prefix p p"
  by (simp add: has_prefix_iff)

lemma has_prefix_trans: "has_prefix p q \<Longrightarrow> has_prefix q r \<Longrightarrow> has_prefix p r"
  unfolding has_prefix_iff by (rule prefix_order.trans)

lemma has_prefix_comparable: "has_prefix p q \<Longrightarrow> has_prefix p r \<Longrightarrow> has_prefix q r \<or> has_prefix r q"
  unfolding has_prefix_iff using prefix_same_cases by blast

subsection \<open>Candidate mount points\<close>

lemma ends_with_abs_path:
  "proper cs \<Longrightarrow> ends_with PATH_SEPARATOR (b @ abs_path cs) \<longleftrightarrow> cs = []"
  using join_proper_end[of cs] by (auto simp: ends_with_def abs_path_def)

lemma abs_path_snoc:
  "abs_path (xs @ [c]) = (if xs = [] then abs_path xs else abs_path xs @ [PATH_SEPARATOR]) @ c"
proof -
  have "join_with PATH_SEPARATOR (xs @ [c]) =
        (if xs = [] then [] else join_with PATH_SEPARATOR xs @ [PATH_SEPARATOR]) @ c"
    by (induction xs) (auto simp: join_with_Cons)
  then show ?thesis by (simp add: abs_path_def)
qed

lemma possible_mounts_loop_abs:
  "proper (xs @ cs) \<Longrightarrow>
   possible_mounts_loop (b @ abs_path xs) cs =
   map (\<lambda>ds. b @ abs_path (xs @ ds)) (tl (prefixes cs))"
proof (induction cs arbitrary: xs)
  case (Cons c cs)
  have eq: "(if ends_with PATH_SEPARATOR (b @ abs_path xs) then b @ abs_path xs
         else (b @ abs_path xs) @ [PATH_SEPARATOR]) @ c = b @ abs_path (xs @ [c])"
    using Cons.prems by (simp add: ends_with_abs_path abs_path_snoc)
  have "proper ((xs @ [c]) @ cs)" using Cons.prems by simp
  from Cons.IH[OF this] show ?case
    unfolding possible_mounts_loop.simps Let_def eq
    by (cases cs) (simp_all add: comp_def)
qed simp

text \<open>The candidates of a path in normal form are its prefixes, the shortest first; the root appears
  once more at the end of the list of the root itself.\<close>

definition mount_base :: "uri \<Rightarrow> string" where
  "mount_base u =
     (case uri_scheme u of
        Some v \<Rightarrow> v @ ''://'' @ (case uri_authority u of None \<Rightarrow> [] | Some a \<Rightarrow> a)
      | None \<Rightarrow> [])"

lemma get_possible_mounts_abs:
  assumes "proper cs" "path_path p = abs_path cs"
    and "mount_base (pa_uri p) = [] \<or> \<not> ends_with PATH_SEPARATOR (mount_base (pa_uri p))"
  shows "set (get_possible_mounts p) =
         (\<lambda>ds. mount_base (pa_uri p) @ abs_path ds) ` {ds. prefix ds cs}"
proof -
  let ?b = "mount_base (pa_uri p)"
  let ?parts = "if cs = [] then [[]] else cs"
  have first: "get_possible_mounts p = (?b @ abs_path []) # possible_mounts_loop (?b @ abs_path []) ?parts"
    using assms unfolding get_possible_mounts_def assms(2) split_abs_path[OF assms(1)] Let_def
    by (cases "uri_scheme (pa_uri p)")
       (auto simp: mount_base_def ends_with_def abs_path_def Let_def split: option.splits)
  show ?thesis
  proof (cases "cs = []")
    case True
    have "possible_mounts_loop (?b @ abs_path []) [[]] = [?b @ abs_path []]"
      by (simp add: ends_with_def abs_path_def)
    with True first show ?thesis by simp
  next
    case False
    have "prefixes cs = [] # tl (prefixes cs)" using False by (cases cs) simp_all
    then have "{ds. prefix ds cs} = insert [] (set (tl (prefixes cs)))"
      by (metis list.simps(15) set_prefixes_eq)
    with False first possible_mounts_loop_abs[of "[]" cs ?b] assms(1) show ?thesis by simp
  qed
qed

end
