(* ===== verification/Mount_Table.thy ===== *)
theory Mount_Table
  imports Curvine_Path Master_Fs
begin

text \<open>
  Mount points: \<^verbatim>\<open>MountOptions\<close> and the path translation of \<^verbatim>\<open>MountInfo\<close> (\<^verbatim>\<open>common/src/state/mount.rs\<close>),
  the table with its three maps (\<^verbatim>\<open>master/mount/mount_table.rs\<close>) and the manager that creates the
  directory of a mount point and registers it (\<^verbatim>\<open>master/mount/mount_manager.rs\<close>). The lemmas show that
  the three maps always describe one set of mounts, that no mount lies under another, that a lookup
  finds exactly the mount above a path, that the database holds the table and that a restart reads
  it back.
\<close>

subsection \<open>MountInfo and MountOptions\<close>

definition auto_cache :: "mount_info \<Rightarrow> bool" where
  "auto_cache info = (mi_ttl_ms info > 0)"

definition show_int :: "int \<Rightarrow> string" where
  "show_int n = (if n < 0 then CHR ''-'' # show_nat (nat (- n)) else show_nat (nat n))"

text \<open>Integer division of Rust truncates towards zero.\<close>

definition get_ttl :: "mount_info \<Rightarrow> string option" where
  "get_ttl info =
     (if auto_cache info then None
      else Some (show_int (- ((- mi_ttl_ms info) div 1000)) @ ''s''))"

text \<open>\<^verbatim>\<open>str::replacen(pat, "", 1)\<close>.\<close>

fun remove_first :: "string \<Rightarrow> string \<Rightarrow> string" where
  "remove_first pat s =
     (case strip_prefix pat s of
        Some r \<Rightarrow> r
      | None \<Rightarrow> (case s of [] \<Rightarrow> [] | c # cs \<Rightarrow> c # remove_first pat cs))"

declare remove_first.simps [simp del]

definition get_ufs_path :: "uri_env \<Rightarrow> mount_info \<Rightarrow> path \<Rightarrow> path res" where
  "get_ufs_path U info p =
     (if \<not> is_cv p then Inl (Common ''path is not cv path'')
      else path_from_str U (mi_ufs_path info @ ''/'' @ remove_first (mi_cv_path info) (path_path p)))"

definition get_cv_path :: "uri_env \<Rightarrow> mount_info \<Rightarrow> path \<Rightarrow> path res" where
  "get_cv_path U info p =
     (if is_cv p then Inl (Common ''path is not ufs path'')
      else path_from_str U (mi_cv_path info @ ''/'' @ remove_first (mi_ufs_path info) (pa_full_path p)))"

definition toggle_path :: "uri_env \<Rightarrow> mount_info \<Rightarrow> path \<Rightarrow> path res" where
  "toggle_path U info p = (if is_cv p then get_ufs_path U info p else get_cv_path U info p)"

record mount_options =
  mto_update :: bool
  mto_add_properties :: "(string \<times> string) list"
  mto_ttl_ms :: "i64 option"
  mto_ttl_action :: "ttl_action option"
  mto_consistency_strategy :: "consistency_strategy option"
  mto_storage_type :: "storage_type option"
  mto_block_size :: "i64 option"
  mto_replicas :: "int option"
  mto_mount_type :: mount_type
  mto_remove_properties :: "string list"

definition unwrap_or :: "'a option \<Rightarrow> 'a \<Rightarrow> 'a" where
  "unwrap_or v d = (case v of None \<Rightarrow> d | Some x \<Rightarrow> x)"

definition to_info :: "mount_options \<Rightarrow> u32 \<Rightarrow> string \<Rightarrow> string \<Rightarrow> mount_info" where
  "to_info opts mount_id cv_path ufs_path =
     \<lparr>mi_cv_path = cv_path, mi_ufs_path = ufs_path, mi_mount_id = mount_id,
      mi_properties = mto_add_properties opts,
      mi_ttl_ms = unwrap_or (mto_ttl_ms opts) 0,
      mi_ttl_action = unwrap_or (mto_ttl_action opts) TtlNone,
      mi_consistency_strategy = unwrap_or (mto_consistency_strategy opts) CsNone,
      mi_storage_type = mto_storage_type opts, mi_block_size = mto_block_size opts,
      mi_replicas = mto_replicas opts, mi_mount_type = mto_mount_type opts\<rparr>"

subsection \<open>MountTable\<close>

text \<open>The table shares the directory of the file system; both are in the state of the manager.\<close>

record mount_table =
  mt_ufs2mountid :: "(string \<times> u32) list"
  mt_mountid2entry :: "(u32 \<times> mount_info) list"
  mt_mountpath2id :: "(string \<times> u32) list"

record 'db mount_manager =
  mm_fs :: "'db master_fs"
  mm_table :: mount_table

definition mount_table_new :: mount_table where
  "mount_table_new = \<lparr>mt_ufs2mountid = [], mt_mountid2entry = [], mt_mountpath2id = []\<rparr>"

definition on_fs :: "('db master_fs, 'a) op \<Rightarrow> ('db mount_manager, 'a) op" where
  "on_fs m s = (let (r, f) = m (mm_fs s) in (r, s\<lparr>mm_fs := f\<rparr>))"

definition on_table :: "(mount_table, 'a) op \<Rightarrow> ('db mount_manager, 'a) op" where
  "on_table m s = (let (r, t) = m (mm_table s) in (r, s\<lparr>mm_table := t\<rparr>))"

definition mount_exists :: "mount_table \<Rightarrow> string \<Rightarrow> bool" where
  "mount_exists t ufs_path = (map_of (mt_ufs2mountid t) ufs_path \<noteq> None)"

fun conflict_loop :: "mount_info list \<Rightarrow> string \<Rightarrow> unit res" where
  "conflict_loop [] cv_path = Inr ()"
| "conflict_loop (info # infos) cv_path =
     (if has_prefix cv_path (mi_cv_path info) then Inl (Common ''mount point is a prefix'')
      else if has_prefix (mi_cv_path info) cv_path then Inl (Common ''mount point is a prefix'')
      else conflict_loop infos cv_path)"

definition check_conflict :: "mount_table \<Rightarrow> string \<Rightarrow> unit res" where
  "check_conflict t cv_path = conflict_loop (map snd (mt_mountid2entry t)) cv_path"

definition has_mounted :: "mount_table \<Rightarrow> u32 \<Rightarrow> bool" where
  "has_mounted t mount_id = (map_of (mt_mountid2entry t) mount_id \<noteq> None)"

definition mount_point_inuse :: "mount_table \<Rightarrow> string \<Rightarrow> bool" where
  "mount_point_inuse t cv_path = (map_of (mt_mountpath2id t) cv_path \<noteq> None)"

definition unprotected_add_mount :: "mount_info \<Rightarrow> (mount_table, unit) op" where
  "unprotected_add_mount info t =
     (Inr (), \<lparr>mt_ufs2mountid = bt_insert (mi_ufs_path info) (mi_mount_id info) (mt_ufs2mountid t),
               mt_mountid2entry = bt_insert (mi_mount_id info) info (mt_mountid2entry t),
               mt_mountpath2id = bt_insert (mi_cv_path info) (mi_mount_id info) (mt_mountpath2id t)\<rparr>)"

fun restore_loop :: "mount_info list \<Rightarrow> (mount_table, unit) op" where
  "restore_loop [] t = (Inr (), t)"
| "restore_loop (mnt # mounts) t = bind_op (unprotected_add_mount mnt) (\<lambda>_. restore_loop mounts) t"

definition mount_restore :: "('db, 'b) meta_env \<Rightarrow> ('db mount_manager, unit) op" where
  "mount_restore E s =
     (case rocks_get_mount_table E (st_db (fd_store (mf_dir (mm_fs s)))) of
        Inr mounts \<Rightarrow> on_table (restore_loop mounts) s
      | Inl _ \<Rightarrow> (Inr (), s))"

definition table_add_mount ::
  "('db, 'b) meta_env \<Rightarrow> u32 \<Rightarrow> string \<Rightarrow> string \<Rightarrow> mount_options \<Rightarrow> ('db mount_manager, unit) op" where
  "table_add_mount E mount_id cv_path ufs_path mnt_opt s =
     (if mount_exists (mm_table s) ufs_path then fail ''already exists in mount table'' s
      else if mount_point_inuse (mm_table s) cv_path then fail ''already exists in mount table'' s
      else bind_op (lift_res (check_conflict (mm_table s) cv_path)) (\<lambda>_.
           let info = to_info mnt_opt mount_id cv_path ufs_path in
           bind_op (on_table (unprotected_add_mount info)) (\<lambda>_.
           on_fs (on_dir (store_mount E info True)))) s)"

text \<open>Ten draws of the random generator at most.\<close>

definition assign_mount_id :: "(nat \<Rightarrow> u32) \<Rightarrow> mount_table \<Rightarrow> u32 res" where
  "assign_mount_id rng t =
     (case find (\<lambda>new_id. \<not> has_mounted t new_id) (map rng [0..<10]) of
        Some new_id \<Rightarrow> Inr new_id
      | None \<Rightarrow> Inl (Common ''failed assign mount id''))"

definition umount :: "('db, 'b) meta_env \<Rightarrow> string \<Rightarrow> ('db mount_manager, unit) op" where
  "umount E mount_path s =
     (let t = mm_table s in
      case map_of (mt_mountpath2id t) mount_path of
        None \<Rightarrow> fail ''failed found to umount'' s
      | Some mount_id \<Rightarrow>
        (case map_of (mt_mountid2entry t) mount_id of
           None \<Rightarrow> fail ''failed found matched mountentry to umount'' s
         | Some entry \<Rightarrow>
           on_fs (on_dir (dir_unmount E mount_id))
             (s\<lparr>mm_table := \<lparr>mt_ufs2mountid = bt_remove (mi_ufs_path entry) (mt_ufs2mountid t),
                              mt_mountid2entry = bt_remove mount_id (mt_mountid2entry t),
                              mt_mountpath2id = bt_remove mount_path (mt_mountpath2id t)\<rparr>\<rparr>)))"

text \<open>The configuration of an under file system is the map of the properties of its mount.\<close>

definition get_ufs_conf :: "mount_table \<Rightarrow> string \<Rightarrow> (string \<times> string) list res" where
  "get_ufs_conf t ufs_path =
     (case map_of (mt_ufs2mountid t) ufs_path of
        None \<Rightarrow> Inl (Common ''failed found'')
      | Some mount_id \<Rightarrow>
        (case map_of (mt_mountid2entry t) mount_id of
           None \<Rightarrow> Inl (Common ''failed found properties'')
         | Some entry \<Rightarrow> Inr (fold (\<lambda>(k, v). bt_insert k v) (mi_properties entry) [])))"

fun mount_lookup_loop :: "mount_table \<Rightarrow> bool \<Rightarrow> string list \<Rightarrow> mount_info option res" where
  "mount_lookup_loop t cv [] = Inr None"
| "mount_lookup_loop t cv (mnt # mnts) =
     (case (if cv then map_of (mt_mountpath2id t) mnt else map_of (mt_ufs2mountid t) mnt) of
        Some i \<Rightarrow> bind_res (try_option ''value is None'' (map_of (mt_mountid2entry t) i)) (\<lambda>entry. Inr (Some entry))
      | None \<Rightarrow> mount_lookup_loop t cv mnts)"

definition table_get_mount_info :: "mount_table \<Rightarrow> path \<Rightarrow> mount_info option res" where
  "table_get_mount_info t p = mount_lookup_loop t (is_cv p) (get_possible_mounts p)"

definition get_mount_info_by_id :: "mount_table \<Rightarrow> u32 \<Rightarrow> mount_info res" where
  "get_mount_info_by_id t mount_id =
     (case map_of (mt_mountid2entry t) mount_id of
        Some entry \<Rightarrow> Inr entry
      | None \<Rightarrow> Inl (Common ''failed found entry''))"

definition get_mount_table :: "mount_table \<Rightarrow> mount_info list" where
  "get_mount_table t = map snd (mt_mountid2entry t)"

subsection \<open>MountManager\<close>

definition mount_manager_new :: "'db master_fs \<Rightarrow> 'db mount_manager" where
  "mount_manager_new fs = \<lparr>mm_fs = fs, mm_table = mount_table_new\<rparr>"

definition create_mount_point :: "('db, 'b) meta_env \<Rightarrow> string \<Rightarrow> ('db mount_manager, bool) op" where
  "create_mount_point E mount_path =
     bind_op (on_fs (master_exists E mount_path)) (\<lambda>exist.
     if exist then return True
     else bind_op (on_fs (mkdir_with_opts E (mkdir_with_create True) mount_path)) (\<lambda>_. return True))"

definition mount_id_for :: "(nat \<Rightarrow> u32) \<Rightarrow> u32 option \<Rightarrow> ('db mount_manager, u32) op" where
  "mount_id_for rng mnt_id s =
     (case mnt_id of Some i \<Rightarrow> (Inr i, s) | None \<Rightarrow> (assign_mount_id rng (mm_table s), s))"

definition add_mount ::
  "('db, 'b) meta_env \<Rightarrow> (nat \<Rightarrow> u32) \<Rightarrow> u32 option \<Rightarrow> string \<Rightarrow> string \<Rightarrow> mount_options \<Rightarrow>
   ('db mount_manager, unit) op" where
  "add_mount E rng mnt_id mount_path ufs_path mnt_opt =
     bind_op (create_mount_point E mount_path) (\<lambda>_.
     bind_op (mount_id_for rng mnt_id) (\<lambda>assign_id.
     table_add_mount E assign_id mount_path ufs_path mnt_opt))"

definition update_mount ::
  "('db, 'b) meta_env \<Rightarrow> (nat \<Rightarrow> u32) \<Rightarrow> u32 option \<Rightarrow> string \<Rightarrow> string \<Rightarrow> mount_options \<Rightarrow>
   ('db mount_manager, unit) op" where
  "update_mount E rng mnt_id cv_path ufs_path mnt_opt s =
     (if \<not> mount_exists (mm_table s) cv_path
      then fail ''update mode: mount point does not exist'' s
      else bind_op (umount E cv_path) (\<lambda>_.
           bind_op (create_mount_point E cv_path) (\<lambda>_.
           bind_op (mount_id_for rng mnt_id) (\<lambda>assign_id.
           table_add_mount E assign_id cv_path ufs_path mnt_opt))) s)"

definition mount ::
  "('db, 'b) meta_env \<Rightarrow> (nat \<Rightarrow> u32) \<Rightarrow> u32 option \<Rightarrow> string \<Rightarrow> string \<Rightarrow> mount_options \<Rightarrow>
   ('db mount_manager, unit) op" where
  "mount E rng mnt_id cv_path ufs_path mnt_opt =
     (if mto_update mnt_opt then update_mount E rng mnt_id cv_path ufs_path mnt_opt
      else add_mount E rng mnt_id cv_path ufs_path mnt_opt)"

definition unmount_by_id :: "('db, 'b) meta_env \<Rightarrow> u32 \<Rightarrow> ('db mount_manager, unit) op" where
  "unmount_by_id E i s =
     bind_op (lift_res (get_mount_info_by_id (mm_table s) i)) (\<lambda>info. umount E (mi_cv_path info)) s"

subsection \<open>The three maps describe one set of mounts\<close>

abbreviation mount_of :: "mount_table \<Rightarrow> u32 \<Rightarrow> mount_info option" where
  "mount_of t \<equiv> map_of (mt_mountid2entry t)"

definition mounts_ok :: "mount_table \<Rightarrow> bool" where
  "mounts_ok t \<longleftrightarrow>
     keys_sorted (mt_ufs2mountid t) \<and> keys_sorted (mt_mountid2entry t) \<and> keys_sorted (mt_mountpath2id t) \<and>
     (\<forall>i m. mount_of t i = Some m \<longrightarrow> mi_mount_id m = i) \<and>
     (\<forall>p i. map_of (mt_mountpath2id t) p = Some i \<longleftrightarrow> (\<exists>m. mount_of t i = Some m \<and> mi_cv_path m = p)) \<and>
     (\<forall>p i. map_of (mt_ufs2mountid t) p = Some i \<longleftrightarrow> (\<exists>m. mount_of t i = Some m \<and> mi_ufs_path m = p)) \<and>
     (\<forall>i j m n. mount_of t i = Some m \<and> mount_of t j = Some n \<and> i \<noteq> j \<longrightarrow>
        \<not> has_prefix (mi_cv_path m) (mi_cv_path n))"

lemma mounts_okD:
  assumes "mounts_ok t"
  shows "keys_sorted (mt_ufs2mountid t)" "keys_sorted (mt_mountid2entry t)"
    "keys_sorted (mt_mountpath2id t)"
    "mount_of t i = Some m \<Longrightarrow> mi_mount_id m = i"
    "map_of (mt_mountpath2id t) p = Some i \<longleftrightarrow> (\<exists>m. mount_of t i = Some m \<and> mi_cv_path m = p)"
    "map_of (mt_ufs2mountid t) p = Some i \<longleftrightarrow> (\<exists>m. mount_of t i = Some m \<and> mi_ufs_path m = p)"
    "mount_of t i = Some m \<Longrightarrow> mount_of t j = Some n \<Longrightarrow> i \<noteq> j \<Longrightarrow>
       \<not> has_prefix (mi_cv_path m) (mi_cv_path n)"
  using assms unfolding mounts_ok_def by blast+

lemma mounts_okI:
  assumes "keys_sorted (mt_ufs2mountid t)" "keys_sorted (mt_mountid2entry t)"
    and "keys_sorted (mt_mountpath2id t)"
    and "\<And>i m. mount_of t i = Some m \<Longrightarrow> mi_mount_id m = i"
    and "\<And>p i. map_of (mt_mountpath2id t) p = Some i \<longleftrightarrow> (\<exists>m. mount_of t i = Some m \<and> mi_cv_path m = p)"
    and "\<And>p i. map_of (mt_ufs2mountid t) p = Some i \<longleftrightarrow> (\<exists>m. mount_of t i = Some m \<and> mi_ufs_path m = p)"
    and "\<And>i j m n. mount_of t i = Some m \<Longrightarrow> mount_of t j = Some n \<Longrightarrow> i \<noteq> j \<Longrightarrow>
       \<not> has_prefix (mi_cv_path m) (mi_cv_path n)"
  shows "mounts_ok t"
  unfolding mounts_ok_def using assms by blast

lemma mounts_ok_new: "mounts_ok mount_table_new"
  by (simp add: mounts_ok_def mount_table_new_def)

lemma conflict_loop_Inr:
  "conflict_loop infos p = Inr u \<longleftrightarrow>
   (\<forall>m\<in>set infos. \<not> has_prefix p (mi_cv_path m) \<and> \<not> has_prefix (mi_cv_path m) p)"
  by (induction infos) auto

lemma check_conflict_Inr:
  assumes "mounts_ok t"
  shows "check_conflict t p = Inr u \<longleftrightarrow>
    (\<forall>i m. mount_of t i = Some m \<longrightarrow> \<not> has_prefix p (mi_cv_path m) \<and> \<not> has_prefix (mi_cv_path m) p)"
proof -
  have "m \<in> snd ` set (mt_mountid2entry t) \<longleftrightarrow> (\<exists>i. mount_of t i = Some m)" for m
    using map_of_sorted_iff[OF mounts_okD(2)[OF assms]] by force
  then show ?thesis unfolding check_conflict_def conflict_loop_Inr list.set_map by blast
qed

text \<open>A table entry that clashes with none can be added.\<close>

definition mountable :: "mount_table \<Rightarrow> mount_info \<Rightarrow> bool" where
  "mountable t info \<longleftrightarrow>
     mount_of t (mi_mount_id info) = None \<and>
     map_of (mt_ufs2mountid t) (mi_ufs_path info) = None \<and>
     (\<forall>i m. mount_of t i = Some m \<longrightarrow>
        \<not> has_prefix (mi_cv_path info) (mi_cv_path m) \<and> \<not> has_prefix (mi_cv_path m) (mi_cv_path info))"

lemma unprotected_add_mount_ok:
  assumes "mounts_ok t" "mountable t info"
  shows "mounts_ok (snd (unprotected_add_mount info t))"
proof -
  have free: "map_of (mt_mountpath2id t) (mi_cv_path info) = None"
  proof (rule ccontr)
    assume "map_of (mt_mountpath2id t) (mi_cv_path info) \<noteq> None"
    then obtain i m where "mount_of t i = Some m" "mi_cv_path m = mi_cv_path info"
      using assms(1) unfolding mounts_ok_def by blast
    with assms(2) show False unfolding mountable_def by (metis has_prefix_refl)
  qed
  let ?t = "snd (unprotected_add_mount info t)"
  note ok = mounts_okD[OF assms(1)]
  note new = assms(2)[unfolded mountable_def]
  have maps [simp]: "mount_of ?t = (mount_of t)(mi_mount_id info \<mapsto> info)"
    "map_of (mt_mountpath2id ?t) = (map_of (mt_mountpath2id t))(mi_cv_path info \<mapsto> mi_mount_id info)"
    "map_of (mt_ufs2mountid ?t) = (map_of (mt_ufs2mountid t))(mi_ufs_path info \<mapsto> mi_mount_id info)"
    by (simp_all add: unprotected_add_mount_def)
  show ?thesis
  proof (rule mounts_okI)
    show "keys_sorted (mt_ufs2mountid ?t)" "keys_sorted (mt_mountid2entry ?t)"
      "keys_sorted (mt_mountpath2id ?t)"
      using ok(1-3) by (simp_all add: unprotected_add_mount_def)
    show "mi_mount_id m = i" if "mount_of ?t i = Some m" for i m
      using that ok(4) by (auto split: if_splits)
    show "map_of (mt_mountpath2id ?t) p = Some i \<longleftrightarrow> (\<exists>m. mount_of ?t i = Some m \<and> mi_cv_path m = p)" for p i
      using ok(5)[of p i] free new ok(5)[of "mi_cv_path info" i] by (cases "i = mi_mount_id info") auto
    show "map_of (mt_ufs2mountid ?t) p = Some i \<longleftrightarrow> (\<exists>m. mount_of ?t i = Some m \<and> mi_ufs_path m = p)" for p i
      using ok(6)[of p i] new ok(6)[of "mi_ufs_path info" i] by (cases "i = mi_mount_id info") auto
    show "\<not> has_prefix (mi_cv_path m) (mi_cv_path n)"
      if "mount_of ?t i = Some m" "mount_of ?t j = Some n" "i \<noteq> j" for i j m n
    proof -
      consider "i = mi_mount_id info" | "j = mi_mount_id info" | "i \<noteq> mi_mount_id info" "j \<noteq> mi_mount_id info"
        by blast
      then show ?thesis
      proof cases
        case 1
        then have "m = info" "mount_of t j = Some n" using that maps(1) by auto
        then show ?thesis using new by blast
      next
        case 2
        then have "n = info" "mount_of t i = Some m" using that maps(1) by auto
        then show ?thesis using new by blast
      next
        case 3
        then have "mount_of t i = Some m" "mount_of t j = Some n" using that maps(1) by auto
        then show ?thesis using ok(7) that(3) by blast
      qed
    qed
  qed
qed

lemma add_mountE:
  assumes "unprotected_add_mount info t = (r, t')"
  shows "r = Inr ()" "mount_of t' = (mount_of t)(mi_mount_id info \<mapsto> info)"
  using assms by (auto simp: unprotected_add_mount_def)

definition unmounted :: "mount_info \<Rightarrow> mount_table \<Rightarrow> mount_table" where
  "unmounted m t =
     \<lparr>mt_ufs2mountid = bt_remove (mi_ufs_path m) (mt_ufs2mountid t),
      mt_mountid2entry = bt_remove (mi_mount_id m) (mt_mountid2entry t),
      mt_mountpath2id = bt_remove (mi_cv_path m) (mt_mountpath2id t)\<rparr>"

lemma mounts_unique:
  assumes "mounts_ok t" "mount_of t i = Some m" "mount_of t j = Some n"
  shows "mi_cv_path m = mi_cv_path n \<Longrightarrow> i = j" "mi_ufs_path m = mi_ufs_path n \<Longrightarrow> i = j"
proof -
  note ok = mounts_okD[OF assms(1)]
  have "map_of (mt_mountpath2id t) (mi_cv_path m) = Some i" "map_of (mt_mountpath2id t) (mi_cv_path n) = Some j"
    using ok(5) assms(2,3) by blast+
  then show "mi_cv_path m = mi_cv_path n \<Longrightarrow> i = j" by simp
  have "map_of (mt_ufs2mountid t) (mi_ufs_path m) = Some i" "map_of (mt_ufs2mountid t) (mi_ufs_path n) = Some j"
    using ok(6) assms(2,3) by blast+
  then show "mi_ufs_path m = mi_ufs_path n \<Longrightarrow> i = j" by simp
qed

lemma unmounted_ok:
  assumes ok: "mounts_ok t" and m: "mount_of t i = Some m"
  shows "mounts_ok (unmounted m t)"
proof -
  let ?t = "unmounted m t"
  note D = mounts_okD[OF ok]
  have i: "mi_mount_id m = i" by (rule D(4)[OF m])
  have maps [simp]: "mount_of ?t = (mount_of t)(i := None)"
    "map_of (mt_mountpath2id ?t) = (map_of (mt_mountpath2id t))(mi_cv_path m := None)"
    "map_of (mt_ufs2mountid ?t) = (map_of (mt_ufs2mountid t))(mi_ufs_path m := None)"
    using i by (simp_all add: unmounted_def)
  show ?thesis
  proof (rule mounts_okI)
    show "keys_sorted (mt_ufs2mountid ?t)" "keys_sorted (mt_mountid2entry ?t)"
      "keys_sorted (mt_mountpath2id ?t)"
      using D(1-3) by (simp_all add: unmounted_def)
    show "mi_mount_id n = j" if "mount_of ?t j = Some n" for j n
      using that D(4) by (simp split: if_splits)
    show "map_of (mt_mountpath2id ?t) p = Some j \<longleftrightarrow> (\<exists>n. mount_of ?t j = Some n \<and> mi_cv_path n = p)" for p j
    proof (cases "j = i")
      case True
      then show ?thesis using D(5)[of p i] m by auto
    next
      case False
      then have "mi_cv_path n \<noteq> mi_cv_path m" if "mount_of t j = Some n" for n
        using mounts_unique(1)[OF ok that m] by blast
      then show ?thesis using D(5)[of p j] False by auto
    qed
    show "map_of (mt_ufs2mountid ?t) p = Some j \<longleftrightarrow> (\<exists>n. mount_of ?t j = Some n \<and> mi_ufs_path n = p)" for p j
    proof (cases "j = i")
      case True
      then show ?thesis using D(6)[of p i] m by auto
    next
      case False
      then have "mi_ufs_path n \<noteq> mi_ufs_path m" if "mount_of t j = Some n" for n
        using mounts_unique(2)[OF ok that m] by blast
      then show ?thesis using D(6)[of p j] False by auto
    qed
    show "\<not> has_prefix (mi_cv_path n) (mi_cv_path n')"
      if "mount_of ?t j = Some n" "mount_of ?t k = Some n'" "j \<noteq> k" for j k n n'
      using that D(7)[of j n k n'] by (simp split: if_splits)
  qed
qed

lemma umount_entry:
  assumes "mounts_ok (mm_table s)" "mount_of (mm_table s) i = Some m"
  shows "umount E (mi_cv_path m) s =
    on_fs (on_dir (dir_unmount E i)) (s\<lparr>mm_table := unmounted m (mm_table s)\<rparr>)"
proof -
  note D = mounts_okD[OF assms(1)]
  have i: "mi_mount_id m = i" by (rule D(4)[OF assms(2)])
  have "map_of (mt_mountpath2id (mm_table s)) (mi_cv_path m) = Some i"
    using D(5) assms(2) by blast
  then show ?thesis using assms(2) i by (simp add: umount_def unmounted_def Let_def)
qed

lemma umount_missing:
  assumes "mounts_ok (mm_table s)" "\<And>i m. mount_of (mm_table s) i = Some m \<Longrightarrow> mi_cv_path m \<noteq> p"
  shows "umount E p s = fail ''failed found to umount'' s"
proof -
  have "map_of (mt_mountpath2id (mm_table s)) p = None"
    using mounts_okD(5)[OF assms(1), of p] assms(2) by (cases "map_of (mt_mountpath2id (mm_table s)) p") auto
  then show ?thesis by (simp add: umount_def Let_def)
qed

subsection \<open>A lookup finds the mount above a path\<close>

lemma lookup_loop_None:
  "(\<forall>q\<in>set qs. (if cv then map_of (mt_mountpath2id t) q else map_of (mt_ufs2mountid t) q) = None) \<Longrightarrow>
   mount_lookup_loop t cv qs = Inr None"
  by (induction qs) auto

lemma lookup_loop_cv:
  assumes ok: "mounts_ok t" and m: "mount_of t i = Some m" "mi_cv_path m \<in> set qs"
    and only: "\<And>q j. q \<in> set qs \<Longrightarrow> map_of (mt_mountpath2id t) q = Some j \<Longrightarrow> j = i"
  shows "mount_lookup_loop t True qs = Inr (Some m)"
  using m(2) only
proof (induction qs)
  case (Cons q qs)
  show ?case
  proof (cases "map_of (mt_mountpath2id t) q")
    case None
    have "map_of (mt_mountpath2id t) (mi_cv_path m) = Some i"
      using mounts_okD(5)[OF ok] m(1) by blast
    with None Cons.prems(1) have "mi_cv_path m \<in> set qs" by auto
    then have "mount_lookup_loop t True qs = Inr (Some m)"
      by (rule Cons.IH) (use Cons.prems(2) in auto)
    with None show ?thesis by simp
  next
    case (Some j)
    with Cons.prems(2)[of q j] m(1) show ?thesis by simp
  qed
qed simp

definition canonical :: "mount_table \<Rightarrow> bool" where
  "canonical t \<longleftrightarrow> (\<forall>i m. mount_of t i = Some m \<longrightarrow> (\<exists>cs. proper cs \<and> mi_cv_path m = abs_path cs))"

lemma table_get_mount_info_cv:
  assumes ok: "mounts_ok t" "canonical t"
    and p: "uri_scheme (pa_uri p) = None" "path_path p = abs_path cs" "proper cs"
  shows "table_get_mount_info t p = Inr v \<longleftrightarrow>
    (case v of
       Some m \<Rightarrow> (\<exists>i. mount_of t i = Some m) \<and> has_prefix (path_path p) (mi_cv_path m)
     | None \<Rightarrow> \<forall>i m. mount_of t i = Some m \<longrightarrow> \<not> has_prefix (path_path p) (mi_cv_path m))"
proof -
  have cands: "set (get_possible_mounts p) = abs_path ` {ds. prefix ds cs}"
    using get_possible_mounts_abs[OF p(3,2)] p(1) by (simp add: mount_base_def)
  have cand_iff: "mi_cv_path m \<in> set (get_possible_mounts p) \<longleftrightarrow> has_prefix (path_path p) (mi_cv_path m)"
    if m: "mount_of t i = Some m" for i m
  proof -
    obtain ds where ds: "proper ds" "mi_cv_path m = abs_path ds" using ok(2) m unfolding canonical_def by blast
    have pre: "proper es" if "prefix es cs" for es using p(3) that by (auto simp: prefix_def)
    have "abs_path ds \<in> abs_path ` {es. prefix es cs} \<longleftrightarrow> prefix ds cs"
      using pre abs_path_inject[OF ds(1)] by auto
    then show ?thesis using ds p cands by (simp add: has_prefix_abs)
  qed
  have cv: "is_cv p" using p(1) by (simp add: is_cv_def)
  have owner: "\<exists>m. mount_of t j = Some m \<and> has_prefix (path_path p) (mi_cv_path m)"
    if q: "q \<in> set (get_possible_mounts p)" "map_of (mt_mountpath2id t) q = Some j" for q j
  proof -
    obtain n where "mount_of t j = Some n" "mi_cv_path n = q"
      using q(2) mounts_okD(5)[OF ok(1)] by blast
    with cand_iff q(1) show ?thesis by blast
  qed
  have found: "table_get_mount_info t p = Inr (Some m)"
    if m: "mount_of t i = Some m" "has_prefix (path_path p) (mi_cv_path m)" for i m
  proof -
    have "j = i" if q: "q \<in> set (get_possible_mounts p)" "map_of (mt_mountpath2id t) q = Some j" for q j
    proof (rule ccontr)
      assume "j \<noteq> i"
      obtain n where n: "mount_of t j = Some n" "has_prefix (path_path p) (mi_cv_path n)"
        using owner[OF q] by blast
      with has_prefix_comparable[OF m(2) n(2)] m(1) \<open>j \<noteq> i\<close> ok(1) show False
        unfolding mounts_ok_def by blast
    qed
    with lookup_loop_cv[OF ok(1) m(1)] cand_iff[OF m(1)] m(2) cv show ?thesis
      by (simp add: table_get_mount_info_def)
  qed
  have "table_get_mount_info t p = Inr None"
    if none: "\<forall>i m. mount_of t i = Some m \<longrightarrow> \<not> has_prefix (path_path p) (mi_cv_path m)"
  proof -
    have "map_of (mt_mountpath2id t) q = None" if "q \<in> set (get_possible_mounts p)" for q
      using owner[OF that] none by (metis not_None_eq)
    then show ?thesis using cv by (simp add: table_get_mount_info_def lookup_loop_None)
  qed
  note none = this
  show ?thesis
  proof (cases v)
    case None
    with none found show ?thesis by force
  next
    case (Some m)
    with none found show ?thesis by force
  qed
qed

subsection \<open>The database holds the table\<close>

definition mounts_stored :: "('db, 'b) meta_env \<Rightarrow> 'db \<Rightarrow> mount_table \<Rightarrow> bool" where
  "mounts_stored E db t \<longleftrightarrow>
     (\<forall>k b. rk_view (me_rocks E) db CF_MOUNTPOINT k = Some b \<longrightarrow>
        (\<exists>i m. k = u32_to_bytes i \<and> me_de_mount E b = Inr m \<and> mount_of t i = Some m)) \<and>
     (\<forall>i m. mount_of t i = Some m \<longrightarrow>
        (\<exists>b. rk_view (me_rocks E) db CF_MOUNTPOINT (u32_to_bytes i) = Some b \<and> me_de_mount E b = Inr m))"

abbreviation manager_db :: "'db mount_manager \<Rightarrow> 'db" where
  "manager_db s \<equiv> st_db (fd_store (mf_dir (mm_fs s)))"

lemma journal_keeps_store: "on_journal m s = (r, s') \<Longrightarrow> fd_store s' = fd_store s"
  by (auto simp: on_journal_def split: prod.splits)

lemma store_mount_view:
  assumes "env_ok E" "store_mount E info b d = (Inr (), d')"
  obtains c where "me_de_mount E c = Inr info"
    "rk_view (me_rocks E) (st_db (fd_store d')) =
       apply_batch [PutOp CF_MOUNTPOINT (u32_to_bytes (mi_mount_id info)) c]
         (rk_view (me_rocks E) (st_db (fd_store d)))"
proof -
  obtain d1 where d1: "on_store (on_db (add_mountpoint E (mi_mount_id info) info)) (d\<lparr>fd_tick := Suc (fd_tick d)\<rparr>) = (Inr (), d1)"
      "st_db (fd_store d') = st_db (fd_store d1)"
    using assms(2) unfolding store_mount_def bind_op_Inr_iff now_ms_def
    by (fastforce dest!: journal_keeps_store split: if_splits)
  then obtain db where db: "add_mountpoint E (mi_mount_id info) info (st_db (fd_store d)) = (Inr (), db)"
      "st_db (fd_store d1) = db"
    unfolding on_store_def on_db_def by (auto split: prod.splits)
  then obtain c where c: "me_ser_mount E info = Inr c"
      "db_put_cf (me_rocks E) CF_MOUNTPOINT (u32_to_bytes (mi_mount_id info)) c (st_db (fd_store d)) = (Inr (), db)"
    by (auto simp: add_mountpoint_def split: sum.splits)
  show ?thesis
  proof (rule that[of c])
    show "me_de_mount E c = Inr info" using c(1) assms(1) by (simp add: env_ok_def)
    show "rk_view (me_rocks E) (st_db (fd_store d')) =
       apply_batch [PutOp CF_MOUNTPOINT (u32_to_bytes (mi_mount_id info)) c]
         (rk_view (me_rocks E) (st_db (fd_store d)))"
      using rocks_put[OF env_rocks[OF assms(1)] c(2)] d1(2) db(2) by simp
  qed
qed

lemma dir_unmount_view:
  assumes "env_ok E" "dir_unmount E i d = (Inr (), d')"
  shows "rk_view (me_rocks E) (st_db (fd_store d')) =
    apply_batch [DeleteOp CF_MOUNTPOINT (u32_to_bytes i)] (rk_view (me_rocks E) (st_db (fd_store d)))"
proof -
  obtain d1 where d1: "on_store (on_db (remove_mountpoint E i)) (d\<lparr>fd_tick := Suc (fd_tick d)\<rparr>) = (Inr (), d1)"
      "st_db (fd_store d') = st_db (fd_store d1)"
    using assms(2) unfolding dir_unmount_def bind_op_Inr_iff now_ms_def
    by (fastforce dest!: journal_keeps_store)
  then obtain db where db: "db_delete_cf (me_rocks E) CF_MOUNTPOINT (u32_to_bytes i) (st_db (fd_store d)) = (Inr (), db)"
      "st_db (fd_store d1) = db"
    unfolding on_store_def on_db_def remove_mountpoint_def by (auto split: prod.splits)
  show ?thesis using rocks_delete[OF env_rocks[OF assms(1)] db(1)] d1(2) db(2) by simp
qed

lemma on_fs_dir_Inr:
  assumes "on_fs (on_dir m) s = (Inr x, s')"
  shows "m (mf_dir (mm_fs s)) = (Inr x, mf_dir (mm_fs s'))" "mm_table s' = mm_table s"
  using assms by (auto simp: on_fs_def on_dir_def split: prod.splits)

lemma mounts_stored_put:
  assumes "mounts_stored E db t" "me_de_mount E c = Inr info"
    and "rk_view (me_rocks E) db' = apply_batch [PutOp CF_MOUNTPOINT (u32_to_bytes (mi_mount_id info)) c] (rk_view (me_rocks E) db)"
  shows "mounts_stored E db' (snd (unprotected_add_mount info t))"
proof -
  let ?k = "u32_to_bytes (mi_mount_id info)" and ?t = "snd (unprotected_add_mount info t)"
  have v: "rk_view (me_rocks E) db' CF_MOUNTPOINT = (rk_view (me_rocks E) db CF_MOUNTPOINT)(?k \<mapsto> c)"
    by (simp add: assms(3) apply_batch_def)
  have e: "mount_of ?t = (mount_of t)(mi_mount_id info \<mapsto> info)" by (simp add: unprotected_add_mount_def)
  show ?thesis
    unfolding mounts_stored_def v e
  proof (intro conjI allI impI)
    fix k b assume b: "((rk_view (me_rocks E) db CF_MOUNTPOINT)(?k \<mapsto> c)) k = Some b"
    show "\<exists>i m. k = u32_to_bytes i \<and> me_de_mount E b = Inr m \<and> ((mount_of t)(mi_mount_id info \<mapsto> info)) i = Some m"
    proof (cases "k = ?k")
      case True
      with b assms(2) show ?thesis by (intro exI[of _ "mi_mount_id info"] exI[of _ info]) simp
    next
      case False
      with b have "rk_view (me_rocks E) db CF_MOUNTPOINT k = Some b" by simp
      with assms(1) obtain i m where "k = u32_to_bytes i" "me_de_mount E b = Inr m" "mount_of t i = Some m"
        unfolding mounts_stored_def by blast
      with False show ?thesis by (intro exI[of _ i] exI[of _ m]) auto
    qed
  next
    fix i m assume m: "((mount_of t)(mi_mount_id info \<mapsto> info)) i = Some m"
    show "\<exists>b. ((rk_view (me_rocks E) db CF_MOUNTPOINT)(?k \<mapsto> c)) (u32_to_bytes i) = Some b \<and> me_de_mount E b = Inr m"
    proof (cases "i = mi_mount_id info")
      case True
      with m assms(2) show ?thesis by simp
    next
      case False
      with m assms(1) show ?thesis unfolding mounts_stored_def by (simp add: u32_to_bytes_inject)
    qed
  qed
qed

lemma mounts_stored_delete:
  assumes "mounts_stored E db t" "mi_mount_id m = i"
    and "rk_view (me_rocks E) db' = apply_batch [DeleteOp CF_MOUNTPOINT (u32_to_bytes i)] (rk_view (me_rocks E) db)"
  shows "mounts_stored E db' (unmounted m t)"
proof -
  let ?k = "u32_to_bytes i"
  have v: "rk_view (me_rocks E) db' CF_MOUNTPOINT = (rk_view (me_rocks E) db CF_MOUNTPOINT)(?k := None)"
    by (simp add: assms(3) apply_batch_def)
  have e: "mount_of (unmounted m t) = (mount_of t)(i := None)" using assms(2) by (simp add: unmounted_def)
  show ?thesis
    unfolding mounts_stored_def v e
  proof (intro conjI allI impI)
    fix k b assume b: "((rk_view (me_rocks E) db CF_MOUNTPOINT)(?k := None)) k = Some b"
    then have "rk_view (me_rocks E) db CF_MOUNTPOINT k = Some b" "k \<noteq> ?k" by (auto split: if_splits)
    with assms(1) obtain j n where "k = u32_to_bytes j" "me_de_mount E b = Inr n" "mount_of t j = Some n"
      unfolding mounts_stored_def by blast
    with \<open>k \<noteq> ?k\<close> show "\<exists>j n. k = u32_to_bytes j \<and> me_de_mount E b = Inr n \<and> ((mount_of t)(i := None)) j = Some n"
      by (intro exI[of _ j] exI[of _ n]) auto
  next
    fix j n assume n: "((mount_of t)(i := None)) j = Some n"
    then have "mount_of t j = Some n" "j \<noteq> i" by (auto split: if_splits)
    with assms(1) show "\<exists>b. ((rk_view (me_rocks E) db CF_MOUNTPOINT)(?k := None)) (u32_to_bytes j) = Some b \<and> me_de_mount E b = Inr n"
      unfolding mounts_stored_def by (simp add: u32_to_bytes_inject)
  qed
qed

lemma table_add_mount_ok:
  assumes E: "env_ok E" and ok: "mounts_ok (mm_table s)" and fresh: "\<not> has_mounted (mm_table s) i"
    and st: "mounts_stored E (manager_db s) (mm_table s)"
    and run: "table_add_mount E i cv ufs opts s = (Inr (), s')"
  shows "mounts_ok (mm_table s')" "mounts_stored E (manager_db s') (mm_table s')"
    "mount_of (mm_table s') = (mount_of (mm_table s))(i \<mapsto> to_info opts i cv ufs)"
proof -
  let ?info = "to_info opts i cv ufs" and ?t = "mm_table s"
  let ?s = "s\<lparr>mm_table := snd (unprotected_add_mount ?info ?t)\<rparr>"
  have info: "mi_mount_id ?info = i" "mi_cv_path ?info = cv" "mi_ufs_path ?info = ufs"
    by (simp_all add: to_info_def)
  have guards: "map_of (mt_ufs2mountid ?t) ufs = None" "check_conflict ?t cv = Inr ()"
    using run by (auto simp: table_add_mount_def fail_def mount_exists_def bind_op_Inr_iff split: if_splits)
  have new: "mountable ?t ?info"
    unfolding mountable_def info using guards check_conflict_Inr[OF ok] fresh by (simp add: has_mounted_def)
  have step: "on_fs (on_dir (store_mount E ?info True)) ?s = (Inr (), s')"
    using run guards
    by (auto simp: table_add_mount_def fail_def bind_op_Inr_iff on_table_def unprotected_add_mount_def
        Let_def split: if_splits)
  note fs = on_fs_dir_Inr[OF step]
  obtain c where c: "me_de_mount E c = Inr ?info"
      "rk_view (me_rocks E) (manager_db s') =
         apply_batch [PutOp CF_MOUNTPOINT (u32_to_bytes (mi_mount_id ?info)) c] (rk_view (me_rocks E) (manager_db ?s))"
    using store_mount_view[OF E fs(1)] by blast
  show "mounts_ok (mm_table s')" using unprotected_add_mount_ok[OF ok new] fs(2) by simp
  show "mounts_stored E (manager_db s') (mm_table s')"
    using mounts_stored_put[OF st c(1)] c(2) fs(2) by simp
  show "mount_of (mm_table s') = (mount_of ?t)(i \<mapsto> ?info)"
    using fs(2) info(1) by (simp add: unprotected_add_mount_def)
qed

lemma umount_ok:
  assumes E: "env_ok E" and ok: "mounts_ok (mm_table s)"
    and st: "mounts_stored E (manager_db s) (mm_table s)"
    and run: "umount E p s = (Inr (), s')"
  obtains i m where "mount_of (mm_table s) i = Some m" "mi_cv_path m = p"
    "mounts_ok (mm_table s')" "mounts_stored E (manager_db s') (mm_table s')"
    "mount_of (mm_table s') = (mount_of (mm_table s))(i := None)"
proof -
  obtain i m where m: "mount_of (mm_table s) i = Some m" "mi_cv_path m = p"
    using run umount_missing[OF ok, of p E] by (auto simp: fail_def)
  have i: "mi_mount_id m = i" by (rule mounts_okD(4)[OF ok m(1)])
  note fs = on_fs_dir_Inr[OF run[folded m(2), unfolded umount_entry[OF ok m(1)]]]
  note view = dir_unmount_view[OF E fs(1)]
  show ?thesis
  proof (rule that[OF m])
    show "mounts_ok (mm_table s')" using unmounted_ok[OF ok m(1)] fs(2) by simp
    show "mounts_stored E (manager_db s') (mm_table s')"
      using mounts_stored_delete[OF st i] view fs(2) by simp
    show "mount_of (mm_table s') = (mount_of (mm_table s))(i := None)"
      using fs(2) i by (simp add: unmounted_def)
  qed
qed

subsection \<open>A restart reads the table back\<close>

lemma option_eqI: "(\<And>x. u = Some x \<longleftrightarrow> v = Some x) \<Longrightarrow> u = v"
  by (cases u; cases v) auto

lemma mounts_ok_eq:
  assumes "mounts_ok t" "mounts_ok t'" "mount_of t = mount_of t'"
  shows "t = t'"
proof -
  note D = mounts_okD[OF assms(1)] and D' = mounts_okD[OF assms(2)]
  have "mt_mountid2entry t = mt_mountid2entry t'"
    by (rule keys_sorted_map_of_inject[OF D(2) D'(2) assms(3)])
  moreover have "map_of (mt_mountpath2id t) p = map_of (mt_mountpath2id t') p" for p
    by (rule option_eqI) (simp add: D(5) D'(5) assms(3))
  then have "mt_mountpath2id t = mt_mountpath2id t'"
    using keys_sorted_map_of_inject[OF D(3) D'(3)] by blast
  moreover have "map_of (mt_ufs2mountid t) p = map_of (mt_ufs2mountid t') p" for p
    by (rule option_eqI) (simp add: D(6) D'(6) assms(3))
  then have "mt_ufs2mountid t = mt_ufs2mountid t'"
    using keys_sorted_map_of_inject[OF D(1) D'(1)] by blast
  ultimately show ?thesis by simp
qed

lemma restore_loop_ok:
  assumes "mounts_ok t" "mounts_ok t0" "mount_of t0 \<subseteq>\<^sub>m mount_of t"
    and "distinct (map mi_mount_id ms)" "\<forall>m\<in>set ms. mount_of t (mi_mount_id m) = Some m"
    and "\<forall>m\<in>set ms. mount_of t0 (mi_mount_id m) = None"
  shows "\<exists>t'. restore_loop ms t0 = (Inr (), t') \<and> mounts_ok t' \<and>
    mount_of t' = mount_of t0 ++ map_of (map (\<lambda>m. (mi_mount_id m, m)) ms)"
  using assms(2-6)
proof (induction ms arbitrary: t0)
  case Nil
  then show ?case by simp
next
  case (Cons m ms)
  let ?t1 = "snd (unprotected_add_mount m t0)"
  have m: "mount_of t (mi_mount_id m) = Some m" using Cons.prems(4) by simp
  have sub: "mount_of t i = Some n" "i \<noteq> mi_mount_id m" if "mount_of t0 i = Some n" for i n
    using that Cons.prems(2,5) by (auto simp: map_le_def dom_def)
  have "mountable t0 m"
    unfolding mountable_def
  proof (intro conjI allI impI)
    show "mount_of t0 (mi_mount_id m) = None" using Cons.prems(5) by simp
    show "map_of (mt_ufs2mountid t0) (mi_ufs_path m) = None"
    proof (rule ccontr)
      assume "map_of (mt_ufs2mountid t0) (mi_ufs_path m) \<noteq> None"
      then obtain i n where "mount_of t0 i = Some n" "mi_ufs_path n = mi_ufs_path m"
        using mounts_okD(6)[OF Cons.prems(1), of "mi_ufs_path m"] by auto
      with sub[of i n] mounts_unique(2)[OF assms(1) _ m] show False by blast
    qed
    fix i n assume n: "mount_of t0 i = Some n"
    show "\<not> has_prefix (mi_cv_path m) (mi_cv_path n)" "\<not> has_prefix (mi_cv_path n) (mi_cv_path m)"
      using mounts_okD(7)[OF assms(1)] m sub[OF n] by metis+
  qed
  then have ok: "mounts_ok ?t1" by (rule unprotected_add_mount_ok[OF Cons.prems(1)])
  have e1: "mount_of ?t1 = (mount_of t0)(mi_mount_id m \<mapsto> m)" by (simp add: unprotected_add_mount_def)
  have "mount_of ?t1 \<subseteq>\<^sub>m mount_of t"
    unfolding e1 using Cons.prems(2) m by (auto simp: map_le_def)
  moreover have "\<forall>n\<in>set ms. mount_of ?t1 (mi_mount_id n) = None"
  proof
    fix n assume "n \<in> set ms"
    then have "mi_mount_id n \<in> set (map mi_mount_id ms)" by simp
    with Cons.prems(3) have "mi_mount_id n \<noteq> mi_mount_id m" by auto
    with \<open>n \<in> set ms\<close> Cons.prems(5) show "mount_of ?t1 (mi_mount_id n) = None" unfolding e1 by simp
  qed
  ultimately obtain t' where t': "restore_loop ms ?t1 = (Inr (), t')" "mounts_ok t'"
      "mount_of t' = mount_of ?t1 ++ map_of (map (\<lambda>m. (mi_mount_id m, m)) ms)"
    using Cons.IH[OF ok] Cons.prems(3,4) by auto
  have "restore_loop (m # ms) t0 = (Inr (), t')"
    using t'(1) by (simp add: bind_op_def unprotected_add_mount_def)
  moreover have "mount_of ?t1 ++ map_of (map (\<lambda>m. (mi_mount_id m, m)) ms) =
      mount_of t0 ++ map_of (map (\<lambda>m. (mi_mount_id m, m)) (m # ms))"
  proof -
    have "map_of (map (\<lambda>m. (mi_mount_id m, m)) ms) (mi_mount_id m) = None"
      using Cons.prems(3) by (auto simp: map_of_eq_None_iff)
    then show ?thesis unfolding e1 by (auto simp: map_add_def fun_eq_iff split: option.splits)
  qed
  ultimately show ?case using t'(2,3) by metis
qed

lemma restore_table:
  assumes E: "env_ok E" and ok: "mounts_ok t" and st: "mounts_stored E db t"
    and get: "rocks_get_mount_table E db = Inr ms"
  shows "restore_loop ms mount_table_new = (Inr (), t)"
proof -
  obtain kvs where kvs: "rk_iter (me_rocks E) db CF_MOUNTPOINT None = map Inr kvs"
      "list_all2 (\<lambda>kv m. me_de_mount E (snd kv) = Inr m) kvs ms"
    using get by (auto simp: rocks_get_mount_table_def db_scan_def collect_map_Inr)
  note it = rocks_iter[OF env_rocks[OF E] kvs(1)]
  have view: "map_of kvs = rk_view (me_rocks E) db CF_MOUNTPOINT" using it(2) by (simp add: in_range_def)
  have each: "\<exists>i. k = u32_to_bytes i \<and> mi_mount_id m = i \<and> mount_of t i = Some m"
    if kb: "(k, b) \<in> set kvs" "me_de_mount E b = Inr m" for k b m
  proof -
    have "rk_view (me_rocks E) db CF_MOUNTPOINT k = Some b"
      using kb(1) map_of_sorted_iff[OF it(1)] view by simp
    then obtain i n where "k = u32_to_bytes i" "me_de_mount E b = Inr n" "mount_of t i = Some n"
      using st unfolding mounts_stored_def by blast
    with kb(2) show ?thesis using mounts_okD(4)[OF ok] by auto
  qed
  have keys: "map fst kvs = map (\<lambda>m. u32_to_bytes (mi_mount_id m)) ms"
  proof (rule nth_equalityI)
    show "length (map fst kvs) = length (map (\<lambda>m. u32_to_bytes (mi_mount_id m)) ms)"
      using list_all2_lengthD[OF kvs(2)] by simp
    fix j assume "j < length (map fst kvs)"
    then have j: "j < length kvs" "j < length ms" using list_all2_lengthD[OF kvs(2)] by simp_all
    have "(fst (kvs ! j), snd (kvs ! j)) \<in> set kvs" using j(1) by simp
    from each[OF this list_all2_nthD[OF kvs(2) j(1)]] j
    show "map fst kvs ! j = map (\<lambda>m. u32_to_bytes (mi_mount_id m)) ms ! j" by auto
  qed
  have "distinct (map (u32_to_bytes \<circ> mi_mount_id) ms)"
    using keys_sorted_distinct[OF it(1)] unfolding keys by (simp add: comp_def)
  then have dist: "distinct (map mi_mount_id ms)" by (auto simp: distinct_map inj_on_def)
  have ents: "mount_of t (mi_mount_id m) = Some m" if mem: "m \<in> set ms" for m
  proof -
    obtain j where j: "j < length ms" "ms ! j = m" using mem by (metis in_set_conv_nth)
    then have "j < length kvs" using list_all2_lengthD[OF kvs(2)] by simp
    then have "(fst (kvs ! j), snd (kvs ! j)) \<in> set kvs" "me_de_mount E (snd (kvs ! j)) = Inr m"
      using list_all2_nthD[OF kvs(2)] j(2) by auto
    from each[OF this] show ?thesis by auto
  qed
  have all: "m \<in> set ms" if ent: "mount_of t i = Some m" for i m
  proof -
    obtain b where b: "rk_view (me_rocks E) db CF_MOUNTPOINT (u32_to_bytes i) = Some b" "me_de_mount E b = Inr m"
      using st ent unfolding mounts_stored_def by blast
    then have "(u32_to_bytes i, b) \<in> set kvs" using map_of_sorted_iff[OF it(1)] view by simp
    then obtain j where "j < length kvs" "kvs ! j = (u32_to_bytes i, b)" by (metis in_set_conv_nth)
    then have "j < length ms" "me_de_mount E b = Inr (ms ! j)"
      using list_all2_lengthD[OF kvs(2)] list_all2_nthD[OF kvs(2), of j] by simp_all
    with b(2) show ?thesis using nth_mem[of j ms] by simp
  qed
  have new: "mount_of mount_table_new = Map.empty" by (simp add: mount_table_new_def)
  obtain t' where t': "restore_loop ms mount_table_new = (Inr (), t')" "mounts_ok t'"
      "mount_of t' = map_of (map (\<lambda>m. (mi_mount_id m, m)) ms)"
    using restore_loop_ok[OF ok mounts_ok_new, of ms] dist ents new by auto
  have "mount_of t' i = mount_of t i" for i
  proof (cases "mount_of t i")
    case None
    then have "i \<notin> mi_mount_id ` set ms" using ents by force
    then have "map_of (map (\<lambda>m. (mi_mount_id m, m)) ms) i = None"
      by (simp add: map_of_eq_None_iff comp_def image_iff)
    then show ?thesis using None unfolding t'(3) by simp
  next
    case (Some m)
    then have "(i, m) \<in> set (map (\<lambda>m. (mi_mount_id m, m)) ms)"
      using all mounts_okD(4)[OF ok] by force
    then have "map_of (map (\<lambda>m. (mi_mount_id m, m)) ms) i = Some m"
      by (rule map_of_is_SomeI[rotated]) (simp add: comp_def dist)
    then show ?thesis using Some unfolding t'(3) by simp
  qed
  then have "t' = t" using mounts_ok_eq[OF t'(2) ok] by blast
  with t'(1) show ?thesis by simp
qed

subsection \<open>The two sides of a mount\<close>

text \<open>
  What the translation of paths relies on in the URI library, for the schemes, authorities and path
  characters it accepts: a text is split into its scheme, authority and path, the builder puts the
  parts together, and printing gives the text back.
\<close>

definition uri_ok :: "uri_env \<Rightarrow> (string \<Rightarrow> bool) \<Rightarrow> (string \<Rightarrow> bool) \<Rightarrow> (char \<Rightarrow> bool) \<Rightarrow> bool" where
  "uri_ok U okS okA okC \<longleftrightarrow>
     (\<forall>p. lead p \<noteq> [] \<and> list_all okC p \<longrightarrow>
        ue_parse U p = Inr \<lparr>uri_scheme = None, uri_authority = None, uri_path = p\<rparr> \<and>
        ue_build U None None p = Inr \<lparr>uri_scheme = None, uri_authority = None, uri_path = p\<rparr> \<and>
        ue_show U \<lparr>uri_scheme = None, uri_authority = None, uri_path = p\<rparr> = p) \<and>
     (\<forall>s a p. okS s \<and> okA a \<and> lead p \<noteq> [] \<and> list_all okC p \<longrightarrow>
        ue_parse U (s @ ''://'' @ a @ p) = Inr \<lparr>uri_scheme = Some s, uri_authority = Some a, uri_path = p\<rparr> \<and>
        ue_build U (Some s) (Some a) p = Inr \<lparr>uri_scheme = Some s, uri_authority = Some a, uri_path = p\<rparr> \<and>
        ue_show U \<lparr>uri_scheme = Some s, uri_authority = Some a, uri_path = p\<rparr> = s @ ''://'' @ a @ p)"

definition cv_side :: "string list \<Rightarrow> path" where
  "cv_side cs =
     \<lparr>pa_uri = \<lparr>uri_scheme = None, uri_authority = None, uri_path = abs_path cs\<rparr>,
      pa_full_path = abs_path cs\<rparr>"

definition ufs_side :: "string \<Rightarrow> string \<Rightarrow> string list \<Rightarrow> path" where
  "ufs_side s a cs =
     \<lparr>pa_uri = \<lparr>uri_scheme = Some s, uri_authority = Some a, uri_path = abs_path cs\<rparr>,
      pa_full_path = s @ ''://'' @ a @ abs_path cs\<rparr>"

lemma strip_prefix_append [simp]: "strip_prefix xs (xs @ ys) = Some ys"
  by (induction xs) simp_all

lemma remove_first_append [simp]: "remove_first xs (xs @ ys) = ys"
  by (subst remove_first.simps) simp

lemma PATH_SEPARATOR_slash: "''/'' = [PATH_SEPARATOR]"
  by (simp add: PATH_SEPARATOR_def)

lemma abs_path_append:
  obtains r where "abs_path (ms @ rest) = abs_path ms @ r" "pieces (PATH_SEPARATOR # r) = pieces (join_with PATH_SEPARATOR rest)"
    "set r \<subseteq> set (abs_path rest)"
proof (cases "ms = [] \<or> rest = []")
  case True
  then show ?thesis
  proof
    assume "ms = []"
    then show ?thesis by (intro that[of "join_with PATH_SEPARATOR rest"]) (auto simp: abs_path_def)
  next
    assume "rest = []"
    then show ?thesis by (intro that[of "[]"]) (auto simp: abs_path_def)
  qed
next
  case False
  have "join_with PATH_SEPARATOR (ms @ rest) =
      join_with PATH_SEPARATOR ms @ PATH_SEPARATOR # join_with PATH_SEPARATOR rest" if "ms \<noteq> []" for ms
    using that False by (induction ms rule: list_nonempty_induct) (auto simp: join_with_Cons)
  then show ?thesis
    using False by (intro that[of "PATH_SEPARATOR # join_with PATH_SEPARATOR rest"]) (auto simp: abs_path_def)
qed

text \<open>A path below another one, written after it with a separator between, is the longer path.\<close>

lemma pieces_append_sep: "pieces (p @ PATH_SEPARATOR # q) = pieces p @ pieces q"
proof -
  have "split_on PATH_SEPARATOR (p @ PATH_SEPARATOR # q) = split_on PATH_SEPARATOR p @ split_on PATH_SEPARATOR q"
    by (induction p) (auto split: list.splits)
  then show ?thesis by (simp add: pieces_def)
qed

lemma rebuilt_path:
  assumes "proper us" "proper rest" "pieces (PATH_SEPARATOR # r) = pieces (join_with PATH_SEPARATOR rest)"
  shows "normalize_path (abs_path us @ ''/'' @ r) = abs_path (us @ rest)"
proof -
  have "pieces (abs_path us @ PATH_SEPARATOR # r) = us @ rest"
    using assms by (simp add: pieces_append_sep pieces_join)
  then show ?thesis
    by (simp add: normalize_path_pieces PATH_SEPARATOR_slash lead_def abs_path_def)
qed

lemma path_from_str_ufs:
  assumes "uri_ok U okS okA okC" "okS s" "okA a" "list_all okC p" "lead p \<noteq> []"
    and "normalize_path p = abs_path cs" "list_all okC (abs_path cs)"
  shows "path_from_str U (s @ ''://'' @ a @ p) = Inr (ufs_side s a cs)"
proof -
  have "lead (abs_path cs) \<noteq> []" by (simp add: lead_def abs_path_def)
  then show ?thesis
    using assms unfolding uri_ok_def path_from_str_def ufs_side_def by simp
qed

lemma path_from_str_cv:
  assumes "uri_ok U okS okA okC" "list_all okC p" "lead p \<noteq> []"
    and "normalize_path p = abs_path cs" "list_all okC (abs_path cs)"
  shows "path_from_str U p = Inr (cv_side cs)"
proof -
  have "lead (abs_path cs) \<noteq> []" by (simp add: lead_def abs_path_def)
  then show ?thesis
    using assms unfolding uri_ok_def path_from_str_def cv_side_def by simp
qed

lemma toggle_sides:
  assumes U: "uri_ok U okS okA okC" "okS s" "s \<noteq> ''cv''" "okA a"
    and parts: "proper ms" "proper us" "proper rest"
    and chars: "list_all okC (abs_path ms)" "list_all okC (abs_path us)" "list_all okC (abs_path rest)"
    and info: "mi_cv_path info = abs_path ms" "mi_ufs_path info = s @ ''://'' @ a @ abs_path us"
  shows "toggle_path U info (cv_side (ms @ rest)) = Inr (ufs_side s a (us @ rest))"
    "toggle_path U info (ufs_side s a (us @ rest)) = Inr (cv_side (ms @ rest))"
proof -
  have sep: "okC PATH_SEPARATOR" using chars(1) by (simp add: abs_path_def)
  have okC_app: "list_all okC (abs_path (xs @ rest))"
    if "list_all okC (abs_path xs)" for xs
  proof -
    obtain r where "abs_path (xs @ rest) = abs_path xs @ r" "set r \<subseteq> set (abs_path rest)"
      by (rule abs_path_append)
    then show ?thesis using that chars(3) by (auto simp: list_all_iff)
  qed
  have lead: "lead (abs_path xs @ q) \<noteq> []" for xs q by (simp add: lead_def abs_path_def)
  obtain r where r: "abs_path (ms @ rest) = abs_path ms @ r"
      "pieces (PATH_SEPARATOR # r) = pieces (join_with PATH_SEPARATOR rest)" "set r \<subseteq> set (abs_path rest)"
    by (rule abs_path_append)
  have okr: "list_all okC (abs_path us @ ''/'' @ r)"
    using chars r(3) sep unfolding PATH_SEPARATOR_slash by (auto simp: list_all_iff)
  show "toggle_path U info (cv_side (ms @ rest)) = Inr (ufs_side s a (us @ rest))"
    using path_from_str_ufs[OF U(1,2,4) okr lead rebuilt_path[OF parts(2,3) r(2)] okC_app[OF chars(2)]]
    by (simp add: toggle_path_def get_ufs_path_def is_cv_def cv_side_def path_path_def info r(1))
  obtain q where q: "abs_path (us @ rest) = abs_path us @ q"
      "pieces (PATH_SEPARATOR # q) = pieces (join_with PATH_SEPARATOR rest)" "set q \<subseteq> set (abs_path rest)"
    by (rule abs_path_append)
  have okq: "list_all okC (abs_path ms @ ''/'' @ q)"
    using chars q(3) sep unfolding PATH_SEPARATOR_slash by (auto simp: list_all_iff)
  have full: "pa_full_path (ufs_side s a (us @ rest)) = (s @ ''://'' @ a @ abs_path us) @ q"
    by (simp add: ufs_side_def q(1))
  show "toggle_path U info (ufs_side s a (us @ rest)) = Inr (cv_side (ms @ rest))"
    unfolding toggle_path_def get_cv_path_def info full remove_first_append
    using path_from_str_cv[OF U(1) okq lead rebuilt_path[OF parts(1,3) q(2)] okC_app[OF chars(1)]] U(3)
    by (simp add: is_cv_def ufs_side_def)
qed

end
