(* ===== verification/Journal_Loader.thy ===== *)
theory Journal_Loader
  imports Fs_Spec Mount_Table
begin

text \<open>
  Replay of the metadata log (\<^verbatim>\<open>master/journal/journal_loader.rs\<close>): the handler of each kind of entry,
  the application of a batch that arrives through raft, and the restart from a snapshot. A follower
  \<open>mirrors\<close> the leader when both hold the same tree, the same database and the same counters; the
  lemmas show which entries, replayed on a mirror, give a mirror again.
\<close>

subsection \<open>Handlers\<close>

definition replay_mkdir :: "('db, 'b) meta_env \<Rightarrow> mkdir_entry \<Rightarrow> ('db fs_dir, unit) op" where
  "replay_mkdir E entry =
     bind_op (update_last_inode_id (d_id (mke_dir entry))) (\<lambda>_.
     bind_op (\<lambda>s. (resolve_path E s (mke_path entry), s)) (\<lambda>inp.
     bind_op (add_last_inode E (Dir (ip_name inp) (mke_dir entry) new_map) inp) (\<lambda>_ s. (Inr (), s))))"

definition replay_create_file :: "('db, 'b) meta_env \<Rightarrow> file_entry \<Rightarrow> ('db fs_dir, unit) op" where
  "replay_create_file E entry =
     bind_op (update_last_inode_id (f_id (fe_file entry))) (\<lambda>_.
     bind_op (\<lambda>s. (resolve_path E s (fe_path entry), s)) (\<lambda>inp.
     bind_op (add_last_inode E (File (ip_name inp) (fe_file entry)) inp) (\<lambda>_ s. (Inr (), s))))"

text \<open>Replacing what the last pointer of a path leads to, for the three handlers that do only that.\<close>

definition replace_last_file ::
  "('db, 'b) meta_env \<Rightarrow> string \<Rightarrow> (inode_file \<Rightarrow> inode_file) \<Rightarrow> ('db fs_dir, inode_view) op" where
  "replace_last_file E path f =
     bind_op (\<lambda>s. (resolve_path E s path, s)) (\<lambda>inp.
     bind_op (lift_res (try_option ''Option is none'' (get_last_inode inp))) (\<lambda>ptr.
     bind_op (on_ptr ptr (file_op (\<lambda>old. (Inr (), f old)))) (\<lambda>(_, ptr').
     read_ptr ptr')))"

definition replay_append_file :: "('db, 'b) meta_env \<Rightarrow> file_entry \<Rightarrow> ('db fs_dir, unit) op" where
  "replay_append_file E entry =
     bind_op (replace_last_file E (fe_path entry) (\<lambda>_. fe_file entry)) (\<lambda>v.
     on_store (apply_append_file E v))"

definition replay_overwrite_file :: "('db, 'b) meta_env \<Rightarrow> file_entry \<Rightarrow> ('db fs_dir, unit) op" where
  "replay_overwrite_file E entry =
     bind_op (replace_last_file E (fe_path entry) (\<lambda>_. fe_file entry)) (\<lambda>v.
     on_store (apply_overwrite_file E v))"

definition replay_add_block :: "('db, 'b) meta_env \<Rightarrow> add_block_entry \<Rightarrow> ('db fs_dir, unit) op" where
  "replay_add_block E entry =
     bind_op (replace_last_file E (abe_path entry) (\<lambda>f. f\<lparr>f_blocks := abe_blocks entry\<rparr>)) (\<lambda>v.
     on_store (apply_new_block E v (abe_commit_block entry)))"

definition replay_complete_file :: "('db, 'b) meta_env \<Rightarrow> complete_file_entry \<Rightarrow> ('db fs_dir, unit) op" where
  "replay_complete_file E entry =
     bind_op (replace_last_file E (cfe_path entry) (\<lambda>_. cfe_file entry)) (\<lambda>v.
     on_store (apply_complete_file E v (cfe_commit_block entry)))"

definition replay_rename :: "('db, 'b) meta_env \<Rightarrow> rename_entry \<Rightarrow> ('db fs_dir, unit) op" where
  "replay_rename E entry =
     bind_op (\<lambda>s. (resolve_path E s (rne_src entry), s)) (\<lambda>src_inp.
     bind_op (\<lambda>s. (resolve_path E s (rne_dst entry), s)) (\<lambda>dst_inp.
     unprotected_rename E (rne_mtime entry) src_inp dst_inp))"

definition replay_delete :: "('db, 'b) meta_env \<Rightarrow> delete_entry \<Rightarrow> ('db fs_dir, unit) op" where
  "replay_delete E entry =
     bind_op (\<lambda>s. (resolve_path E s (dle_path entry), s)) (\<lambda>inp.
     bind_op (unprotected_delete E (dle_mtime entry) inp) (\<lambda>_ s. (Inr (), s)))"

definition replay_set_attr :: "('db, 'b) meta_env \<Rightarrow> set_attr_entry \<Rightarrow> ('db fs_dir, unit) op" where
  "replay_set_attr E entry =
     bind_op (\<lambda>s. (resolve_path E s (sae_path entry), s)) (\<lambda>inp.
     bind_op (lift_res (try_option ''Option is none'' (get_last_inode inp))) (\<lambda>last_inode.
     unprotected_set_attr E last_inode (sae_opts entry)))"

definition replay_symlink :: "('db, 'b) meta_env \<Rightarrow> symlink_entry \<Rightarrow> ('db fs_dir, unit) op" where
  "replay_symlink E entry =
     bind_op (\<lambda>s. (resolve_path E s (sye_link entry), s)) (\<lambda>inp.
     bind_op (unprotected_symlink E inp (sye_new_inode entry) (sye_force entry)) (\<lambda>_ s. (Inr (), s)))"

definition replay_link :: "('db, 'b) meta_env \<Rightarrow> link_entry \<Rightarrow> ('db fs_dir, unit) op" where
  "replay_link E entry =
     bind_op (\<lambda>s. (resolve_path E s (lke_src_path entry), s)) (\<lambda>old_path.
     bind_op (\<lambda>s. (resolve_path E s (lke_dst_path entry), s)) (\<lambda>new_path.
     case get_last_inode old_path of
       None \<Rightarrow> (\<lambda>s. (Inl (Common ''Original file not found during link recovery''), s))
     | Some ptr \<Rightarrow>
         bind_op (read_ptr ptr) (\<lambda>v.
         bind_op (unprotected_link E new_path (iid v) (lke_op_ms entry)) (\<lambda>_ s. (Inr (), s)))))"

definition replay_mount :: "('db, 'b) meta_env \<Rightarrow> mount_entry \<Rightarrow> ('db mount_manager, unit) op" where
  "replay_mount E entry =
     bind_op (on_table (unprotected_add_mount (mte_info entry))) (\<lambda>_.
     on_fs (on_dir (store_mount E (mte_info entry) False)))"

definition replay_unmount :: "('db, 'b) meta_env \<Rightarrow> unmount_entry \<Rightarrow> ('db mount_manager, unit) op" where
  "replay_unmount E entry =
     bind_op (unmount_by_id E (ume_id entry)) (\<lambda>_. on_fs (on_dir (dir_unmount E (ume_id entry))))"

definition apply_entry :: "('db, 'b) meta_env \<Rightarrow> journal_entry \<Rightarrow> ('db mount_manager, unit) op" where
  "apply_entry E entry =
     (case entry of
        JMkdir e \<Rightarrow> on_fs (on_dir (replay_mkdir E e))
      | JCreateFile e \<Rightarrow> on_fs (on_dir (replay_create_file E e))
      | JOverWriteFile e \<Rightarrow> on_fs (on_dir (replay_overwrite_file E e))
      | JAddBlock e \<Rightarrow> on_fs (on_dir (replay_add_block E e))
      | JCompleteFile e \<Rightarrow> on_fs (on_dir (replay_complete_file E e))
      | JRename e \<Rightarrow> on_fs (on_dir (replay_rename E e))
      | JDelete e \<Rightarrow> on_fs (on_dir (replay_delete E e))
      | JAppendFile e \<Rightarrow> on_fs (on_dir (replay_append_file E e))
      | JMount e \<Rightarrow> replay_mount E e
      | JUnMount e \<Rightarrow> replay_unmount E e
      | JSetAttr e \<Rightarrow> on_fs (on_dir (replay_set_attr E e))
      | JSymlink e \<Rightarrow> on_fs (on_dir (replay_symlink E e))
      | JLink e \<Rightarrow> on_fs (on_dir (replay_link E e)))"

subsection \<open>Batches\<close>

record 'db journal_loader =
  jl_mnt_mgr :: "'db mount_manager"
  jl_seq_id :: int
  jl_ignore_replay_error :: bool

definition on_mnt_mgr :: "('db mount_manager, 'a) op \<Rightarrow> ('db journal_loader, 'a) op" where
  "on_mnt_mgr m s = (let (r, g) = m (jl_mnt_mgr s) in (r, s\<lparr>jl_mnt_mgr := g\<rparr>))"

definition journal_loader_new :: "'db mount_manager \<Rightarrow> bool \<Rightarrow> 'db journal_loader" where
  "journal_loader_new mgr ignore_replay_error =
     \<lparr>jl_mnt_mgr = mgr, jl_seq_id = 0, jl_ignore_replay_error = ignore_replay_error\<rparr>"

fun apply_batch_loop :: "('db, 'b) meta_env \<Rightarrow> journal_entry list \<Rightarrow> ('db journal_loader, unit) op" where
  "apply_batch_loop E [] s = (Inr (), s)"
| "apply_batch_loop E (entry # entries) s =
     (case on_mnt_mgr (apply_entry E entry) s of
        (Inr _, s') \<Rightarrow> apply_batch_loop E entries s'
      | (Inl e, s') \<Rightarrow> (Inl (case e of Panic x \<Rightarrow> Panic x | _ \<Rightarrow> Common ''Failed to apply journal entry to master''), s'))"

text \<open>\<open>de\<close> is the deserializer of a batch.\<close>

definition apply0 ::
  "('db, 'b) meta_env \<Rightarrow> (bytes \<Rightarrow> journal_batch res) \<Rightarrow> bool \<Rightarrow> bytes \<Rightarrow> ('db journal_loader, unit) op" where
  "apply0 E de is_leader message s =
     (if message = [] then (Inr (), s)
      else case de message of
          Inl e \<Rightarrow> (Inl e, s)
        | Inr batch \<Rightarrow>
            if is_leader then (Inr (), s\<lparr>jl_seq_id := u64_of (jb_seq_id batch + 1)\<rparr>)
            else apply_batch_loop E (jb_batch batch) (s\<lparr>jl_seq_id := u64_of (jl_seq_id s + 1)\<rparr>))"

definition apply_message ::
  "('db, 'b) meta_env \<Rightarrow> (bytes \<Rightarrow> journal_batch res) \<Rightarrow> bool \<Rightarrow> bytes \<Rightarrow> ('db journal_loader, unit) op" where
  "apply_message E de is_leader message s =
     (case apply0 E de is_leader message s of
        (Inr _, s') \<Rightarrow> (Inr (), s')
      | (Inl (Panic x), s') \<Rightarrow> (Inl (Panic x), s')
      | (Inl e, s') \<Rightarrow> if jl_ignore_replay_error s' then (Inr (), s') else (Inl e, s'))"

text \<open>The directory is rebuilt from the files of the snapshot, then the mount table is filled from the
  store; \<open>None\<close> is a rebuild that ran out of fuel.\<close>

definition apply_snapshot ::
  "('db, 'b) meta_env \<Rightarrow> nat \<Rightarrow> int \<Rightarrow> ('db inode_store, unit) op option \<Rightarrow> 'db journal_loader \<Rightarrow>
   (unit res \<times> 'db journal_loader) option" where
  "apply_snapshot E fuel snapshot_id files_data s =
     (case files_data of
        None \<Rightarrow> Some (Inl (Common ''value is None''), s)
      | Some reopen \<Rightarrow>
          (let s = s\<lparr>jl_seq_id := u64_of (snapshot_id + 1)\<rparr>; mgr = jl_mnt_mgr s; fs = mm_fs mgr in
           case dir_restore E fuel reopen (mf_dir fs) of
             None \<Rightarrow> None
           | Some (Inl e, d) \<Rightarrow> Some (Inl e, s\<lparr>jl_mnt_mgr := mgr\<lparr>mm_fs := fs\<lparr>mf_dir := d\<rparr>\<rparr>\<rparr>)
           | Some (Inr _, d) \<Rightarrow>
               Some (on_mnt_mgr (mount_restore E) (s\<lparr>jl_mnt_mgr := mgr\<lparr>mm_fs := fs\<lparr>mf_dir := d\<rparr>\<rparr>\<rparr>))))"

subsection \<open>Mirrors\<close>

definition store_mirrors :: "'db inode_store \<Rightarrow> 'db inode_store \<Rightarrow> bool" where
  "store_mirrors st t \<longleftrightarrow>
     st_db st = st_db t \<and> st_file_num st = st_file_num t \<and> st_dir_num st = st_dir_num t \<and>
     tl_interval (st_ttl st) = tl_interval (st_ttl t)"

definition mirrors :: "'db fs_dir \<Rightarrow> 'db fs_dir \<Rightarrow> bool" where
  "mirrors s t \<longleftrightarrow> fd_root s = fd_root t \<and> store_mirrors (fd_store s) (fd_store t)"

text \<open>Two runs agree when they have the same result and lead to states that are alike.\<close>

definition agree :: "('s \<Rightarrow> 's \<Rightarrow> bool) \<Rightarrow> ('s, 'a) op \<Rightarrow> ('s, 'a) op \<Rightarrow> bool" where
  "agree R m m' \<longleftrightarrow> (\<forall>s t. R s t \<longrightarrow> fst (m s) = fst (m' t) \<and> R (snd (m s)) (snd (m' t)))"

named_theorems agrees \<open>pairs of runs that agree\<close>

lemma agreeD:
  "agree R m m' \<Longrightarrow> R s t \<Longrightarrow> m s = (r, s') \<Longrightarrow> \<exists>t'. m' t = (r, t') \<and> R s' t'"
  unfolding agree_def by (metis eq_snd_iff fst_conv snd_conv)

lemma agree_bind [agrees]:
  assumes "agree R m m'" "\<And>x. agree R (f x) (g x)"
  shows "agree R (bind_op m f) (bind_op m' g)"
  unfolding agree_def
proof (intro allI impI)
  fix s t assume "R s t"
  obtain r s1 where 1: "m s = (r, s1)" by (cases "m s")
  then obtain t1 where 2: "m' t = (r, t1)" "R s1 t1" using agreeD[OF assms(1) \<open>R s t\<close>] by blast
  show "fst (bind_op m f s) = fst (bind_op m' g t) \<and> R (snd (bind_op m f s)) (snd (bind_op m' g t))"
  proof (cases r)
    case (Inl e)
    with 1 2 show ?thesis by (simp add: bind_op_eq(1))
  next
    case (Inr x)
    with 1 2 assms(2)[of x] show ?thesis by (simp add: bind_op_eq(2) agree_def)
  qed
qed

lemma agree_const [agrees]: "agree R (\<lambda>s. (r, s)) (\<lambda>s. (r, s))"
  by (simp add: agree_def)

lemma agree_lift [agrees]: "agree R (lift_res r) (lift_res r)"
  by (simp add: agree_def)

lemma agree_if [agrees]:
  "(b \<Longrightarrow> agree R m m') \<Longrightarrow> (\<not> b \<Longrightarrow> agree R n n') \<Longrightarrow>
   agree R (if b then m else n) (if b then m' else n')"
  by simp

lemma agree_option [agrees]:
  "agree R m m' \<Longrightarrow> (\<And>x. agree R (f x) (g x)) \<Longrightarrow>
   agree R (case v of None \<Rightarrow> m | Some x \<Rightarrow> f x) (case v of None \<Rightarrow> m' | Some x \<Rightarrow> g x)"
  by (cases v) simp_all

lemma agree_pair [agrees]:
  "(\<And>a b. agree R (f a b) (g a b)) \<Longrightarrow>
   agree R (case v of (a, b) \<Rightarrow> f a b) (case v of (a, b) \<Rightarrow> g a b)"
  by (cases v) simp

subsubsection \<open>The store\<close>

lemma agree_run_batch [agrees]: "agree store_mirrors (run_batch E fill) (run_batch E fill)"
  by (auto simp: agree_def store_mirrors_def run_batch_def on_db_def Let_def split: sum.splits prod.splits)

lemma agree_on_db [agrees]: "agree store_mirrors (on_db m) (on_db m)"
  by (auto simp: agree_def store_mirrors_def on_db_def Let_def split: prod.splits)

lemma ttl_add_interval:
  "fst (ttl_add_inode i e l) = (if tl_interval l = 0 then Inl (Panic ''attempt to divide by zero'') else Inr ())"
  "tl_interval (snd (ttl_add_inode i e l)) = tl_interval l"
  by (simp_all add: ttl_add_inode_def bind_op_def get_or_create_bucket_def get_bucket_interval_start_def
      with_bucket_def Let_def split: option.splits)

lemma ttl_remove_interval: "tl_interval (snd (ttl_remove_inode i l)) = tl_interval l"
  by (auto simp: ttl_remove_inode_def with_bucket_def Let_def split: option.splits prod.splits)

lemma ttl_remove_Inr: "\<exists>x l'. ttl_remove_inode i l = (Inr x, l')"
  by (auto simp: ttl_remove_inode_def Let_def split: option.splits prod.splits)

lemma agree_register_ttl [agrees]: "agree store_mirrors (register_ttl now v) (register_ttl now' v)"
  unfolding agree_def
proof (intro allI impI)
  fix s t :: "'a inode_store" assume st: "store_mirrors s t"
  show "fst (register_ttl now v s) = fst (register_ttl now' v t) \<and>
        store_mirrors (snd (register_ttl now v s)) (snd (register_ttl now' v t))"
  proof (cases "inode_ttl_config now v")
    case None
    then have "inode_ttl_config now' v = None"
      by (cases v) (simp_all add: ttl_from_storage_policy_def split: if_splits)
    with None st show ?thesis by (simp add: register_ttl_def)
  next
    case (Some c)
    then obtain c' where c': "inode_ttl_config now' v = Some c'"
      by (cases v) (simp_all add: ttl_from_storage_policy_def split: if_splits)
    note i = ttl_add_interval[of "u64_of (iid v)"]
    obtain r l where 1: "ttl_add_inode (u64_of (iid v)) (expiry_time_ms c) (st_ttl s) = (r, l)" by fastforce
    obtain r' l' where 2: "ttl_add_inode (u64_of (iid v)) (expiry_time_ms c') (st_ttl t) = (r', l')" by fastforce
    have "r = r'" "tl_interval l = tl_interval l'" "r = Inr () \<or> (\<exists>x. r = Inl (Panic x))"
      using i[of "expiry_time_ms c" "st_ttl s"] i[of "expiry_time_ms c'" "st_ttl t"] st
      unfolding 1 2 store_mirrors_def by auto
    with st 1 2 Some c' show ?thesis
      by (auto simp: register_ttl_def ignore_err_def on_ttl_def store_mirrors_def Let_def)
  qed
qed

lemma agree_count_added [agrees]:
  "agree store_mirrors (\<lambda>st. (Inr (), count_added v st)) (\<lambda>st. (Inr (), count_added v st))"
  by (cases v) (auto simp: agree_def store_mirrors_def add_file_count_def add_dir_count_def)

lemma agree_apply_add [agrees]: "agree store_mirrors (apply_add E now p c) (apply_add E now' p c)"
  unfolding apply_add_def by (intro agrees)

definition acc_mirrors :: "'b del_acc \<Rightarrow> 'b del_acc \<Rightarrow> bool" where
  "acc_mirrors a b \<longleftrightarrow>
     da_batch a = da_batch b \<and> da_res a = da_res b \<and> da_files a = da_files b \<and> da_dirs a = da_dirs b \<and>
     tl_interval (da_ttl a) = tl_interval (da_ttl b)"

lemma agree_del_blocks [agrees]:
  fixes E :: "('db, 'b) meta_env"
  shows "agree acc_mirrors (del_blocks E db ms) (del_blocks E db ms)"
proof (induction ms)
  case (Cons m ms)
  have ins: "acc_mirrors (res_insert i locs a) (res_insert i locs b)" if "acc_mirrors a b"
    for i locs and a b :: "'b del_acc"
    using that by (simp add: acc_mirrors_def res_insert_def)
  show ?case
    unfolding agree_def
  proof (intro allI impI)
    fix a b :: "'b del_acc" assume ab: "acc_mirrors a b"
    note IH = Cons.IH[unfolded agree_def, rule_format]
    show "fst (del_blocks E db (m # ms) a) = fst (del_blocks E db (m # ms) b) \<and>
          acc_mirrors (snd (del_blocks E db (m # ms) a)) (snd (del_blocks E db (m # ms) b))"
      using IH ab ins[OF ab] by (simp split: option.splits sum.splits)
  qed
qed (simp add: agree_def)

lemma agree_del_node [agrees]:
  fixes E :: "('db, 'b) meta_env"
  shows "agree acc_mirrors (del_node E db p v) (del_node E db p v)"
  unfolding agree_def
proof (intro allI impI)
  fix a b :: "'b del_acc" assume ab: "acc_mirrors a b"
  let ?fill = "\<lambda>acc. bind_res (batch_delete_inode E db (iid v) (da_batch acc)) (\<lambda>batch. batch_delete_child E db p (iname v) batch)"
  have same: "?fill b = ?fill a" using ab by (simp add: acc_mirrors_def)
  show "fst (del_node E db p v a) = fst (del_node E db p v b) \<and>
        acc_mirrors (snd (del_node E db p v a)) (snd (del_node E db p v b))"
  proof (cases "?fill a")
    case (Inl e)
    with ab show ?thesis unfolding del_node_def same by simp
  next
    case (Inr bt)
    let ?up = "\<lambda>acc. acc\<lparr>da_batch := bt,
                da_res := (da_res acc)\<lparr>dr_inodes := dr_inodes (da_res acc) + 1\<rparr>,
                da_ttl := snd (ttl_remove_inode (u64_of (iid v)) (da_ttl acc))\<rparr>"
    have up: "acc_mirrors (?up a) (?up b)" using ab by (simp add: acc_mirrors_def ttl_remove_interval)
    note fills = Inr same[unfolded Inr]
    show ?thesis
    proof (cases v)
      case (File n f)
      have "acc_mirrors (?up a\<lparr>da_files := da_files a + 1\<rparr>) (?up b\<lparr>da_files := da_files b + 1\<rparr>)"
        using up ab by (simp add: acc_mirrors_def)
      moreover have "agree acc_mirrors (bind_op (del_blocks E db (f_blocks f)) (\<lambda>_ acc. (Inr [], acc)))
          (bind_op (del_blocks E db (f_blocks f)) (\<lambda>_ acc. (Inr [] :: (i64 \<times> inode_view) list res, acc)))"
        by (intro agrees)
      from this[unfolded agree_def, rule_format, OF calculation]
      show ?thesis using File unfolding del_node_def fills sum.case Let_def by simp
    next
      case (Dir n d ch)
      with up show ?thesis unfolding del_node_def fills sum.case Let_def by (simp add: acc_mirrors_def ttl_remove_interval)
    next
      case (FileEntry n i)
      with up show ?thesis unfolding del_node_def fills sum.case Let_def by (simp add: acc_mirrors_def ttl_remove_interval)
    qed
  qed
qed

lemma agree_del_loop [agrees]:
  fixes E :: "('db, 'b) meta_env"
  shows "agree acc_mirrors (del_loop E db q) (del_loop E db q)"
proof -
  have "acc_mirrors a b \<Longrightarrow> fst (del_loop E db q a) = fst (del_loop E db q b) \<and>
        acc_mirrors (snd (del_loop E db q a)) (snd (del_loop E db q b))" for a b :: "'b del_acc"
  proof (induction E db q a arbitrary: b rule: del_loop.induct)
    case (2 E db p v q a)
    obtain r a' where 1: "del_node E db p v a = (r, a')" by fastforce
    then obtain b' where b': "del_node E db p v b = (r, b')" "acc_mirrors a' b'"
      using agreeD[OF agree_del_node[of E db p v] 2(2) 1] by blast
    show ?case
    proof (cases r)
      case (Inl e)
      with 1 b' show ?thesis by simp
    next
      case (Inr kids)
      with 1 b' 2(1)[OF 1[symmetric] Inr b'(2)] show ?thesis by simp
    qed
  qed simp
  then show ?thesis by (simp add: agree_def)
qed

lemma agree_apply_delete [agrees]:
  fixes E :: "('db, 'b) meta_env"
  shows "agree store_mirrors (apply_delete E p v) (apply_delete E p v)"
  unfolding agree_def
proof (intro allI impI)
  fix s t :: "'db inode_store" assume st: "store_mirrors s t"
  then have db: "st_db s = st_db t" by (simp add: store_mirrors_def)
  show "fst (apply_delete E p v s) = fst (apply_delete E p v t) \<and>
        store_mirrors (snd (apply_delete E p v s)) (snd (apply_delete E p v t))"
  proof (cases "batch_write_inode E (st_db t) p []")
    case (Inl e)
    with st db show ?thesis by (simp add: apply_delete_def)
  next
    case (Inr bt)
    let ?acc = "\<lambda>st. \<lparr>da_batch = bt, da_ttl = st_ttl st, da_res = delete_result_new, da_files = 0, da_dirs = 0\<rparr>"
    have acc: "acc_mirrors (?acc s) (?acc t)" using st by (simp add: acc_mirrors_def store_mirrors_def)
    obtain r a where a: "del_loop E (st_db t) [(iid p, v)] (?acc s) = (r, a)" by fastforce
    obtain b where b: "del_loop E (st_db t) [(iid p, v)] (?acc t) = (r, b)" "acc_mirrors a b"
      using agreeD[OF agree_del_loop[of E "st_db t" "[(iid p, v)]"] acc a] by blast
    have st': "store_mirrors (s\<lparr>st_ttl := da_ttl a\<rparr>) (t\<lparr>st_ttl := da_ttl b\<rparr>)"
      using st b(2) by (simp add: store_mirrors_def acc_mirrors_def)
    have after: "agree store_mirrors
        (\<lambda>st. let st = (if da_files a > 0 then add_file_count (- da_files a) st else st);
                 st = (if da_dirs a > 0 then add_dir_count (- da_dirs a) st else st) in (Inr (da_res a), st))
        (\<lambda>st. let st = (if da_files b > 0 then add_file_count (- da_files b) st else st);
                 st = (if da_dirs b > 0 then add_dir_count (- da_dirs b) st else st) in (Inr (da_res b), st))"
      using b(2) by (auto simp: agree_def store_mirrors_def acc_mirrors_def add_file_count_def add_dir_count_def)
    have batch: "da_batch a = da_batch b" using b(2) by (simp add: acc_mirrors_def)
    show ?thesis
    proof (cases r)
      case (Inl e)
      with a b Inr db st' show ?thesis by (simp add: apply_delete_def)
    next
      case (Inr u)
      have "agree store_mirrors
        (bind_op (on_db (batch_commit E (da_batch a))) (\<lambda>_ st. let st = (if da_files a > 0 then add_file_count (- da_files a) st else st);
                 st = (if da_dirs a > 0 then add_dir_count (- da_dirs a) st else st) in (Inr (da_res a), st)))
        (bind_op (on_db (batch_commit E (da_batch b))) (\<lambda>_ st. let st = (if da_files b > 0 then add_file_count (- da_files b) st else st);
                 st = (if da_dirs b > 0 then add_dir_count (- da_dirs b) st else st) in (Inr (da_res b), st)))"
        unfolding batch by (intro agree_bind agree_on_db after)
      from this[unfolded agree_def, rule_format, OF st']
      show ?thesis unfolding apply_delete_def db \<open>batch_write_inode E (st_db t) p [] = Inr bt\<close> sum.case a b(1) Inr prod.case .
    qed
  qed
qed

lemma agree_read_store:
  "(\<And>st t. st_db st = st_db t \<Longrightarrow> f st = f t) \<Longrightarrow> agree store_mirrors (\<lambda>st. (f st, st)) (\<lambda>st. (f st, st))"
  unfolding agree_def store_mirrors_def fst_conv snd_conv by blast

lemma store_get_inode_db: "st_db st = st_db t \<Longrightarrow> store_get_inode E st i n = store_get_inode E t i n"
  by (simp add: store_get_inode_def)

lemma agree_view [agrees]:
  "(\<And>n f. agree R (a n f) (a' n f)) \<Longrightarrow> (\<And>n d ch. agree R (b n d ch) (b' n d ch)) \<Longrightarrow>
   (\<And>n i. agree R (c n i) (c' n i)) \<Longrightarrow>
   agree R (case v of File n f \<Rightarrow> a n f | Dir n d ch \<Rightarrow> b n d ch | FileEntry n i \<Rightarrow> c n i)
     (case v of File n f \<Rightarrow> a' n f | Dir n d ch \<Rightarrow> b' n d ch | FileEntry n i \<Rightarrow> c' n i)"
  by (cases v) simp_all

lemma agree_change_nlink [agrees]: "agree store_mirrors (change_inode_nlink E f i) (change_inode_nlink E f i)"
  unfolding change_inode_nlink_def
  by (rule agree_bind, rule agree_read_store, erule store_get_inode_db, intro agrees)

text \<open>A batch filled from the database and then used.\<close>

lemma agree_filled:
  fixes fill :: "'db \<Rightarrow> 'x res"
  assumes "\<And>x. agree store_mirrors (f x) (f x)"
  shows "agree store_mirrors (\<lambda>st. case fill (st_db st) of Inl e \<Rightarrow> (Inl e, st) | Inr x \<Rightarrow> f x st)
    (\<lambda>st. case fill (st_db st) of Inl e \<Rightarrow> (Inl e, st) | Inr x \<Rightarrow> f x st)"
  unfolding agree_def
proof (intro allI impI)
  fix s t :: "'db inode_store" assume st: "store_mirrors s t"
  then have "st_db s = st_db t" by (simp add: store_mirrors_def)
  with st assms show "fst (case fill (st_db s) of Inl e \<Rightarrow> (Inl e, s) | Inr x \<Rightarrow> f x s) =
      fst (case fill (st_db t) of Inl e \<Rightarrow> (Inl e, t) | Inr x \<Rightarrow> f x t) \<and>
    store_mirrors (snd (case fill (st_db s) of Inl e \<Rightarrow> (Inl e, s) | Inr x \<Rightarrow> f x s))
      (snd (case fill (st_db t) of Inl e \<Rightarrow> (Inl e, t) | Inr x \<Rightarrow> f x t))"
    by (cases "fill (st_db t)") (simp_all add: agree_def)
qed

lemma agree_apply_link [agrees]: "agree store_mirrors (apply_link E p v i) (apply_link E p v i)"
  unfolding apply_link_def[abs_def] increment_inode_nlink_def
  by (rule agree_filled) (intro agrees)

lemma agree_unlink_entry [agrees]:
  "agree store_mirrors dec dec \<Longrightarrow> agree store_mirrors (unlink_entry E p v dec) (unlink_entry E p v dec)"
  unfolding unlink_entry_def[abs_def] by (rule agree_filled) (intro agrees)

lemma agree_store_ops [agrees]:
  "agree store_mirrors (apply_rename E a b c d) (apply_rename E a b c d)"
  "agree store_mirrors (apply_new_block E v c') (apply_new_block E v c')"
  "agree store_mirrors (apply_complete_file E v c') (apply_complete_file E v c')"
  "agree store_mirrors (apply_overwrite_file E v) (apply_overwrite_file E v)"
  "agree store_mirrors (apply_append_file E v) (apply_append_file E v)"
  "agree store_mirrors (apply_symlink E a b) (apply_symlink E a b)"
  "agree store_mirrors (apply_unlink E a b) (apply_unlink E a b)"
  "agree store_mirrors (apply_unlink_file_entry E a b i) (apply_unlink_file_entry E a b i)"
  unfolding apply_rename_def apply_new_block_def apply_complete_file_def write_file_commit_def
    apply_overwrite_file_def apply_append_file_def apply_symlink_def apply_unlink_def
    apply_unlink_file_entry_def decrement_inode_nlink_def
  by (intro agrees)+

lemma agree_ttl_remove:
  "agree store_mirrors (ignore_err (on_ttl (ttl_remove_inode i))) (ignore_err (on_ttl (ttl_remove_inode i)))"
  unfolding agree_def
proof (intro allI impI)
  fix s t :: "'a inode_store" assume st: "store_mirrors s t"
  obtain x l where 1: "ttl_remove_inode i (st_ttl s) = (Inr x, l)" using ttl_remove_Inr by blast
  obtain y k where 2: "ttl_remove_inode i (st_ttl t) = (Inr y, k)" using ttl_remove_Inr by blast
  show "fst (ignore_err (on_ttl (ttl_remove_inode i)) s) = fst (ignore_err (on_ttl (ttl_remove_inode i)) t) \<and>
    store_mirrors (snd (ignore_err (on_ttl (ttl_remove_inode i)) s)) (snd (ignore_err (on_ttl (ttl_remove_inode i)) t))"
    using st 1 2 ttl_remove_interval[of i "st_ttl s"] ttl_remove_interval[of i "st_ttl t"]
    by (simp add: ignore_err_def on_ttl_def store_mirrors_def)
qed

lemma agree_reregister [agrees]: "agree store_mirrors (reregister_ttl now vs) (reregister_ttl now' vs)"
proof (induction vs)
  case Nil
  show ?case by (simp add: agree_def)
next
  case (Cons v vs)
  have unfold: "reregister_ttl n (v # vs) =
     bind_op (ignore_err (on_ttl (ttl_remove_inode (u64_of (iid v))))) (\<lambda>_.
     bind_op (register_ttl n v) (\<lambda>_. reregister_ttl n vs))" for n
    by (rule ext) simp
  show ?case unfolding unfold by (intro agree_bind agree_ttl_remove agree_register_ttl Cons.IH)
qed

lemma agree_apply_set_attr [agrees]:
  "agree store_mirrors (apply_set_attr E now vs) (apply_set_attr E now' vs)"
  unfolding apply_set_attr_def by (intro agrees)

subsubsection \<open>The directory\<close>

text \<open>Beside the mirror: the journals and the last inode ids of both sides, which these runs keep.\<close>

definition mirrors_at ::
  "(journal_writer \<times> i64) \<times> (journal_writer \<times> i64) \<Rightarrow> 'db fs_dir \<Rightarrow> 'db fs_dir \<Rightarrow> bool" where
  "mirrors_at k s t \<longleftrightarrow>
     mirrors s t \<and> k = ((fd_journal s, fd_inode_id s), (fd_journal t, fd_inode_id t))"

lemma mirrors_atI: "mirrors s t \<Longrightarrow> mirrors_at ((fd_journal s, fd_inode_id s), (fd_journal t, fd_inode_id t)) s t"
  by (simp add: mirrors_at_def)

lemma mirrors_atD:
  assumes "mirrors_at k s t"
  shows "mirrors s t" "fst k = (fd_journal s, fd_inode_id s)" "snd k = (fd_journal t, fd_inode_id t)"
  using assms by (auto simp: mirrors_at_def)

lemmas mirrors_defs = mirrors_at_def mirrors_def

lemma agree_on_store [agrees]:
  fixes m :: "('db inode_store, 'x) op"
  assumes "agree store_mirrors m m'"
  shows "agree (mirrors_at k) (on_store m) (on_store m')"
  unfolding agree_def
proof (intro allI impI)
  fix s t :: "'db fs_dir" assume st: "mirrors_at k s t"
  obtain r a where a: "m (fd_store s) = (r, a)" by fastforce
  obtain b where b: "m' (fd_store t) = (r, b)" "store_mirrors a b"
    using agreeD[OF assms _ a] st unfolding mirrors_defs by blast
  show "fst (on_store m s) = fst (on_store m' t) \<and> mirrors_at k (snd (on_store m s)) (snd (on_store m' t))"
    using a b st by (simp add: on_store_def mirrors_defs)
qed

lemma agree_read_ptr [agrees]: "agree (mirrors_at k) (read_ptr p) (read_ptr p)"
  by (auto simp: agree_def mirrors_defs read_ptr_def split: option.splits)

lemma agree_on_ptr [agrees]: "agree (mirrors_at k) (on_ptr p m) (on_ptr p m)"
  by (auto simp: agree_def mirrors_defs on_ptr_def Let_def split: option.splits prod.splits inode_ptr.splits)

lemma agree_now [agrees]:
  fixes f g :: "int \<Rightarrow> ('a fs_dir, 'x) op"
  assumes "\<And>a b. agree (mirrors_at k) (f a) (g b)"
  shows "agree (mirrors_at k) (bind_op now_ms f) (bind_op now_ms g)"
  unfolding agree_def
proof (intro allI impI)
  fix s t :: "'a fs_dir" assume "mirrors_at k s t"
  then have "mirrors_at k (s\<lparr>fd_tick := Suc (fd_tick s)\<rparr>) (t\<lparr>fd_tick := Suc (fd_tick t)\<rparr>)"
    by (simp add: mirrors_defs)
  with assms[of "fd_clock s (fd_tick s)" "fd_clock t (fd_tick t)"]
  show "fst (bind_op now_ms f s) = fst (bind_op now_ms g t) \<and>
    mirrors_at k (snd (bind_op now_ms f s)) (snd (bind_op now_ms g t))"
    by (simp add: agree_def bind_op_def now_ms_def)
qed

lemma resolve_mirrors:
  assumes "mirrors s t"
  shows "resolve_path E s p = resolve_path E t p"
proof -
  have "store_loader E s = store_loader E t"
    unfolding store_loader_def using assms
    by (intro ext store_get_inode_db) (simp add: mirrors_def store_mirrors_def)
  with assms show ?thesis by (simp add: resolve_path_def mirrors_def)
qed

lemma agree_resolve [agrees]:
  "agree (mirrors_at k) (\<lambda>s. (resolve_path E s p, s)) (\<lambda>s. (resolve_path E s p, s))"
  unfolding agree_def fst_conv snd_conv using resolve_mirrors mirrors_atD(1) by blast

lemma agree_add_last_inode [agrees]: "agree (mirrors_at k) (add_last_inode E c inp) (add_last_inode E c inp)"
proof -
  have unfold: "add_last_inode E c inp =
     (if is_full inp \<or> ip_is_root inp then (\<lambda>s. (Inr inp, s))
      else case get_inode inp (int (existing_len inp) - 1) of
        None \<Rightarrow> (\<lambda>s. (Inl (Common ''Parent path not exists''), s))
      | Some parent \<Rightarrow>
          bind_op (read_ptr parent) (\<lambda>v.
          if \<not> is_dir v then (\<lambda>s. (Inl (Common ''Parent path is not a directory''), s))
          else bind_op (on_ptr parent (pure_op (update_mtime (imtime c)))) (\<lambda>_.
          bind_op (on_ptr parent (add_child c)) (\<lambda>(added, _).
          bind_op (read_ptr parent) (\<lambda>pv.
          bind_op (read_ptr (rebase parent added)) (\<lambda>cv.
          bind_op now_ms (\<lambda>now.
          bind_op (on_store (apply_add E now pv cv)) (\<lambda>_.
          lift_res (ip_append (iname cv) (rebase parent added) inp)))))))))"
    by (rule ext) (simp add: add_last_inode_def split: option.splits)
  show ?thesis unfolding unfold by (intro agrees)
qed

lemma agree_delete [agrees]: "agree (mirrors_at k) (unprotected_delete E mt inp) (unprotected_delete E mt inp)"
  unfolding unprotected_delete_def by (intro agrees)

lemma agree_rename_target [agrees]: "agree (mirrors_at k) (rename_target a b) (rename_target a b)"
proof -
  have unfold: "rename_target a b =
     (case get_last_inode b of
        Some v \<Rightarrow>
          bind_op (read_ptr v) (\<lambda>dv.
            if is_dir dv then (\<lambda>s. (Inr (ip_name a, v), s))
            else (\<lambda>s. (Inl (Common ''Rename failed, because dst is exists''), s)))
      | None \<Rightarrow>
          (case get_inode b (-2) of
             Some v \<Rightarrow> (\<lambda>s. (Inr (ip_name b, v), s))
           | None \<Rightarrow> (\<lambda>s. (Inl (Common ''Parent does not exist''), s))))"
    by (auto simp: rename_target_def if_distrib[of "\<lambda>f. f _"] intro!: ext arg_cong[of _ _ "bind_op _"] split: option.splits)
  show ?thesis unfolding unfold by (intro agrees)
qed

lemma agree_rename [agrees]: "agree (mirrors_at k) (unprotected_rename E mt a b) (unprotected_rename E mt a b)"
  unfolding unprotected_rename_def Let_def by (intro agrees)

lemma agree_symlink [agrees]:
  "agree (mirrors_at k) (unprotected_symlink E lnk f force) (unprotected_symlink E lnk f force)"
proof -
  have old: "bind_op (read_ptr ptr) (\<lambda>v s.
       if \<not> is_link v \<or> is_link v \<and> \<not> force then (Inl (FileAlreadyExists (ip_path lnk)), s)
       else (Inr (Some ptr), s)) =
     bind_op (read_ptr ptr) (\<lambda>v.
       if \<not> is_link v \<or> is_link v \<and> \<not> force then (\<lambda>s. (Inl (FileAlreadyExists (ip_path lnk)), s))
       else (\<lambda>s. (Inr (Some ptr), s)))" for ptr
    by (intro arg_cong[of _ _ "bind_op (read_ptr ptr)"] ext) simp
  show ?thesis unfolding unprotected_symlink_def old by (intro agrees)
qed

lemma agree_link:
  assumes "length (ip_components p) \<le> existing_len p + 1"
  shows "agree (mirrors_at k) (unprotected_link E p i t) (unprotected_link E p i t)"
proof -
  have "create_parent_dir E o' p = (\<lambda>s. (Inr p, s))" for o'
    using assms by (simp add: create_parent_dir_def Let_def)
  then show ?thesis unfolding unprotected_link_def by (simp only:) (intro agrees)
qed

end
