(* ===== verification/Journal_Replay.thy ===== *)
theory Journal_Replay
  imports Journal_Loader
begin

text \<open>
  Followers: a request that the leader served appends entries to the journal, and replaying these
  entries on a mirror of the leader gives a mirror again. Shown for every request but the one that
  adds a block, for paths whose parent directory exists; what the exceptions lead to is shown in
  \<open>Fs_Theorems\<close>.
\<close>

subsection \<open>Replaying a list of entries on the directory\<close>

definition dir_handler :: "('db, 'b) meta_env \<Rightarrow> journal_entry \<Rightarrow> ('db fs_dir, unit) op" where
  "dir_handler E entry =
     (case entry of
        JMkdir e \<Rightarrow> replay_mkdir E e
      | JCreateFile e \<Rightarrow> replay_create_file E e
      | JOverWriteFile e \<Rightarrow> replay_overwrite_file E e
      | JAddBlock e \<Rightarrow> replay_add_block E e
      | JCompleteFile e \<Rightarrow> replay_complete_file E e
      | JRename e \<Rightarrow> replay_rename E e
      | JDelete e \<Rightarrow> replay_delete E e
      | JAppendFile e \<Rightarrow> replay_append_file E e
      | JMount e \<Rightarrow> store_mount E (mte_info e) False
      | JUnMount e \<Rightarrow> dir_unmount E (ume_id e)
      | JSetAttr e \<Rightarrow> replay_set_attr E e
      | JSymlink e \<Rightarrow> replay_symlink E e
      | JLink e \<Rightarrow> replay_link E e)"

fun run_entries :: "('db, 'b) meta_env \<Rightarrow> journal_entry list \<Rightarrow> ('db fs_dir, unit) op" where
  "run_entries E [] s = (Inr (), s)"
| "run_entries E (e # es) s = bind_op (dir_handler E e) (\<lambda>_. run_entries E es) s"

definition log_grows :: "'db fs_dir \<Rightarrow> journal_entry list \<Rightarrow> 'db fs_dir \<Rightarrow> bool" where
  "log_grows d es d' \<longleftrightarrow> fd_journal d' = (fd_journal d)\<lparr>jw_entries := jw_entries (fd_journal d) @ es\<rparr>"

definition no_symlink :: "journal_entry list \<Rightarrow> bool" where
  "no_symlink es \<longleftrightarrow> (\<forall>e\<in>set es. case e of JSymlink _ \<Rightarrow> False | _ \<Rightarrow> True)"

definition mount_entry_free :: "journal_entry list \<Rightarrow> bool" where
  "mount_entry_free es \<longleftrightarrow> (\<forall>e\<in>set es. case e of JMount _ \<Rightarrow> False | JUnMount _ \<Rightarrow> False | _ \<Rightarrow> True)"

text \<open>The entries that lead from one state of the leader to another bring every mirror along; the id
  counter of the follower keeps up unless a symlink was created.\<close>

definition replays :: "('db, 'b) meta_env \<Rightarrow> 'db fs_dir \<Rightarrow> journal_entry list \<Rightarrow> 'db fs_dir \<Rightarrow> bool" where
  "replays E d es d' \<longleftrightarrow> log_grows d es d' \<and> mount_entry_free es \<and>
     (\<forall>f. mirrors d f \<longrightarrow>
        (\<exists>f'. run_entries E es f = (Inr (), f') \<and> mirrors d' f' \<and>
           (fd_inode_id f = fd_inode_id d \<and> no_symlink es \<longrightarrow> fd_inode_id f' = fd_inode_id d')))"

lemma replays_none:
  assumes "fd_root d' = fd_root d" "fd_store d' = fd_store d" "fd_journal d' = fd_journal d"
    "fd_inode_id d' = fd_inode_id d"
  shows "replays E d [] d'"
  using assms by (simp add: replays_def log_grows_def mirrors_def mount_entry_free_def)

lemma replays_one:
  assumes "log_grows d [e] d'" "mount_entry_free [e]"
    and "\<And>f. mirrors d f \<Longrightarrow> \<exists>f'. dir_handler E e f = (Inr (), f') \<and> mirrors d' f' \<and>
      (fd_inode_id f = fd_inode_id d \<and> no_symlink [e] \<longrightarrow> fd_inode_id f' = fd_inode_id d')"
  shows "replays E d [e] d'"
  unfolding replays_def
proof (intro conjI allI impI)
  fix f assume "mirrors d f"
  from assms(3)[OF this] obtain f' where f': "dir_handler E e f = (Inr (), f')" "mirrors d' f'"
      "fd_inode_id f = fd_inode_id d \<and> no_symlink [e] \<longrightarrow> fd_inode_id f' = fd_inode_id d'" by blast
  from f'(1) have "run_entries E [e] f = (Inr (), f')" by (simp add: bind_op_def)
  with f'(2,3) show "\<exists>f'. run_entries E [e] f = (Inr (), f') \<and> mirrors d' f' \<and>
      (fd_inode_id f = fd_inode_id d \<and> no_symlink [e] \<longrightarrow> fd_inode_id f' = fd_inode_id d')" by blast
qed (use assms(1,2) in simp_all)

lemma run_entries_append:
  "run_entries E (es @ es') s = bind_op (run_entries E es) (\<lambda>_. run_entries E es') s"
  by (induction es arbitrary: s) (auto simp: bind_op_def split: prod.splits sum.splits)

lemma replays_trans:
  assumes "replays E d es d1" "replays E d1 es' d'"
  shows "replays E d (es @ es') d'"
  unfolding replays_def
proof (intro conjI allI impI)
  show "log_grows d (es @ es') d'" "mount_entry_free (es @ es')"
    using assms by (auto simp: replays_def log_grows_def mount_entry_free_def)
  fix f assume "mirrors d f"
  with assms(1) obtain f1 where f1: "run_entries E es f = (Inr (), f1)" "mirrors d1 f1"
      "fd_inode_id f = fd_inode_id d \<and> no_symlink es \<longrightarrow> fd_inode_id f1 = fd_inode_id d1"
    unfolding replays_def by blast
  with assms(2) obtain f' where f': "run_entries E es' f1 = (Inr (), f')" "mirrors d' f'"
      "fd_inode_id f1 = fd_inode_id d1 \<and> no_symlink es' \<longrightarrow> fd_inode_id f' = fd_inode_id d'"
    unfolding replays_def by blast
  have "no_symlink (es @ es') \<longleftrightarrow> no_symlink es \<and> no_symlink es'" by (auto simp: no_symlink_def)
  then show "\<exists>f'. run_entries E (es @ es') f = (Inr (), f') \<and> mirrors d' f' \<and>
      (fd_inode_id f = fd_inode_id d \<and> no_symlink (es @ es') \<longrightarrow> fd_inode_id f' = fd_inode_id d')"
    using f1 f' by (intro exI[of _ f']) (simp add: run_entries_append bind_op_def)
qed

lemma send_Inr:
  assumes "jw_enable jw" "send e jw = (Inr (), jw')"
  shows "jw' = jw\<lparr>jw_entries := jw_entries jw @ [e]\<rparr>"
  using assms by (auto simp: send_def split: if_splits)

subsection \<open>Runs without entries of their own\<close>

text \<open>An operation that reads the clock, does its work without touching the journal, and logs: the
  work is repeated by the handler with the time from the entry.\<close>

abbreviation ticked :: "'db fs_dir \<Rightarrow> 'db fs_dir" where
  "ticked d \<equiv> d\<lparr>fd_tick := Suc (fd_tick d)\<rparr>"

lemma replays_run:
  assumes en: "jw_enable (fd_journal d)"
    and d0: "fd_root d0 = fd_root d" "fd_store d0 = fd_store d" "fd_journal d0 = fd_journal d"
    and pre: "\<And>f. fd_root (pre f) = fd_root f" "\<And>f. fd_store (pre f) = fd_store f"
      "\<And>f. fd_inode_id f = fd_inode_id d \<Longrightarrow> no_symlink [e] \<Longrightarrow> fd_inode_id (pre f) = fd_inode_id d0"
    and work: "m d0 = (Inr x, d1)" "\<And>k. agree (mirrors_at k) m m"
    and log: "send e (fd_journal d1) = (Inr (), jw)" "d' = d1\<lparr>fd_journal := jw\<rparr>" "mount_entry_free [e]"
    and handler: "\<And>f f'. mirrors d f \<Longrightarrow> m (pre f) = (Inr x, f') \<Longrightarrow> dir_handler E e f = (Inr (), f')"
  shows "replays E d [e] d'"
proof (rule replays_one)
  have self: "mirrors_at ((fd_journal d0, fd_inode_id d0), (fd_journal d0, fd_inode_id d0)) d0 d0"
    by (simp add: mirrors_defs store_mirrors_def)
  from agreeD[OF work(2) self work(1)]
  have d1: "fd_journal d1 = fd_journal d0" "fd_inode_id d1 = fd_inode_id d0" by (auto simp: mirrors_at_def)
  show "log_grows d [e] d'" using send_Inr[OF _ log(1)] en log(2) by (simp add: d1(1) d0(3) log_grows_def)
  show "mount_entry_free [e]" by (rule log(3))
  fix f assume f: "mirrors d f"
  let ?k = "((fd_journal d0, fd_inode_id d0), (fd_journal (pre f), fd_inode_id (pre f)))"
  have "mirrors_at ?k d0 (pre f)" using f by (simp add: mirrors_defs d0(1,2) pre(1,2))
  from agreeD[OF work(2) this work(1)] obtain f' where f': "m (pre f) = (Inr x, f')" "mirrors_at ?k d1 f'"
    by blast
  then have "mirrors d' f'" "fd_inode_id f' = fd_inode_id (pre f)" "fd_inode_id d' = fd_inode_id d0"
    using log(2) by (simp_all add: mirrors_defs)
  with handler[OF f f'(1)] pre(3) show "\<exists>f'. dir_handler E e f = (Inr (), f') \<and> mirrors d' f' \<and>
      (fd_inode_id f = fd_inode_id d \<and> no_symlink [e] \<longrightarrow> fd_inode_id f' = fd_inode_id d')" by auto
qed

lemma replays_work:
  assumes "jw_enable (fd_journal d)"
    and "m (d\<lparr>fd_tick := n\<rparr>) = (Inr x, d1)" "\<And>k. agree (mirrors_at k) m m"
    and "send e (fd_journal d1) = (Inr (), jw)" "d' = d1\<lparr>fd_journal := jw\<rparr>" "mount_entry_free [e]"
    and "\<And>f f'. mirrors d f \<Longrightarrow> m f = (Inr x, f') \<Longrightarrow> dir_handler E e f = (Inr (), f')"
  shows "replays E d [e] d'"
  by (rule replays_run[where pre = "\<lambda>f. f" and m = m and ?d0.0 = "d\<lparr>fd_tick := n\<rparr>"]) (use assms in simp_all)

lemma delete_replays:
  assumes en: "jw_enable (fd_journal d)" and res: "resolve_path E d path = Inr inp"
    and run: "delete E rec inp d = (Inr r, d')"
  obtains e where "replays E d [e] d'"
proof -
  let ?t = "fd_clock d (fd_tick d)"
  let ?e = "JDelete \<lparr>dle_op_ms = ?t, dle_path = path, dle_mtime = ?t\<rparr>"
  have path: "ip_path inp = path" by (rule resolve_path_fields(1)[OF res])
  obtain d1 jw where d1: "unprotected_delete E ?t inp (ticked d) = (Inr r, d1)"
      "send ?e (fd_journal d1) = (Inr (), jw)" "d' = d1\<lparr>fd_journal := jw\<rparr>"
    using run path unfolding delete_def
    by (auto simp: bind_op_Inr_iff now_ms_Inr on_journal_Inr log_delete_def split: if_splits)
  have "replays E d [?e] d'"
  proof (rule replays_work[OF en d1(1) agree_delete d1(2,3)])
    fix f f' assume "mirrors d f" "unprotected_delete E ?t inp f = (Inr r, f')"
    then show "dir_handler E ?e f = (Inr (), f')"
      using res resolve_mirrors[of d f E path] by (simp add: dir_handler_def replay_delete_def bind_op_def)
  qed (simp add: mount_entry_free_def)
  then show ?thesis by (rule that)
qed

lemma rename_replays:
  assumes en: "jw_enable (fd_journal d)"
    and res: "resolve_path E d src = Inr src_inp" "resolve_path E d dst = Inr dst_inp"
    and run: "rename E src_inp dst_inp d = (Inr r, d')"
  obtains e where "replays E d [e] d'"
proof -
  let ?t = "fd_clock d (fd_tick d)"
  let ?e = "JRename \<lparr>rne_op_ms = ?t, rne_src = src, rne_dst = dst, rne_mtime = ?t\<rparr>"
  have path: "ip_path src_inp = src" "ip_path dst_inp = dst"
    using resolve_path_fields(1)[OF res(1)] resolve_path_fields(1)[OF res(2)] by simp_all
  obtain d1 jw where d1: "unprotected_rename E ?t src_inp dst_inp (ticked d) = (Inr (), d1)"
      "send ?e (fd_journal d1) = (Inr (), jw)" "d' = d1\<lparr>fd_journal := jw\<rparr>"
    using run path unfolding rename_def
    by (auto simp: bind_op_Inr_iff now_ms_Inr on_journal_Inr log_rename_def split: if_splits)
  have "replays E d [?e] d'"
  proof (rule replays_work[OF en d1(1) agree_rename d1(2,3)])
    fix f f' assume "mirrors d f" "unprotected_rename E ?t src_inp dst_inp f = (Inr (), f')"
    then show "dir_handler E ?e f = (Inr (), f')"
      using res resolve_mirrors[of d f E src] resolve_mirrors[of d f E dst]
      by (simp add: dir_handler_def replay_rename_def bind_op_def)
  qed (simp add: mount_entry_free_def)
  then show ?thesis by (rule that)
qed

subsection \<open>Writes of one file\<close>

lemma replace_last_file_eq:
  assumes "resolve_path E f path = Inr inp" "get_last_inode inp = Some (Owned (File n old))"
  shows "bind_op (replace_last_file E path h) g f = g (File n (h old)) f"
  using assms by (simp add: replace_last_file_def bind_op_def on_ptr_def read_ptr_def deref_def)

lemma write_replays:
  assumes en: "jw_enable (fd_journal d)" and res: "resolve_path E d path = Inr inp"
    and last: "get_last_inode inp = Some (Owned (File n old))"
    and W: "W (File n new) (fd_store d) = (Inr (), st)" "agree store_mirrors (W (File n new)) (W (File n new))"
    and log: "send e (fd_journal d) = (Inr (), jw)" "d' = d\<lparr>fd_tick := k, fd_store := st, fd_journal := jw\<rparr>"
      "mount_entry_free [e]"
    and handler: "dir_handler E e = bind_op (replace_last_file E path (\<lambda>_. new)) (\<lambda>v. on_store (W v))"
  shows "replays E d [e] d'"
proof (rule replays_work[OF en _ agree_on_store[OF W(2)] _ _ log(3)])
  show "on_store (W (File n new)) (d\<lparr>fd_tick := k\<rparr>) = (Inr (), d\<lparr>fd_tick := k, fd_store := st\<rparr>)"
    using W(1) by (simp add: on_store_def)
  show "send e (fd_journal (d\<lparr>fd_tick := k, fd_store := st\<rparr>)) = (Inr (), jw)" using log(1) by simp
  show "d' = d\<lparr>fd_tick := k, fd_store := st\<rparr>\<lparr>fd_journal := jw\<rparr>" using log(2) by simp
  fix f f' assume "mirrors d f" "on_store (W (File n new)) f = (Inr (), f')"
  then show "dir_handler E e f = (Inr (), f')"
    using res resolve_mirrors[of d f E path] unfolding handler by (simp add: replace_last_file_eq[OF _ last])
qed

lemma on_ptr_owned:
  assumes "on_ptr ptr (file_op m) s = (Inr (a, Owned (File n new)), s')"
  shows "\<exists>old. ptr = Owned (File n old)"
proof (cases ptr)
  case (Ref p)
  with assms show ?thesis by (simp add: on_ptr_Ref_Inr)
next
  case (Owned v)
  with assms show ?thesis by (auto simp: on_ptr_Owned_Inr file_op_Inr)
qed

lemma last_replaced:
  assumes "at_path L I inp p" "is_full inp"
  shows "get_last_inode (inp\<lparr>ip_inodes := butlast (ip_inodes inp) @ [ptr]\<rparr>) = Some ptr"
proof -
  let ?inp = "inp\<lparr>ip_inodes := butlast (ip_inodes inp) @ [ptr]\<rparr>"
  note D = at_pathD[OF assms(1)]
  have len: "length (ip_inodes inp) = Suc (length p)" using D(8) assms(2) by simp
  then show ?thesis
    using get_inode_back[of ?inp 1] D(1,2) by (simp add: get_last_inode_def nth_append)
qed

lemma complete_replays:
  assumes s: "dir_ok E d" and inp: "at_path (paths d) (m_inodes (meta E d)) inp p"
    and en: "jw_enable (fd_journal d)" and res: "resolve_path E d path = Inr inp"
    and run: "complete_file E inp len com d = (Inr b, d')"
  obtains es where "replays E d es d'"
proof -
  let ?s0 = "d\<lparr>fd_tick := Suc (Suc (fd_tick d))\<rparr>" and ?t = "fd_clock d (Suc (fd_tick d))"
  have s0: "dir_inv E ?s0 (fd_inode_id d)" "at_path (paths ?s0) (m_inodes (meta E ?s0)) inp p"
    using s inp by (simp_all add: dir_ok_def dir_inv_def)
  have path: "ip_path inp = path" by (rule resolve_path_fields(1)[OF res])
  obtain ptr done' ptr' s1 where op: "get_last_inode inp = Some ptr"
      "on_ptr ptr (file_op (complete_on_file ?t len com)) ?s0 = (Inr (done', ptr'), s1)"
      "(if \<not> done' then (\<lambda>s. (Inr False, s)) else bind_op (read_ptr ptr') (\<lambda>v.
         bind_op (on_store (apply_complete_file E v com)) (\<lambda>_. bind_op (lift_res (as_file v)) (\<lambda>f.
         bind_op (on_journal (log_complete_file (fd_clock d (fd_tick d)) path f com)) (\<lambda>_ s.
           (Inr True, s)))))) s1 = (Inr b, d')"
    using run path unfolding complete_file_def bind_op_Inr_iff now_ms_Inr try_option_def
    by (cases "get_last_inode inp") auto
  obtain i n f f' where f: "ptr' = Owned (File (last p) f')" "s1 = ?s0"
    using s0 op(1,2) by (rule file_ptr_op)
  obtain old where ptr: "ptr = Owned (File (last p) old)"
    using on_ptr_owned[OF op(2)[unfolded f(1)]] by blast
  show ?thesis
  proof (cases done')
    case False
    with op(3) f(2) have "replays E d [] d'" by (intro replays_none) auto
    then show ?thesis by (rule that)
  next
    case True
    let ?e = "JCompleteFile \<lparr>cfe_op_ms = fd_clock d (fd_tick d), cfe_path = path, cfe_file = f', cfe_commit_block = com\<rparr>"
    obtain st jw where st: "apply_complete_file E (File (last p) f') com (fd_store d) = (Inr (), st)"
        "send ?e (fd_journal d) = (Inr (), jw)"
        "d' = d\<lparr>fd_tick := Suc (Suc (fd_tick d)), fd_store := st, fd_journal := jw\<rparr>"
      using op(3) True f by (auto simp: bind_op_Inr_iff read_ptr_Inr on_store_Inr on_journal_Inr deref_def log_complete_file_def)
    have "replays E d [?e] d'"
      by (rule write_replays[OF en res op(1)[unfolded ptr], of "\<lambda>v. apply_complete_file E v com" f' st ?e jw])
        (use st in \<open>simp_all add: agree_store_ops mount_entry_free_def dir_handler_def replay_complete_file_def\<close>)
    then show ?thesis by (rule that)
  qed
qed

lemma append_replays:
  assumes s: "dir_ok E d" and inp: "at_path (paths d) (m_inodes (meta E d)) inp p"
    and en: "jw_enable (fd_journal d)" and res: "resolve_path E d path = Inr inp"
    and run: "append_file E inp client d = (Inr (lb, status), d')"
  obtains es where "replays E d es d'"
proof -
  have path: "ip_path inp = path" by (rule resolve_path_fields(1)[OF res])
  have s0: "dir_inv E (ticked d) (fd_inode_id d)" "at_path (paths (ticked d)) (m_inodes (meta E (ticked d))) inp p"
    using s inp by (simp_all add: dir_ok_def dir_inv_def)
  obtain ptr v where pv: "get_last_inode inp = Some ptr" "deref (fd_root (ticked d)) ptr = Some v" "(case v of
         FileEntry _ _ \<Rightarrow> (\<lambda>s. (Inl (Panic ''assertion failed''), s))
       | Dir _ _ _ \<Rightarrow> (\<lambda>s. (Inl (FileAlreadyExists ''Cannot append to already exists directory''), s))
       | File n f \<Rightarrow>
           if \<not> is_complete f then (\<lambda>s. (Inl (Common ''Cannot append not complete file''), s))
           else let (last_block, f') = append_to client f in
             bind_op (lift_res (to_file_status (ip_path inp) (File n f'))) (\<lambda>status.
             bind_op (on_store (apply_append_file E (File n f'))) (\<lambda>_.
             bind_op (on_journal (log_append_file (fd_clock d (fd_tick d)) (ip_path inp) f')) (\<lambda>_ s.
               (Inr (last_block, status), s))))) (ticked d) = (Inr (lb, status), d')"
    using run unfolding append_file_def
    by (cases "get_last_inode inp") (auto simp: bind_op_Inr_iff now_ms_Inr read_ptr_Inr simp del: to_file_status.simps)
  obtain nm fl where vf: "v = File nm fl" using pv(3) by (cases v) simp_all
  obtain lb' fl' where app: "append_to client fl = (lb', fl')" by fastforce
  let ?e = "JAppendFile \<lparr>fe_op_ms = fd_clock d (fd_tick d), fe_path = path, fe_file = fl'\<rparr>"
  obtain st jw where st: "apply_append_file E (File nm fl') (fd_store d) = (Inr (), st)"
      "send ?e (fd_journal d) = (Inr (), jw)"
      "d' = d\<lparr>fd_tick := Suc (fd_tick d), fd_store := st, fd_journal := jw\<rparr>"
    using pv path by (cases "is_complete fl")
      (auto simp: vf app bind_op_Inr_iff on_store_Inr on_journal_Inr log_append_file_def)
  have nd: "\<not> is_dir (File nm fl)" by simp
  obtain i n f where f: "ptr = Owned (File (last p) f)" "File nm fl = File (last p) f"
    using s0 pv(1) pv(2)[unfolded vf] nd by (rule file_ptr_read)
  have ptr: "ptr = Owned (File nm fl)" using f by simp
  have "replays E d [?e] d'"
    by (rule write_replays[OF en res pv(1)[unfolded ptr], of "apply_append_file E" fl' st ?e jw])
      (use st in \<open>simp_all add: agree_store_ops mount_entry_free_def dir_handler_def replay_append_file_def\<close>)
  then show ?thesis by (rule that)
qed

lemma overwrite_replays:
  assumes s: "dir_ok E d" and inp: "at_path (paths d) (m_inodes (meta E d)) inp p"
    and en: "jw_enable (fd_journal d)" and res: "resolve_path E d path = Inr inp"
    and run: "overwrite_file E opts inp d = (Inr (res', inp'), d')"
  obtains es where "replays E d es d'"
proof -
  let ?t = "fd_clock d (fd_tick d)"
  have path: "ip_path inp = path" by (rule resolve_path_fields(1)[OF res])
  have s0: "dir_inv E (ticked d) (fd_inode_id d)" "at_path (paths (ticked d)) (m_inodes (meta E (ticked d))) inp p"
    using s inp by (simp_all add: dir_ok_def dir_inv_def)
  obtain ptr a ptr' s1 v' st jw where op: "get_last_inode inp = Some ptr"
      "on_ptr ptr (file_op (\<lambda>f. (Inr (), overwrite_meta opts ?t f))) (ticked d) = (Inr (a, ptr'), s1)"
      "deref (fd_root s1) ptr' = Some v'" "apply_overwrite_file E v' (fd_store s1) = (Inr (), st)"
      "log_overwrite_file (fd_root s1) ?t (inp\<lparr>ip_inodes := butlast (ip_inodes inp) @ [ptr']\<rparr>) (fd_journal s1) = (Inr (), jw)"
      "d' = s1\<lparr>fd_store := st, fd_journal := jw\<rparr>"
    using run unfolding overwrite_file_def
    by (cases "get_last_inode inp") (auto simp: bind_op_Inr_iff now_ms_Inr read_ptr_Inr on_store_Inr on_journal_Inr
        Let_def split: if_splits)
  obtain i n f f' where f: "ptr' = Owned (File (last p) f')" "s1 = ticked d"
    using s0 op(1,2) by (rule file_ptr_op)
  obtain old where ptr: "ptr = Owned (File (last p) old)"
    using on_ptr_owned[OF op(2)[unfolded f(1)]] by blast
  let ?inp = "inp\<lparr>ip_inodes := butlast (ip_inodes inp) @ [ptr']\<rparr>"
  let ?e = "JOverWriteFile \<lparr>fe_op_ms = ?t, fe_path = path, fe_file = f'\<rparr>"
  have full: "is_full inp" using at_path_last[OF inp] op(1) by (simp split: if_splits)
  have last: "get_last_inode ?inp = Some ptr'" by (rule last_replaced[OF inp full])
  have "send ?e (fd_journal d) = (Inr (), jw)"
    using op(5) f last path by (simp add: log_overwrite_file_def clone_last_file_def deref_def bind_op_def)
  moreover have "apply_overwrite_file E (File (last p) f') (fd_store d) = (Inr (), st)"
    using op(3,4) f by (simp add: deref_def)
  ultimately have "replays E d [?e] d'"
    by (intro write_replays[OF en res op(1)[unfolded ptr], of "apply_overwrite_file E" f' st ?e jw])
      (use op(6) f(2) in \<open>simp_all add: agree_store_ops mount_entry_free_def dir_handler_def replay_overwrite_file_def\<close>)
  then show ?thesis by (rule that)
qed

subsection \<open>Links\<close>

lemma unprotected_symlink_path:
  assumes "unprotected_symlink E lnk f force s = (Inr l', s')"
  shows "ip_path l' = ip_path lnk"
  using assms unfolding unprotected_symlink_def
  by (auto simp: bind_op_Inr_iff ip_append_def split: option.splits if_splits sum.splits)

lemma symlink_replays:
  assumes en: "jw_enable (fd_journal d)" and res: "resolve_path E d path = Inr lnk"
    and run: "symlink E target lnk force mode d = (Inr (), d')"
  obtains es where "replays E d es d'"
proof -
  let ?t = "fd_clock d (fd_tick d)"
  have path: "ip_path lnk = path" by (rule resolve_path_fields(1)[OF res])
  obtain i d0 l' d1 jw where op: "next_inode_id (ticked d) = (Inr i, d0)"
      "unprotected_symlink E lnk (file_with_link i ?t target mode) force d0 = (Inr l', d1)"
      "log_symlink ?t (ip_path l') (file_with_link i ?t target mode) force (fd_journal d1) = (Inr (), jw)"
      "d' = d1\<lparr>fd_journal := jw\<rparr>"
    using run unfolding symlink_def by (auto simp: bind_op_Inr_iff now_ms_Inr on_journal_Inr Let_def)
  let ?f = "file_with_link i ?t target mode"
  let ?e = "JSymlink \<lparr>sye_op_ms = ?t, sye_link = path, sye_new_inode = ?f, sye_force = force\<rparr>"
  have d0: "fd_root d0 = fd_root d" "fd_store d0 = fd_store d" "fd_journal d0 = fd_journal d"
    using op(1) by (auto simp: next_inode_id_def split: prod.splits)
  have log: "send ?e (fd_journal d1) = (Inr (), jw)"
    using op(3) unprotected_symlink_path[OF op(2)] path by (simp add: log_symlink_def)
  have "replays E d [?e] d'"
  proof (rule replays_run[OF en d0, where pre = "\<lambda>f. f", OF _ _ _ op(2) agree_symlink log op(4)])
    fix f f' assume "mirrors d f" "unprotected_symlink E lnk ?f force f = (Inr l', f')"
    then show "dir_handler E ?e f = (Inr (), f')"
      using res resolve_mirrors[of d f E path] by (simp add: dir_handler_def replay_symlink_def bind_op_def)
  qed (simp_all add: mount_entry_free_def no_symlink_def)
  then show ?thesis by (rule that)
qed

lemma link_replays:
  assumes s: "dir_ok E d" and src: "at_path (paths d) (m_inodes (meta E d)) src_inp p"
    and en: "jw_enable (fd_journal d)"
    and res: "resolve_path E d src = Inr src_inp" "resolve_path E d dst = Inr dst_inp"
    and par: "length (ip_components dst_inp) \<le> existing_len dst_inp + 1"
    and run: "link E src_inp dst_inp d = (Inr (), d')"
  obtains es where "replays E d es d'"
proof -
  let ?t = "fd_clock d (fd_tick d)"
  let ?e = "JLink \<lparr>lke_op_ms = ?t, lke_src_path = src, lke_dst_path = dst\<rparr>"
  have path: "ip_path src_inp = src" "ip_path dst_inp = dst"
    using resolve_path_fields(1)[OF res(1)] resolve_path_fields(1)[OF res(2)] by simp_all
  have s0: "dir_inv E (ticked d) (fd_inode_id d)" "at_path (paths (ticked d)) (m_inodes (meta E (ticked d))) src_inp p"
    using s src by (simp_all add: dir_ok_def dir_inv_def)
  obtain ptr v d0 d1 i x jw where op: "get_last_inode src_inp = Some ptr" "deref (fd_root d) ptr = Some v"
      "(case v of
          File n f \<Rightarrow>
            if f_file_type f \<noteq> FtFile
            then (\<lambda>s. (Inl (Common ''Cannot create link to non-regular file''), s))
            else bind_op (on_ptr ptr (pure_op (\<lambda>_. File n (increment_nlink f)))) (\<lambda>_ s. (Inr (f_id f), s))
        | FileEntry _ i \<Rightarrow> (\<lambda>s. (Inr i, s))
        | Dir _ _ _ \<Rightarrow> (\<lambda>s. (Inl (Common ''Cannot create link to directory''), s))) (ticked d) = (Inr i, d0)"
      "unprotected_link E dst_inp i ?t d0 = (Inr x, d1)"
      "send ?e (fd_journal d1) = (Inr (), jw)" "d' = d1\<lparr>fd_journal := jw\<rparr>"
    using run path unfolding link_def
    by (cases "get_last_inode src_inp")
      (auto simp: bind_op_Inr_iff now_ms_Inr read_ptr_Inr on_journal_Inr log_link_def)
  have nd: "\<not> is_dir v" using op(3) by (cases v) auto
  obtain j n f where f: "ptr = Owned (File (last p) f)" "v = File (last p) f"
    using s0 op(1) _ nd by (rule file_ptr_read) (use op(2) in simp)
  have d0: "d0 = ticked d" "i = f_id f"
    using op(3) f by (auto simp: bind_op_Inr_iff on_ptr_Owned_Inr split: if_splits)
  have "replays E d [?e] d'"
  proof (rule replays_work[OF en op(4)[unfolded d0(1)] agree_link[OF par] op(5,6)])
    fix g g' assume "mirrors d g" "unprotected_link E dst_inp i ?t g = (Inr x, g')"
    then show "dir_handler E ?e g = (Inr (), g')"
      using res resolve_mirrors[of d g E src] resolve_mirrors[of d g E dst] op(1) f d0(2)
      by (simp add: dir_handler_def replay_link_def bind_op_def read_ptr_def deref_def)
  qed (simp add: mount_entry_free_def)
  then show ?thesis by (rule that)
qed

subsection \<open>New directories and files\<close>

lemma add_child_parent_id: "add_child (set_parent_id pid c) v = add_child c v"
  by (cases v; cases c) (simp_all add: dir_add_child_def)

lemma add_last_inode_parent_id: "add_last_inode E (set_parent_id pid c) inp = add_last_inode E c inp"
proof -
  have "add_child (set_parent_id pid c) = add_child c" by (rule ext) (rule add_child_parent_id)
  moreover have "imtime (set_parent_id pid c) = imtime c" by (cases c) simp_all
  ultimately show ?thesis by (intro ext) (simp only: add_last_inode_def)
qed

text \<open>The counter of a follower that was level with the leader is level again after the id in the
  entry.\<close>

definition level :: "i64 \<Rightarrow> 'db fs_dir \<Rightarrow> 'db fs_dir" where
  "level i f = f\<lparr>fd_inode_id := max i (fd_inode_id f)\<rparr>"

lemma update_last_inode_id_eq: "update_last_inode_id i f = (Inr (), level i f)"
  by (simp add: update_last_inode_id_def reset_id_def level_def max_def)

lemma new_node_replays:
  assumes E: "env_ok E" and s: "dir_ok E d" and inp: "at_path (paths d) (m_inodes (meta E d)) inp p"
    and en: "jw_enable (fd_journal d)" and res: "resolve_path E d path = Inr inp"
    and par: "length (ip_inodes inp) = length p"
    and id: "next_inode_id (d\<lparr>fd_tick := t1\<rparr>) = (Inr i, s1)"
    and add: "add_last_inode E child inp (s1\<lparr>fd_tick := t2\<rparr>) = (Inr inp', s2)"
    and log: "send e (fd_journal s2) = (Inr (), jw)" "d' = s2\<lparr>fd_journal := jw\<rparr>" "mount_entry_free [e]"
    and handler: "dir_handler E e = bind_op (update_last_inode_id i) (\<lambda>_.
      bind_op (\<lambda>s. (resolve_path E s path, s)) (\<lambda>inp. bind_op (add_last_inode E (c inp) inp) (\<lambda>_ s. (Inr (), s))))"
    and c: "c inp = set_parent_id pid child"
  shows "replays E d [e] d'"
proof -
  have d0: "fd_root (s1\<lparr>fd_tick := t2\<rparr>) = fd_root d" "fd_store (s1\<lparr>fd_tick := t2\<rparr>) = fd_store d"
      "fd_journal (s1\<lparr>fd_tick := t2\<rparr>) = fd_journal d"
    using id by (auto simp: next_inode_id_def split: prod.splits)
  note inv = dir_invD[OF s[unfolded dir_ok_def]]
  have "ROOT_INODE_ID \<le> fd_inode_id d" using ids_ok_counter[OF fs_invD(2)[OF inv(3)]] by simp
  then have nx: "fd_inode_id s1 = i" "i = fd_inode_id d + 1"
    using next_inode_id_Inr[OF id] inv(2) by (simp_all add: ROOT_INODE_ID_def)
  show ?thesis
  proof (rule replays_run[OF en d0, where pre = "level i", OF _ _ _ add agree_add_last_inode log])
    fix f f' assume "mirrors d f" "add_last_inode E child inp (level i f) = (Inr inp', f')"
    moreover from this(1) have "mirrors d (level i f)" by (simp add: mirrors_def level_def)
    ultimately show "dir_handler E e f = (Inr (), f')"
      using res resolve_mirrors[of d "level i f" E path] unfolding handler
      by (simp add: bind_op_def update_last_inode_id_eq c add_last_inode_parent_id)
  qed (use nx in \<open>simp_all add: level_def\<close>)
qed

lemma existing_last:
  assumes inp: "at_path L I inp p" and len: "length (ip_inodes inp) = Suc (length p)"
  shows "get_inode inp (int (length (ip_inodes inp)) - 1) = Some (ip_inodes inp ! length p)"
    "get_last_inode inp = Some (ip_inodes inp ! length p)"
    "\<exists>x. L p = Some x \<and> node_ptr I p x (ip_inodes inp ! length p)"
proof -
  note D = at_pathD[OF inp]
  have "int (length (ip_inodes inp)) - 1 = int (length p)" using len by simp
  moreover have "length p < 2 ^ 64" using D(2) by simp
  ultimately show "get_inode inp (int (length (ip_inodes inp)) - 1) = Some (ip_inodes inp ! length p)"
    using get_inode_nat[of "length p" inp] len by simp
  show "get_last_inode inp = Some (ip_inodes inp ! length p)"
    using at_path_last[OF inp] D(8) len D(3) by (simp add: last_conv_nth)
  show "\<exists>x. L p = Some x \<and> node_ptr I p x (ip_inodes inp ! length p)" using D(6)[of "length p"] len by simp
qed

lemma add_last_inode_path:
  assumes "add_last_inode E c inp s = (Inr inp', s')" "\<not> is_full inp" "\<not> ip_is_root inp"
  shows "ip_path inp' = ip_path inp"
  using assms unfolding add_last_inode_def
  by (auto simp: bind_op_Inr_iff ip_append_def split: option.splits if_splits sum.splits)

lemma mkdir_replays:
  assumes E: "env_ok E" and s: "dir_ok E d" and inp: "at_path (paths d) (m_inodes (meta E d)) inp p"
    and en: "jw_enable (fd_journal d)" and res: "resolve_path E d path = Inr inp"
    and par: "length (ip_inodes inp) = length p"
    and run: "create_single_dir E opts inp d = (Inr inp', d')"
  obtains es where "replays E d es d'"
proof -
  let ?t = "fd_clock d (fd_tick d)"
  note D = at_pathD[OF inp]
  have nf: "\<not> is_full inp" using D(8) par by simp
  have ne: "p \<noteq> []" using D(3) par by auto
  then have nr: "\<not> ip_is_root inp" using D(9) by simp
  have path: "ip_path inp = path" by (rule resolve_path_fields(1)[OF res])
  obtain name i s1 s2 t jw dir where op: "get_component inp (existing_len inp - 1 + 1) = Inr name"
      "next_inode_id (ticked d) = (Inr i, s1)"
      "add_last_inode E (Dir name (dir_with_opts i t opts) new_map) inp (ticked s1) = (Inr inp', s2)"
      "clone_last_dir (fd_root s2) inp' = Inr dir"
      "send (JMkdir \<lparr>mke_op_ms = ?t, mke_path = ip_path inp', mke_dir = dir\<rparr>) (fd_journal s2) = (Inr (), jw)"
      "d' = s2\<lparr>fd_journal := jw\<rparr>"
    using run nf nr unfolding create_single_dir_def
    by (auto simp: bind_op_Inr_iff now_ms_Inr on_journal_Inr log_mkdir_def)
  let ?c = "Dir name (dir_with_opts i t opts) new_map"
  have name: "name = ip_name inp"
  proof -
    have "existing_len inp - 1 + 1 = Suc (length p - 1)" using par ne by (simp add: existing_len_def)
    then have "name = p ! (length p - 1)"
      using op(1) D(1) D(10)[of "length p - 1"] ne by (simp add: get_component_def split: if_splits)
    then show ?thesis using D(4)[OF ne] ne by (simp add: last_conv_nth)
  qed
  have ch: "fresh_child ?c" "iid ?c = i" "is_dir ?c \<or> length (ip_inodes inp) = length p"
    by (simp_all add: fresh_child_def dir_with_opts_def)
  have s0: "dir_ok E (ticked d)" "at_path (paths (ticked d)) (m_inodes (meta E (ticked d))) inp p"
    using s inp by (simp_all add: dir_ok_def dir_inv_def)
  note r = add_next_ok[OF E s0 nf op(2) ch op(3)]
  have len: "length (ip_inodes inp') = Suc (length p)" using r(3) par by simp
  note L = existing_last[OF r(2) len]
  obtain pid where "paths s2 p = Some (shallow (entry_of pid ?c))" using r(6) par by auto
  then have node: "paths s2 p = Some (NDir ((dir_with_opts i t opts)\<lparr>d_parent_id := pid\<rparr>))"
    by (simp add: entry_of_def is_file_def)
  have ptr: "ip_inodes inp' ! length p = Ref p" using L(3) node by auto
  obtain v where v: "tree_get (fd_root s2) p = Some v" "shallow v = NDir ((dir_with_opts i t opts)\<lparr>d_parent_id := pid\<rparr>)"
    using node by (auto simp: lookup_def)
  have dir: "dir = (dir_with_opts i t opts)\<lparr>d_parent_id := pid\<rparr>"
    using op(4) L(1) v by (cases v) (auto simp: clone_last_dir_def ptr deref_def)
  have "ip_path inp' = path" using add_last_inode_path[OF op(3) nf nr] path by simp
  then have "replays E d [JMkdir \<lparr>mke_op_ms = ?t, mke_path = path, mke_dir = dir\<rparr>] d'"
    using op(5) by (intro new_node_replays[OF E s inp en res par op(2,3) _ op(6), where
        c = "\<lambda>inp. Dir (ip_name inp) dir new_map" and pid = pid])
      (simp_all add: mount_entry_free_def dir_handler_def replay_mkdir_def dir name dir_with_opts_def)
  then show ?thesis by (rule that)
qed

lemma create_replays:
  assumes E: "env_ok E" and s: "dir_ok E d" and inp: "at_path (paths d) (m_inodes (meta E d)) inp p"
    and en: "jw_enable (fd_journal d)" and res: "resolve_path E d path = Inr inp"
    and par: "length (ip_inodes inp) = length p"
    and run: "create_file E opts inp d = (Inr inp', d')"
  obtains es where "replays E d es d'"
proof -
  let ?t = "fd_clock d (fd_tick d)"
  note D = at_pathD[OF inp]
  have nf: "\<not> is_full inp" using D(8) par by simp
  have ne: "p \<noteq> []" using D(3) par by auto
  then have nr: "\<not> ip_is_root inp" using D(9) by simp
  have path: "ip_path inp = path" by (rule resolve_path_fields(1)[OF res])
  have parent: "create_parent_dir E o' inp = (\<lambda>s. (Inr inp, s))" for o'
    using D(1) par by (simp add: create_parent_dir_def existing_len_def)
  obtain i s1 s2 t jw f where op: "next_inode_id (ticked d) = (Inr i, s1)"
      "add_last_inode E (File (ip_name inp) (file_with_opts i t opts)) inp (ticked s1) = (Inr inp', s2)"
      "clone_last_file (fd_root s2) inp' = Inr f"
      "send (JCreateFile \<lparr>fe_op_ms = ?t, fe_path = ip_path inp', fe_file = f\<rparr>) (fd_journal s2) = (Inr (), jw)"
      "d' = s2\<lparr>fd_journal := jw\<rparr>"
    using run at_path_last[OF inp] nf unfolding create_file_def parent
    by (auto simp: bind_op_Inr_iff now_ms_Inr on_journal_Inr log_create_file_def)
  let ?c = "File (ip_name inp) (file_with_opts i t opts)"
  have ch: "fresh_child ?c" "iid ?c = i" "is_dir ?c \<or> length (ip_inodes inp) = length p"
    using par by (simp_all add: fresh_child_def file_with_opts_def Let_def)
  have s0: "dir_ok E (ticked d)" "at_path (paths (ticked d)) (m_inodes (meta E (ticked d))) inp p"
    using s inp by (simp_all add: dir_ok_def dir_inv_def)
  note r = add_next_ok[OF E s0 nf op(1) ch op(2)]
  have len: "length (ip_inodes inp') = Suc (length p)" using r(3) par by simp
  note L = existing_last[OF r(2) len]
  obtain pid where pid: "paths s2 p = Some (shallow (entry_of pid ?c))"
      "m_inodes (meta E s2) i = Some (strip (set_parent_id pid ?c))" using r(6) par by auto
  then have node: "paths s2 p = Some (NEntry i)"
    using ch(2) by (simp add: entry_of_def is_file_def)
  have ptr: "ip_inodes inp' ! length p = Owned (File (last p) ((file_with_opts i t opts)\<lparr>f_parent_id := pid\<rparr>))"
    using L(3) node pid(2) by auto
  have f: "f = (file_with_opts i t opts)\<lparr>f_parent_id := pid\<rparr>"
    using op(3) L(2) by (simp add: clone_last_file_def ptr deref_def)
  have "ip_path inp' = path" using add_last_inode_path[OF op(2) nf nr] path by simp
  then have "replays E d [JCreateFile \<lparr>fe_op_ms = ?t, fe_path = path, fe_file = f\<rparr>] d'"
    using op(4) by (intro new_node_replays[OF E s inp en res par op(1,2) _ op(5), where
        c = "\<lambda>inp. File (ip_name inp) f" and pid = pid])
      (simp_all add: mount_entry_free_def dir_handler_def replay_create_file_def f file_with_opts_def Let_def)
  then show ?thesis by (rule that)
qed

subsection \<open>Requests\<close>

text \<open>What the log of a request must not contain: the entry of a new block, which does not carry the
  sequence number of the file, and the entries of missing parent directories, which all carry the
  whole path.\<close>

definition parent_exists :: "'db master_fs \<Rightarrow> string \<Rightarrow> bool" where
  "parent_exists s path \<longleftrightarrow> paths (mf_dir s) (butlast (path_of path)) \<noteq> None"

fun replayable :: "request \<Rightarrow> 'db master_fs \<Rightarrow> bool" where
  "replayable (Mkdir opts path) s = parent_exists s path"
| "replayable (Create opts path) s = parent_exists s path"
| "replayable (Append opts path) s = parent_exists s path"
| "replayable (Link src dst) s = parent_exists s dst"
| "replayable (AddBlock path client previous exclude) s = False"
| "replayable _ s = True"

lemma one_missing:
  assumes "dir_ok E s" "at_path (paths s) (m_inodes (meta E s)) inp p" "\<not> is_full inp"
    and "paths s (butlast p) \<noteq> None"
  shows "length (ip_inodes inp) = length p"
proof (rule ccontr)
  note D = at_pathD[OF assms(2)]
  let ?n = "length (ip_inodes inp)"
  assume "?n \<noteq> length p"
  then have n: "?n < length p" using D(5,8) assms(3) by simp
  then have "prefix (take ?n p) (butlast p)"
    by (metis Suc_leI butlast_conv_take le_diff_conv2 less_imp_le_nat prefix_take Suc_diff_1 less_Suc_eq_le
        length_greater_0_conv less_nat_zero_code list.size(3))
  then have "paths s (butlast p) = None"
    using shape_below_None[OF dir_okD(1)[OF assms(1)]] D(7) n by simp
  with assms(4) show False by blast
qed

lemma create_request_replays:
  assumes E: "env_ok E" and ok: "dir_ok E (mf_dir s)" and short: "short path"
    and en: "jw_enable (fd_journal (mf_dir s))" and par: "parent_exists s path"
    and op: "create_with_opts E opts path s = (Inr st, s')"
  shows "\<exists>es. replays E (mf_dir s) es (mf_dir s')"
proof -
  obtain inp where inp: "resolve_path E (mf_dir s) path = Inr inp"
    "(\<exists>inp' d. create_file E opts inp (mf_dir s) = (Inr inp', d) \<and> s' = s\<lparr>mf_dir := d\<rparr>) \<or>
     get_last_inode inp \<noteq> None \<and> (\<exists>res inp' d wg. overwrite_file E opts inp (mf_dir s) = (Inr (res, inp'), d) \<and>
       s' = s\<lparr>mf_dir := d, mf_workers := wg\<rparr> \<and> wg_worker_map wg = wg_worker_map (mf_workers s))"
    using op by (rule create_Inr)
  note at = resolved_at[OF E ok inp(1) short]
  from inp(2) show ?thesis
  proof (elim disjE exE conjE)
    fix inp' d assume cr: "create_file E opts inp (mf_dir s) = (Inr inp', d)" "s' = s\<lparr>mf_dir := d\<rparr>"
    have "\<not> is_full inp" using create_file_ok[OF E ok at cr(1)] at_path_kind(1)[OF ok at] by simp
    note len = one_missing[OF ok at this par[unfolded parent_exists_def]]
    obtain es where "replays E (mf_dir s) es d" using create_replays[OF E ok at en inp(1) len cr(1)] by blast
    then show ?thesis using cr(2) by auto
  next
    fix res inp' d wg assume ow: "overwrite_file E opts inp (mf_dir s) = (Inr (res, inp'), d)"
      "s' = s\<lparr>mf_dir := d, mf_workers := wg\<rparr>"
    obtain es where "replays E (mf_dir s) es d" using overwrite_replays[OF ok at en inp(1) ow(1)] by blast
    then show ?thesis using ow(2) by auto
  qed
qed

lemma mkdir_request_replays:
  assumes E: "env_ok E" and ok: "dir_ok E (mf_dir s)" and short: "short path"
    and en: "jw_enable (fd_journal (mf_dir s))" and par: "parent_exists s path"
    and op: "mkdir_with_opts E opts path s = (Inr b, s')"
  shows "\<exists>es. replays E (mf_dir s) es (mf_dir s')"
proof -
  obtain inp where inp: "resolve_path E (mf_dir s) path = Inr inp"
    using op by (auto simp: mkdir_with_opts_def bind_op_Inr_iff resolved_Inr)
  note at = resolved_at[OF E ok inp short]
  show ?thesis
  proof (cases "is_full inp")
    case True
    then have "s' = s" using op inp by (auto simp: mkdir_with_opts_def bind_op_Inr_iff resolved_Inr return_Inr split: if_splits)
    then show ?thesis using replays_none by blast
  next
    case False
    note len = one_missing[OF ok at False par[unfolded parent_exists_def]]
    have parent: "create_parent_dir E o' inp = (\<lambda>s. (Inr inp, s))" for o'
      using at_pathD(1)[OF at] len by (simp add: create_parent_dir_def existing_len_def)
    obtain inp' d where mk: "create_single_dir E opts inp (mf_dir s) = (Inr inp', d)" "s' = s\<lparr>mf_dir := d\<rparr>"
      using op inp False by (auto simp: mkdir_with_opts_def mkdir_def parent bind_op_Inr_iff resolved_Inr return_Inr on_dir_Inr
          split: if_splits dest!: check_parent_keeps)
    obtain es where "replays E (mf_dir s) es d" using mkdir_replays[OF E ok at en inp len mk(1)] by blast
    then show ?thesis using mk(2) by auto
  qed
qed

lemma append_request_replays:
  assumes E: "env_ok E" and ok: "dir_ok E (mf_dir s)" and short: "short path"
    and en: "jw_enable (fd_journal (mf_dir s))" and par: "parent_exists s path"
    and op: "master_append_file E opts path s = (Inr st, s')"
  shows "\<exists>es. replays E (mf_dir s) es (mf_dir s')"
proof -
  obtain inp where inp: "resolve_path E (mf_dir s) path = Inr inp"
      "(\<exists>st. create_with_opts E opts path s = (Inr st, s')) \<or>
       (\<exists>lb fs d. append_file E inp (co_client_name opts) (mf_dir s) = (Inr (lb, fs), d) \<and> s' = s\<lparr>mf_dir := d\<rparr>)"
    using op unfolding master_append_file_def
    by (auto simp: bind_op_Inr_iff resolved_Inr return_Inr on_dir_Inr split: if_splits option.splits)
  note at = resolved_at[OF E ok inp(1) short]
  from inp(2) show ?thesis
  proof (elim disjE exE conjE)
    fix st assume "create_with_opts E opts path s = (Inr st, s')"
    then show ?thesis by (rule create_request_replays[OF E ok short en par])
  next
    fix lb fs d assume ap: "append_file E inp (co_client_name opts) (mf_dir s) = (Inr (lb, fs), d)" "s' = s\<lparr>mf_dir := d\<rparr>"
    obtain es where "replays E (mf_dir s) es d" using append_replays[OF ok at en inp(1) ap(1)] by blast
    then show ?thesis using ap(2) by auto
  qed
qed

lemma serve_replays:
  assumes E: "env_ok E" and ok: "fs_ok E s" and st: "fs_step E pick r s s'"
    and en: "jw_enable (fd_journal (mf_dir s))" and rp: "replayable r s"
  shows "\<exists>es. replays E (mf_dir s) es (mf_dir s')"
proof -
  have d: "dir_ok E (mf_dir s)" using ok by (simp add: fs_ok_def)
  have adm: "admissible E r s" and sv: "serve E pick r s = (Inr (), s')" using st by (auto elim: fs_stepE)
  show ?thesis
  proof (cases r)
    case (Mkdir opts path)
    then show ?thesis using mkdir_request_replays[OF E d _ en, of path opts] adm sv rp by (auto simp: ignore_Inr)
  next
    case (Create opts path)
    then show ?thesis using create_request_replays[OF E d _ en, of path opts] adm sv rp by (auto simp: ignore_Inr)
  next
    case (Append opts path)
    then show ?thesis using append_request_replays[OF E d _ en, of path opts] adm sv rp by (auto simp: ignore_Inr)
  next
    case (Delete path rec)
    obtain inp res e where op: "resolve_path E (mf_dir s) path = Inr inp" "delete E rec inp (mf_dir s) = (Inr res, e)"
        "mf_dir s' = e"
      using sv[unfolded Delete serve.simps ignore_Inr master_delete_def]
      by (auto simp: bind_op_Inr_iff resolved_Inr on_dir_Inr on_workers_Inr return_Inr split: if_splits)
    then show ?thesis using delete_replays[OF en op(1,2)] by blast
  next
    case (Rename src dst)
    show ?thesis
    proof (cases "src = dst")
      case True
      then have "s' = s" using sv[unfolded Rename serve.simps ignore_Inr master_rename_def] True
        by (auto simp: bind_op_Inr_iff resolved_Inr return_Inr split: if_splits)
      then show ?thesis using replays_none by blast
    next
      case False
      obtain si di b e where op: "resolve_path E (mf_dir s) src = Inr si" "resolve_path E (mf_dir s) dst = Inr di"
          "rename E si di (mf_dir s) = (Inr b, e)" "mf_dir s' = e"
        using sv[unfolded Rename serve.simps ignore_Inr master_rename_def] False
        by (auto simp: bind_op_Inr_iff resolved_Inr on_dir_Inr return_Inr split: if_splits)
      then show ?thesis using rename_replays[OF en op(1-3)] by blast
    qed
  next
    case (Complete path len lst client)
    have short: "short path" using adm Complete by simp
    obtain inp where op: "resolve_path E (mf_dir s) path = Inr inp"
        "s' = s \<or> (\<exists>b e. complete_file E inp len lst (mf_dir s) = (Inr b, e) \<and> mf_dir s' = e)"
      using sv[unfolded Complete serve.simps ignore_Inr master_complete_file_def]
      by (auto simp: bind_op_Inr_iff resolved_Inr read_inode_Inr return_Inr on_dir_Inr split: option.splits if_splits)
    from op(2) show ?thesis
    proof (elim disjE exE conjE)
      assume "s' = s"
      then show ?thesis using replays_none by blast
    next
      fix b e assume "complete_file E inp len lst (mf_dir s) = (Inr b, e)" "mf_dir s' = e"
      then show ?thesis using complete_replays[OF d resolved_at[OF E d op(1) short] en op(1)] by blast
    qed
  next
    case (Symlink target lnk force mode)
    obtain inp e where op: "resolve_path E (mf_dir s) lnk = Inr inp"
        "symlink E target inp force mode (mf_dir s) = (Inr (), e)" "mf_dir s' = e"
      using sv Symlink by (auto simp: ignore_Inr master_symlink_def bind_op_Inr_iff resolved_Inr on_dir_Inr)
    then show ?thesis using symlink_replays[OF en op(1,2)] by blast
  next
    case (Link src dst)
    have short: "short src" "short dst" and par: "paths (mf_dir s) (butlast (path_of dst)) \<noteq> None"
      using adm rp Link by (simp_all add: parent_exists_def)
    obtain si di e where op: "resolve_path E (mf_dir s) src = Inr si" "resolve_path E (mf_dir s) dst = Inr di"
        "link E si di (mf_dir s) = (Inr (), e)" "mf_dir s' = e"
      using sv Link by (auto simp: ignore_Inr master_link_def bind_op_Inr_iff resolved_Inr on_dir_Inr)
    note at = resolved_at[OF E d op(1) short(1)] resolved_at[OF E d op(2) short(2)]
    have "length (ip_components di) \<le> existing_len di + 1"
    proof (cases "is_full di")
      case False
      then show ?thesis using one_missing[OF d at(2) False par] at_pathD(1)[OF at(2)] by (simp add: existing_len_def)
    qed (simp add: is_full_def existing_len_def)
    then show ?thesis using link_replays[OF d at(1) en op(1,2) _ op(3)] op(4) by blast
  qed (use rp in simp)
qed

subsection \<open>Histories\<close>

inductive fs_history ::
  "('db, 'b) meta_env \<Rightarrow> (nat \<Rightarrow> (u32 \<times> worker_info) list \<Rightarrow> (u32 \<times> worker_info) list) \<Rightarrow>
   'db master_fs \<Rightarrow> 'db master_fs \<Rightarrow> bool"
  for E pick s0 where
  start: "fs_history E pick s0 s0"
| served: "fs_history E pick s0 s \<Longrightarrow> fs_step E pick r s s' \<Longrightarrow> replayable r s \<Longrightarrow> fs_history E pick s0 s'"

lemma history_replays:
  assumes "fs_history E pick s0 s" "env_ok E" "fs_ok E s0" "jw_enable (fd_journal (mf_dir s0))"
  shows "fs_ok E s \<and> jw_enable (fd_journal (mf_dir s)) \<and> (\<exists>es. replays E (mf_dir s0) es (mf_dir s))"
  using assms
proof (induction rule: fs_history.induct)
  case start
  then show ?case using replays_none by blast
next
  case (served s r s')
  then obtain es where es: "fs_ok E s" "jw_enable (fd_journal (mf_dir s))" "replays E (mf_dir s0) es (mf_dir s)" by blast
  then obtain es' where es': "replays E (mf_dir s) es' (mf_dir s')"
    using serve_replays[OF served.prems(1) es(1) served.hyps(2) es(2) served.hyps(3)] by blast
  then have "jw_enable (fd_journal (mf_dir s'))" using es(2) by (simp add: replays_def log_grows_def)
  then show ?case
    using replays_trans[OF es(3) es'] step_simulates[OF served.prems(1) es(1) served.hyps(2)] by blast
qed

subsection \<open>The loader\<close>

abbreviation loader_dir :: "'db journal_loader \<Rightarrow> 'db fs_dir" where
  "loader_dir l \<equiv> mf_dir (mm_fs (jl_mnt_mgr l))"

definition with_loader_dir :: "'db fs_dir \<Rightarrow> 'db journal_loader \<Rightarrow> 'db journal_loader" where
  "with_loader_dir d l =
     l\<lparr>jl_mnt_mgr := (jl_mnt_mgr l)\<lparr>mm_fs := (mm_fs (jl_mnt_mgr l))\<lparr>mf_dir := d\<rparr>\<rparr>\<rparr>"

lemma apply_entry_dir:
  assumes "mount_entry_free [e]"
  shows "on_mnt_mgr (apply_entry E e) l =
    (fst (dir_handler E e (loader_dir l)), with_loader_dir (snd (dir_handler E e (loader_dir l))) l)"
  using assms
  by (cases e) (simp_all add: mount_entry_free_def apply_entry_def dir_handler_def on_mnt_mgr_def on_fs_def on_dir_def
      with_loader_dir_def Let_def split: prod.splits)

lemma apply_batch_loop_dir:
  assumes "mount_entry_free es" "run_entries E es (loader_dir l) = (Inr (), d)"
  shows "apply_batch_loop E es l = (Inr (), with_loader_dir d l)"
  using assms
proof (induction es arbitrary: l)
  case Nil
  then show ?case by (simp add: with_loader_dir_def)
next
  case (Cons e es)
  obtain d1 where d1: "dir_handler E e (loader_dir l) = (Inr (), d1)" "run_entries E es d1 = (Inr (), d)"
    using Cons.prems(2) by (auto simp: bind_op_Inr_iff)
  have free: "mount_entry_free [e]" "mount_entry_free es" using Cons.prems(1) by (simp_all add: mount_entry_free_def)
  let ?l = "with_loader_dir d1 l"
  have "loader_dir ?l = d1" "with_loader_dir d ?l = with_loader_dir d l" by (simp_all add: with_loader_dir_def)
  with Cons.IH[OF free(2), of ?l] d1 apply_entry_dir[OF free(1), of E l] show ?case by simp
qed

lemma loader_mirrors:
  assumes "replays E d es d'" "mirrors d (loader_dir l)" "de message = Inr \<lparr>jb_seq_id = n, jb_batch = es\<rparr>" "message \<noteq> []"
  shows "\<exists>l'. apply_message E de False message l = (Inr (), l') \<and> mirrors d' (loader_dir l') \<and>
    jl_seq_id l' = u64_of (jl_seq_id l + 1) \<and>
    (fd_inode_id (loader_dir l) = fd_inode_id d \<and> no_symlink es \<longrightarrow> fd_inode_id (loader_dir l') = fd_inode_id d')"
proof -
  let ?l = "l\<lparr>jl_seq_id := u64_of (jl_seq_id l + 1)\<rparr>"
  obtain f where f: "run_entries E es (loader_dir ?l) = (Inr (), f)" "mirrors d' f"
      "fd_inode_id (loader_dir l) = fd_inode_id d \<and> no_symlink es \<longrightarrow> fd_inode_id f = fd_inode_id d'"
    using assms(1,2) unfolding replays_def by auto
  have "apply_batch_loop E es ?l = (Inr (), with_loader_dir f ?l)"
    using apply_batch_loop_dir f(1) assms(1) unfolding replays_def by blast
  then have "apply_message E de False message l = (Inr (), with_loader_dir f ?l)"
    using assms(3,4) by (simp add: apply_message_def apply0_def)
  then show ?thesis using f(2,3) by (simp add: with_loader_dir_def)
qed

end
