(* ===== verification/Fs_Theorems.thy ===== *)
theory Fs_Theorems
  imports Fs_Example Journal_Replay
begin

text \<open>
  The properties of the requests of \<^verbatim>\<open>MasterFilesystem\<close>: a request meets its specification, the state
  stays consistent, reads report the abstract file system, and refused requests change nothing.
\<close>

subsection \<open>What a resolved path leads to\<close>

lemma last_ptr_cases:
  assumes ok: "dir_ok E s" and at: "at_path (paths s) (m_inodes (meta E s)) inp p"
  shows "case paths s p of
      None \<Rightarrow> get_last_inode inp = None
    | Some (NDir d) \<Rightarrow> get_last_inode inp = Some (Ref p) \<and>
        (\<exists>n m. deref (fd_root s) (Ref p) = Some (dir_map n d m) \<and> map_inv (ChildMap m) \<and>
          (\<forall>k. paths s (p @ [k]) = map_option shallow (map_of m k)) \<and>
          (\<forall>k v. map_of m k = Some v \<longrightarrow> iname v = k \<and> node_ok v))
    | Some (NEntry i) \<Rightarrow> \<exists>n f. m_inodes (meta E s) i = Some (File n f) \<and> f_id f = i \<and>
        get_last_inode inp = Some (Owned (File (last p) f))
    | Some (NFile f) \<Rightarrow> False"
proof (cases "paths s p")
  case None
  then show ?thesis using at_path_kind[OF ok at] by simp
next
  case (Some x)
  then have full: "is_full inp" using at_path_exists[OF dir_okD(1)[OF ok] at] by simp
  then have last: "get_last_inode inp = Some (last (ip_inodes inp))" using at_path_last[OF at] by simp
  have x: "node_ptr (m_inodes (meta E s)) p x (last (ip_inodes inp))"
    using at_pathD(6)[OF at, of "length p"] at_pathD(3,8)[OF at] full Some by (auto simp: last_conv_nth)
  have tree: "tree_ok (fd_root s)" by (rule dir_invD(1)[OF ok[unfolded dir_ok_def]])
  show ?thesis
  proof (cases x)
    case (NDir d)
    obtain n m where nm: "tree_get (fd_root s) p = Some (dir_map n d m)"
      using tree Some[unfolded NDir] by (rule dir_at)
    have kid: "iname v = k \<and> node_ok v" if "map_of m k = Some v" for k v
      using dir_ok_kids(2,3)[OF tree nm that] tree_ok_get[of v "[]" v] by simp
    have "\<forall>k. paths s (p @ [k]) = map_option shallow (map_of m k)"
      using nm by (auto simp: lookup_def tree_get_append split: option.splits)
    then show ?thesis
      using x NDir last nm dir_ok_kids(1)[OF tree nm] kid Some by (auto simp: deref_def)
  next
    case (NEntry i)
    then obtain n f where "m_inodes (meta E s) i = Some (File n f)" "last (ip_inodes inp) = Owned (File (last p) f)"
      using x by auto
    moreover from this have "f_id f = i"
      using fs_invD(6)[OF dir_okD(3)[OF ok]] unfolding keys_ok_def by fastforce
    ultimately show ?thesis using last Some NEntry by simp
  next
    case (NFile f)
    then show ?thesis using x by simp
  qed
qed

lemma list_children_spec:
  assumes E: "env_ok E" and run: "list_children E st inp (map snd m) = Inr sts"
    and kids: "\<forall>(k, v)\<in>set m. iname v = k \<and> node_ok v \<and> (is_file_entry v \<longrightarrow> is_i64 (iid v) \<and>
      (\<exists>n f. m_inodes (store_metas E st) (iid v) = Some (File n f) \<and> f_id f = iid v))"
  shows "map fs_name sts = map fst m \<and>
    (\<forall>x\<in>set sts. \<exists>v. (fs_name x, v) \<in> set m \<and> fs_id x = iid v \<and> fs_is_dir x = is_dir v)"
  using run kids
proof (induction m arbitrary: sts)
  case (Cons e m)
  obtain k v where e: "e = (k, v)" by (cases e)
  obtain xs ys where h: "sts = xs @ ys" "list_children E st inp (map snd m) = Inr ys"
      "(case v of FileEntry n i \<Rightarrow>
            bind_res (store_get_inode E st i (Some n)) (\<lambda>o'. case o' of None \<Rightarrow> Inr []
              | Some u \<Rightarrow> bind_res (to_file_status (child_path inp (iname v)) u) (\<lambda>x. Inr [x]))
        | _ \<Rightarrow> bind_res (to_file_status (child_path inp (iname v)) v) (\<lambda>x. Inr [x])) = Inr xs"
    using Cons.prems(1) by (auto simp: e bind_res_Inr_iff)
  have "\<exists>x. xs = [x] \<and> fs_name x = k \<and> fs_id x = iid v \<and> fs_is_dir x = is_dir v"
  proof (cases v)
    case (FileEntry n i)
    obtain nn f where f: "m_inodes (store_metas E st) i = Some (File nn f)" "f_id f = i" "is_i64 i" "n = k"
      using Cons.prems(2) by (auto simp: e FileEntry)
    obtain u where u: "store_get_inode E st i (Some n) = Inr u"
      using h(3) by (auto simp: FileEntry bind_res_Inr_iff)
    have "u = Some (File n f)" using store_get_inode_metas[OF E f(3) u] by (simp add: f(1))
    then show ?thesis using h(3) u f(2,4) by (auto simp: FileEntry)
  qed (use h(3) Cons.prems(2) in \<open>auto simp: e\<close>)
  moreover have "map fs_name ys = map fst m \<and>
      (\<forall>x\<in>set ys. \<exists>v. (fs_name x, v) \<in> set m \<and> fs_id x = iid v \<and> fs_is_dir x = is_dir v)"
    using Cons.IH[OF h(2)] Cons.prems(2) by simp
  ultimately show ?case by (fastforce simp: h(1) e)
qed simp

lemma list_status_spec:
  assumes E: "env_ok E" and ok: "dir_ok E (mf_dir s)" and path: "short path" "path_of path = p"
    and dir: "paths (mf_dir s) p = Some (NDir d)" and run: "master_list_status E path s = (Inr sts, s')"
  shows "s' = s \<and> sorted_wrt (<) (map fs_name sts) \<and> set (map fs_name sts) = {k. paths (mf_dir s) (p @ [k]) \<noteq> None} \<and>
    (\<forall>x\<in>set sts. \<exists>v. paths (mf_dir s) (p @ [fs_name x]) = Some (shallow v) \<and> fs_id x = iid v \<and> fs_is_dir x = is_dir v)"
proof -
  let ?d = "mf_dir s"
  obtain inp where inp: "resolve_path E ?d path = Inr inp" "on_dir (dir_list_status E inp) s = (Inr sts, s')"
    using run by (auto simp: master_list_status_def bind_op_Inr_iff resolved_Inr)
  have at: "at_path (paths ?d) (m_inodes (meta E ?d)) inp p" using resolved_at[OF E ok inp(1) path(1)] path(2) by simp
  obtain n m where m: "get_last_inode inp = Some (Ref p)" "deref (fd_root ?d) (Ref p) = Some (dir_map n d m)"
      "keys_sorted m" "\<And>k. paths ?d (p @ [k]) = map_option shallow (map_of m k)"
      "\<And>k v. map_of m k = Some v \<Longrightarrow> iname v = k \<and> node_ok v"
    using last_ptr_cases[OF ok at] dir by (auto simp: map_inv_def)
  have run': "list_children E (fd_store ?d) inp (map snd m) = Inr sts" "s' = s"
    using inp(2) m(1,2) by (auto simp: on_dir_Inr dir_list_status_def bind_op_Inr_iff read_ptr_Inr)
  have mem: "(k, v) \<in> set m \<longleftrightarrow> map_of m k = Some v" for k v
    using m(3) by (auto simp: keys_sorted_def strict_sorted_iff)
  have "\<forall>(k, v)\<in>set m. iname v = k \<and> node_ok v \<and> (is_file_entry v \<longrightarrow> is_i64 (iid v) \<and>
      (\<exists>n f. m_inodes (store_metas E (fd_store ?d)) (iid v) = Some (File n f) \<and> f_id f = iid v))"
  proof (intro ballI, clarify, intro conjI impI)
    fix k v assume kv: "(k, v) \<in> set m"
    then have v: "map_of m k = Some v" by (simp add: mem)
    show "iname v = k" "node_ok v" using m(5)[OF v] by simp_all
    assume "is_file_entry v"
    then have L: "paths ?d (p @ [k]) = Some (NEntry (iid v))" using m(4)[of k] v by (cases v) simp_all
    show "is_i64 (iid v)" using dir_inv_i64[OF ok[unfolded dir_ok_def] L] by simp
    show "\<exists>n f. m_inodes (store_metas E (fd_store ?d)) (iid v) = Some (File n f) \<and> f_id f = iid v"
      using fs_invD(5)[OF dir_okD(3)[OF ok]] L unfolding files_ok_def by blast
  qed
  from list_children_spec[OF E run'(1) this]
  have "map fs_name sts = map fst m"
    "\<forall>x\<in>set sts. \<exists>v. (fs_name x, v) \<in> set m \<and> fs_id x = iid v \<and> fs_is_dir x = is_dir v" by blast+
  moreover have "set (map fst m) = {k. paths ?d (p @ [k]) \<noteq> None}"
    using m(4) by (auto simp: map_of_eq_None_iff)
  moreover have "sorted_wrt (<) (map fst m)" using m(3) by (simp add: keys_sorted_def)
  ultimately show ?thesis using run'(2) m(4) unfolding mem by fastforce
qed

subsection \<open>Requests and the namespace\<close>


definition ex_move :: request where "ex_move = Rename ''/a/f'' ''/a/b''"




text \<open>C10: \<^verbatim>\<open>exists\<close> and \<^verbatim>\<open>file_status\<close> report the abstract file system and change nothing: \<^verbatim>\<open>exists\<close> is
  true exactly for the paths it has, and a status has the id and the kind at the path.\<close>

theorem reads_report_view:
  assumes "env_ok E" "fs_ok E s" "short path"
  shows "(\<forall>b s'. master_exists E path s = (Inr b, s') \<longrightarrow> s' = s \<and> (b \<longleftrightarrow> fs_view s (path_of path) \<noteq> None)) \<and>
    (\<forall>st s'. master_file_status E path s = (Inr st, s') \<longrightarrow>
       s' = s \<and> fs_path st = path \<and>
       fs_view s (path_of path) = Some (if fs_is_dir st then KDir (fs_id st) else KFile (fs_id st)))"
proof (intro conjI allI impI)
  have ok: "dir_ok E (mf_dir s)" using assms(2) by (simp add: fs_ok_def)
  note at = resolved_at[OF assms(1) ok _ assms(3)]
  fix b s' assume "master_exists E path s = (Inr b, s')"
  then obtain inp where inp: "resolve_path E (mf_dir s) path = Inr inp" "b \<longleftrightarrow> get_last_inode inp \<noteq> None" "s' = s"
    by (auto simp: master_exists_def bind_op_Inr_iff resolved_Inr return_Inr)
  then show "s' = s" "b \<longleftrightarrow> fs_view s (path_of path) \<noteq> None"
    using at_path_kind(1,2)[OF ok at[OF inp(1)]] by (simp_all add: fs_view_def)
next
  have ok: "dir_ok E (mf_dir s)" using assms(2) by (simp add: fs_ok_def)
  note at = resolved_at[OF assms(1) ok _ assms(3)]
  fix st s' assume "master_file_status E path s = (Inr st, s')"
  then obtain inp where inp: "resolve_path E (mf_dir s) path = Inr inp" "on_dir (dir_file_status inp) s = (Inr st, s')"
    by (auto simp: master_file_status_def bind_op_Inr_iff resolved_Inr)
  obtain ptr v where v: "get_last_inode inp = Some ptr" "deref (fd_root (mf_dir s)) ptr = Some v"
      "to_file_status path v = Inr st" "s' = s"
    using inp(2) resolve_path_fields(1)[OF inp(1)]
    by (auto simp: on_dir_Inr dir_file_status_def bind_op_Inr_iff read_ptr_Inr split: option.splits if_splits)
  then show "s' = s" by simp
  show "fs_path st = path" using v(3) by (cases v) auto
  show "fs_view s (path_of path) = Some (if fs_is_dir st then KDir (fs_id st) else KFile (fs_id st))"
    using last_ptr_cases[OF ok at[OF inp(1)]] v(1-3)
    by (auto simp: fs_view_def kinds_def deref_def split: option.splits node.splits)
qed

theorem reads_report_view_witness:
  "fs_view ex_s2 [''a'', ''f''] \<noteq> None \<and> short ''/a/f''"
proof -
  have s: "short ''/a/f''" by (simp add: short_def)
  have "path_of ''/a/f'' = [''a'', ''f'']" by code_simp
  moreover have "fst (master_exists ex_env ''/a/f'' ex_s2) = Inr True" by code_simp
  ultimately show ?thesis
    using reads_report_view[OF ex_env_ok ex_s2_ok s] s by (metis prod.collapse)
qed

text \<open>C11: \<^verbatim>\<open>list_status\<close> of a directory lists every child once, ordered by name, each with the id and the
  kind it has in the abstract file system.\<close>

theorem list_status_lists_children:
  assumes "env_ok E" "fs_ok E s" "short path" "fs_view s (path_of path) = Some (KDir i)"
    and "master_list_status E path s = (Inr sts, s')"
  shows "s' = s \<and> sorted_wrt (<) (map fs_name sts) \<and>
    set (map fs_name sts) = {k. fs_view s (path_of path @ [k]) \<noteq> None} \<and>
    (\<forall>x\<in>set sts. fs_view s (path_of path @ [fs_name x]) =
       Some (if fs_is_dir x then KDir (fs_id x) else KFile (fs_id x)))"
proof -
  have ok: "dir_ok E (mf_dir s)" using assms(2) by (simp add: fs_ok_def)
  obtain d where d: "paths (mf_dir s) (path_of path) = Some (NDir d)"
    using kinds_dir[OF assms(4)[unfolded fs_view_def] dir_okD(1)[OF ok]] by blast
  note spec = list_status_spec[OF assms(1) ok assms(3) refl d assms(5)]
  have "fs_view s (path_of path @ [fs_name x]) = Some (if fs_is_dir x then KDir (fs_id x) else KFile (fs_id x))"
    if x: "x \<in> set sts" for x
  proof -
    obtain v where v: "paths (mf_dir s) (path_of path @ [fs_name x]) = Some (shallow v)" "fs_id x = iid v"
        "fs_is_dir x = is_dir v" using spec x by blast
    then show ?thesis by (cases v) (simp_all add: fs_view_def kinds_def)
  qed
  then show ?thesis using spec by (simp add: fs_view_def)
qed

theorem list_status_lists_children_witness:
  "{k. fs_view ex_s2 [''a'', k] \<noteq> None} = {''b'', ''f''}"
proof -
  have p: "path_of ''/a'' = [''a'']" by code_simp
  have v: "fs_view ex_s2 [''a''] = Some (KDir 1001)" by code_simp
  have l: "map_sum id (map fs_name) (fst (master_list_status ex_env ''/a'' ex_s2)) = Inr [''b'', ''f'']" by code_simp
  then obtain sts where sts: "master_list_status ex_env ''/a'' ex_s2 = (Inr sts, snd (master_list_status ex_env ''/a'' ex_s2))"
      "map fs_name sts = [''b'', ''f'']"
    by (cases "master_list_status ex_env ''/a'' ex_s2"; cases "fst (master_list_status ex_env ''/a'' ex_s2)") auto
  have "short ''/a''" by (simp add: short_def)
  from list_status_lists_children[OF ex_env_ok ex_s2_ok this _ sts(1), of 1001]
  show ?thesis using v by (simp only: p sts(2) append.simps list.set)
qed

subsection \<open>Refused requests\<close>

lemma bind_refused: "m s = (Inr a, s) \<Longrightarrow> f a s = (Inl e, s) \<Longrightarrow> bind_op m f s = (Inl e, s)"
  by (simp add: bind_op_def)

lemma resolve_refused:
  assumes "\<And>inp. resolve_path E (mf_dir s) path = Inr inp \<Longrightarrow> \<exists>e. f inp s = (Inl e, s)"
  shows "\<exists>e. bind_op (resolved E path) f s = (Inl e, s)"
proof (cases "resolve_path E (mf_dir s) path")
  case (Inl e)
  then show ?thesis by (simp add: bind_op_def resolved_def)
next
  case (Inr inp)
  then show ?thesis using assms[OF Inr] by (auto simp: bind_op_def resolved_def)
qed

text \<open>C12: Deleting a directory that is not empty without \<^verbatim>\<open>recursive\<close> is refused, and so is deleting
  the root; nothing is changed.\<close>

theorem delete_refused:
  assumes "env_ok E" "fs_ok E s" "short path"
    and "path_of path = [] \<or> \<not> recursive \<and> fs_view s (path_of path @ [k]) \<noteq> None"
  shows "\<exists>e. master_delete E path recursive s = (Inl e, s)"
  unfolding master_delete_def
proof (rule resolve_refused)
  fix inp assume inp: "resolve_path E (mf_dir s) path = Inr inp"
  have ok: "dir_ok E (mf_dir s)" using assms(2) by (simp add: fs_ok_def)
  note at = resolved_at[OF assms(1) ok inp assms(3)]
  have "\<not> is_empty_dir (fd_root (mf_dir s)) inp \<and> \<not> recursive \<or> ip_is_root inp"
  proof (cases "path_of path = []")
    case True
    then show ?thesis using at_path_kind(3)[OF ok at] by simp
  next
    case False
    then have kid: "\<not> recursive" "paths (mf_dir s) (path_of path @ [k]) \<noteq> None"
      using assms(4) by (simp_all add: fs_view_def)
    then have "paths (mf_dir s) (path_of path) \<noteq> None"
      using shape_below_None[OF dir_okD(1)[OF ok], of "path_of path" "path_of path @ [k]"] kid(2) by (metis prefixI)
    then have "is_full inp" using at_path_exists[OF dir_okD(1)[OF ok] at] by simp
    then show ?thesis using empty_dir_kids[OF ok at, of k] kid by argo
  qed
  then show "\<exists>e. (if \<not> is_empty_dir (fd_root (mf_dir s)) inp \<and> \<not> recursive then fail ''is non empty'' s
      else if ip_is_root inp then fail ''The root is not allowed to be deleted'' s
      else if ip_components inp = [] \<or> get_last_inode inp = None
      then fail ''Failed to remove because it does not exist'' s
      else bind_op (on_dir (delete E recursive inp)) (\<lambda>delete_result.
           bind_op (on_workers (manager_remove_blocks delete_result)) (\<lambda>_. return True)) s) = (Inl e, s)"
    by (auto simp: fail_def)
qed

theorem delete_refused_witness:
  "\<exists>e. master_delete ex_env ''/a'' False ex_s2 = (Inl e, ex_s2)"
proof (rule delete_refused[OF ex_env_ok ex_s2_ok])
  show "short ''/a''" by (simp add: short_def)
  have "path_of ''/a'' = [''a'']" by code_simp
  moreover have "fs_view ex_s2 [''a'', ''b''] \<noteq> None" by code_simp
  ultimately show "path_of ''/a'' = [] \<or> \<not> False \<and> fs_view ex_s2 (path_of ''/a'' @ [''b'']) \<noteq> None" by simp
qed

text \<open>C13: Only the client that holds the lease of a file adds blocks to it: a request from another
  client, for a file that is complete, or for a directory is refused and changes nothing.\<close>

theorem add_block_needs_lease:
  assumes "env_ok E" "fs_ok E s" "short path"
    and lease: "\<And>i n f. paths (mf_dir s) (path_of path) = Some (NEntry i) \<Longrightarrow>
      m_inodes (meta E (mf_dir s)) i = Some (File n f) \<Longrightarrow>
      ff_file_write (f_features f) \<noteq> Some \<lparr>wf_client_name = ca_client_name client\<rparr>"
  shows "\<exists>e. master_add_block E pick path client previous exclude s = (Inl e, s)"
  unfolding master_add_block_def
proof (rule resolve_refused)
  fix inp assume inp: "resolve_path E (mf_dir s) path = Inr inp"
  have ok: "dir_ok E (mf_dir s)" using assms(2) by (simp add: fs_ok_def)
  note kinds = last_ptr_cases[OF ok resolved_at[OF assms(1) ok inp assms(3)]]
  have "\<exists>e. validate_add_block inp client previous exclude s = (Inl e, s)"
  proof (cases "paths (mf_dir s) (path_of path)")
    case None
    then show ?thesis using kinds by (simp add: validate_add_block_def fail_def)
  next
    case (Some x)
    show ?thesis
    proof (cases x)
      case (NDir d)
      then show ?thesis using kinds Some
        by (auto simp: validate_add_block_def bind_op_def read_inode_def on_dir_def read_ptr_def lift_res_def)
    next
      case (NEntry i)
      then obtain n f where f: "m_inodes (meta E (mf_dir s)) i = Some (File n f)"
          "get_last_inode inp = Some (Owned (File (last (path_of path)) f))" using kinds Some by auto
      have "ff_file_write (f_features f) \<noteq> Some \<lparr>wf_client_name = ca_client_name client\<rparr>"
        using lease[OF _ f(1)] Some NEntry by simp
      then have "\<forall>w. ff_file_write (f_features f) = Some w \<longrightarrow> wf_client_name w \<noteq> ca_client_name client"
        by (metis write_feature.surjective old.unit.exhaust)
      then show ?thesis using f(2)
        by (auto simp: validate_add_block_def bind_op_def read_inode_def on_dir_def read_ptr_def deref_def
            lift_res_def fail_def split: option.split)
    qed (use kinds Some in simp)
  qed
  then show "\<exists>e. bind_op (validate_add_block inp client previous exclude) (\<lambda>ctx.
      bind_op (choose_on_workers pick ctx) (\<lambda>workers.
      bind_op (on_dir (acquire_new_block E inp previous workers)) (\<lambda>block.
        return \<lparr>lb_block = block, lb_locs = workers\<rparr>))) s = (Inl e, s)"
    by (auto simp: bind_op_def)
qed

definition ex_client :: "string \<Rightarrow> client_address" where
  "ex_client name = \<lparr>ca_client_name = name, ca_hostname = ''h'', ca_ip_addr = ''i'', ca_port = 1\<rparr>"

text \<open>The file of the example is written by the client without a name.\<close>

theorem add_block_needs_lease_witness:
  "\<exists>e. master_add_block ex_env ex_pick ''/a/f'' (ex_client ''other'') None [] ex_s2 = (Inl e, ex_s2)"
proof (rule add_block_needs_lease[OF ex_env_ok ex_s2_ok])
  show "short ''/a/f''" by (simp add: short_def)
  fix i n f
  assume "paths (mf_dir ex_s2) (path_of ''/a/f'') = Some (NEntry i)"
    and f: "m_inodes (meta ex_env (mf_dir ex_s2)) i = Some (File n f)"
  moreover have "paths (mf_dir ex_s2) (path_of ''/a/f'') = Some (NEntry 1003)" by code_simp
  moreover have "map_option (\<lambda>v. case v of File n f \<Rightarrow> map_option wf_client_name (ff_file_write (f_features f)) | _ \<Rightarrow> None)
      (m_inodes (meta ex_env (mf_dir ex_s2)) 1003) = Some (Some [])" by code_simp
  ultimately have "map_option wf_client_name (ff_file_write (f_features f)) = Some []" by simp
  then show "ff_file_write (f_features f) \<noteq> Some \<lparr>wf_client_name = ca_client_name (ex_client ''other'')\<rparr>"
    by (auto simp: ex_client_def)
qed

lemma validate_keeps: "validate_add_block inp client previous exclude s = (Inr ctx, s') \<Longrightarrow> s' = s"
  by (auto simp: validate_add_block_def bind_op_Inr_iff read_inode_Inr return_Inr lift_res_def
      split: option.splits if_splits)

text \<open>C14: The workers of a new block are live workers with room for a block of the file, none of them
  excluded by the client, none twice, and no more than the file has replicas.\<close>

theorem add_block_workers:
  assumes "env_ok E" "pick_ok pick" "fs_ok E s" "short path"
    and "paths (mf_dir s) (path_of path) = Some (NEntry i)" "m_inodes (meta E (mf_dir s)) i = Some (File n f)"
    and "is_i64 (f_block_size f)"
    and "master_add_block E pick path client previous exclude s = (Inr lb, s')"
  shows "lb_locs lb \<noteq> [] \<and> length (lb_locs lb) \<le> f_replicas f \<and> distinct (map wa_worker_id (lb_locs lb)) \<and>
    (\<forall>a\<in>set (lb_locs lb). wa_worker_id a \<notin> set exclude \<and>
       (\<exists>w. map_of (live_workers (mf_workers s)) (wa_worker_id a) = Some w \<and> wi_address w = a \<and>
          is_live w \<and> f_block_size f \<le> wi_available w))"
proof -
  have ok: "dir_ok E (mf_dir s)" "manager_ok (mf_workers s)" using assms(3) by (simp_all add: fs_ok_def)
  obtain inp ctx s1 s2 where st0: "resolve_path E (mf_dir s) path = Inr inp"
      "validate_add_block inp client previous exclude s = (Inr ctx, s1)"
      "choose_on_workers pick ctx s1 = (Inr (lb_locs lb), s2)"
    using assms(8) by (auto simp: master_add_block_def bind_op_Inr_iff resolved_Inr return_Inr)
  then obtain wg where st: "resolve_path E (mf_dir s) path = Inr inp"
      "validate_add_block inp client previous exclude s = (Inr ctx, s)"
      "choose_worker pick ctx (mf_workers s) = (Inr (lb_locs lb), wg)"
    using validate_keeps[OF st0(2)] by (auto simp: choose_on_workers_def split: prod.splits)
  have "get_last_inode inp = Some (Owned (File (last (path_of path)) f))"
    using last_ptr_cases[OF ok(1) resolved_at[OF assms(1) ok(1) st(1) assms(4)]] assms(5,6) by auto
  then have ctx: "cc_replicas ctx = f_replicas f" "cc_block_size ctx = f_block_size f" "cc_exclude_workers ctx = exclude"
    using st(2) by (auto simp: validate_add_block_def bind_op_Inr_iff read_inode_Inr deref_def lift_res_def return_Inr
        split: option.splits if_splits)
  have ws: "workers_ok (live_workers (mf_workers s))" using ok(2) by (simp add: manager_ok_def worker_map_ok_def)
  note c = choose_worker_ok[OF assms(2) ok(2) _ st(3)]
  have "wa_worker_id a \<notin> set exclude \<and> (\<exists>w. map_of (live_workers (mf_workers s)) (wa_worker_id a) = Some w \<and>
      wi_address w = a \<and> is_live w \<and> f_block_size f \<le> wi_available w)" if "a \<in> set (lb_locs lb)" for a
    using c(2) assms(7) that ctx ws
    by (fastforce simp: chosen_ok_def good_worker_def workers_ok_def wi_worker_id_def im_ok_def)
  then show ?thesis using c(1,2) assms(7) ctx by (simp add: chosen_ok_def)
qed

theorem add_block_workers_witness:
  "\<exists>lb s'. master_add_block ex_env ex_pick ''/a/f'' (ex_client []) None [] ex_s2 = (Inr lb, s') \<and>
    lb_locs lb \<noteq> [] \<and> distinct (map wa_worker_id (lb_locs lb))"
proof -
  let ?r = "master_add_block ex_env ex_pick ''/a/f'' (ex_client []) None [] ex_s2"
  have s: "short ''/a/f''" by (simp add: short_def)
  have p: "paths (mf_dir ex_s2) (path_of ''/a/f'') = Some (NEntry 1003)" by code_simp
  obtain n f where f: "m_inodes (meta ex_env (mf_dir ex_s2)) 1003 = Some (File n f)"
    using fs_invD(5)[OF dir_okD(3)] ex_s2_ok p unfolding fs_ok_def files_ok_def by blast
  have "map_option (\<lambda>v. case v of File n f \<Rightarrow> f_block_size f | _ \<Rightarrow> 0) (m_inodes (meta ex_env (mf_dir ex_s2)) 1003) =
    Some (2 ^ 26)" by code_simp
  then have bs: "is_i64 (f_block_size f)" by (simp add: f is_i64_def)
  have "(case fst ?r of Inl _ \<Rightarrow> False | Inr _ \<Rightarrow> True)" by code_simp
  then obtain lb where lb: "?r = (Inr lb, snd ?r)" by (cases ?r; cases "fst ?r") auto
  then show ?thesis using add_block_workers[OF ex_env_ok ex_pick_ok ex_s2_ok s p f bs lb] by blast
qed

subsection \<open>Journal replay\<close>


definition ex_mkdir :: request where "ex_mkdir = Mkdir (mkdir_with_create False) ''/d''"

definition ex_loader :: "blob mem_db journal_loader" where
  "ex_loader = \<lparr>jl_mnt_mgr = \<lparr>mm_fs = ex_master, mm_table = mount_table_new\<rparr>, jl_seq_id = 0,
     jl_ignore_replay_error = False\<rparr>"


text \<open>What replay does in the cases left out: a follower that starts as the leader did applies the
  leader's journal, and takes over.\<close>

definition ex_replay :: "blob mem_db master_fs \<Rightarrow> unit res \<times> blob mem_db journal_loader" where
  "ex_replay s = apply_message ex_env
     (\<lambda>_. Inr \<lparr>jb_seq_id = 1, jb_batch = jw_entries (fd_journal (mf_dir s))\<rparr>) False [1] ex_loader"

definition ex_takeover :: "blob mem_db master_fs \<Rightarrow> blob mem_db master_fs" where
  "ex_takeover s = mm_fs (jl_mnt_mgr (snd (ex_replay s)))"

definition block_ids_of :: "string \<Rightarrow> blob mem_db master_fs \<Rightarrow> i64 list" where
  "block_ids_of path s =
     (case fst (master_get_block_locations ex_env path s) of
        Inl _ \<Rightarrow> []
      | Inr fb \<Rightarrow> map (\<lambda>lb. eb_id (lb_block lb)) (fb_block_locs fb))"

definition ex_create :: request where "ex_create = Create (create_with_create True) ''/f''"
definition ex_symlink :: request where "ex_symlink = Symlink ''/t'' ''/l'' False 0"

definition ex_add :: "commit_blk option \<Rightarrow> request" where
  "ex_add previous = AddBlock ''/f'' (ex_client []) previous []"

definition ex_first_block :: commit_blk where
  "ex_first_block = \<lparr>cb_block_id = 16793993216, cb_block_len = 2 ^ 26,
     cb_locations = [\<lparr>bl_worker_id = 1, bl_storage_type = Disk\<rparr>]\<rparr>"

definition ex_written :: "blob mem_db master_fs" where
  "ex_written = ex_after (ex_add None) (ex_after ex_create ex_master)"



text \<open>A follower that replayed the creation of a symlink and takes over gives the id of the link to
  the next file: replay does not advance the id counter.\<close>

theorem symlink_replay:
  "fst (ex_replay (ex_after ex_symlink ex_master)) = Inr () \<and>
   ex_ok ex_create (ex_takeover (ex_after ex_symlink ex_master)) \<and>
   fs_view (ex_after ex_create (ex_takeover (ex_after ex_symlink ex_master))) [''l''] = Some (KFile 1001) \<and>
   fs_view (ex_after ex_create (ex_takeover (ex_after ex_symlink ex_master))) [''f''] = Some (KFile 1001)"
proof (intro conjI)
  show "fst (ex_replay (ex_after ex_symlink ex_master)) = Inr ()" by code_simp
  show "ex_ok ex_create (ex_takeover (ex_after ex_symlink ex_master))" by code_simp
  show "fs_view (ex_after ex_create (ex_takeover (ex_after ex_symlink ex_master))) [''l''] = Some (KFile 1001)"
    by code_simp
  show "fs_view (ex_after ex_create (ex_takeover (ex_after ex_symlink ex_master))) [''f''] = Some (KFile 1001)"
    by code_simp
qed

end
