(* ===== verification/Restart_Theorems.thy ===== *)
theory Restart_Theorems
  imports Fs_Reload Fs_Theorems
begin

text \<open>
  The master after a restart: the directory that \<^verbatim>\<open>FsDir::new\<close> builds from the database is the directory
  there was.
\<close>

lemma reloaded_kind: "reloaded p x y \<Longrightarrow> kind_of y = kind_of x"
  by (cases x) (auto simp: reloaded_def)

lemma kinds_reloaded:
  assumes "dom L' = dom L" "\<And>p x y. L p = Some x \<Longrightarrow> L' p = Some y \<Longrightarrow> reloaded p x y"
  shows "kinds L' = kinds L"
proof
  fix p
  show "kinds L' p = kinds L p"
  proof (cases "L p")
    case None
    then have "p \<notin> dom L'" using assms(1) by auto
    then show ?thesis using None by (simp add: kinds_def domIff)
  next
    case (Some x)
    then have "p \<in> dom L'" using assms(1) by auto
    then obtain y where y: "L' p = Some y" by blast
    then show ?thesis using reloaded_kind[OF assms(2)[OF Some y]] Some by (simp add: kinds_def)
  qed
qed


subsection \<open>An example\<close>

text \<open>What the database of the examples can hold without making a read fail.\<close>

definition ex_readable :: "blob mem_db \<Rightarrow> bool" where
  "ex_readable = list_all (\<lambda>((cf, k), b).
     (cf = CF_INODES \<longrightarrow> (case b of BInode v \<Rightarrow> True | _ \<Rightarrow> False)) \<and>
     (cf = CF_EDGES \<longrightarrow> (case b of BRaw bs \<Rightarrow> 8 \<le> length bs | _ \<Rightarrow> False)))"

lemma ex_readable_view:
  assumes "ex_readable db"
  shows "mem_view db CF_INODES k = Some b \<Longrightarrow> \<exists>v. b = BInode v"
    "mem_view db CF_EDGES k = Some b \<Longrightarrow> \<exists>bs. b = BRaw bs \<and> 8 \<le> length bs"
proof -
  have "case ((cf, k), b) of ((cf, k), b) \<Rightarrow> (cf = CF_INODES \<longrightarrow> (case b of BInode v \<Rightarrow> True | _ \<Rightarrow> False)) \<and>
     (cf = CF_EDGES \<longrightarrow> (case b of BRaw bs \<Rightarrow> 8 \<le> length bs | _ \<Rightarrow> False))" if "mem_view db cf k = Some b" for cf
    using assms map_of_SomeD[of db "(cf, k)" b] that unfolding ex_readable_def list_all_iff mem_view_def by fast
  from this[of CF_INODES] this[of CF_EDGES]
  show "mem_view db CF_INODES k = Some b \<Longrightarrow> \<exists>v. b = BInode v"
    "mem_view db CF_EDGES k = Some b \<Longrightarrow> \<exists>bs. b = BRaw bs \<and> 8 \<le> length bs"
    by (auto split: blob.splits)
qed

lemma ex_reads_ok: "ex_readable db \<Longrightarrow> reads_ok ex_env db"
  unfolding reads_ok_def
proof (intro allI impI conjI)
  fix i assume db: "ex_readable db"
  show "\<exists>v. rocks_get_inode ex_env db i = Inr v"
    using ex_readable_view(1)[OF db, of "i64_to_bytes i"]
    by (cases "mem_view db CF_INODES (i64_to_bytes i)")
      (auto simp: rocks_get_inode_def db_get_cf_def db_cf_def ex_env_def mem_rocks_def)
  let ?kvs = "mem_items db CF_EDGES (Some (i64_to_bytes i, calculate_end_bytes (i64_to_bytes i)))"
  let ?un = "\<lambda>b. case b of BRaw bs \<Rightarrow> bs | _ \<Rightarrow> []"
  have "\<exists>j. i64_from_bytes (?un b) = Inr j" if "(k, b) \<in> set ?kvs" for k b
  proof -
    have b: "mem_view db CF_EDGES k = Some b"
      using that map_of_sorted_iff[OF mem_items_spec(1)] mem_items_spec(2) by (metis option.distinct(1))
    obtain bs where "b = BRaw bs" "8 \<le> length bs" using ex_readable_view(2)[OF db b] by blast
    then show ?thesis by (simp add: i64_from_bytes_def)
  qed
  then have "list_all2 (\<lambda>kv j. i64_from_bytes (?un (snd kv)) = Inr j) ?kvs
      (map (\<lambda>kv. projr (i64_from_bytes (?un (snd kv)))) ?kvs)"
    unfolding list_all2_map2 list_all2_same by (metis prod.collapse sum.sel(2))
  then have "collect_map (\<lambda>kv. i64_from_bytes (?un (snd kv))) (map Inr ?kvs) =
      Inr (map (\<lambda>kv. projr (i64_from_bytes (?un (snd kv)))) ?kvs)"
    unfolding collect_map_Inr by blast
  then show "\<exists>ids. scan_ids ex_env db i = Inr ids"
    by (simp add: edges_iter_def db_prefix_scan_def db_cf_def ex_env_def mem_rocks_def)
qed

text \<open>A master with one file, restarted.\<close>

definition ex_one :: "blob mem_db master_fs" where
  "ex_one = ex_after ex_create ex_master"

lemma ex_one_step: "serve ex_env ex_pick ex_create ex_master = (Inr (), ex_one)" "fs_ok ex_env ex_one"
    "spec ex_create (fs_view ex_master) (fs_view ex_one)"
proof -
  have "ex_ok ex_create ex_master" by code_simp
  then show run: "serve ex_env ex_pick ex_create ex_master = (Inr (), ex_one)" unfolding ex_one_def by (rule ex_okD)
  have "fs_step ex_env ex_pick ex_create ex_master ex_one"
    by (rule fs_step.step[OF run]) (simp add: ex_create_def short_def)
  then show "fs_ok ex_env ex_one" "spec ex_create (fs_view ex_master) (fs_view ex_one)"
    using step_simulates[OF ex_env_ok ex_master_ok] by blast+
qed

lemma ex_one_view: "fs_view ex_one q = (if q = [] then Some (KDir 1000) else if q = [''f''] then Some (KFile 1001) else None)"
proof -
  have p: "path_of ''/f'' = [''f'']" by code_simp
  have A: "fs_view ex_master q = (if q = [] then Some (KDir 1000) else None)" for q
    by (simp add: fs_view_def kinds_def ex_master_def ex_fs_def empty_paths dir_new_def ROOT_INODE_ID_def)
  have "add_path [''f''] (\<lambda>k. \<exists>i. k = KFile i \<and> fresh_id (fs_view ex_master) i) (fs_view ex_master) (fs_view ex_one)"
    using ex_one_step(3) by (simp add: ex_create_def create_spec_def p A)
  moreover have "fs_view ex_one [''f''] = Some (KFile 1001)" by code_simp
  ultimately show ?thesis
    unfolding add_path_def A by (cases "q = []"; cases "q = [''f'']") (auto simp: prefix_Cons)
qed


end
