(* ===== verification/Ttl_Cleanup.thy ===== *)
theory Ttl_Cleanup
  imports Fs_Spec "HOL-Library.Signed_Division"
begin

unbundle bit_operations_syntax

text \<open>
  The removal of expired inodes (\<^verbatim>\<open>ttl_checker.rs\<close>, \<^verbatim>\<open>ttl_executor.rs\<close> and the result type in
  \<^verbatim>\<open>ttl_types.rs\<close> under \<^verbatim>\<open>master/meta/inode/ttl\<close>). The checker takes the expired buckets of the list
  that the inode store fills, runs the action of each inode and puts a failed one into a later bucket;
  the executor rebuilds the path of an inode from the parents stored with the inodes, caches it, and
  calls the file system. The bucket list is that of the store, shared through an \<^verbatim>\<open>Arc\<close>. The order in
  which a bucket's hash map is walked is a parameter, and so is the stack: the recursion over the
  parents panics when it is deeper than the stack allows.
\<close>

subsection \<open>Results\<close>

record ttl_cleanup_result =
  tr_total_processed :: int
  tr_successful_cleanups :: int
  tr_failed_cleanups :: int
  tr_skipped_inodes :: int
  tr_processed_buckets :: int
  tr_successful_deletes :: "int list"
  tr_successful_frees :: "int list"
  tr_failed_inodes :: "int list"
  tr_retry_inodes :: "int list"

definition cleanup_result_new :: ttl_cleanup_result where
  "cleanup_result_new =
     \<lparr>tr_total_processed = 0, tr_successful_cleanups = 0, tr_failed_cleanups = 0, tr_skipped_inodes = 0,
      tr_processed_buckets = 0, tr_successful_deletes = [], tr_successful_frees = [], tr_failed_inodes = [],
      tr_retry_inodes = []\<rparr>"

definition result_merge :: "ttl_cleanup_result \<Rightarrow> ttl_cleanup_result \<Rightarrow> ttl_cleanup_result" where
  "result_merge a b =
     \<lparr>tr_total_processed = u64_of (tr_total_processed a + tr_total_processed b),
      tr_successful_cleanups = u64_of (tr_successful_cleanups a + tr_successful_cleanups b),
      tr_failed_cleanups = u64_of (tr_failed_cleanups a + tr_failed_cleanups b),
      tr_skipped_inodes = u64_of (tr_skipped_inodes a + tr_skipped_inodes b),
      tr_processed_buckets = u64_of (tr_processed_buckets a + tr_processed_buckets b),
      tr_successful_deletes = tr_successful_deletes a @ tr_successful_deletes b,
      tr_successful_frees = tr_successful_frees a @ tr_successful_frees b,
      tr_failed_inodes = tr_failed_inodes a @ tr_failed_inodes b,
      tr_retry_inodes = tr_retry_inodes a @ tr_retry_inodes b\<rparr>"

subsection \<open>The executor\<close>

record 'db ttl_executor =
  te_filesystem :: "'db master_fs"
  te_path_cache :: "(int \<times> string) list"

record ttl_env =
  tv_stack :: nat
  tv_order :: "(int \<times> u32) list \<Rightarrow> (int \<times> u32) list"

abbreviation ttl_store :: "'db ttl_executor \<Rightarrow> 'db inode_store" where
  "ttl_store x \<equiv> fd_store (mf_dir (te_filesystem x))"

definition executor_new :: "'db master_fs \<Rightarrow> 'db ttl_executor" where
  "executor_new fs = \<lparr>te_filesystem = fs, te_path_cache = []\<rparr>"

definition built_path :: "string \<Rightarrow> string \<Rightarrow> string" where
  "built_path parent_path name =
     (if parent_path = ''/'' then ''/'' @ name else parent_path @ ''/'' @ name)"

fun build_path_recursive ::
  "('db, 'b) meta_env \<Rightarrow> 'db inode_store \<Rightarrow> nat \<Rightarrow> i64 \<Rightarrow> string res" where
  "build_path_recursive E st 0 inode_id = Inl (Panic ''stack overflow'')"
| "build_path_recursive E st (Suc stack) inode_id =
     (if inode_id = ROOT_INODE_ID then Inr ''/''
      else case store_get_inode E st inode_id None of
        Inr (Some (File name file)) \<Rightarrow>
          bind_res (build_path_recursive E st stack (f_parent_id file)) (\<lambda>parent_path. Inr (built_path parent_path name))
      | Inr (Some (Dir name dir _)) \<Rightarrow>
          bind_res (build_path_recursive E st stack (d_parent_id dir)) (\<lambda>parent_path. Inr (built_path parent_path name))
      | Inr (Some (FileEntry name _)) \<Rightarrow> Inr (''/'' @ name)
      | _ \<Rightarrow> Inl (Common ''Cannot resolve path for inode''))"

definition get_inode_path :: "('db, 'b) meta_env \<Rightarrow> ttl_env \<Rightarrow> int \<Rightarrow> ('db ttl_executor, string) op" where
  "get_inode_path E V inode_id x =
     (case map_of (te_path_cache x) inode_id of
        Some path \<Rightarrow> (Inr path, x)
      | None \<Rightarrow>
          (case build_path_recursive E (ttl_store x) (tv_stack V) (i64_of inode_id) of
             Inl e \<Rightarrow> (Inl e, x)
           | Inr path \<Rightarrow> (Inr path, x\<lparr>te_path_cache := bt_insert inode_id path (te_path_cache x)\<rparr>)))"

definition get_inode_from_store ::
  "('db, 'b) meta_env \<Rightarrow> 'db ttl_executor \<Rightarrow> int \<Rightarrow> inode_view option res" where
  "get_inode_from_store E x inode_id = store_get_inode E (ttl_store x) (i64_of inode_id) None"

definition delete_inode :: "('db, 'b) meta_env \<Rightarrow> ttl_env \<Rightarrow> int \<Rightarrow> ('db ttl_executor, unit) op" where
  "delete_inode E V inode_id =
     bind_op (get_inode_path E V inode_id) (\<lambda>path x.
       let (r, fs) = master_delete E path True (te_filesystem x); x = x\<lparr>te_filesystem := fs\<rparr>
       in case r of
            Inr _ \<Rightarrow> (Inr (), x\<lparr>te_path_cache := bt_remove inode_id (te_path_cache x)\<rparr>)
          | Inl e \<Rightarrow> (Inl (Common ''Delete failed''), x))"

text \<open>Freeing a file is a stub in the code: the cache is not freed, there is no under file system, and no
  status is written.\<close>

definition free_inode :: "('db, 'b) meta_env \<Rightarrow> ttl_env \<Rightarrow> int \<Rightarrow> ('db ttl_executor, unit) op" where
  "free_inode E V inode_id =
     bind_op (get_inode_path E V inode_id) (\<lambda>path x.
       (bind_res (get_inode_from_store E x inode_id) (\<lambda>found.
          case found of
            Some (File _ _) \<Rightarrow> Inr ()
          | Some (Dir _ _ _) \<Rightarrow> Inl (Common ''Cannot free directory'')
          | Some (FileEntry _ _) \<Rightarrow> Inl (Common ''Cannot free empty file'')
          | None \<Rightarrow> Inl (Common ''Inode not found'')), x))"

subsection \<open>The checker\<close>

definition should_stop_retry :: "ttl_cleanup_config \<Rightarrow> u32 \<Rightarrow> bool" where
  "should_stop_retry c retry_count \<longleftrightarrow> retry_count \<ge> cc_max_retry_count c"

fun view_policy :: "inode_view \<Rightarrow> storage_policy" where
  "view_policy (File _ f) = f_storage_policy f"
| "view_policy (Dir _ d _) = d_storage_policy d"
| "view_policy (FileEntry _ _) = default_storage_policy"

definition failed_result :: "int \<Rightarrow> ttl_cleanup_result" where
  "failed_result inode_id = cleanup_result_new\<lparr>tr_total_processed := 1, tr_failed_inodes := [inode_id], tr_failed_cleanups := 1\<rparr>"

definition execute_ttl_action ::
  "('db, 'b) meta_env \<Rightarrow> ttl_env \<Rightarrow> int \<Rightarrow> 'db ttl_executor \<Rightarrow> ttl_cleanup_result \<times> 'db ttl_executor" where
  "execute_ttl_action E V inode_id x =
     (case get_inode_from_store E x inode_id of
        Inr (Some inode_view) \<Rightarrow>
          (case sp_ttl_action (view_policy inode_view) of
             TtlDelete \<Rightarrow>
               (case delete_inode E V inode_id x of
                  (Inr _, x) \<Rightarrow> (cleanup_result_new\<lparr>tr_total_processed := 1, tr_successful_deletes := [inode_id],
                     tr_successful_cleanups := 1\<rparr>, x)
                | (Inl _, x) \<Rightarrow> (failed_result inode_id, x))
           | TtlNone \<Rightarrow> (cleanup_result_new\<lparr>tr_total_processed := 1, tr_skipped_inodes := 1\<rparr>, x)
           | _ \<Rightarrow>
               (case free_inode E V inode_id x of
                  (Inr _, x) \<Rightarrow> (cleanup_result_new\<lparr>tr_total_processed := 1, tr_successful_frees := [inode_id],
                     tr_successful_cleanups := 1\<rparr>, x)
                | (Inl _, x) \<Rightarrow> (failed_result inode_id, x)))
      | _ \<Rightarrow> (failed_result inode_id, x))"

definition u64_saturating :: "int \<Rightarrow> int" where
  "u64_saturating n = min n (2 ^ 64 - 1)"

definition retry_backoff :: "ttl_cleanup_config \<Rightarrow> u32 \<Rightarrow> int" where
  "retry_backoff c retry_count =
     min (u64_saturating (max (cc_retry_interval_ms c) 1 * 2 ^ min (unat retry_count) 16)) (cc_max_retry_duration_ms c)"

definition compute_next_retry_ms :: "ttl_cleanup_config \<Rightarrow> int \<Rightarrow> int \<Rightarrow> u32 \<Rightarrow> int" where
  "compute_next_retry_ms c current_time_ms inode_id retry_count =
     (let backoff = retry_backoff c retry_count;
          basis = word_rotl (min (unat retry_count) 16) (word_of_int inode_id :: 64 word) XOR word_of_int current_time_ms;
          jitter_pct = uint (basis mod 21) - 10;
          jitter_ms = i64_of (backoff * jitter_pct sdiv 100);
          adjusted = max (i64_of (i64_of backoff + jitter_ms)) 0
      in u64_saturating (current_time_ms + adjusted))"

definition on_bucket_list :: "(ttl_bucket_list \<Rightarrow> ttl_bucket_list) \<Rightarrow> 'db ttl_executor \<Rightarrow> 'db ttl_executor" where
  "on_bucket_list f x =
     x\<lparr>te_filesystem := (te_filesystem x)\<lparr>mf_dir := (mf_dir (te_filesystem x))\<lparr>fd_store := (ttl_store x)\<lparr>st_ttl := f (st_ttl (ttl_store x))\<rparr>\<rparr>\<rparr>\<rparr>"

text \<open>The closure run on each inode of the snapshot of a bucket. Results of the inode include those merged
  before it.\<close>

definition process_inode ::
  "('db, 'b) meta_env \<Rightarrow> ttl_env \<Rightarrow> ttl_cleanup_config \<Rightarrow> int \<Rightarrow> int \<Rightarrow> int \<times> u32 \<Rightarrow>
   ttl_cleanup_result \<times> 'db ttl_executor \<Rightarrow> ttl_cleanup_result \<times> 'db ttl_executor" where
  "process_inode E V c start current_time_ms = (\<lambda>(inode_id, retry_count) (result, x).
     let forget = on_bucket_list (with_bucket start (\<lambda>b. snd (bucket_remove_inode inode_id b)))
     in if should_stop_retry c retry_count
        then (result\<lparr>tr_failed_inodes := tr_failed_inodes result @ [inode_id],
                tr_failed_cleanups := u64_of (tr_failed_cleanups result + 1),
                tr_total_processed := u64_of (tr_total_processed result + 1)\<rparr>, forget x)
        else
          let (action_result, x) = execute_ttl_action E V inode_id x;
              result = result_merge result action_result
          in if inode_id \<in> set (tr_successful_deletes result) \<or> inode_id \<in> set (tr_successful_frees result)
             then (result, forget x)
             else if inode_id \<in> set (tr_failed_inodes result)
             then let updated_retry = (if retry_count = - 1 then retry_count else retry_count + 1)
                  in if should_stop_retry c updated_retry then (result, forget x)
                     else (result\<lparr>tr_retry_inodes := tr_retry_inodes result @ [inode_id]\<rparr>,
                           on_bucket_list (\<lambda>l. snd (ttl_reschedule_inode inode_id updated_retry
                             (compute_next_retry_ms c current_time_ms inode_id updated_retry) l)) x)
             else (result, x))"

definition process_expired_bucket ::
  "('db, 'b) meta_env \<Rightarrow> ttl_env \<Rightarrow> ttl_cleanup_config \<Rightarrow> int \<Rightarrow> int \<Rightarrow>
   'db ttl_executor \<Rightarrow> ttl_cleanup_result \<times> 'db ttl_executor" where
  "process_expired_bucket E V c current_time_ms start x =
     (let snapshot = (case map_of (tl_buckets (st_ttl (ttl_store x))) start of
                        Some b \<Rightarrow> tv_order V (tb_inode_retries b) | None \<Rightarrow> []);
          (result, x) = fold (process_inode E V c start current_time_ms) snapshot (cleanup_result_new, x)
      in (result, on_bucket_list (\<lambda>l. case map_of (tl_buckets l) start of
                                        Some b \<Rightarrow> snd (remove_empty_bucket b l) | None \<Rightarrow> l) x))"

definition cleanup_once ::
  "('db, 'b) meta_env \<Rightarrow> ttl_env \<Rightarrow> ttl_cleanup_config \<Rightarrow> int \<Rightarrow>
   'db ttl_executor \<Rightarrow> ttl_cleanup_result \<times> 'db ttl_executor" where
  "cleanup_once E V c current_time_ms x =
     fold (\<lambda>b (result, x).
             let (bucket_result, x) = process_expired_bucket E V c current_time_ms (tb_interval_start_ms b) x
             in (result_merge result bucket_result, x))
       (get_expired_buckets_at (st_ttl (ttl_store x)) current_time_ms) (cleanup_result_new, x)"

end
