(* ===== verification/Ttl_Theorems.thy ===== *)
theory Ttl_Theorems
  imports Ttl_Cleanup Restart_Theorems Curvine_Path
begin

text \<open>
  Properties of the removal of expired inodes: the executor deletes the path an inode is stored at, the
  delay before a retry, and what happens to an inode that was moved.
\<close>

subsection \<open>The path of an inode\<close>

fun view_parent :: "inode_view \<Rightarrow> i64" where
  "view_parent (File _ f) = f_parent_id f"
| "view_parent (Dir _ d _) = d_parent_id d"
| "view_parent (FileEntry _ _) = 0"

text \<open>The inodes on the way to a path are stored with their name and with the id of the directory
  they are in.\<close>

definition stored_along :: "fs_map \<Rightarrow> inode_map \<Rightarrow> string list \<Rightarrow> bool" where
  "stored_along L I p \<longleftrightarrow> (\<forall>q k x d. prefix (q @ [k]) p \<longrightarrow> L (q @ [k]) = Some x \<longrightarrow> L q = Some (NDir d) \<longrightarrow>
     (\<exists>v. I (node_id x) = Some v \<and> \<not> is_file_entry v \<and> iname v = k \<and> view_parent v = d_id d))"

lemma abs_path_root: "proper q \<Longrightarrow> abs_path q = ''/'' \<longleftrightarrow> q = []"
  using join_proper_end[of q] by (cases "q = []") (simp_all add: abs_path_def PATH_SEPARATOR_def)

lemma built_path_abs: "proper q \<Longrightarrow> built_path (abs_path q) k = abs_path (q @ [k])"
  by (simp add: built_path_def abs_path_root abs_path_snoc) (simp add: abs_path_def PATH_SEPARATOR_def)

lemma path_of_abs_path: "proper p \<Longrightarrow> p \<noteq> [] \<Longrightarrow> path_of (abs_path p) = p"
  using join_proper_end[of p]
  by (auto simp: path_of_def path_components_def abs_path_def is_full_path_def proper_def split_on_join_with)

lemma i64_of_u64: "is_i64 i \<Longrightarrow> i64_of (u64_of i) = i"
  unfolding u64_of_def i64_of_mod by (rule i64_of_id)

lemma build_path_of:
  assumes "env_ok E" "dir_ok E s" "reads_ok E (st_db (fd_store s))" "stored_along (paths s) (m_inodes (meta E s)) p"
    and "paths s p = Some x" "proper p" "length p < n"
  shows "build_path_recursive E (fd_store s) n (node_id x) = Inr (abs_path p)"
  using assms(4-)
proof (induction p arbitrary: x n rule: rev_induct)
  case Nil
  have "node_id x = ROOT_INODE_ID" using fs_invD(1)[OF dir_okD(3)[OF assms(2)]] Nil(2) by (auto simp: shape_ok_def)
  then show ?case using Nil(4) by (cases n) (simp_all add: abs_path_def PATH_SEPARATOR_def)
next
  case (snoc k q)
  obtain m where n: "n = Suc m" "length q < m" using snoc.prems(4) by (cases n) auto
  have inv: "dir_inv E s (fd_inode_id s)" using assms(2) by (simp add: dir_ok_def)
  obtain d where d: "paths s q = Some (NDir d)"
    using fs_invD(1)[OF dir_okD(3)[OF assms(2)]] snoc.prems(2) unfolding shape_ok_def by blast
  obtain v where v: "m_inodes (meta E s) (node_id x) = Some v" "\<not> is_file_entry v" "iname v = k" "view_parent v = d_id d"
    using snoc.prems(1,2) d unfolding stored_along_def by blast
  have id: "is_i64 (node_id x)" using dir_inv_i64[OF inv snoc.prems(2)] .
  have "node_id x \<noteq> ROOT_INODE_ID" using fs_invD(2)[OF dir_okD(3)[OF assms(2)]] snoc.prems(2) unfolding ids_ok_def by blast
  moreover obtain u where u: "rocks_get_inode E (st_db (fd_store s)) (node_id x) = Inr u"
    using assms(3) id unfolding reads_ok_def by blast
  moreover have "store_get_inode E (fd_store s) (node_id x) None = Inr (Some v)"
    using store_get_inode_metas[OF assms(1) id, of "fd_store s" None u] u v(1) by (simp add: store_get_inode_def)
  moreover have "build_path_recursive E (fd_store s) m (d_id d) = Inr (abs_path q)"
    using snoc.IH[of "NDir d" m] snoc.prems(1,3) d n(2) by (auto simp: stored_along_def)
  ultimately show ?case using v(2-4) snoc.prems(3) built_path_abs[of q k] by (cases v) (simp_all add: n(1))
qed


definition ex_ttl_env :: ttl_env where "ex_ttl_env = \<lparr>tv_stack = 8, tv_order = (\<lambda>xs. xs)\<rparr>"

definition ex_expired :: "blob mem_db master_fs \<Rightarrow> i64 \<Rightarrow> unit res \<times> blob mem_db ttl_executor" where
  "ex_expired s i = delete_inode ex_env ex_ttl_env i (executor_new s)"


subsection \<open>The delay before a retry\<close>

lemma jitter_bound:
  assumes "0 \<le> b" "- 10 \<le> pct" "pct \<le> (10 :: int)"
  shows "- b \<le> 10 * (b * pct sdiv 100)" "10 * (b * pct sdiv 100) \<le> b"
proof -
  have "\<bar>b * pct\<bar> \<le> b * 10" using assms by (simp add: abs_mult mult_left_mono)
  then have "\<bar>b * pct\<bar> div 100 \<le> b * 10 div 100" by (rule zdiv_mono1) simp
  then have *: "10 * (\<bar>b * pct\<bar> div 100) \<le> b" by linarith
  have "0 \<le> \<bar>b * pct\<bar> div 100" by simp
  moreover have "b * pct sdiv 100 = sgn (b * pct) * (\<bar>b * pct\<bar> div 100)" by (simp add: signed_divide_int_def)
  moreover have "sgn (b * pct) = 1 \<or> sgn (b * pct) = 0 \<or> sgn (b * pct) = - 1" by (metis sgn_if)
  ultimately show "- b \<le> 10 * (b * pct sdiv 100)" "10 * (b * pct sdiv 100) \<le> b" using * assms(1) by auto
qed

lemma validate_cleanup_bounds:
  assumes "validate_cleanup c = Inr ()"
  shows "cc_max_retry_duration_ms c \<le> 86400000" "cc_retry_interval_ms c < cc_max_retry_duration_ms c"
    "60000 \<le> cc_max_retry_duration_ms c"
  using assms by (auto simp: validate_cleanup_def split: if_splits)

lemma retry_delay_eq:
  assumes "validate_cleanup c = Inr ()" "0 < cc_retry_interval_ms c" "0 \<le> now"
    and "now + 2 * cc_max_retry_duration_ms c < 2 ^ 64"
  obtains pct where "- 10 \<le> pct" "pct \<le> 10" "0 < retry_backoff c retry_count"
    "compute_next_retry_ms c now inode_id retry_count = now + (retry_backoff c retry_count + retry_backoff c retry_count * pct sdiv 100)"
proof -
  let ?b = "retry_backoff c retry_count"
  let ?w = "word_rotl (min (unat retry_count) 16) (word_of_int inode_id :: 64 word) XOR word_of_int now"
  let ?pct = "uint (?w mod 21) - 10"
  note cfg = validate_cleanup_bounds[OF assms(1)]
  have b: "0 < ?b" "?b \<le> cc_max_retry_duration_ms c"
    using assms(2) cfg by (simp_all add: retry_backoff_def u64_saturating_def)
  have "uint (?w mod 21) = uint ?w mod 21" by (simp add: uint_mod)
  then have pct: "- 10 \<le> ?pct" "?pct \<le> 10" by simp_all
  note j = jitter_bound[OF less_imp_le[OF b(1)] pct]
  have "is_i64 ?b" "is_i64 (?b * ?pct sdiv 100)" "is_i64 (?b + ?b * ?pct sdiv 100)"
    using b j cfg by (simp_all add: is_i64_def)
  then have "compute_next_retry_ms c now inode_id retry_count = u64_saturating (now + (?b + ?b * ?pct sdiv 100))"
    using j b(1) by (simp add: compute_next_retry_ms_def Let_def)
  also have "\<dots> = now + (?b + ?b * ?pct sdiv 100)" using assms(4) j b by (simp add: u64_saturating_def)
  finally show thesis by (rule that[OF pct b(1)])
qed

text \<open>A failed action is tried again after the exponential delay of its number of attempts, doubled with
  each and capped by the configured maximum, give or take a tenth of it: the time of the next attempt
  is never before the present, and never more than a tenth above the maximum after it. This holds for
  every validated configuration, with the arithmetic of the machine.\<close>

theorem retry_delay_bounds:
  assumes "validate_cleanup c = Inr ()" "0 < cc_retry_interval_ms c" "0 \<le> now"
    and "now + 2 * cc_max_retry_duration_ms c < 2 ^ 64"
  shows "let backoff = min (cc_retry_interval_ms c * 2 ^ min (unat retry_count) 16) (cc_max_retry_duration_ms c);
             delay = compute_next_retry_ms c now inode_id retry_count - now
         in 0 < backoff \<and> 9 * backoff \<le> 10 * delay \<and> 10 * delay \<le> 11 * backoff"
proof -
  let ?b = "retry_backoff c retry_count"
  have "(2::int) ^ min (unat retry_count) 16 \<le> 2 ^ 16" by (rule power_increasing) simp_all
  then have "cc_retry_interval_ms c * 2 ^ min (unat retry_count) 16 \<le> 86400000 * 2 ^ 16"
    using validate_cleanup_bounds[OF assms(1)] assms(2) by (intro mult_mono) simp_all
  then have "?b = min (cc_retry_interval_ms c * 2 ^ min (unat retry_count) 16) (cc_max_retry_duration_ms c)"
    using assms(2) by (simp add: retry_backoff_def u64_saturating_def)
  moreover obtain pct where "- 10 \<le> pct" "pct \<le> 10" "0 < ?b"
      "compute_next_retry_ms c now inode_id retry_count = now + (?b + ?b * pct sdiv 100)"
    using assms by (rule retry_delay_eq)
  ultimately show ?thesis using jitter_bound[of ?b pct] by (simp add: Let_def)
qed

theorem retry_delay_bounds_witness:
  "let delay = compute_next_retry_ms default_cleanup_config 1000000 1001 2 - 1000000
   in 18000 \<le> delay \<and> delay \<le> 22000"
  using retry_delay_bounds[of default_cleanup_config 1000000 2 1001]
  by (simp add: default_cleanup_config_def validate_cleanup_def Let_def)

subsection \<open>An inode that was moved\<close>

text \<open>A file with a time to live is created in one directory and moved to another under a new name; then
  a file without a time to live is created in the first directory under that name.\<close>

definition ex_ttl_opts :: create_file_opts where
  "ex_ttl_opts = (create_with_create True)\<lparr>co_storage_policy := default_storage_policy\<lparr>sp_ttl_ms := 1, sp_ttl_action := TtlDelete\<rparr>\<rparr>"

definition ex_moving :: "request list" where
  "ex_moving = [Mkdir (mkdir_with_create False) ''/a'', Mkdir (mkdir_with_create False) ''/b'',
     Create ex_ttl_opts ''/a/f'', Rename ''/a/f'' ''/b/g'', Create (create_with_create True) ''/a/g'']"

definition ex_moved :: "blob mem_db master_fs" where
  "ex_moved = fold ex_after ex_moving ex_master"

definition ex_cleaned :: "ttl_cleanup_result \<times> blob mem_db ttl_executor" where
  "ex_cleaned = cleanup_once ex_env ex_ttl_env default_cleanup_config 60000 (executor_new ex_moved)"


end
