(* ===== verification/Worker_Theorems.thy ===== *)
theory Worker_Theorems
  imports Fs_Example
begin

text \<open>
  The properties of the worker manager: the registration of workers and the heartbeat checker, the choice of
  workers for a block, and the blocks the workers are told to delete.
\<close>

subsection \<open>The round robin loop\<close>

lemma robin_loop_ends:
  assumes "start < length ws" "k < length ws" "length ws - k \<le> fuel"
  shows "\<exists>r. robin_loop (Suc fuel) ws replicas bs start ((start + k) mod length ws) exclude res = Some r"
  using assms
proof (induction fuel arbitrary: k exclude res)
  case (Suc fuel)
  let ?n = "length ws"
  have i: "(start + k) mod ?n < ?n" using Suc.prems(2) by (intro mod_less_divisor) linarith
  have step: "((start + k) mod ?n + 1) mod ?n = (start + Suc k) mod ?n" by (simp add: mod_simps)
  show ?case
  proof (cases "(start + Suc k) mod ?n = start")
    case True
    then show ?thesis using i step
      by (subst robin_loop.simps) (simp add: get_index_def Let_def split: prod.split)
  next
    case False
    then have "Suc k \<noteq> ?n" using Suc.prems(1) by (metis mod_add_self2 mod_less)
    then have k: "Suc k < ?n" "?n - Suc k \<le> fuel" using Suc.prems by simp_all
    show ?thesis
    proof (subst robin_loop.simps, cases "length res < replicas")
      case True
      then show "\<exists>r. (if length res < replicas then (case get_index ws ((start + k) mod ?n) of
           None \<Rightarrow> Some (Inl (Common ''Option is none''))
         | Some e \<Rightarrow> let (exclude, res) = (if usable exclude bs e then (fst e # exclude, res @ [wi_address (snd e)])
                       else (exclude, res)); index = ((start + k) mod ?n + 1) mod ?n
             in if index = start then Some (Inr (index, res))
                else robin_loop (Suc fuel) ws replicas bs start index exclude res)
        else Some (Inr ((start + k) mod ?n, res))) = Some r"
        using i False Suc.IH[OF Suc.prems(1) k] step by (simp add: get_index_def Let_def del: robin_loop.simps)
    qed simp
  qed
qed simp

text \<open>One worker is chosen: the first that can be used from the position on, and the position moves behind
  it.\<close>

lemma robin_loop_one:
  assumes "start < length ws" "k \<le> t" "t < length ws" "t - k < fuel"
    and t: "usable exclude bs (ws ! ((start + t) mod length ws))"
    and before: "\<forall>u. k \<le> u \<longrightarrow> u < t \<longrightarrow> \<not> usable exclude bs (ws ! ((start + u) mod length ws))"
  shows "robin_loop (Suc fuel) ws 1 bs start ((start + k) mod length ws) exclude [] =
    Some (Inr ((start + Suc t) mod length ws, [wi_address (snd (ws ! ((start + t) mod length ws)))]))"
  using assms(2-4) before
proof (induction fuel arbitrary: k)
  case (Suc fuel)
  let ?n = "length ws"
  have i: "(start + k) mod ?n < ?n" using Suc.prems(2) by (intro mod_less_divisor) linarith
  have step: "((start + k) mod ?n + 1) mod ?n = (start + Suc k) mod ?n" by (simp add: mod_simps)
  show ?case
  proof (cases "k = t")
    case True
    then show ?thesis using i step t
      by (subst robin_loop.simps) (simp add: get_index_def Let_def)
  next
    case False
    then have k: "Suc k \<le> t" "Suc k < ?n" using Suc.prems(1,2) by simp_all
    have "(start + Suc k) mod ?n \<noteq> start"
    proof
      assume "(start + Suc k) mod ?n = start"
      then have "?n dvd Suc k" by (metis assms(1) add_diff_cancel_left' dvd_minus_mod mod_eq_dvd_iff_nat le_add1 mod_less)
      then show False using k(2) by (simp add: nat_dvd_not_less)
    qed
    moreover have "\<not> usable exclude bs (ws ! ((start + k) mod ?n))" using Suc.prems(1,4) False by simp
    ultimately show ?thesis using i step Suc.IH[OF k(1)] Suc.prems k
      by (subst robin_loop.simps) (simp add: get_index_def Let_def)
  qed
qed simp

lemma robin_choose_one:
  assumes "start < length ws" "t < length ws" "cc_replicas ctx = 1"
    and "usable (cc_exclude_workers ctx) (cc_block_size ctx) (ws ! ((start + t) mod length ws))"
    and "\<forall>u<t. \<not> usable (cc_exclude_workers ctx) (cc_block_size ctx) (ws ! ((start + u) mod length ws))"
  shows "robin_choose ws ctx start =
    (Inr [wi_address (snd (ws ! ((start + t) mod length ws)))], (start + Suc t) mod length ws)"
proof -
  have "ws \<noteq> []" using assms(1) by auto
  moreover have "(start + 0) mod length ws = start" using assms(1) by simp
  ultimately show ?thesis
    using robin_loop_one[of start ws 0 t "length ws" "cc_exclude_workers ctx" "cc_block_size ctx"] assms
    unfolding robin_choose_def by (simp only: One_nat_def[symmetric]) simp
qed

text \<open>Successive choices from an unchanged list of workers.\<close>

fun robin_turns :: "nat \<Rightarrow> workers \<Rightarrow> choose_context \<Rightarrow> nat \<Rightarrow> worker_address list res list" where
  "robin_turns 0 ws ctx index = []"
| "robin_turns (Suc n) ws ctx index = (let (r, index') = robin_choose ws ctx index in r # robin_turns n ws ctx index')"

lemma robin_turns_reach:
  assumes "start < length ws" "cc_replicas ctx = 1" "d < length ws" "d < n"
    and "usable (cc_exclude_workers ctx) (cc_block_size ctx) (ws ! ((start + d) mod length ws))"
  shows "Inr [wi_address (snd (ws ! ((start + d) mod length ws)))] \<in> set (robin_turns n ws ctx start)"
  using assms
proof (induction n arbitrary: d start)
  case (Suc n)
  let ?ok = "\<lambda>t. usable (cc_exclude_workers ctx) (cc_block_size ctx) (ws ! ((start + t) mod length ws))"
  define t where "t = (LEAST t. ?ok t)"
  have t: "?ok t" "\<forall>u<t. \<not> ?ok u" "t \<le> d"
    unfolding t_def using Suc.prems(5) by (auto intro: LeastI Least_le dest: not_less_Least)
  have one: "robin_choose ws ctx start =
      (Inr [wi_address (snd (ws ! ((start + t) mod length ws)))], (start + Suc t) mod length ws)"
    using robin_choose_one[OF Suc.prems(1) _ Suc.prems(2) t(1,2)] t(3) Suc.prems(3) by simp
  show ?case
  proof (cases "t = d")
    case True
    then show ?thesis by (simp add: one)
  next
    case False
    let ?start = "(start + Suc t) mod length ws" and ?d = "d - Suc t"
    have "(?start + ?d) mod length ws = (start + Suc t + ?d) mod length ws" by (rule mod_add_left_eq)
    moreover have "start + Suc t + ?d = start + d" using False t(3) by simp
    ultimately have "(?start + ?d) mod length ws = (start + d) mod length ws" by simp
    moreover have "?start < length ws" using Suc.prems(1) by (intro mod_less_divisor) linarith
    moreover have "?d < n" "?d < length ws" using Suc.prems(3,4) False t(3) by linarith+
    ultimately show ?thesis using Suc.IH[of ?start ?d] Suc.prems(2,5) by (simp add: one)
  qed
qed simp

subsection \<open>Choosing workers\<close>

text \<open>C20: The round robin loop ends: within one turn over the workers it returns or reports an error, whatever
  the position it starts from.\<close>

theorem robin_terminates: "\<exists>r. robin_loop (Suc (length ws)) ws replicas bs start start exclude [] = Some r"
proof (cases "start < length ws")
  case True
  then have "0 < length ws" "(start + 0) mod length ws = start" by (linarith, simp)
  then show ?thesis
    using robin_loop_ends[of start ws 0 "length ws" replicas bs exclude "[]"] True by (simp del: robin_loop.simps)
qed (simp add: get_index_def)


definition ex_ctx :: "nat \<Rightarrow> choose_context" where
  "ex_ctx n = with_num n 0 []"

definition ex_list :: workers where
  "ex_list = live_workers (snd (heartbeat 1000 ''c'' HbStart (ex_address\<lparr>wa_worker_id := 2\<rparr>) [ex_storage] ex_workers))"

lemma ex_list_ok: "workers_ok ex_list"
  using heartbeat_ok[OF ex_workers_ok] unfolding ex_list_def manager_ok_def worker_map_ok_def by blast

lemma ex_list_length: "length ex_list = 2"
  by code_simp




text \<open>C18: Every policy (round robin, local worker first, random, by load) keeps the contract: at most as
  many workers as replicas, no worker twice, each of them registered, live, not excluded and with room for the
  block.\<close>

theorem policy_contract:
  assumes "pick_ok pick" "workers_ok ws" "is_i64 (cc_block_size ctx)" "adapter_choose pick ws ctx p = (Inr as, p')"
  shows "length as \<le> cc_replicas ctx \<and> distinct (map wa_worker_id as) \<and>
    (\<forall>a\<in>set as. wa_worker_id a \<notin> set (cc_exclude_workers ctx) \<and>
       (\<exists>w. map_of ws (wa_worker_id a) = Some w \<and> wi_address w = a \<and> is_live w \<and> cc_block_size ctx \<le> wi_available w))"
proof -
  have c: "chosen_ok ws ctx as" by (rule worker_policy.chosen[OF adapter_policy[OF assms(1)] assms(2-4)])
  have "wa_worker_id a \<notin> set (cc_exclude_workers ctx) \<and>
      (\<exists>w. map_of ws (wa_worker_id a) = Some w \<and> wi_address w = a \<and> is_live w \<and> cc_block_size ctx \<le> wi_available w)"
    if "a \<in> set as" for a
    using c that assms(2) by (fastforce simp: chosen_ok_def good_worker_def workers_ok_def wi_worker_id_def im_ok_def)
  then show ?thesis using c by (simp add: chosen_ok_def)
qed

theorem policy_contract_witness:
  "\<exists>as p'. adapter_choose ex_pick ex_list (ex_ctx 2) (Local 0) = (Inr as, p') \<and> length as = 2 \<and>
    distinct (map wa_worker_id as)"
proof -
  have run: "map_sum id length (fst (adapter_choose ex_pick ex_list (ex_ctx 2) (Local 0))) = Inr 2" by code_simp
  then obtain as where as: "adapter_choose ex_pick ex_list (ex_ctx 2) (Local 0) =
      (Inr as, snd (adapter_choose ex_pick ex_list (ex_ctx 2) (Local 0)))" "length as = 2"
    by (cases "adapter_choose ex_pick ex_list (ex_ctx 2) (Local 0)";
        cases "fst (adapter_choose ex_pick ex_list (ex_ctx 2) (Local 0))") auto
  have "is_i64 (cc_block_size (ex_ctx 2))" by (simp add: ex_ctx_def with_num_def is_i64_def)
  from policy_contract[OF ex_pick_ok ex_list_ok this as(1)] as show ?thesis by blast
qed

text \<open>Once the stored position is past the end of the list of workers (a worker was removed after the
  last choice), the round robin policy refuses every request and keeps the position: no later request
  succeeds until as many workers register again.\<close>

theorem robin_stuck:
  assumes "ws \<noteq> []" "1 \<le> cc_replicas ctx" "length ws \<le> start"
  shows "robin_turns n ws ctx start = replicate n (Inl (Common ''Option is none''))"
proof -
  have "robin_choose ws ctx start = (Inl (Common ''Option is none''), start)"
    using assms by (simp add: robin_choose_def get_index_def)
  then show ?thesis by (induction n) simp_all
qed

text \<open>Two workers, a choice of one of them, and the second worker unregisters.\<close>

definition ex_shrunk :: worker_manager where
  "ex_shrunk =
     (let wg = snd (heartbeat 1000 ''c'' HbStart (ex_address\<lparr>wa_worker_id := 2\<rparr>) [ex_storage] ex_workers);
          wg = snd (choose_worker ex_pick (ex_ctx 1) wg)
      in snd (heartbeat 1001 ''c'' HbEnd (ex_address\<lparr>wa_worker_id := 2\<rparr>) [] wg))"

theorem robin_stuck_witness:
  "list_all (is_live \<circ> snd) (live_workers ex_shrunk) \<and> length (live_workers ex_shrunk) = 1 \<and>
   wg_worker_policy ex_shrunk = Robin 1 \<and>
   robin_turns 5 (live_workers ex_shrunk) (ex_ctx 1) 1 = replicate 5 (Inl (Common ''Option is none''))"
proof (intro conjI)
  have len: "length (live_workers ex_shrunk) = 1" by code_simp
  then show "length (live_workers ex_shrunk) = 1" .
  show "list_all (is_live \<circ> snd) (live_workers ex_shrunk)" by code_simp
  show "wg_worker_policy ex_shrunk = Robin 1" by code_simp
  show "robin_turns 5 (live_workers ex_shrunk) (ex_ctx 1) 1 = replicate 5 (Inl (Common ''Option is none''))"
    by (rule robin_stuck) (use len in \<open>auto simp: ex_ctx_def with_num_def\<close>)
qed

subsection \<open>Registration\<close>

datatype worker_event =
    Beat int string heartbeat_status worker_address "storage_info list"
  | Check int int int
  | AddDcm "string list"
  | RemoveDcm "string list"
  | Choose choose_context
  | RemoveBlocks delete_result
  | RemoveBlock u32 i64
  | BlockDeleted u32 i64

fun run_event ::
  "(nat \<Rightarrow> (u32 \<times> worker_info) list \<Rightarrow> (u32 \<times> worker_info) list) \<Rightarrow> worker_event \<Rightarrow> worker_manager \<Rightarrow> worker_manager" where
  "run_event pick (Beat now cid st addr storages) wg = snd (heartbeat now cid st addr storages wg)"
| "run_event pick (Check now b l) wg = snd (heartbeat_check True now b l wg)"
| "run_event pick (AddDcm hosts) wg = snd (add_dcm hosts wg)"
| "run_event pick (RemoveDcm hosts) wg = snd (remove_dcm hosts wg)"
| "run_event pick (Choose ctx) wg = snd (choose_worker pick ctx wg)"
| "run_event pick (RemoveBlocks res) wg = manager_remove_blocks res wg"
| "run_event pick (RemoveBlock w b) wg = manager_remove_block w b wg"
| "run_event pick (BlockDeleted w b) wg = manager_deleted_block w b wg"

lemma choose_worker_map: "wg_worker_map (snd (choose_worker pick ctx wg)) = wg_worker_map wg"
  by (auto simp: choose_worker_def split: prod.split sum.split)

lemma manager_same:
  "manager_ok (snd (choose_worker pick ctx wg)) \<longleftrightarrow> manager_ok wg"
  "manager_ok (manager_remove_blocks res wg) \<longleftrightarrow> manager_ok wg"
  "manager_ok (manager_remove_block w b wg) \<longleftrightarrow> manager_ok wg"
  "manager_ok (manager_deleted_block w b wg) \<longleftrightarrow> manager_ok wg"
  by (simp_all add: manager_ok_def choose_worker_map manager_remove_blocks_def manager_remove_block_def
      manager_deleted_block_def)

lemma run_event_ok: "manager_ok wg \<Longrightarrow> manager_ok (run_event pick e wg)"
proof (cases e)
  case (Check now b l)
  assume "manager_ok wg"
  then show ?thesis
    using heartbeat_check_spec(1)[of wg now b l "fst (heartbeat_check True now b l wg)" "snd (heartbeat_check True now b l wg)"]
    by (simp add: Check)
qed (simp_all add: heartbeat_ok set_hosts_status_ok add_dcm_def remove_dcm_def manager_same)

interpretation registry: invariant_system "\<lambda>wg wg'. \<exists>pick e. wg' = run_event pick e wg" manager_ok
  by unfold_locales (auto simp: run_event_ok)

text \<open>C15: Whatever sequence of heartbeats, checks, decommissions and requests a new worker manager goes
  through, a worker is registered under its own id, at most once, and never both as a live and as a lost worker.\<close>

theorem registry_invariant:
  fixes events :: "worker_event list" and pick :: "nat \<Rightarrow> (u32 \<times> worker_info) list \<Rightarrow> (u32 \<times> worker_info) list"
    and cid :: string and policy :: policy
  defines "wg \<equiv> fold (run_event pick) events (worker_manager_new cid policy)"
  shows "distinct (map fst (live_workers wg)) \<and> distinct (map fst (lost_workers wg)) \<and>
    set (map fst (live_workers wg)) \<inter> set (map fst (lost_workers wg)) = {} \<and>
    list_all (\<lambda>(i, w). wi_worker_id w = i) (live_workers wg @ lost_workers wg)"
proof -
  have "manager_ok (worker_manager_new cid policy)"
    by (simp add: manager_ok_def worker_manager_new_def worker_map_new_def worker_map_ok_def workers_ok_def im_ok_def)
  then have "manager_ok wg" unfolding wg_def by (rule registry.kept_by_fold[rotated]) blast
  then show ?thesis
    by (auto simp: manager_ok_def worker_map_ok_def workers_ok_def im_ok_def list_all_iff)
qed

text \<open>C16: One run of the heartbeat checker: exactly the workers whose last heartbeat is older than the
  lost timeout are moved from the live to the lost workers, and a deletion of their locations is started for
  each; of the others, those older than the blacklist timeout are blacklisted and the rest is unchanged.\<close>

theorem heartbeat_check_effect:
  assumes "manager_ok wg" "heartbeat_check True now b l wg = (tasks, wg')"
  shows "set tasks = {i. \<exists>w. map_of (live_workers wg) i = Some w \<and> now > u64_of (wi_last_update w + l)} \<and>
    map_of (live_workers wg') i = (case map_of (live_workers wg) i of None \<Rightarrow> None
      | Some w \<Rightarrow> if now > u64_of (wi_last_update w + l) then None
                  else if now > u64_of (wi_last_update w + b) then Some (w\<lparr>wi_status := Blacklist\<rparr>) else Some w) \<and>
    (i \<in> set tasks \<longrightarrow> map_of (lost_workers wg') i \<noteq> None) \<and>
    (i \<notin> set tasks \<longrightarrow> map_of (lost_workers wg') i = map_of (lost_workers wg) i)"
proof (intro conjI impI)
  note spec = heartbeat_check_spec[OF assms]
  show tasks: "set tasks = {i. \<exists>w. map_of (live_workers wg) i = Some w \<and> now > u64_of (wi_last_update w + l)}"
    using spec(2) by (simp add: late_def)
  show "map_of (live_workers wg') i = (case map_of (live_workers wg) i of None \<Rightarrow> None
      | Some w \<Rightarrow> if now > u64_of (wi_last_update w + l) then None
                  else if now > u64_of (wi_last_update w + b) then Some (w\<lparr>wi_status := Blacklist\<rparr>) else Some w)"
    using spec(3)[of i] by (simp add: late_def blacklisted_def split: option.split)
  show "map_of (lost_workers wg') i \<noteq> None" if "i \<in> set tasks"
    using spec(4)[of i] that unfolding tasks by auto
  show "map_of (lost_workers wg') i = map_of (lost_workers wg) i" if "i \<notin> set tasks"
    using spec(4)[of i] that by simp
qed

definition ex_checked :: "u32 list \<times> worker_manager" where
  "ex_checked = heartbeat_check True 5000 1000 3000 ex_workers"

theorem heartbeat_check_effect_witness:
  "set (fst ex_checked) = {1} \<and> map_of (live_workers (snd ex_checked)) 1 = None \<and>
   map_of (lost_workers (snd ex_checked)) 1 \<noteq> None"
proof -
  have run: "heartbeat_check True 5000 1000 3000 ex_workers = (fst ex_checked, snd ex_checked)" by (simp add: ex_checked_def)
  have t: "set (fst ex_checked) = {1}" by code_simp
  moreover have "map_of (live_workers (snd ex_checked)) 1 = None" by code_simp
  moreover have "(1::u32) \<in> set (fst ex_checked)" using t by simp
  ultimately show ?thesis
    using heartbeat_check_effect[OF ex_workers_ok run, of 1] by blast
qed

text \<open>A decommissioned worker that is late for one heartbeat is a live worker again after the next,
  although the registration is meant to keep the decommission: the checker overwrites the status.\<close>

theorem decommission_lost:
  assumes "manager_ok wg" "map_of (live_workers wg) (wa_worker_id addr) = Some w" "wi_status w = Decommission"
    and "u64_of (wi_last_update w + b) < now" "now \<le> u64_of (wi_last_update w + l)" "st \<noteq> HbEnd"
    and "heartbeat_check True now b l wg = (tasks, wg1)"
    and "heartbeat now' (wg_cluster_id wg1) st addr storages wg1 = (r, wg2)"
  shows "\<exists>w'. map_of (live_workers wg2) (wa_worker_id addr) = Some w' \<and> is_live w'"
proof -
  let ?i = "wa_worker_id addr"
  have ok1: "manager_ok wg1" using heartbeat_check_spec(1)[OF assms(1,7)] .
  have w1: "map_of (live_workers wg1) ?i = Some (w\<lparr>wi_status := Blacklist\<rparr>)"
    using heartbeat_check_spec(3)[OF assms(1,7), of ?i] assms(2,4,5) by (simp add: late_def blacklisted_def)
  obtain info where info: "wi_status info = Live"
      "insert_worker now' addr storages (wg_worker_map wg1) = (Inr (), (wg_worker_map wg1)
         \<lparr>wm_workers := AList.update ?i info (live_workers wg1),
          wm_lost_workers := snd (swap_remove ?i (lost_workers wg1))\<rparr>)"
    using insert_worker_state[OF ok1[unfolded manager_ok_def], of addr now' storages] w1 by auto
  then show ?thesis using assms(6,8) by (auto simp: heartbeat_def Let_def update_conv' is_live_def)
qed

definition ex_dcm :: worker_manager where
  "ex_dcm = ex_workers\<lparr>wg_worker_map := (wg_worker_map ex_workers)
     \<lparr>wm_workers := mark_hosts Decommission [''h''] (live_workers ex_workers)\<rparr>\<rparr>"

lemma ex_dcm_eq: "snd (add_dcm [''h''] ex_workers) = ex_dcm"
  by (simp add: ex_dcm_def add_dcm_def set_hosts_status_def mark_hosts_def Let_def)

theorem decommission_lost_witness:
  "map_option wi_status (map_of (live_workers ex_dcm) 1) = Some Decommission \<and>
   (\<exists>w'. map_of (live_workers (snd (heartbeat 2600 ''c'' HbRunning ex_address []
      (snd (heartbeat_check True 2500 1000 3000 ex_dcm))))) 1 = Some w' \<and> is_live w')"
proof
  show st: "map_option wi_status (map_of (live_workers ex_dcm) 1) = Some Decommission" by code_simp
  have upd: "map_option wi_last_update (map_of (live_workers ex_dcm) 1) = Some 1000" by code_simp
  obtain w where w: "map_of (live_workers ex_dcm) 1 = Some w" "wi_status w = Decommission" "wi_last_update w = 1000"
    using st upd by auto
  have ok: "manager_ok ex_dcm" unfolding ex_dcm_eq[symmetric] add_dcm_def by (rule set_hosts_status_ok[OF ex_workers_ok])
  have cid: "wg_cluster_id (snd (heartbeat_check True 2500 1000 3000 ex_dcm)) = ''c''" by code_simp
  have i: "wa_worker_id ex_address = 1" by (simp add: ex_address_def)
  show "\<exists>w'. map_of (live_workers (snd (heartbeat 2600 ''c'' HbRunning ex_address []
      (snd (heartbeat_check True 2500 1000 3000 ex_dcm))))) 1 = Some w' \<and> is_live w'"
    using decommission_lost[OF ok, of ex_address w 1000 2500 3000 HbRunning
        "fst (heartbeat_check True 2500 1000 3000 ex_dcm)" "snd (heartbeat_check True 2500 1000 3000 ex_dcm)" 2600 "[]"
        "fst (heartbeat 2600 ''c'' HbRunning ex_address [] (snd (heartbeat_check True 2500 1000 3000 ex_dcm)))"
        "snd (heartbeat 2600 ''c'' HbRunning ex_address [] (snd (heartbeat_check True 2500 1000 3000 ex_dcm)))"]
    by (simp add: w i cid u64_of_def)
qed

subsection \<open>Deleting blocks\<close>

text \<open>The specification of the block map: the pairs of a worker and a block it is still to delete.\<close>

fun pending_spec :: "worker_event \<Rightarrow> (u32 \<times> i64) set \<Rightarrow> (u32 \<times> i64) set" where
  "pending_spec (RemoveBlocks res) P =
     P \<union> {(bl_worker_id loc, b) | loc b locs. (b, locs) \<in> set (dr_blocks res) \<and> loc \<in> set locs}"
| "pending_spec (RemoveBlock w b) P = insert (w, b) P"
| "pending_spec (BlockDeleted w b) P = P - {(w, b)}"
| "pending_spec _ P = P"

lemma block_map_kept:
  "wg_block_map (snd (heartbeat now cid st addr storages wg)) = wg_block_map wg"
  "wg_block_map (snd (set_hosts_status hs hosts wg)) = wg_block_map wg"
  "wg_block_map (snd (choose_worker pick ctx wg)) = wg_block_map wg"
  by (auto simp: heartbeat_def set_hosts_status_def choose_worker_def Let_def split: prod.split sum.split)

lemma check_loop_block_map: "wg_block_map (snd (check_loop now b l ws wg)) = wg_block_map wg"
proof (induction now b l ws wg rule: check_loop.induct)
  case (2 now b l i u ws wg)
  have k: "wg_block_map (snd (add_blacklist_worker i wg)) = wg_block_map wg"
      "wg_block_map (snd (remove_expired_worker i wg)) = wg_block_map wg" for i wg
    by (auto simp: add_blacklist_worker_def set_worker_def remove_expired_worker_def Let_def split: option.split prod.split)
  let ?wg1 = "if now > u64_of (u + b) then snd (add_blacklist_worker i wg) else wg"
  let ?wg2 = "if now > u64_of (u + l) then snd (remove_expired_worker i ?wg1) else ?wg1"
  have "snd (check_loop now b l ((i, u) # ws) wg) = snd (check_loop now b l ws ?wg2)"
    by (simp add: Let_def case_prod_beta)
  then show ?case using 2[OF refl refl refl] k by simp
qed simp

lemma run_event_pending:
  "pending (wg_block_map (run_event pick e wg)) = pending_spec e (pending (wg_block_map wg))"
  by (cases e) (simp_all add: block_map_kept add_dcm_def remove_dcm_def heartbeat_check_def check_loop_block_map
      manager_remove_blocks_def manager_remove_block_def manager_deleted_block_def
      pending_remove_blocks pending_remove_block pending_deleted_block)

text \<open>C17: The deletions a worker is told to make are the specified ones: with the next heartbeat of a
  running worker the master sends exactly the blocks of deleted files on that worker whose deletion has not
  been reported, after any sequence of events.\<close>

theorem deletes_refine:
  fixes events :: "worker_event list" and wg0 :: worker_manager
    and pick :: "nat \<Rightarrow> (u32 \<times> worker_info) list \<Rightarrow> (u32 \<times> worker_info) list"
  defines "wg \<equiv> fold (run_event pick) events wg0"
  assumes "manager_ok wg0"
  shows "\<exists>cmds. fst (heartbeat now (wg_cluster_id wg) HbRunning addr storages wg) = Inr cmds \<and>
    commanded (wa_worker_id addr) cmds =
      {p \<in> fold pending_spec events (pending (wg_block_map wg0)). fst p = wa_worker_id addr}"
proof -
  have "pending (wg_block_map (fold (run_event pick) es wg1)) = fold pending_spec es (pending (wg_block_map wg1))" for es wg1
    by (induction es arbitrary: wg1) (simp_all add: run_event_pending)
  moreover have "manager_ok wg" unfolding wg_def using assms(2) by (rule registry.kept_by_fold[rotated]) blast
  ultimately have wg: "pending (wg_block_map wg) = fold pending_spec events (pending (wg_block_map wg0))" "manager_ok wg"
    unfolding wg_def by simp_all
  have "fst (heartbeat now (wg_cluster_id wg) HbRunning addr storages wg) =
      Inr (handle_heartbeat (wa_worker_id addr) (wg_block_map wg))"
    using insert_worker_Inr[of "wg_worker_map wg" now addr storages] wg(2)
    by (auto simp: heartbeat_def manager_ok_def Let_def split: prod.split)
  then show ?thesis by (simp add: commanded_heartbeat wg(1))
qed

theorem deletes_refine_witness:
  "\<exists>cmds. fst (heartbeat 2000 ''c'' HbRunning ex_address []
      (fold (run_event ex_pick) [RemoveBlock 1 7, RemoveBlock 2 8, RemoveBlock 1 9, BlockDeleted 1 7] ex_workers)) = Inr cmds \<and>
    commanded 1 cmds = {(1, 9)}"
proof -
  let ?es = "[RemoveBlock 1 7, RemoveBlock 2 8, RemoveBlock 1 9, BlockDeleted 1 7]"
  have c: "wg_cluster_id (fold (run_event ex_pick) ?es ex_workers) = ''c''" by code_simp
  have p: "pending (wg_block_map ex_workers) = {}"
  proof -
    have "wg_block_map ex_workers = []" by code_simp
    then show ?thesis by (simp add: pending_def entry_or_default_def)
  qed
  have i: "wa_worker_id ex_address = 1" by (simp add: ex_address_def)
  have "{q \<in> fold pending_spec ?es {}. fst q = 1} = {(1, 9)}" by auto
  then show ?thesis
    using deletes_refine[OF ex_workers_ok, of 2000 ex_pick ?es ex_address "[]"] unfolding c p i by simp
qed

end
