(* ===== verification/Mount_Theorems.thy ===== *)
theory Mount_Theorems
  imports Mount_Table Fs_Example
begin

text \<open>
  The properties of paths and mounts: normalisation and the prefix test, the mount table over any
  sequence of mounts and unmounts, the lookup of the mount of a path, the translation of paths between
  the two sides of a mount, and a restart.
\<close>

subsection \<open>Paths\<close>

text \<open>C26: Normalisation is the reference normal form: an absolute path becomes its non-empty pieces with
  one separator before each, and normalising again changes nothing.\<close>

theorem normalize_path_reference:
  assumes "path \<noteq> []" "hd path = PATH_SEPARATOR"
  shows "normalize_path path = PATH_SEPARATOR # join_with PATH_SEPARATOR (pieces path) \<and>
    normalize_path (normalize_path path) = normalize_path path"
proof
  obtain q where "path = PATH_SEPARATOR # q" using assms by (cases path) simp_all
  then show "normalize_path path = PATH_SEPARATOR # join_with PATH_SEPARATOR (pieces path)"
    using normalize_path_abs[of q] by (simp add: abs_path_def)
qed (rule normalize_path_idem)

theorem normalize_path_reference_witness:
  "normalize_path ''//a///b/'' = ''/a/b'' \<and> normalize_path (normalize_path ''//a///b/'') = normalize_path ''//a///b/''"
proof -
  have "PATH_SEPARATOR # join_with PATH_SEPARATOR (pieces ''//a///b/'') = ''/a/b''" by code_simp
  then show ?thesis using normalize_path_reference[of "''//a///b/''"] unfolding PATH_SEPARATOR_def by auto
qed

text \<open>C27: The prefix test compares whole components: an absolute path has another as a prefix exactly when
  the pieces of the one begin with the pieces of the other, so \<^verbatim>\<open>/ab\<close> is not below \<^verbatim>\<open>/a\<close>.\<close>

theorem prefix_test_components:
  assumes "path \<noteq> []" "hd path = PATH_SEPARATOR" "pre \<noteq> []" "hd pre = PATH_SEPARATOR"
  shows "has_prefix path pre \<longleftrightarrow> (\<exists>rest. pieces path = pieces pre @ rest)"
proof -
  have abs: "get_components p = get_components (abs_path (pieces p))" if "p \<noteq> []" "hd p = PATH_SEPARATOR" for p
    using that normalize_path_abs[of "tl p"] by (cases p) (simp_all add: get_components_def)
  have "has_prefix path pre \<longleftrightarrow> has_prefix (abs_path (pieces path)) (abs_path (pieces pre))"
    using abs assms by (simp add: has_prefix_iff)
  then show ?thesis by (simp add: has_prefix_abs prefix_def)
qed

theorem prefix_test_components_witness:
  "has_prefix ''/a/b'' ''/a/'' \<and> \<not> has_prefix ''/ab'' ''/a''"
proof -
  have p: "pieces ''/a/b'' = [''a'', ''b'']" "pieces ''/a/'' = [''a'']" "pieces ''/ab'' = [''ab'']" "pieces ''/a'' = [''a'']"
    by code_simp+
  show ?thesis
    using prefix_test_components[of "''/a/b''" "''/a/''"] prefix_test_components[of "''/ab''" "''/a''"]
    unfolding p by (simp add: PATH_SEPARATOR_def)
qed

subsection \<open>The mount table\<close>

text \<open>Mounts and unmounts of a table, a mount with an id that is not in use (as \<^verbatim>\<open>assign_mount_id\<close> draws it).\<close>

inductive mount_steps :: "('db, 'b) meta_env \<Rightarrow> 'db mount_manager \<Rightarrow> 'db mount_manager \<Rightarrow> bool" for E s0 where
  same: "mount_steps E s0 s0"
| add: "mount_steps E s0 s \<Longrightarrow> \<not> has_mounted (mm_table s) i \<Longrightarrow>
    table_add_mount E i cv_path ufs_path opts s = (Inr (), s') \<Longrightarrow> mount_steps E s0 s'"
| remove: "mount_steps E s0 s \<Longrightarrow> umount E mount_path s = (Inr (), s') \<Longrightarrow> mount_steps E s0 s'"

lemma mount_steps_ok:
  assumes "mount_steps E s0 s" "env_ok E" "mounts_ok (mm_table s0)" "mounts_stored E (manager_db s0) (mm_table s0)"
  shows "mounts_ok (mm_table s) \<and> mounts_stored E (manager_db s) (mm_table s)"
  using assms
proof (induction rule: mount_steps.induct)
  case (add s i cv_path ufs_path opts s')
  then show ?case using table_add_mount_ok[of E s i cv_path ufs_path opts s'] by blast
next
  case (remove s mount_path s')
  then have "mounts_ok (mm_table s)" "mounts_stored E (manager_db s) (mm_table s)" by blast+
  from umount_ok[OF remove.prems(1) this remove.hyps(2)] show ?case by blast
qed simp

text \<open>C22: After any sequence of mounts and unmounts, the three maps of the table describe the same mounts
  (the id of a mount is under its path on both sides), and no mount point is inside another.\<close>

theorem mount_table_consistent:
  assumes "env_ok E" "mm_table s0 = mount_table_new" "mounts_stored E (manager_db s0) mount_table_new"
    and "mount_steps E s0 s"
  shows "(map_of (mt_mountpath2id (mm_table s)) p = Some i \<longleftrightarrow>
       (\<exists>m. mount_of (mm_table s) i = Some m \<and> mi_mount_id m = i \<and> mi_cv_path m = p)) \<and>
    (map_of (mt_ufs2mountid (mm_table s)) p = Some i \<longleftrightarrow>
       (\<exists>m. mount_of (mm_table s) i = Some m \<and> mi_mount_id m = i \<and> mi_ufs_path m = p)) \<and>
    (\<forall>j m n. mount_of (mm_table s) i = Some m \<longrightarrow> mount_of (mm_table s) j = Some n \<longrightarrow> i \<noteq> j \<longrightarrow>
       \<not> has_prefix (mi_cv_path m) (mi_cv_path n))"
proof -
  have "mounts_ok (mm_table s)" using mount_steps_ok[OF assms(4,1)] assms(2,3) mounts_ok_new by simp
  note D = mounts_okD[OF this]
  show ?thesis using D(4) D(5)[of p i] D(6)[of p i] D(7) by blast
qed

definition ex_mount_opts :: mount_options where
  "ex_mount_opts = \<lparr>mto_update = False, mto_add_properties = [(''k'', ''v'')], mto_ttl_ms = None, mto_ttl_action = None,
     mto_consistency_strategy = None, mto_storage_type = None, mto_block_size = None, mto_replicas = None,
     mto_mount_type = Cst, mto_remove_properties = []\<rparr>"

definition ex_mm :: "blob mem_db mount_manager" where
  "ex_mm = mount_manager_new ex_master"

definition ex_m1 :: "blob mem_db mount_manager" where
  "ex_m1 = snd (table_add_mount ex_env 7 ''/mnt'' ''s3://bkt/data'' ex_mount_opts ex_mm)"

lemma ex_mm_new: "mm_table ex_mm = mount_table_new" "mounts_stored ex_env (manager_db ex_mm) mount_table_new"
  by (simp_all add: ex_mm_def mount_manager_new_def mounts_stored_def ex_master_def ex_fs_def ex_env_def mem_rocks_def
      mem_view_def mount_table_new_def)

lemma ex_m1_run: "table_add_mount ex_env 7 ''/mnt'' ''s3://bkt/data'' ex_mount_opts ex_mm = (Inr (), ex_m1)"
proof -
  have "fst (table_add_mount ex_env 7 ''/mnt'' ''s3://bkt/data'' ex_mount_opts ex_mm) = Inr ()" by code_simp
  then show ?thesis unfolding ex_m1_def by (metis prod.collapse)
qed

lemma ex_m1_steps: "mount_steps ex_env ex_mm ex_m1"
  by (rule mount_steps.add[OF mount_steps.same _ ex_m1_run]) (simp add: ex_mm_new has_mounted_def mount_table_new_def)

lemma ex_m1_entry: "mount_of (mm_table ex_m1) = [7 \<mapsto> to_info ex_mount_opts 7 ''/mnt'' ''s3://bkt/data'']"
  using table_add_mount_ok(3)[OF ex_env_ok _ _ _ ex_m1_run] ex_mm_new mounts_ok_new
  by (simp add: has_mounted_def mount_table_new_def)

theorem mount_table_consistent_witness:
  "map_of (mt_mountpath2id (mm_table ex_m1)) ''/mnt'' = Some 7 \<and>
   map_of (mt_ufs2mountid (mm_table ex_m1)) ''s3://bkt/data'' = Some 7"
  using mount_table_consistent[OF ex_env_ok ex_mm_new ex_m1_steps, of "''/mnt''" 7]
    mount_table_consistent[OF ex_env_ok ex_mm_new ex_m1_steps, of "''s3://bkt/data''" 7]
  by (simp add: ex_m1_entry to_info_def)

text \<open>C23: A restart reads the mount table back: after any sequence of mounts and unmounts, restoring an empty
  table from the database gives the table there was.\<close>

theorem mount_restart:
  assumes "env_ok E" "mm_table s0 = mount_table_new" "mounts_stored E (manager_db s0) mount_table_new"
    and "mount_steps E s0 s" "rocks_get_mount_table E (manager_db s) = Inr ms"
  shows "mount_restore E (s\<lparr>mm_table := mount_table_new\<rparr>) = (Inr (), s)"
proof -
  have "mounts_ok (mm_table s)" "mounts_stored E (manager_db s) (mm_table s)"
    using mount_steps_ok[OF assms(4,1)] assms(2,3) mounts_ok_new by simp_all
  then have "restore_loop ms mount_table_new = (Inr (), mm_table s)" by (rule restore_table[OF assms(1) _ _ assms(5)])
  then show ?thesis using assms(5) by (simp add: mount_restore_def on_table_def)
qed

theorem mount_restart_witness:
  "mount_restore ex_env (ex_m1\<lparr>mm_table := mount_table_new\<rparr>) = (Inr (), ex_m1) \<and> has_mounted (mm_table ex_m1) 7"
proof
  have "(case rocks_get_mount_table ex_env (manager_db ex_m1) of Inl _ \<Rightarrow> False | Inr _ \<Rightarrow> True)" by code_simp
  then obtain ms where "rocks_get_mount_table ex_env (manager_db ex_m1) = Inr ms" by (auto split: sum.splits)
  then show "mount_restore ex_env (ex_m1\<lparr>mm_table := mount_table_new\<rparr>) = (Inr (), ex_m1)"
    by (rule mount_restart[OF ex_env_ok ex_mm_new ex_m1_steps])
  show "has_mounted (mm_table ex_m1) 7" by (simp add: has_mounted_def ex_m1_entry)
qed



text \<open>C25: The two translations of a mount are inverse to each other: a path below the mount point and
  the path at the same place below the directory of the under file system are translated into one
  another.\<close>

theorem toggle_path_roundtrip:
  assumes "uri_ok U okS okA okC" "okS sch" "sch \<noteq> ''cv''" "okA auth"
    and "proper ms" "proper us" "proper rest"
    and "list_all okC (abs_path ms)" "list_all okC (abs_path us)" "list_all okC (abs_path rest)"
    and "mi_cv_path info = abs_path ms" "mi_ufs_path info = sch @ ''://'' @ auth @ abs_path us"
  shows "toggle_path U info (cv_side (ms @ rest)) = Inr (ufs_side sch auth (us @ rest)) \<and>
    bind_res (toggle_path U info (cv_side (ms @ rest))) (toggle_path U info) = Inr (cv_side (ms @ rest)) \<and>
    bind_res (toggle_path U info (ufs_side sch auth (us @ rest))) (toggle_path U info) = Inr (ufs_side sch auth (us @ rest))"
  using toggle_sides[OF assms] by simp

text \<open>A URI library for texts of a path, or of a scheme, an authority and a path.\<close>

definition ex_uri :: uri_env where
  "ex_uri =
     \<lparr>ue_parse = (\<lambda>s.
        if lead s \<noteq> [] then Inr \<lparr>uri_scheme = None, uri_authority = None, uri_path = s\<rparr>
        else let rest = drop 3 (dropWhile (\<lambda>c. c \<noteq> CHR '':'') s)
             in Inr \<lparr>uri_scheme = Some (takeWhile (\<lambda>c. c \<noteq> CHR '':'') s),
                     uri_authority = Some (takeWhile (\<lambda>c. c \<noteq> PATH_SEPARATOR) rest),
                     uri_path = dropWhile (\<lambda>c. c \<noteq> PATH_SEPARATOR) rest\<rparr>),
      ue_build = (\<lambda>s a p. Inr \<lparr>uri_scheme = s, uri_authority = a, uri_path = p\<rparr>),
      ue_show = (\<lambda>u. (case uri_scheme u of None \<Rightarrow> [] | Some s \<Rightarrow> s @ ''://'') @
        (case uri_authority u of None \<Rightarrow> [] | Some a \<Rightarrow> a) @ uri_path u)\<rparr>"

definition ex_scheme :: "string \<Rightarrow> bool" where
  "ex_scheme s \<longleftrightarrow> s \<noteq> [] \<and> CHR '':'' \<notin> set s \<and> PATH_SEPARATOR \<notin> set s"

definition ex_auth :: "string \<Rightarrow> bool" where
  "ex_auth a \<longleftrightarrow> PATH_SEPARATOR \<notin> set a"

lemma ex_uri_ok: "uri_ok ex_uri ex_scheme ex_auth (\<lambda>_. True)"
proof -
  have p: "\<exists>q. p = PATH_SEPARATOR # q" if "lead p \<noteq> []" for p
    using that by (auto simp: lead_def split: list.splits if_splits)
  have "lead (s @ ''://'' @ a @ p) = []" if "ex_scheme s" for s a p
    using that by (cases s) (auto simp: ex_scheme_def lead_def)
  moreover have "takeWhile (\<lambda>c. c \<noteq> CHR '':'') (s @ ''://'' @ r) = s" "dropWhile (\<lambda>c. c \<noteq> CHR '':'') (s @ ''://'' @ r) = ''://'' @ r"
    if "ex_scheme s" for s r
    using that by (auto simp: ex_scheme_def takeWhile_append dropWhile_append)
  moreover have "takeWhile (\<lambda>c. c \<noteq> PATH_SEPARATOR) (a @ p) = a" "dropWhile (\<lambda>c. c \<noteq> PATH_SEPARATOR) (a @ p) = p"
    if "ex_auth a" "lead p \<noteq> []" for a p
    using that p[OF that(2)] by (auto simp: ex_auth_def takeWhile_append dropWhile_append)
  ultimately show ?thesis by (simp add: uri_ok_def ex_uri_def Let_def)
qed

theorem toggle_path_roundtrip_witness:
  "toggle_path ex_uri (to_info ex_mount_opts 7 ''/mnt'' ''s3://bkt/data'') (cv_side [''mnt'', ''x'']) =
     Inr (ufs_side ''s3'' ''bkt'' [''data'', ''x'']) \<and>
   toggle_path ex_uri (to_info ex_mount_opts 7 ''/mnt'' ''s3://bkt/data'') (ufs_side ''s3'' ''bkt'' [''data'', ''x'']) =
     Inr (cv_side [''mnt'', ''x''])"
proof -
  let ?m = "to_info ex_mount_opts 7 ''/mnt'' ''s3://bkt/data''"
  have ok: "ex_scheme ''s3''" "''s3'' \<noteq> ''cv''" "ex_auth ''bkt''" "proper [''mnt'']" "proper [''data'']" "proper [''x'']"
    by (simp_all add: ex_scheme_def ex_auth_def proper_def PATH_SEPARATOR_def)
  have c: "list_all (\<lambda>_. True) p" for p :: string by (simp add: list_all_iff)
  have m: "mi_cv_path ?m = abs_path [''mnt'']" "mi_ufs_path ?m = ''s3'' @ ''://'' @ ''bkt'' @ abs_path [''data'']"
    by (simp_all add: to_info_def abs_path_def PATH_SEPARATOR_def)
  note t = toggle_path_roundtrip[OF ex_uri_ok ok c c c m, unfolded append.simps]
  then show ?thesis by auto
qed

text \<open>Updating a mount is refused although the mount point is mounted: the check looks the mount point up
  among the paths of the under file systems. The table is unchanged.\<close>

theorem update_mount_refused:
  assumes "mounts_ok (mm_table s)" "mount_of (mm_table s) i = Some m" "mi_cv_path m = cv_path" "mto_update opts"
    and "\<And>j n. mount_of (mm_table s) j = Some n \<Longrightarrow> mi_ufs_path n \<noteq> cv_path"
  shows "mount_point_inuse (mm_table s) cv_path \<and> (\<exists>e. mount E rng mnt_id cv_path ufs_path opts s = (Inl e, s))"
proof
  show "mount_point_inuse (mm_table s) cv_path"
    using mounts_okD(5)[OF assms(1), of cv_path i] assms(2,3) by (auto simp: mount_point_inuse_def)
  have "\<not> mount_exists (mm_table s) cv_path"
    using mounts_okD(6)[OF assms(1), of cv_path] assms(5) by (auto simp: mount_exists_def)
  then show "\<exists>e. mount E rng mnt_id cv_path ufs_path opts s = (Inl e, s)"
    using assms(4) by (simp add: mount_def update_mount_def fail_def)
qed

theorem update_mount_refused_witness:
  "mount_point_inuse (mm_table ex_m1) ''/mnt'' \<and>
   (\<exists>e. mount ex_env (\<lambda>_. 0) None ''/mnt'' ''s3://bkt/data'' (ex_mount_opts\<lparr>mto_update := True\<rparr>) ex_m1 = (Inl e, ex_m1))"
proof (rule update_mount_refused)
  show "mounts_ok (mm_table ex_m1)" using mount_steps_ok[OF ex_m1_steps ex_env_ok] ex_mm_new mounts_ok_new by simp
  show "mount_of (mm_table ex_m1) 7 = Some (to_info ex_mount_opts 7 ''/mnt'' ''s3://bkt/data'')" by (simp add: ex_m1_entry)
qed (auto simp: ex_m1_entry to_info_def split: if_splits)

end
