(* ===== verification/Master_Handler.thy ===== *)
theory Master_Handler
  imports Mount_Table Fs_Spec
begin

text \<open>
  \<^verbatim>\<open>MasterHandler\<close> (\<^verbatim>\<open>master/master_handler.rs\<close>): the requests a client or a worker sends to the master, with
  the cache of request ids (\<^verbatim>\<open>master/fs/fs_retry_cache.rs\<close>) that recognises a request sent again. A
  message carries its request id and the result of decoding its header; the handlers read the decoded
  header where the code calls \<^verbatim>\<open>parse_header\<close>. The cache is the \<^verbatim>\<open>mini_moka\<close> crate, a parameter. Audit
  log and timing metrics are left out, and so are the codes passed on to the load jobs, the replication
  service and the metrics registry.
\<close>

subsection \<open>The retry cache\<close>

datatype operation_status = OpInit | OpSuccess | OpFailed

record 'c retry_lib =
  rc_get :: "'c \<Rightarrow> i64 \<Rightarrow> operation_status option"
  rc_insert :: "'c \<Rightarrow> i64 \<Rightarrow> operation_status \<Rightarrow> 'c"

text \<open>What the cache promises for the entries it keeps: an inserted status is found under its id and
  the other entries are as before. It holds while neither the capacity nor the time to live of the
  cache is exceeded.\<close>

definition retry_ok :: "'c retry_lib \<Rightarrow> bool" where
  "retry_ok L \<longleftrightarrow>
     (\<forall>c i st j. rc_get L (rc_insert L c i st) j = (if j = i then Some st else rc_get L c j))"

definition cache_check_is_retry :: "'c retry_lib \<Rightarrow> i64 \<Rightarrow> ('c, bool) op" where
  "cache_check_is_retry L req_id c =
     (case rc_get L c req_id of
        None \<Rightarrow> (Inr False, rc_insert L c req_id OpInit)
      | Some OpInit \<Rightarrow> (Inl (InProgress ''Request in progress''), c)
      | Some OpSuccess \<Rightarrow> (Inr True, c)
      | Some OpFailed \<Rightarrow> (Inr False, c))"

definition set_status :: "'c retry_lib \<Rightarrow> i64 \<Rightarrow> bool \<Rightarrow> 'c \<Rightarrow> 'c" where
  "set_status L req_id success c = rc_insert L c req_id (if success then OpSuccess else OpFailed)"

subsection \<open>The handler\<close>

datatype role_state = RoleInit | RoleLeader | RoleFollower | RoleExit

record ('db, 'c) master_handler =
  mh_mounts :: "'db mount_manager"
  mh_retry_cache :: "'c option"
  mh_journal_state :: role_state

text \<open>What the handlers use of the world: the stored metadata, the URI library, the choice of workers, the
  random mount ids, the clock, the cache and the addresses in the configuration.\<close>

record ('db, 'b, 'c) rpc_env =
  re_meta :: "('db, 'b) meta_env"
  re_uri :: uri_env
  re_pick :: "nat \<Rightarrow> (u32 \<times> worker_info) list \<Rightarrow> (u32 \<times> worker_info) list"
  re_rng :: "nat \<Rightarrow> u32"
  re_now :: int
  re_retry :: "'c retry_lib"
  re_master_addr :: string
  re_journal_addrs :: "string list"

definition is_active :: "('db, 'c) master_handler \<Rightarrow> bool" where
  "is_active h \<longleftrightarrow> mh_journal_state h = RoleLeader"

definition on_mounts :: "('db mount_manager, 'a) op \<Rightarrow> (('db, 'c) master_handler, 'a) op" where
  "on_mounts m h = (let (r, mm) = m (mh_mounts h) in (r, h\<lparr>mh_mounts := mm\<rparr>))"

abbreviation on_master :: "('db master_fs, 'a) op \<Rightarrow> (('db, 'c) master_handler, 'a) op" where
  "on_master m \<equiv> on_mounts (on_fs m)"

text \<open>A call whose result is kept, not returned on error.\<close>

definition attempt :: "('s, 'a) op \<Rightarrow> ('s, 'a res) op" where
  "attempt m s = (let (r, s') = m s in (Inr r, s'))"

definition get_req_cache :: "'c retry_lib \<Rightarrow> i64 \<Rightarrow> ('db, 'c) master_handler \<Rightarrow> operation_status option" where
  "get_req_cache L req_id h =
     (case mh_retry_cache h of Some c \<Rightarrow> rc_get L c req_id | None \<Rightarrow> None)"

definition set_req_cache :: "'c retry_lib \<Rightarrow> i64 \<Rightarrow> 'a res \<Rightarrow> (('db, 'c) master_handler, 'a) op" where
  "set_req_cache L req_id r h =
     (r, case mh_retry_cache h of
           Some c \<Rightarrow> h\<lparr>mh_retry_cache := Some (set_status L req_id (\<not> isl r) c)\<rparr>
         | None \<Rightarrow> h)"

definition check_is_retry :: "'c retry_lib \<Rightarrow> i64 \<Rightarrow> (('db, 'c) master_handler, bool) op" where
  "check_is_retry L req_id h =
     (case mh_retry_cache h of
        Some c \<Rightarrow> (let (r, c') = cache_check_is_retry L req_id c in (r, h\<lparr>mh_retry_cache := Some c'\<rparr>))
      | None \<Rightarrow> (Inr False, h))"

subsection \<open>Requests and replies\<close>

text \<open>The decoded header of each request, or the error of decoding it.\<close>

datatype rpc_request =
    MkdirReq "(string \<times> mkdir_opts) res"
  | CreateFileReq "(string \<times> create_file_opts) res"
  | AppendFileReq "(string \<times> create_file_opts) res"
  | FileStatusReq "string res"
  | AddBlockReq "(string \<times> client_address \<times> commit_blk option) res"
  | CompleteFileReq "(string \<times> i64 \<times> commit_blk option \<times> string) res"
  | ExistsReq "string res"
  | DeleteReq "(string \<times> bool) res"
  | RenameReq "(string \<times> string) res"
  | ListStatusReq "string res"
  | GetBlockLocationsReq "string res"
  | SetAttrReq "(string \<times> set_attr_opts) res"
  | SymlinkReq "(string \<times> string \<times> bool \<times> u32) res"
  | LinkReq "(string \<times> string) res"
  | MountReq "(string \<times> string \<times> mount_options) res"
  | UnMountReq "string res"
  | GetMountTableReq "unit res"
  | GetMountInfoReq "string res"
  | WorkerHeartbeatReq "(string \<times> heartbeat_status \<times> worker_address \<times> storage_info list) res"
  | WorkerBlockReportReq "(u32 \<times> block_report_info list) res"
  | GetMasterInfoReq "unit res"
  | UnsupportedReq

record master_info =
  ma_active_master :: string
  ma_journal_nodes :: "string list"
  ma_inode_dir_num :: i64
  ma_inode_file_num :: i64
  ma_block_num :: i64
  ma_capacity :: i64
  ma_available :: i64
  ma_fs_used :: i64
  ma_non_fs_used :: i64
  ma_reserved_bytes :: i64
  ma_live_workers :: "worker_info list"
  ma_blacklist_workers :: "worker_info list"
  ma_decommission_workers :: "worker_info list"
  ma_lost_workers :: "worker_info list"

datatype rpc_response =
    FlagRep bool
  | StatusRep file_status
  | AppendRep file_status "located_block option"
  | BlockRep located_block
  | StatusesRep "file_status list"
  | BlocksRep file_blocks
  | MountTableRep "mount_info list"
  | MountInfoRep "mount_info option"
  | CmdsRep "worker_command list"
  | MasterInfoRep master_info
  | EmptyRep

datatype rpc_reply = OkReply rpc_response | ErrReply fs_error

subsection \<open>Handlers of the file-system requests\<close>

type_synonym ('db, 'c) handler_op = "(('db, 'c) master_handler, rpc_response) op"

definition mkdir_handler :: "('db, 'b, 'c) rpc_env \<Rightarrow> (string \<times> mkdir_opts) res \<Rightarrow> ('db, 'c) handler_op" where
  "mkdir_handler R parsed =
     bind_op (lift_res parsed) (\<lambda>(path, opts).
     bind_op (on_master (mkdir_with_opts (re_meta R) opts path)) (\<lambda>flag. return (FlagRep flag)))"

definition create_file0 ::
  "('db, 'b, 'c) rpc_env \<Rightarrow> i64 \<Rightarrow> string \<Rightarrow> create_file_opts \<Rightarrow> (('db, 'c) master_handler, file_status) op" where
  "create_file0 R req_id path opts =
     bind_op (check_is_retry (re_retry R) req_id) (\<lambda>retry.
     if retry then on_master (master_file_status (re_meta R) path)
     else bind_op (attempt (on_master (create_with_opts (re_meta R) opts path)))
            (set_req_cache (re_retry R) req_id))"

definition retry_check_create_file ::
  "('db, 'b, 'c) rpc_env \<Rightarrow> i64 \<Rightarrow> (string \<times> create_file_opts) res \<Rightarrow> ('db, 'c) handler_op" where
  "retry_check_create_file R req_id parsed =
     bind_op (lift_res parsed) (\<lambda>(path, opts).
     bind_op (create_file0 R req_id path opts) (\<lambda>status. return (StatusRep status)))"

definition file_status_handler :: "('db, 'b, 'c) rpc_env \<Rightarrow> string res \<Rightarrow> ('db, 'c) handler_op" where
  "file_status_handler R parsed =
     bind_op (lift_res parsed) (\<lambda>path.
     bind_op (on_master (master_file_status (re_meta R) path)) (\<lambda>status. return (StatusRep status)))"

definition exists_handler :: "('db, 'b, 'c) rpc_env \<Rightarrow> string res \<Rightarrow> ('db, 'c) handler_op" where
  "exists_handler R parsed =
     bind_op (lift_res parsed) (\<lambda>path.
     bind_op (on_master (master_exists (re_meta R) path)) (\<lambda>found. return (FlagRep found)))"

definition delete0 :: "('db, 'b, 'c) rpc_env \<Rightarrow> i64 \<Rightarrow> string \<Rightarrow> bool \<Rightarrow> (('db, 'c) master_handler, bool) op" where
  "delete0 R req_id path recursive =
     bind_op (check_is_retry (re_retry R) req_id) (\<lambda>retry.
     if retry then return True
     else bind_op (attempt (on_master (master_delete (re_meta R) path recursive)))
            (set_req_cache (re_retry R) req_id))"

definition retry_check_delete ::
  "('db, 'b, 'c) rpc_env \<Rightarrow> i64 \<Rightarrow> (string \<times> bool) res \<Rightarrow> ('db, 'c) handler_op" where
  "retry_check_delete R req_id parsed =
     bind_op (lift_res parsed) (\<lambda>(path, recursive).
     bind_op (delete0 R req_id path recursive) (\<lambda>_. return EmptyRep))"

definition rename0 :: "('db, 'b, 'c) rpc_env \<Rightarrow> i64 \<Rightarrow> string \<Rightarrow> string \<Rightarrow> (('db, 'c) master_handler, bool) op" where
  "rename0 R req_id src dst =
     bind_op (check_is_retry (re_retry R) req_id) (\<lambda>retry.
     if retry then return True
     else bind_op (attempt (on_master (master_rename (re_meta R) src dst)))
            (set_req_cache (re_retry R) req_id))"

definition retry_check_rename ::
  "('db, 'b, 'c) rpc_env \<Rightarrow> i64 \<Rightarrow> (string \<times> string) res \<Rightarrow> ('db, 'c) handler_op" where
  "retry_check_rename R req_id parsed =
     bind_op (lift_res parsed) (\<lambda>(src, dst).
     bind_op (rename0 R req_id src dst) (\<lambda>result. return (FlagRep result)))"

definition list_status_handler :: "('db, 'b, 'c) rpc_env \<Rightarrow> string res \<Rightarrow> ('db, 'c) handler_op" where
  "list_status_handler R parsed =
     bind_op (lift_res parsed) (\<lambda>path.
     bind_op (on_master (master_list_status (re_meta R) path)) (\<lambda>sts. return (StatusesRep sts)))"

definition add_block_handler ::
  "('db, 'b, 'c) rpc_env \<Rightarrow> (string \<times> client_address \<times> commit_blk option) res \<Rightarrow> ('db, 'c) handler_op" where
  "add_block_handler R parsed =
     bind_op (lift_res parsed) (\<lambda>(path, client_addr, previous).
     bind_op (on_master (master_add_block (re_meta R) (re_pick R) path client_addr previous []))
       (\<lambda>located_block. return (BlockRep located_block)))"

definition complete_file_handler ::
  "('db, 'b, 'c) rpc_env \<Rightarrow> (string \<times> i64 \<times> commit_blk option \<times> string) res \<Rightarrow> ('db, 'c) handler_op" where
  "complete_file_handler R parsed =
     bind_op (lift_res parsed) (\<lambda>(path, len, lst, client_name).
     bind_op (on_master (master_complete_file (re_meta R) path len lst client_name)) (\<lambda>_. return EmptyRep))"

text \<open>An error of the append leaves through the question mark, before the status is recorded.\<close>

definition retry_check_append_file ::
  "('db, 'b, 'c) rpc_env \<Rightarrow> i64 \<Rightarrow> (string \<times> create_file_opts) res \<Rightarrow> ('db, 'c) handler_op" where
  "retry_check_append_file R req_id parsed =
     bind_op (lift_res parsed) (\<lambda>(path, opts).
     bind_op (check_is_retry (re_retry R) req_id) (\<lambda>retry.
     if retry then fail ''append repeat request''
     else bind_op (on_master (master_append_file (re_meta R) opts path)) (\<lambda>(last_block, status).
          set_req_cache (re_retry R) req_id (Inr (AppendRep status last_block)))))"

definition get_block_locations_handler :: "('db, 'b, 'c) rpc_env \<Rightarrow> string res \<Rightarrow> ('db, 'c) handler_op" where
  "get_block_locations_handler R parsed =
     bind_op (lift_res parsed) (\<lambda>path.
     bind_op (on_master (master_get_block_locations (re_meta R) path)) (\<lambda>blocks. return (BlocksRep blocks)))"

definition set_attr_retry_check ::
  "('db, 'b, 'c) rpc_env \<Rightarrow> i64 \<Rightarrow> (string \<times> set_attr_opts) res \<Rightarrow> ('db, 'c) handler_op" where
  "set_attr_retry_check R req_id parsed =
     bind_op (check_is_retry (re_retry R) req_id) (\<lambda>retry.
     if retry then return EmptyRep
     else bind_op (lift_res parsed) (\<lambda>(path, opts).
          bind_op (on_master (master_set_attr (re_meta R) opts path)) (\<lambda>_. return EmptyRep)))"

definition symlink_retry_check ::
  "('db, 'b, 'c) rpc_env \<Rightarrow> i64 \<Rightarrow> (string \<times> string \<times> bool \<times> u32) res \<Rightarrow> ('db, 'c) handler_op" where
  "symlink_retry_check R req_id parsed =
     bind_op (lift_res parsed) (\<lambda>(target, lnk, force, mode).
     bind_op (check_is_retry (re_retry R) req_id) (\<lambda>retry.
     if retry then return EmptyRep
     else bind_op (on_master (master_symlink (re_meta R) target lnk force mode)) (\<lambda>_. return EmptyRep)))"

definition link_retry_check ::
  "('db, 'b, 'c) rpc_env \<Rightarrow> i64 \<Rightarrow> (string \<times> string) res \<Rightarrow> ('db, 'c) handler_op" where
  "link_retry_check R req_id parsed =
     bind_op (lift_res parsed) (\<lambda>(src_path, dst_path).
     bind_op (check_is_retry (re_retry R) req_id) (\<lambda>retry.
     if retry then return EmptyRep
     else bind_op (on_master (master_link (re_meta R) src_path dst_path)) (\<lambda>_. return EmptyRep)))"

subsection \<open>Handlers of mounts and workers\<close>

definition mount_handler ::
  "('db, 'b, 'c) rpc_env \<Rightarrow> (string \<times> string \<times> mount_options) res \<Rightarrow> ('db, 'c) handler_op" where
  "mount_handler R parsed =
     bind_op (lift_res parsed) (\<lambda>(cv_path, ufs_path, mnt_opt).
     bind_op (on_mounts (mount (re_meta R) (re_rng R) None cv_path ufs_path mnt_opt)) (\<lambda>_. return EmptyRep))"

definition umount_handler :: "('db, 'b, 'c) rpc_env \<Rightarrow> string res \<Rightarrow> ('db, 'c) handler_op" where
  "umount_handler R parsed =
     bind_op (lift_res parsed) (\<lambda>cv_path.
     bind_op (on_mounts (umount (re_meta R) cv_path)) (\<lambda>_. return EmptyRep))"

definition get_mount_info_handler :: "('db, 'b, 'c) rpc_env \<Rightarrow> string res \<Rightarrow> ('db, 'c) handler_op" where
  "get_mount_info_handler R parsed =
     bind_op (lift_res parsed) (\<lambda>s.
     bind_op (lift_res (path_from_str (re_uri R) s)) (\<lambda>path h.
       (map_sum id MountInfoRep (table_get_mount_info (mm_table (mh_mounts h)) path), h)))"

definition get_mount_table_handler :: "unit res \<Rightarrow> ('db, 'c) handler_op" where
  "get_mount_table_handler parsed =
     bind_op (lift_res parsed) (\<lambda>_ h. (Inr (MountTableRep (get_mount_table (mm_table (mh_mounts h)))), h))"

definition worker_heartbeat :: "('db, 'b, 'c) rpc_env \<Rightarrow>
    (string \<times> heartbeat_status \<times> worker_address \<times> storage_info list) res \<Rightarrow> ('db, 'c) handler_op" where
  "worker_heartbeat R parsed =
     bind_op (lift_res parsed) (\<lambda>(cluster_id, status, addr, storages).
     bind_op (on_master (\<lambda>s. let (r, wg) = heartbeat (re_now R) cluster_id status addr storages (mf_workers s)
                             in (r, s\<lparr>mf_workers := wg\<rparr>))) (\<lambda>cmds. return (CmdsRep cmds)))"

definition block_report_handler ::
  "('db, 'b, 'c) rpc_env \<Rightarrow> (u32 \<times> block_report_info list) res \<Rightarrow> ('db, 'c) handler_op" where
  "block_report_handler R parsed =
     bind_op (lift_res parsed) (\<lambda>(worker_id, blocks).
     bind_op (on_master (master_block_report (re_meta R) worker_id blocks)) (\<lambda>_. return EmptyRep))"

text \<open>The sums over the registered workers are those of \<^verbatim>\<open>i64\<close>.\<close>

definition sum_workers :: "(worker_info \<Rightarrow> i64) \<Rightarrow> workers \<Rightarrow> i64" where
  "sum_workers f ws = foldl (\<lambda>n (_, w). i64_of (n + f w)) 0 ws"

definition fs_master_info :: "('db, 'b, 'c) rpc_env \<Rightarrow> 'db master_fs \<Rightarrow> master_info" where
  "fs_master_info R s =
     (let ws = live_workers (mf_workers s);
          with_status = (\<lambda>st. filter (\<lambda>w. wi_status w = st) (map snd ws))
      in \<lparr>ma_active_master = re_master_addr R, ma_journal_nodes = re_journal_addrs R,
          ma_inode_dir_num = st_dir_num (fd_store (mf_dir s)),
          ma_inode_file_num = st_file_num (fd_store (mf_dir s)),
          ma_block_num = sum_workers wi_block_num ws, ma_capacity = sum_workers wi_capacity ws,
          ma_available = sum_workers wi_available ws, ma_fs_used = sum_workers wi_fs_used ws,
          ma_non_fs_used = sum_workers wi_non_fs_used ws,
          ma_reserved_bytes = sum_workers wi_reserved_bytes ws,
          ma_live_workers = with_status Live, ma_blacklist_workers = with_status Blacklist,
          ma_decommission_workers = with_status Decommission,
          ma_lost_workers = map snd (lost_workers (mf_workers s))\<rparr>)"

definition get_master_info :: "('db, 'b, 'c) rpc_env \<Rightarrow> unit res \<Rightarrow> ('db, 'c) handler_op" where
  "get_master_info R parsed =
     bind_op (lift_res parsed) (\<lambda>_ h. (Inr (MasterInfoRep (fs_master_info R (mm_fs (mh_mounts h)))), h))"

subsection \<open>Dispatch\<close>

fun dispatch :: "('db, 'b, 'c) rpc_env \<Rightarrow> i64 \<Rightarrow> rpc_request \<Rightarrow> ('db, 'c) handler_op" where
  "dispatch R req_id (MkdirReq p) = mkdir_handler R p"
| "dispatch R req_id (CreateFileReq p) = retry_check_create_file R req_id p"
| "dispatch R req_id (AppendFileReq p) = retry_check_append_file R req_id p"
| "dispatch R req_id (FileStatusReq p) = file_status_handler R p"
| "dispatch R req_id (AddBlockReq p) = add_block_handler R p"
| "dispatch R req_id (CompleteFileReq p) = complete_file_handler R p"
| "dispatch R req_id (ExistsReq p) = exists_handler R p"
| "dispatch R req_id (DeleteReq p) = retry_check_delete R req_id p"
| "dispatch R req_id (RenameReq p) = retry_check_rename R req_id p"
| "dispatch R req_id (ListStatusReq p) = list_status_handler R p"
| "dispatch R req_id (GetBlockLocationsReq p) = get_block_locations_handler R p"
| "dispatch R req_id (SetAttrReq p) = set_attr_retry_check R req_id p"
| "dispatch R req_id (SymlinkReq p) = symlink_retry_check R req_id p"
| "dispatch R req_id (LinkReq p) = link_retry_check R req_id p"
| "dispatch R req_id (MountReq p) = mount_handler R p"
| "dispatch R req_id (UnMountReq p) = umount_handler R p"
| "dispatch R req_id (GetMountTableReq p) = get_mount_table_handler p"
| "dispatch R req_id (GetMountInfoReq p) = get_mount_info_handler R p"
| "dispatch R req_id (WorkerHeartbeatReq p) = worker_heartbeat R p"
| "dispatch R req_id (WorkerBlockReportReq p) = block_report_handler R p"
| "dispatch R req_id (GetMasterInfoReq p) = get_master_info R p"
| "dispatch R req_id UnsupportedReq = fail ''Unsupported operation''"

definition handle :: "('db, 'b, 'c) rpc_env \<Rightarrow> i64 \<Rightarrow> rpc_request \<Rightarrow> (('db, 'c) master_handler, rpc_reply) op" where
  "handle R req_id req h =
     (if \<not> is_active h then (Inl (NotLeaderMaster ''Not a leader master''), h)
      else let (r, h') = dispatch R req_id req h
           in (Inr (case r of Inr v \<Rightarrow> OkReply v | Inl e \<Rightarrow> ErrReply e), h'))"

subsection \<open>The entry of a request id\<close>

text \<open>Operations that leave the entry of an id, and the role of the master, as they are.\<close>

definition keeps_entry :: "'c retry_lib \<Rightarrow> i64 \<Rightarrow> (('db, 'c) master_handler, 'a) op \<Rightarrow> bool" where
  "keeps_entry L i m \<longleftrightarrow> (\<forall>h. get_req_cache L i (snd (m h)) = get_req_cache L i h \<and>
     (mh_retry_cache (snd (m h)) = None \<longleftrightarrow> mh_retry_cache h = None) \<and>
     mh_journal_state (snd (m h)) = mh_journal_state h)"

named_theorems entry_intros \<open>operations that leave the entry of a request id as it is\<close>

lemma keeps_bind [entry_intros]:
  assumes "keeps_entry L i m" "\<And>x. keeps_entry L i (f x)"
  shows "keeps_entry L i (bind_op m f)"
  unfolding keeps_entry_def
proof (intro allI)
  fix h
  obtain r h1 where m: "m h = (r, h1)" by fastforce
  then have "get_req_cache L i h1 = get_req_cache L i h \<and> (mh_retry_cache h1 = None \<longleftrightarrow> mh_retry_cache h = None) \<and>
      mh_journal_state h1 = mh_journal_state h"
    using assms(1) by (metis keeps_entry_def snd_conv)
  then show "get_req_cache L i (snd (bind_op m f h)) = get_req_cache L i h \<and>
      (mh_retry_cache (snd (bind_op m f h)) = None \<longleftrightarrow> mh_retry_cache h = None) \<and>
      mh_journal_state (snd (bind_op m f h)) = mh_journal_state h"
    using assms(2) by (cases r) (simp_all add: bind_op_def m keeps_entry_def)
qed

lemma keeps_simple [entry_intros]:
  "keeps_entry L i (lift_res r)" "keeps_entry L i (return x)" "keeps_entry L i (fail msg)"
  "keeps_entry L i (\<lambda>h. (g h, h))"
  by (simp_all add: keeps_entry_def return_def fail_def)

lemma keeps_on_mounts [entry_intros]: "keeps_entry L i (on_mounts m)"
  by (simp add: keeps_entry_def on_mounts_def get_req_cache_def split_beta)

lemma keeps_attempt [entry_intros]: "keeps_entry L i m \<Longrightarrow> keeps_entry L i (attempt m)"
  by (simp add: keeps_entry_def attempt_def split_beta)

lemma keeps_branch [entry_intros]:
  "keeps_entry L i m \<Longrightarrow> keeps_entry L i m' \<Longrightarrow> keeps_entry L i (if b then m else m')"
  "(\<And>x y. keeps_entry L i (f x y)) \<Longrightarrow> keeps_entry L i (case p of (x, y) \<Rightarrow> f x y)"
  by (simp_all split: prod.split)

lemma keeps_cache_calls [entry_intros]:
  assumes "retry_ok L" "j \<noteq> i"
  shows "keeps_entry L i (check_is_retry L j)" "keeps_entry L i (set_req_cache L j r)"
  using assms
  by (auto simp: keeps_entry_def check_is_retry_def cache_check_is_retry_def set_req_cache_def set_status_def
      get_req_cache_def retry_ok_def split: option.splits operation_status.splits)

lemmas handler_defs = mkdir_handler_def create_file0_def retry_check_create_file_def file_status_handler_def
  exists_handler_def delete0_def retry_check_delete_def rename0_def retry_check_rename_def
  list_status_handler_def add_block_handler_def complete_file_handler_def retry_check_append_file_def
  get_block_locations_handler_def set_attr_retry_check_def symlink_retry_check_def link_retry_check_def
  mount_handler_def umount_handler_def get_mount_info_handler_def get_mount_table_handler_def
  worker_heartbeat_def block_report_handler_def get_master_info_def

lemma dispatch_keeps_entry:
  assumes "retry_ok (re_retry R)" "j \<noteq> i"
  shows "keeps_entry (re_retry R) i (dispatch R j req)"
  by (cases req; simp only: dispatch.simps handler_defs) (rule entry_intros assms)+

lemma handle_keeps_entry:
  assumes "retry_ok (re_retry R)" "j \<noteq> i" "handle R j req h = (r, h')"
  shows "get_req_cache (re_retry R) i h' = get_req_cache (re_retry R) i h"
    and "mh_retry_cache h' = None \<longleftrightarrow> mh_retry_cache h = None"
    and "is_active h' \<longleftrightarrow> is_active h"
  using dispatch_keeps_entry[OF assms(1,2), of req] assms(3)
  by (auto simp: handle_def keeps_entry_def is_active_def split_beta split: if_splits)

text \<open>What may happen before a request is sent again: requests with other ids, and any change of the
  file system, the mounts and the role of the master by other threads.\<close>

inductive meanwhile :: "('db, 'b, 'c) rpc_env \<Rightarrow> i64 \<Rightarrow> ('db, 'c) master_handler \<Rightarrow> ('db, 'c) master_handler \<Rightarrow> bool"
  for R :: "('db, 'b, 'c) rpc_env" and i :: i64 where
  none: "meanwhile R i h h"
| request: "meanwhile R i h h1 \<Longrightarrow> re_retry (R' :: ('db, 'b, 'c) rpc_env) = re_retry R \<Longrightarrow> j \<noteq> i \<Longrightarrow>
    handle R' j req h1 = (r, h2) \<Longrightarrow> meanwhile R i h h2"
| other: "meanwhile R i h h1 \<Longrightarrow> meanwhile R i h (h1\<lparr>mh_mounts := mm, mh_journal_state := role\<rparr>)"

lemma meanwhile_entry:
  assumes "meanwhile R i h h'" "retry_ok (re_retry R)"
  shows "get_req_cache (re_retry R) i h' = get_req_cache (re_retry R) i h \<and>
    (mh_retry_cache h' = None \<longleftrightarrow> mh_retry_cache h = None)"
  using assms
proof (induction rule: meanwhile.induct)
  case (request h h1 R' j req r h2)
  have "retry_ok (re_retry R')" using request.hyps(2) request.prems by simp
  from handle_keeps_entry[OF this request.hyps(3,4)] show ?case using request by simp
qed (simp_all add: get_req_cache_def)

subsection \<open>Requests whose outcome is recorded\<close>

definition once ::
  "'c retry_lib \<Rightarrow> i64 \<Rightarrow> (('db, 'c) master_handler, 'a) op \<Rightarrow> ('db master_fs, 'a) op \<Rightarrow> (('db, 'c) master_handler, 'a) op" where
  "once L i again m =
     bind_op (check_is_retry L i) (\<lambda>retry. if retry then again else bind_op (attempt (on_master m)) (set_req_cache L i))"

lemma recorded_once:
  "create_file0 R i path opts = once (re_retry R) i (on_master (master_file_status (re_meta R) path)) (create_with_opts (re_meta R) opts path)"
  "delete0 R i path recursive = once (re_retry R) i (return True) (master_delete (re_meta R) path recursive)"
  "rename0 R i src dst = once (re_retry R) i (return True) (master_rename (re_meta R) src dst)"
  by (simp_all add: create_file0_def delete0_def rename0_def once_def)

lemma check_is_retry_eq:
  "mh_retry_cache h = None \<Longrightarrow> check_is_retry L i h = (Inr False, h)"
  "get_req_cache L i h = Some OpInit \<Longrightarrow> check_is_retry L i h = (Inl (InProgress ''Request in progress''), h)"
  "get_req_cache L i h = Some OpSuccess \<Longrightarrow> check_is_retry L i h = (Inr True, h)"
  "get_req_cache L i h = Some OpFailed \<Longrightarrow> check_is_retry L i h = (Inr False, h)"
  "mh_retry_cache h = Some c \<Longrightarrow> get_req_cache L i h = None \<Longrightarrow>
     check_is_retry L i h = (Inr False, h\<lparr>mh_retry_cache := Some (rc_insert L c i OpInit)\<rparr>)"
  by (auto simp: check_is_retry_def get_req_cache_def cache_check_is_retry_def split: option.splits)

lemma once_run:
  assumes "check_is_retry L i h = (Inr False, h1)" "mh_mounts h1 = mh_mounts h"
  shows "fst (once L i again m h) = fst (on_fs m (mh_mounts h))"
    and "mh_mounts (snd (once L i again m h)) = snd (on_fs m (mh_mounts h))"
    and "mh_retry_cache (snd (once L i again m h)) =
      map_option (set_status L i (\<not> isl (fst (on_fs m (mh_mounts h))))) (mh_retry_cache h1)"
  by (simp_all add: once_def bind_op_def assms attempt_def on_mounts_def set_req_cache_def split_beta split: option.split)

lemma once_again: "get_req_cache L i h = Some OpSuccess \<Longrightarrow> once L i again m h = again h"
  by (simp add: once_def bind_op_def check_is_retry_eq(3))

lemma once_first:
  assumes "retry_ok L" "mh_retry_cache h = Some c" "get_req_cache L i h = None"
  shows "get_req_cache L i (snd (once L i again m h)) =
    Some (if isl (fst (once L i again m h)) then OpFailed else OpSuccess)"
  using assms(1) once_run[OF check_is_retry_eq(5)[OF assms(2,3)], of again m]
  by (simp add: get_req_cache_def set_status_def retry_ok_def)

lemma once_without_cache:
  "mh_retry_cache h = None \<Longrightarrow> fst (once L i again m h) = fst (on_fs m (mh_mounts h)) \<and>
     mh_mounts (snd (once L i again m h)) = snd (on_fs m (mh_mounts h))"
  using once_run[OF check_is_retry_eq(1)] by blast

end
