(* ===== verification/Handler_Theorems.thy ===== *)
theory Handler_Theorems
  imports Master_Handler Mount_Theorems
begin

text \<open>
  Properties of the request handlers of the master: a request whose outcome is recorded is carried out
  once, however often it is sent, and the handlers that do not record it.
\<close>

abbreviation handler_fs :: "('db, 'c) master_handler \<Rightarrow> 'db master_fs" where
  "handler_fs h \<equiv> mm_fs (mh_mounts h)"

fun recorded :: "rpc_request \<Rightarrow> bool" where
  "recorded (CreateFileReq _) = True"
| "recorded (DeleteReq _) = True"
| "recorded (RenameReq _) = True"
| "recorded _ = False"

fun request_of :: "rpc_request \<Rightarrow> request option" where
  "request_of (CreateFileReq (Inr (path, opts))) = Some (Create opts path)"
| "request_of (DeleteReq (Inr (path, recursive))) = Some (Delete path recursive)"
| "request_of (RenameReq (Inr (src, dst))) = Some (Rename src dst)"
| "request_of _ = None"

text \<open>The reply to a request that was carried out before: the present status of the file for a creation,
  success for the others.\<close>

fun repeated :: "('db, 'b, 'c) rpc_env \<Rightarrow> rpc_request \<Rightarrow> ('db, 'c) master_handler \<Rightarrow> rpc_reply" where
  "repeated R (CreateFileReq (Inr (path, opts))) h =
     (case fst (master_file_status (re_meta R) path (handler_fs h)) of
        Inl e \<Rightarrow> ErrReply e | Inr st \<Rightarrow> OkReply (StatusRep st))"
| "repeated R (RenameReq _) h = OkReply (FlagRep True)"
| "repeated R _ h = OkReply EmptyRep"

lemma file_status_keeps: "snd (master_file_status E path s) = s"
  by (simp add: master_file_status_def bind_op_def resolved_def on_dir_def dir_file_status_def read_ptr_def split_beta
      split: sum.splits option.splits prod.splits)

lemma on_master_eq:
  "on_master m h = (fst (m (handler_fs h)), h\<lparr>mh_mounts := mh_mounts h\<lparr>mm_fs := snd (m (handler_fs h))\<rparr>\<rparr>)"
  by (simp add: on_mounts_def on_fs_def split_beta)

definition reply_of :: "('a \<Rightarrow> rpc_response) \<Rightarrow> 'a res \<Rightarrow> rpc_reply" where
  "reply_of rep r = (case r of Inl e \<Rightarrow> ErrReply e | Inr x \<Rightarrow> OkReply (rep x))"

text \<open>A handler that is a call of \<open>once\<close>, with what it replies to a request sent again.\<close>

definition runs_once ::
  "('db, 'b, 'c) rpc_env \<Rightarrow> i64 \<Rightarrow> rpc_request \<Rightarrow> (('db, 'c) master_handler, 'a) op \<Rightarrow> ('db master_fs, 'a) op \<Rightarrow> ('a \<Rightarrow> rpc_response) \<Rightarrow> bool" where
  "runs_once R i req again m rep \<longleftrightarrow>
     (\<forall>h. is_active h \<longrightarrow> handle R i req h = map_prod (Inr \<circ> reply_of rep) id (once (re_retry R) i again m h)) \<and>
     (\<forall>h. snd (again h) = h)"

lemma recorded_runs_once:
  "runs_once R i (CreateFileReq (Inr (path, opts))) (on_master (master_file_status (re_meta R) path))
     (create_with_opts (re_meta R) opts path) StatusRep"
  "runs_once R i (DeleteReq (Inr (path, recursive))) (return True) (master_delete (re_meta R) path recursive) (\<lambda>_. EmptyRep)"
  "runs_once R i (RenameReq (Inr (path, dst))) (return True) (master_rename (re_meta R) path dst) FlagRep"
  by (simp_all add: runs_once_def handle_def retry_check_create_file_def retry_check_delete_def retry_check_rename_def
      recorded_once[symmetric] bind_op_def return_def reply_of_def on_master_eq file_status_keeps split_beta map_prod_def
      split: sum.splits prod.splits)

lemma once_reply:
  assumes "runs_once R i req again m rep" "retry_ok (re_retry R)" "mh_retry_cache h \<noteq> None"
    and "get_req_cache (re_retry R) i h = None" "handle R i req h = (Inr reply, h1)"
    and "meanwhile R i h1 h2" "is_active h2"
  shows "reply = OkReply v \<Longrightarrow> (\<exists>x. m (handler_fs h) = (Inr x, handler_fs h1) \<and> v = rep x) \<and>
      handle R i req h2 = (Inr (reply_of rep (fst (again h2))), h2)"
    and "reply = ErrReply e \<Longrightarrow>
      fst (handle R i req h2) = Inr (reply_of rep (fst (m (handler_fs h2)))) \<and>
      handler_fs (snd (handle R i req h2)) = snd (m (handler_fs h2))"
proof -
  let ?L = "re_retry R"
  obtain c where c: "mh_retry_cache h = Some c" using assms(3) by blast
  have act: "is_active h" using assms(5) by (auto simp: handle_def split: if_splits)
  have run: "handle R i req h = map_prod (Inr \<circ> reply_of rep) id (once ?L i again m h)" if "is_active h" for h
    using assms(1) that by (simp add: runs_once_def)
  have first: "reply = reply_of rep (fst (once ?L i again m h))" "h1 = snd (once ?L i again m h)"
    using run[OF act] assms(5) by (simp_all add: map_prod_def split_beta)
  have got: "fst (once ?L i again m h) = fst (m (handler_fs h))" "handler_fs h1 = snd (m (handler_fs h))"
    using once_run[OF check_is_retry_eq(5)[OF c assms(4)], of again m] by (simp_all add: first(2) on_fs_def split_beta)
  have entry: "get_req_cache ?L i h2 = Some (if isl (fst (m (handler_fs h))) then OpFailed else OpSuccess)"
    using once_first[OF assms(2) c assms(4), of again m] meanwhile_entry[OF assms(6,2)] by (simp add: first(2)[symmetric] got(1))
  { assume ok: "reply = OkReply v"
    then obtain x where x: "fst (m (handler_fs h)) = Inr x" "v = rep x"
      using first(1) got(1) by (cases "fst (m (handler_fs h))") (simp_all add: reply_of_def)
    have "once ?L i again m h2 = (fst (again h2), h2)"
      using once_again[of ?L i h2 again m] entry x(1) assms(1) by (simp add: runs_once_def prod_eq_iff)
    then show "(\<exists>x. m (handler_fs h) = (Inr x, handler_fs h1) \<and> v = rep x) \<and>
        handle R i req h2 = (Inr (reply_of rep (fst (again h2))), h2)"
      using x got(2) run[OF assms(7)] by (simp add: prod_eq_iff) }
  { assume err: "reply = ErrReply e"
    then have "get_req_cache ?L i h2 = Some OpFailed"
      using first(1) got(1) entry by (cases "fst (m (handler_fs h))") (simp_all add: reply_of_def)
    from once_run[OF check_is_retry_eq(4)[OF this], of again m]
    show "fst (handle R i req h2) = Inr (reply_of rep (fst (m (handler_fs h2)))) \<and>
        handler_fs (snd (handle R i req h2)) = snd (m (handler_fs h2))"
      using run[OF assms(7)] by (simp add: on_fs_def split_beta) }
qed

lemma reply_without_cache:
  assumes "runs_once R i req again m rep" "is_active h" "mh_retry_cache h = None"
  shows "fst (handle R i req h) = Inr (reply_of rep (fst (m (handler_fs h)))) \<and>
    handler_fs (snd (handle R i req h)) = snd (m (handler_fs h))"
  using assms(1,2) once_without_cache[OF assms(3), of "re_retry R" i again m]
  by (simp add: runs_once_def on_fs_def split_beta)

text \<open>What is claimed of a request that is sent again.\<close>

definition carried_out_once ::
  "('db, 'b, 'c) rpc_env \<Rightarrow> i64 \<Rightarrow> rpc_request \<Rightarrow> rpc_reply \<Rightarrow> ('db, 'c) master_handler \<Rightarrow> ('db, 'c) master_handler \<Rightarrow>
   ('db, 'c) master_handler \<Rightarrow> bool" where
  "carried_out_once R i req reply h h1 h2 \<longleftrightarrow>
     (case reply of
        OkReply _ \<Rightarrow>
          (\<exists>r. request_of req = Some r \<and> serve (re_meta R) (re_pick R) r (handler_fs h) = (Inr (), handler_fs h1)) \<and>
          handle R i req h2 = (Inr (repeated R req h2), h2)
      | ErrReply _ \<Rightarrow>
          (let (again, h3) = handle R i req h2; (fresh, h4) = handle R i req (h2\<lparr>mh_retry_cache := None\<rparr>)
           in again = fresh \<and> handler_fs h3 = handler_fs h4))"

lemma recorded_carried_out_once:
  assumes "runs_once R i req again m rep" "retry_ok (re_retry R)" "mh_retry_cache h \<noteq> None"
    and "get_req_cache (re_retry R) i h = None" "handle R i req h = (Inr reply, h1)"
    and "meanwhile R i h1 h2" "is_active h2"
    and "request_of req = Some r" "\<And>s. serve (re_meta R) (re_pick R) r s = ignore m s"
    and "repeated R req h2 = reply_of rep (fst (again h2))"
  shows "carried_out_once R i req reply h h1 h2"
proof (cases reply)
  case (OkReply v)
  then show ?thesis
    using once_reply(1)[OF assms(1-7) OkReply] assms(8,9,10)
    by (auto simp: carried_out_once_def ignore_def bind_op_def return_def)
next
  case (ErrReply e)
  let ?h = "h2\<lparr>mh_retry_cache := None\<rparr>"
  have "is_active ?h" using assms(7) by (simp add: is_active_def)
  then show ?thesis
    using once_reply(2)[OF assms(1-7) ErrReply] reply_without_cache[OF assms(1), of ?h] ErrReply
    by (simp add: carried_out_once_def split_beta)
qed

lemma undecoded_reply:
  assumes "is_active h"
  shows "handle R i (CreateFileReq (Inl e)) h = (Inr (ErrReply e), h)"
    and "handle R i (DeleteReq (Inl e)) h = (Inr (ErrReply e), h)"
    and "handle R i (RenameReq (Inl e)) h = (Inr (ErrReply e), h)"
  using assms
  by (simp_all add: handle_def retry_check_create_file_def retry_check_delete_def retry_check_rename_def bind_op_def)

lemma undecoded_carried_out_once:
  assumes "\<And>h. is_active h \<Longrightarrow> handle R i req h = (Inr (ErrReply e), h)" "is_active h2"
    and "handle R i req h = (Inr reply, h1)"
  shows "carried_out_once R i req reply h h1 h2"
proof -
  have "is_active h" using assms(3) by (auto simp: handle_def split: if_splits)
  then have "reply = ErrReply e" using assms(1,3) by simp
  moreover have "is_active (h2\<lparr>mh_retry_cache := None\<rparr>)" using assms(2) by (simp add: is_active_def)
  ultimately show ?thesis using assms(1,2) by (simp add: carried_out_once_def)
qed

lemma recorded_once_holds:
  assumes "retry_ok (re_retry R)" "mh_retry_cache h \<noteq> None" "get_req_cache (re_retry R) i h = None"
    and "recorded req" "handle R i req h = (Inr reply, h1)" "meanwhile R i h1 h2" "is_active h2"
  shows "carried_out_once R i req reply h h1 h2"
proof (cases req)
  case (CreateFileReq p)
  show ?thesis
  proof (cases p)
    case (Inl e)
    show ?thesis
      using undecoded_carried_out_once[OF undecoded_reply(1) assms(7)] assms(5) by (simp add: CreateFileReq Inl)
  next
    case (Inr b)
    then obtain path opts where "req = CreateFileReq (Inr (path, opts))" using CreateFileReq by (cases b) simp
    then show ?thesis
      using recorded_carried_out_once[OF recorded_runs_once(1) assms(1-3) _ assms(6,7)] assms(5)
      by (simp add: reply_of_def on_master_eq)
  qed
next
  case (DeleteReq p)
  show ?thesis
  proof (cases p)
    case (Inl e)
    show ?thesis
      using undecoded_carried_out_once[OF undecoded_reply(2) assms(7)] assms(5) by (simp add: DeleteReq Inl)
  next
    case (Inr b)
    then obtain path recursive where "req = DeleteReq (Inr (path, recursive))" using DeleteReq by (cases b) simp
    then show ?thesis
      using recorded_carried_out_once[OF recorded_runs_once(2) assms(1-3) _ assms(6,7)] assms(5)
      by (simp add: reply_of_def return_def)
  qed
next
  case (RenameReq p)
  show ?thesis
  proof (cases p)
    case (Inl e)
    show ?thesis
      using undecoded_carried_out_once[OF undecoded_reply(3) assms(7)] assms(5) by (simp add: RenameReq Inl)
  next
    case (Inr b)
    then obtain src dst where "req = RenameReq (Inr (src, dst))" using RenameReq by (cases b) simp
    then show ?thesis
      using recorded_carried_out_once[OF recorded_runs_once(3) assms(1-3) _ assms(6,7)] assms(5)
      by (simp add: reply_of_def return_def)
  qed
qed (use assms(4) in simp_all)


text \<open>A server with a cache that is a list of entries, the newest first.\<close>

definition ex_rpc :: "(blob mem_db, blob, (i64 \<times> operation_status) list) rpc_env" where
  "ex_rpc =
     \<lparr>re_meta = ex_env, re_uri = ex_uri, re_pick = ex_pick, re_rng = (\<lambda>n. 7), re_now = 0,
      re_retry = \<lparr>rc_get = map_of, rc_insert = (\<lambda>c i st. (i, st) # c)\<rparr>,
      re_master_addr = ''m'', re_journal_addrs = []\<rparr>"

lemma ex_rpc_ok: "retry_ok (re_retry ex_rpc)"
  by (simp add: ex_rpc_def retry_ok_def)

definition ex_server :: "(blob mem_db, (i64 \<times> operation_status) list) master_handler" where
  "ex_server = \<lparr>mh_mounts = mount_manager_new ex_s2, mh_retry_cache = Some [], mh_journal_state = RoleLeader\<rparr>"

definition ex_replied :: "i64 \<Rightarrow> rpc_request \<Rightarrow> (blob mem_db, (i64 \<times> operation_status) list) master_handler \<Rightarrow>
    (blob mem_db, (i64 \<times> operation_status) list) master_handler" where
  "ex_replied i req h = snd (handle ex_rpc i req h)"

definition replied_ok :: "fs_error + rpc_reply \<Rightarrow> bool" where
  "replied_ok r \<longleftrightarrow> (case r of Inr (OkReply _) \<Rightarrow> True | _ \<Rightarrow> False)"

lemma replied_okD: "replied_ok (fst (handle ex_rpc i req h)) \<Longrightarrow> \<exists>v. handle ex_rpc i req h = (Inr (OkReply v), ex_replied i req h)"
  by (cases "handle ex_rpc i req h") (auto simp: replied_ok_def ex_replied_def split: sum.splits rpc_reply.splits)

lemma ex_replied_active: "is_active (ex_replied i req h) \<longleftrightarrow> is_active h"
  using handle_keeps_entry(3)[OF ex_rpc_ok, of i "i + 1" req h] by (cases "handle ex_rpc i req h") (simp add: ex_replied_def)

definition ex_rename :: rpc_request where "ex_rename = RenameReq (Inr (''/a/f'', ''/g''))"
definition ex_remove :: rpc_request where "ex_remove = DeleteReq (Inr (''/a'', True))"

lemma ex_renamed: "replied_ok (fst (handle ex_rpc 5 ex_rename ex_server))"
  by code_simp


subsection \<open>Requests whose outcome is not recorded\<close>

fun unrecorded :: "rpc_request \<Rightarrow> rpc_reply \<Rightarrow> bool" where
  "unrecorded (SetAttrReq _) _ = True"
| "unrecorded (SymlinkReq (Inr _)) _ = True"
| "unrecorded (LinkReq (Inr _)) _ = True"
| "unrecorded (AppendFileReq (Inr _)) (ErrReply _) = True"
| "unrecorded _ _ = False"

lemma bind_lift: "bind_op (lift_res (Inr x)) f = f x"
  by (rule ext) (simp add: bind_op_def)

lemma keeps_entryD: "keeps_entry L i m \<Longrightarrow> m h = (r, h') \<Longrightarrow> get_req_cache L i h' = get_req_cache L i h"
  by (metis keeps_entry_def snd_conv)

text \<open>A handler that tests for a retry first and records nothing leaves the request in progress.\<close>

lemma checked_in_progress:
  assumes "retry_ok L" "mh_retry_cache h \<noteq> None" "get_req_cache L i h = None" "\<And>x. keeps_entry L i (f x)"
  shows "get_req_cache L i (snd (bind_op (check_is_retry L i) f h)) = Some OpInit"
proof -
  obtain c where c: "mh_retry_cache h = Some c" using assms(2) by blast
  let ?h = "h\<lparr>mh_retry_cache := Some (rc_insert L c i OpInit)\<rparr>"
  have "get_req_cache L i (snd (f False ?h)) = get_req_cache L i ?h" using assms(4) by (simp add: keeps_entry_def)
  then show ?thesis using assms(1) by (simp add: bind_op_def check_is_retry_eq(5)[OF c assms(3)] get_req_cache_def retry_ok_def)
qed

lemma append_in_progress:
  assumes "retry_ok L" "mh_retry_cache h \<noteq> None" "get_req_cache L i h = None" "keeps_entry L i m"
    and "bind_op (check_is_retry L i) (\<lambda>retry. if retry then fail msg else bind_op m (\<lambda>(x, y). set_req_cache L i (Inr (g x y)))) h = (Inl e, h1)"
  shows "get_req_cache L i h1 = Some OpInit"
proof -
  obtain c where c: "mh_retry_cache h = Some c" using assms(2) by blast
  let ?h = "h\<lparr>mh_retry_cache := Some (rc_insert L c i OpInit)\<rparr>"
  obtain r h' where m: "m ?h = (r, h')" by fastforce
  then have "r = Inl e" "h' = h1"
    using assms(5)
    by (cases r; simp add: bind_op_def check_is_retry_eq(5)[OF c assms(3)] set_req_cache_def split: prod.splits)+
  then have "get_req_cache L i h1 = get_req_cache L i ?h" using keeps_entryD[OF assms(4)] m by blast
  then show ?thesis using assms(1) by (simp add: get_req_cache_def retry_ok_def)
qed

lemma dispatch_reply: "handle R i req h = (Inr reply, h1) \<Longrightarrow> is_active h \<and> h1 = snd (dispatch R i req h) \<and> reply = reply_of (\<lambda>x. x) (fst (dispatch R i req h))"
  by (auto simp: handle_def reply_of_def split_beta split: if_splits)

lemma unrecorded_entry:
  assumes "retry_ok (re_retry R)" "mh_retry_cache h \<noteq> None" "get_req_cache (re_retry R) i h = None"
    and "unrecorded req reply" "handle R i req h = (Inr reply, h1)"
  shows "get_req_cache (re_retry R) i h1 = Some OpInit"
proof -
  note d = dispatch_reply[OF assms(5)]
  note go = checked_in_progress[OF assms(1-3)]
  consider (attr) p where "req = SetAttrReq p" | (symlink) p where "req = SymlinkReq (Inr p)"
    | (link) p where "req = LinkReq (Inr p)" | (append) p e where "req = AppendFileReq (Inr p)" "reply = ErrReply e"
    using assms(4) by (cases "(req, reply)" rule: unrecorded.cases) auto
  then show ?thesis
  proof cases
    case (attr p)
    show ?thesis unfolding conjunct1[OF conjunct2[OF d]] attr dispatch.simps set_attr_retry_check_def
      by (rule go) (rule entry_intros)+
  next
    case (symlink p)
    show ?thesis unfolding conjunct1[OF conjunct2[OF d]] symlink dispatch.simps symlink_retry_check_def bind_lift
      by (cases p) (simp only: prod.case, rule go, (rule entry_intros)+)
  next
    case (link p)
    show ?thesis unfolding conjunct1[OF conjunct2[OF d]] link dispatch.simps link_retry_check_def bind_lift
      by (cases p) (simp only: prod.case, rule go, (rule entry_intros)+)
  next
    case (append p e)
    obtain path opts where p: "p = (path, opts)" by (cases p)
    let ?m = "on_master (master_append_file (re_meta R) opts path)"
    have "dispatch R i req h = bind_op (check_is_retry (re_retry R) i) (\<lambda>retry. if retry then fail ''append repeat request''
        else bind_op ?m (\<lambda>(last_block, status). set_req_cache (re_retry R) i (Inr (AppendRep status last_block)))) h"
      by (simp add: append(1) p retry_check_append_file_def bind_lift)
    moreover have "dispatch R i req h = (Inl e, h1)"
      using d append(2) by (cases "fst (dispatch R i req h)") (simp_all add: reply_of_def prod_eq_iff)
    ultimately show ?thesis by (metis append_in_progress[OF assms(1-3) keeps_on_mounts])
  qed 
qed


definition ex_hard_link :: rpc_request where "ex_hard_link = LinkReq (Inr (''/a/f'', ''/g''))"

lemma ex_linked: "replied_ok (fst (handle ex_rpc 5 ex_hard_link ex_server))"
  by code_simp


end
