(* ===== verification/Worker_Store.thy ===== *)
theory Worker_Store
  imports Worker_Manager "HOL-Library.AList"
begin

unbundle bit_operations_syntax

text \<open>
  The block store of a worker (\<^verbatim>\<open>worker/block/block_meta.rs\<close>, \<^verbatim>\<open>worker/block/block_store.rs\<close> and
  \<^verbatim>\<open>worker/storage\<close>): blocks are files in the storage directories of the worker, in \<^verbatim>\<open>rbw\<close> while they are
  written and in \<^verbatim>\<open>finalized\<close> afterwards, with a map from block ids to their metadata and counters of
  the bytes in use. The disk is a map from paths to file lengths. Every call of the operating system may
  fail: which calls it performs is a parameter, and so are the space it reports for a directory and the
  regular expression that recognises block files.
\<close>

subsection \<open>The disk\<close>

type_synonym file_path = "string list"
type_synonym disk = "(file_path \<times> i64) list"

datatype disk_call =
    MakeDir file_path
  | StatFile file_path
  | CreateFile file_path
  | RenameFile file_path file_path
  | RemoveFile file_path
  | ListDir file_path

record space_stats =
  ss_total_space :: i64
  ss_used_space :: i64
  ss_available_space :: i64

record worker_os =
  os_performs :: "disk_call \<Rightarrow> bool"
  os_space :: "string \<Rightarrow> space_stats"
  os_check_dir :: "string \<Rightarrow> bool"
  os_word :: "string \<Rightarrow> bool"

definition file_len :: "worker_os \<Rightarrow> file_path \<Rightarrow> disk \<Rightarrow> i64 res" where
  "file_len W p k =
     (if os_performs W (StatFile p) then try_option ''No such file'' (map_of k p) else Inl (IoError ''stat''))"

definition create_file_at :: "worker_os \<Rightarrow> file_path \<Rightarrow> (disk, unit) op" where
  "create_file_at W p k =
     (if os_performs W (CreateFile p) then (Inr (), bt_insert p 0 k) else (Inl (IoError ''create''), k))"

definition rename_file :: "worker_os \<Rightarrow> file_path \<Rightarrow> file_path \<Rightarrow> (disk, unit) op" where
  "rename_file W p q k =
     (case map_of k p of
        Some n \<Rightarrow>
          (if os_performs W (RenameFile p q)
           then (Inr (), if p = q then k else bt_insert q n (bt_remove p k))
           else (Inl (IoError ''rename''), k))
      | None \<Rightarrow> (Inl (IoError ''No such file''), k))"

definition remove_file :: "worker_os \<Rightarrow> file_path \<Rightarrow> (disk, unit) op" where
  "remove_file W p k =
     (if map_of k p = None then (Inl (IoError ''No such file''), k)
      else if os_performs W (RemoveFile p) then (Inr (), bt_remove p k)
      else (Inl (IoError ''remove''), k))"

subsection \<open>Blocks\<close>

datatype blk_state = BkFinalized | BkWriting | BkRecovering

record dir_state =
  rs_dir_id :: u32
  rs_base_path :: string
  rs_storage_type :: storage_type

record blk_meta =
  bk_id :: i64
  bk_len :: i64
  bk_state :: blk_state
  bk_dir :: dir_state

record vfs_dir =
  vd_storage_id :: string
  vd_state :: dir_state
  vd_conf_capacity :: i64
  vd_reserved_bytes :: i64
  vd_final_bytes :: i64
  vd_tmp_bytes :: i64
  vd_check_failed :: bool

definition decimal :: "int \<Rightarrow> string" where
  "decimal n = (if n < 0 then CHR ''-'' # show_nat (nat (- n)) else show_nat (nat n))"

definition get_name :: "i64 \<Rightarrow> string" where
  "get_name i = ''blk_'' @ decimal i"

text \<open>\<^verbatim>\<open>parse::<i64>\<close> on a string that matched the regular expression, which has no sign.\<close>

definition digit :: "char \<Rightarrow> bool" where
  "digit c \<longleftrightarrow> (48 :: nat) \<le> of_char c \<and> (of_char c :: nat) \<le> 57"

definition digits_value :: "string \<Rightarrow> int" where
  "digits_value s = foldl (\<lambda>n c. n * 10 + (of_char c - 48)) 0 s"

definition check_file :: "worker_os \<Rightarrow> string \<Rightarrow> i64 option res" where
  "check_file W file =
     (if take 4 file \<noteq> ''blk_'' \<or> \<not> os_word W (drop 4 file) then Inr None
      else if list_all digit (drop 4 file) \<and> digits_value (drop 4 file) < 2 ^ 63
      then Inr (Some (digits_value (drop 4 file)))
      else Inl (Panic ''called unwrap on an Err value''))"

definition meta_new :: "i64 \<Rightarrow> i64 \<Rightarrow> vfs_dir \<Rightarrow> blk_meta" where
  "meta_new i block_size dir = \<lparr>bk_id = i, bk_len = block_size, bk_state = BkWriting, bk_dir = vd_state dir\<rparr>"

definition meta_with_final :: "blk_meta \<Rightarrow> i64 \<Rightarrow> blk_meta" where
  "meta_with_final meta file_size =
     \<lparr>bk_id = bk_id meta, bk_len = file_size, bk_state = BkFinalized, bk_dir = bk_dir meta\<rparr>"

definition meta_is_final :: "blk_meta \<Rightarrow> bool" where
  "meta_is_final meta \<longleftrightarrow> bk_state meta = BkFinalized"

definition block_path :: "dir_state \<Rightarrow> blk_state \<Rightarrow> i64 \<Rightarrow> file_path" where
  "block_path dir st i =
     (case st of
        BkFinalized \<Rightarrow> [rs_base_path dir, ''finalized'', CHR ''b'' # decimal (drop_bit 16 i AND 0x1F),
                        CHR ''b'' # decimal (drop_bit 8 i AND 0x1F), get_name i]
      | _ \<Rightarrow> [rs_base_path dir, ''rbw'', get_name i])"

text \<open>The parent directory is made when it is missing.\<close>

definition get_block_path :: "worker_os \<Rightarrow> blk_meta \<Rightarrow> file_path res" where
  "get_block_path W meta =
     (let p = block_path (bk_dir meta) (bk_state meta) (bk_id meta)
      in if os_performs W (MakeDir (butlast p)) then Inr p else Inl (IoError ''create_dir''))"

text \<open>The name of a scanned file is the last component of its path.\<close>

definition meta_from_file :: "worker_os \<Rightarrow> disk \<Rightarrow> file_path \<Rightarrow> blk_state \<Rightarrow> vfs_dir \<Rightarrow> blk_meta res" where
  "meta_from_file W k p st dir =
     bind_res (file_len W p k) (\<lambda>len.
     bind_res (check_file W (last p)) (\<lambda>found.
     case found of
       None \<Rightarrow> Inl (Common ''Not a block file'')
     | Some i \<Rightarrow> Inr \<lparr>bk_id = i, bk_len = len, bk_state = st, bk_dir = vd_state dir\<rparr>))"

subsection \<open>Storage directories\<close>

abbreviation vd_id :: "vfs_dir \<Rightarrow> u32" where
  "vd_id dir \<equiv> rs_dir_id (vd_state dir)"

definition vfs_capacity :: "worker_os \<Rightarrow> vfs_dir \<Rightarrow> i64" where
  "vfs_capacity W dir =
     (let disk_space = ss_total_space (os_space W (rs_base_path (vd_state dir)))
      in if vd_conf_capacity dir \<le> 0 then disk_space else min (vd_conf_capacity dir) disk_space)"

definition vfs_fs_used :: "vfs_dir \<Rightarrow> i64" where
  "vfs_fs_used dir = i64_of (vd_final_bytes dir + vd_tmp_bytes dir)"

definition vfs_available :: "worker_os \<Rightarrow> vfs_dir \<Rightarrow> i64" where
  "vfs_available W dir =
     (let sp = os_space W (rs_base_path (vd_state dir));
          non_fs_used = i64_of (ss_used_space sp - vfs_fs_used dir);
          calculated_available = i64_of (vfs_capacity W dir - vfs_fs_used dir - non_fs_used - vd_reserved_bytes dir)
      in max 0 (min calculated_available (ss_available_space sp)))"

definition vfs_non_fs_used :: "worker_os \<Rightarrow> vfs_dir \<Rightarrow> i64" where
  "vfs_non_fs_used W dir =
     (let v = i64_of (ss_used_space (os_space W (rs_base_path (vd_state dir))) - vfs_fs_used dir)
      in if v \<le> 0 then 0 else v)"

definition reserve_space :: "bool \<Rightarrow> i64 \<Rightarrow> vfs_dir \<Rightarrow> vfs_dir" where
  "reserve_space is_final n dir =
     (if n \<le> 0 then dir
      else if is_final then dir\<lparr>vd_final_bytes := i64_of (vd_final_bytes dir + n)\<rparr>
      else dir\<lparr>vd_tmp_bytes := i64_of (vd_tmp_bytes dir + n)\<rparr>)"

text \<open>The loop around the compare-and-set ends with the new value.\<close>

definition release_space :: "bool \<Rightarrow> i64 \<Rightarrow> vfs_dir \<Rightarrow> vfs_dir" where
  "release_space is_final n dir =
     (if n \<le> 0 then dir
      else if is_final then dir\<lparr>vd_final_bytes := max 0 (i64_of (vd_final_bytes dir - n))\<rparr>
      else dir\<lparr>vd_tmp_bytes := max 0 (i64_of (vd_tmp_bytes dir - n))\<rparr>)"

definition vfs_create_block :: "worker_os \<Rightarrow> vfs_dir \<Rightarrow> extended_block \<Rightarrow> (disk, blk_meta) op" where
  "vfs_create_block W dir block =
     (let meta = meta_new (eb_id block) (eb_len block) dir in
      bind_op (lift_res (get_block_path W meta)) (\<lambda>p k.
        if map_of k p \<noteq> None then (Inl (Common ''Failed to create temporary file, because the file already exists''), k)
        else bind_op (create_file_at W p) (\<lambda>_ k. (Inr meta, k)) k))"

definition vfs_finalize_block :: "worker_os \<Rightarrow> blk_meta \<Rightarrow> (disk, blk_meta) op" where
  "vfs_finalize_block W meta =
     bind_op (lift_res (get_block_path W meta)) (\<lambda>tmp_file.
     bind_op (\<lambda>k. (file_len W tmp_file k, k)) (\<lambda>file_size.
     let final_meta = meta_with_final meta file_size in
     bind_op (lift_res (get_block_path W final_meta)) (\<lambda>final_file.
     bind_op (rename_file W tmp_file final_file) (\<lambda>_ k. (Inr final_meta, k)))))"

definition vfs_append_block :: "worker_os \<Rightarrow> vfs_dir \<Rightarrow> extended_block \<Rightarrow> blk_meta \<Rightarrow> (disk, blk_meta) op" where
  "vfs_append_block W dir block meta =
     bind_op (lift_res (get_block_path W meta)) (\<lambda>cur_file.
     bind_op (\<lambda>k. (file_len W cur_file k, k)) (\<lambda>file_size.
     if file_size \<ge> eb_len block then (\<lambda>k. (Inl (Common ''block file length is greater than block size''), k))
     else
       let new_meta = meta_new (bk_id meta) (eb_len block) dir in
       bind_op (lift_res (get_block_path W new_meta)) (\<lambda>new_file.
       bind_op (if cur_file \<noteq> new_file then rename_file W cur_file new_file else lift_res (Inr ())) (\<lambda>_ k.
         (Inr new_meta, k)))))"

text \<open>The metadata of the files of a directory; what is not a block file is skipped.\<close>

fun scan_files :: "worker_os \<Rightarrow> disk \<Rightarrow> vfs_dir \<Rightarrow> blk_state \<Rightarrow> file_path list \<Rightarrow> blk_meta list res" where
  "scan_files W k dir st [] = Inr []"
| "scan_files W k dir st (p # ps) =
     (case meta_from_file W k p st dir of
        Inr meta \<Rightarrow> bind_res (scan_files W k dir st ps) (\<lambda>metas. Inr (meta # metas))
      | Inl (Panic msg) \<Rightarrow> Inl (Panic msg)
      | Inl _ \<Rightarrow> scan_files W k dir st ps)"

definition files_under :: "disk \<Rightarrow> file_path \<Rightarrow> file_path list" where
  "files_under k dir = filter (\<lambda>p. take (length dir) p = dir) (map fst k)"

definition list_files :: "worker_os \<Rightarrow> disk \<Rightarrow> file_path \<Rightarrow> file_path list res" where
  "list_files W k dir = (if os_performs W (ListDir dir) then Inr (files_under k dir) else Inl (IoError ''read_dir''))"

definition vfs_scan_blocks :: "worker_os \<Rightarrow> disk \<Rightarrow> vfs_dir \<Rightarrow> blk_meta list res" where
  "vfs_scan_blocks W k dir =
     (let base = rs_base_path (vd_state dir) in
      bind_res (list_files W k [base, ''finalized'']) (\<lambda>finalized_files.
      bind_res (list_files W k [base, ''rbw'']) (\<lambda>rbw_files.
      bind_res (scan_files W k dir BkFinalized finalized_files) (\<lambda>finalized.
      bind_res (scan_files W k dir BkWriting rbw_files) (\<lambda>rbw.
        Inr (finalized @ rbw))))))"

definition can_allocate :: "worker_os \<Rightarrow> vfs_dir \<Rightarrow> storage_type \<Rightarrow> i64 \<Rightarrow> bool" where
  "can_allocate W dir stg_type block_size \<longleftrightarrow>
     (stg_type = Disk \<or> stg_type = rs_storage_type (vd_state dir)) \<and> \<not> vd_check_failed dir \<and>
     vfs_available W dir > block_size"

subsection \<open>The choice of a directory\<close>

record dir_list =
  dl_dirs :: "(u32 \<times> vfs_dir) list"
  dl_cur_dirs :: "(storage_type \<times> nat) list"

text \<open>The loop ends when it is back at the position it started from. The fuel is the number of turns.\<close>

fun next_dir_loop ::
  "worker_os \<Rightarrow> (u32 \<times> vfs_dir) list \<Rightarrow> storage_type \<Rightarrow> i64 \<Rightarrow> nat \<Rightarrow> nat \<Rightarrow> nat \<Rightarrow> nat option option" where
  "next_dir_loop W dirs stg_type block_size start 0 index = None"
| "next_dir_loop W dirs stg_type block_size start (Suc fuel) index =
     (let index = (index + 1) mod length dirs in
      if can_allocate W (snd (dirs ! index)) stg_type block_size then Some (Some index)
      else if index = start then Some None
      else next_dir_loop W dirs stg_type block_size start fuel index)"

definition unwrap_default :: "('k \<times> nat) list \<Rightarrow> 'k \<Rightarrow> nat" where
  "unwrap_default m k = (case map_of m k of Some n \<Rightarrow> n | None \<Rightarrow> 0)"

definition get_next_dir :: "worker_os \<Rightarrow> storage_type \<Rightarrow> i64 \<Rightarrow> (dir_list, u32 option) op" where
  "get_next_dir W stg_type block_size l =
     (let dirs = dl_dirs l; start = unwrap_default (dl_cur_dirs l) stg_type in
      if dirs = [] then (Inl (Panic ''attempt to calculate the remainder with a divisor of zero''), l)
      else case next_dir_loop W dirs stg_type block_size start (length dirs) start of
             None \<Rightarrow> (Inl (Panic ''loop does not end''), l)
           | Some None \<Rightarrow> (Inr None, l)
           | Some (Some index) \<Rightarrow>
               (Inr (Some (fst (dirs ! index))), l\<lparr>dl_cur_dirs := AList.update stg_type index (dl_cur_dirs l)\<rparr>))"

definition choose_dir :: "worker_os \<Rightarrow> extended_block \<Rightarrow> (dir_list, u32) op" where
  "choose_dir W block =
     bind_op (get_next_dir W (eb_storage_type block) (eb_len block)) (\<lambda>r.
     bind_op (if r = None \<and> eb_storage_type block \<noteq> Disk then get_next_dir W Disk (eb_len block) else lift_res (Inr r)) (\<lambda>r.
       lift_res (try_option ''Not enough space to save block'' r)))"

definition get_dir :: "dir_list \<Rightarrow> u32 \<Rightarrow> vfs_dir option" where
  "get_dir l dir_id = map_of (dl_dirs l) dir_id"

definition sum_dirs :: "(vfs_dir \<Rightarrow> i64) \<Rightarrow> dir_list \<Rightarrow> i64" where
  "sum_dirs f l = foldl (\<lambda>n (_, dir). i64_of (n + f dir)) 0 (dl_dirs l)"

definition add_dir :: "vfs_dir \<Rightarrow> dir_list \<Rightarrow> dir_list" where
  "add_dir dir l =
     (if map_of (dl_dirs l) (vd_id dir) = None then l\<lparr>dl_dirs := dl_dirs l @ [(vd_id dir, dir)]\<rparr> else l)"

subsection \<open>The data set\<close>

record vfs_dataset =
  ds_cluster_id :: string
  ds_dir_list :: dir_list
  ds_block_map :: "(i64 \<times> blk_meta) list"
  ds_disk :: disk

definition on_disk :: "(disk, 'a) op \<Rightarrow> (vfs_dataset, 'a) op" where
  "on_disk m ds = (let (r, k) = m (ds_disk ds) in (r, ds\<lparr>ds_disk := k\<rparr>))"

definition on_dirs :: "(dir_list, 'a) op \<Rightarrow> (vfs_dataset, 'a) op" where
  "on_dirs m ds = (let (r, l) = m (ds_dir_list ds) in (r, ds\<lparr>ds_dir_list := l\<rparr>))"

text \<open>The counters of a directory, written through a shared reference.\<close>

definition with_dir :: "u32 \<Rightarrow> (vfs_dir \<Rightarrow> vfs_dir) \<Rightarrow> vfs_dataset \<Rightarrow> vfs_dataset" where
  "with_dir dir_id f ds =
     ds\<lparr>ds_dir_list := (ds_dir_list ds)\<lparr>dl_dirs := map (\<lambda>(i, dir). (i, if i = dir_id then f dir else dir)) (dl_dirs (ds_dir_list ds))\<rparr>\<rparr>"

definition put_block :: "blk_meta \<Rightarrow> vfs_dataset \<Rightarrow> vfs_dataset" where
  "put_block meta ds = ds\<lparr>ds_block_map := bt_insert (bk_id meta) meta (ds_block_map ds)\<rparr>"

definition find_dir :: "u32 \<Rightarrow> (vfs_dataset, vfs_dir) op" where
  "find_dir dir_id ds = (try_option ''No storage directory found'' (get_dir (ds_dir_list ds) dir_id), ds)"

definition ds_get_block_check :: "i64 \<Rightarrow> (vfs_dataset, blk_meta) op" where
  "ds_get_block_check i ds = (try_option ''block not exists'' (map_of (ds_block_map ds) i), ds)"

fun load_blocks :: "blk_meta list \<Rightarrow> vfs_dataset \<Rightarrow> vfs_dataset" where
  "load_blocks [] ds = ds"
| "load_blocks (meta # metas) ds =
     load_blocks metas (put_block meta (with_dir (rs_dir_id (bk_dir meta)) (reserve_space True (bk_len meta)) ds))"

fun load_dirs :: "worker_os \<Rightarrow> vfs_dir list \<Rightarrow> (vfs_dataset, unit) op" where
  "load_dirs W [] ds = (Inr (), ds)"
| "load_dirs W (dir # dirs) ds =
     (case vfs_scan_blocks W (ds_disk ds) dir of
        Inl e \<Rightarrow> (Inl (Panic ''called unwrap on an Err value''), ds)
      | Inr metas \<Rightarrow> load_dirs W dirs (load_blocks metas ds))"

definition dataset_initialize :: "worker_os \<Rightarrow> (vfs_dataset, unit) op" where
  "dataset_initialize W ds = load_dirs W (map snd (dl_dirs (ds_dir_list ds))) ds"

definition dataset_new :: "worker_os \<Rightarrow> string \<Rightarrow> dir_list \<Rightarrow> disk \<Rightarrow> vfs_dataset res" where
  "dataset_new W cluster_id l k =
     (case dataset_initialize W \<lparr>ds_cluster_id = cluster_id, ds_dir_list = l, ds_block_map = [], ds_disk = k\<rparr> of
        (Inr _, ds) \<Rightarrow> Inr ds | (Inl e, _) \<Rightarrow> Inl e)"

definition ds_create_block :: "worker_os \<Rightarrow> extended_block \<Rightarrow> (vfs_dataset, blk_meta) op" where
  "ds_create_block W block ds =
     (if map_of (ds_block_map ds) (eb_id block) \<noteq> None then (Inl (Common ''Block already exists''), ds)
      else
        bind_op (on_dirs (choose_dir W block)) (\<lambda>dir_id.
        bind_op (find_dir dir_id) (\<lambda>dir.
        bind_op (on_disk (vfs_create_block W dir block)) (\<lambda>meta ds.
          (Inr meta, with_dir dir_id (reserve_space False (eb_len block)) (put_block meta ds))))) ds)"

definition ds_append_block :: "worker_os \<Rightarrow> i64 \<Rightarrow> extended_block \<Rightarrow> (vfs_dataset, blk_meta) op" where
  "ds_append_block W expected_len block =
     bind_op (ds_get_block_check (eb_id block)) (\<lambda>meta.
     if bk_len meta \<noteq> expected_len then (\<lambda>ds. (Inl (Common ''length is incorrect''), ds))
     else if bk_state meta = BkRecovering then (\<lambda>ds. (Inl (Common ''cannot execute append''), ds))
     else
       bind_op (find_dir (rs_dir_id (bk_dir meta))) (\<lambda>dir.
       bind_op (on_disk (vfs_append_block W dir block meta)) (\<lambda>new_meta ds.
         (Inr new_meta, put_block new_meta (with_dir (vd_id dir)
            (reserve_space False (eb_len block) \<circ> release_space (meta_is_final meta) (bk_len meta)) ds)))))"

definition ds_finalize_block :: "worker_os \<Rightarrow> extended_block \<Rightarrow> (vfs_dataset, blk_meta) op" where
  "ds_finalize_block W block =
     bind_op (ds_get_block_check (eb_id block)) (\<lambda>meta.
     if bk_state meta \<noteq> BkWriting then (\<lambda>ds. (Inl (Common ''block status incorrect''), ds))
     else
       bind_op (find_dir (rs_dir_id (bk_dir meta))) (\<lambda>dir.
       bind_op (on_disk (vfs_finalize_block W meta)) (\<lambda>final_meta ds.
         (Inr final_meta, put_block final_meta (with_dir (vd_id dir)
            (reserve_space True (bk_len final_meta) \<circ> release_space False (bk_len meta)) ds)))))"

text \<open>The block leaves the map before its file is removed, whether or not that works.\<close>

definition ds_abort_block :: "worker_os \<Rightarrow> i64 \<Rightarrow> (vfs_dataset, unit) op" where
  "ds_abort_block W block_id ds =
     (case map_of (ds_block_map ds) block_id of
        None \<Rightarrow> (Inl (Common ''block not exits''), ds)
      | Some meta \<Rightarrow>
          bind_op (find_dir (rs_dir_id (bk_dir meta))) (\<lambda>dir.
          bind_op (lift_res (get_block_path W meta)) (\<lambda>file.
          bind_op (on_disk (remove_file W file)) (\<lambda>_ ds.
            (Inr (), with_dir (vd_id dir) (release_space (meta_is_final meta) (bk_len meta)) ds))))
          (ds\<lparr>ds_block_map := bt_remove block_id (ds_block_map ds)\<rparr>))"

text \<open>The deletion a heartbeat asks for; a file that is gone is not an error.\<close>

definition async_remove_block :: "worker_os \<Rightarrow> i64 \<Rightarrow> (vfs_dataset, blk_meta) op" where
  "async_remove_block W block_id ds =
     (case map_of (ds_block_map ds) block_id of
        None \<Rightarrow> (Inl (Common ''Not found block''), ds)
      | Some meta \<Rightarrow>
          bind_op (lift_res (get_block_path W meta)) (\<lambda>file.
          bind_op (on_disk (\<lambda>k. if map_of k file = None then (Inr (), k) else remove_file W file k)) (\<lambda>_.
          bind_op (find_dir (rs_dir_id (bk_dir meta))) (\<lambda>dir ds.
            (Inr meta, with_dir (vd_id dir) (release_space (meta_is_final meta) (bk_len meta)) ds))))
          (ds\<lparr>ds_block_map := bt_remove block_id (ds_block_map ds)\<rparr>))"

definition storage_of :: "worker_os \<Rightarrow> vfs_dataset \<Rightarrow> vfs_dir \<Rightarrow> storage_info" where
  "storage_of W ds dir =
     \<lparr>si_dir_id = vd_id dir, si_storage_id = vd_storage_id dir,
      si_failed = (\<not> os_check_dir W (rs_base_path (vd_state dir))), si_capacity = vfs_capacity W dir,
      si_fs_used = vfs_fs_used dir, si_non_fs_used = vfs_non_fs_used W dir, si_available = vfs_available W dir,
      si_reserved_bytes = vd_reserved_bytes dir, si_storage_type = rs_storage_type (vd_state dir),
      si_block_num = int (length (ds_block_map ds))\<rparr>"

definition get_and_check_storages :: "worker_os \<Rightarrow> vfs_dataset \<Rightarrow> storage_info list \<times> vfs_dataset" where
  "get_and_check_storages W ds =
     (map (\<lambda>(_, dir). storage_of W ds dir) (dl_dirs (ds_dir_list ds)),
      ds\<lparr>ds_dir_list := (ds_dir_list ds)\<lparr>dl_dirs := map (\<lambda>(i, dir).
        (i, if os_check_dir W (rs_base_path (vd_state dir)) then dir else dir\<lparr>vd_check_failed := True\<rparr>)) (dl_dirs (ds_dir_list ds))\<rparr>\<rparr>)"

end
