(* ===== verification/Worker_Store_Inv.thy ===== *)
theory Worker_Store_Inv
  imports Worker_Store
begin

text \<open>
  The invariant of the block store of a worker: every block of the map has its file, in the directory
  its state says and of the length its metadata says; every file belongs to a block; and the counters of
  a directory are the sums over its blocks. One lemma per operation says that it is kept, whether the
  operation succeeds or is refused.
\<close>

subsection \<open>Names of block files\<close>

lemma of_char_digit:
  assumes "k < 10"
  shows "(of_char (char_of (48 + k :: nat)) :: int) = 48 + int k" "digit (char_of (48 + k :: nat))"
proof -
  have "(of_char (char_of (48 + k :: nat)) :: nat) = 48 + k" using assms by simp
  moreover have "(of_char (char_of (48 + k :: nat)) :: int) = int (of_char (char_of (48 + k :: nat)))" by (rule of_nat_of_char[symmetric])
  ultimately show "(of_char (char_of (48 + k :: nat)) :: int) = 48 + int k" "digit (char_of (48 + k :: nat))"
    using assms by (simp_all add: digit_def)
qed

lemma digits_value_snoc: "digits_value (s @ [c]) = digits_value s * 10 + (of_char c - 48)"
  by (simp add: digits_value_def)

declare show_nat.simps [simp del]

lemma digits_value_show: "digits_value (show_nat n) = int n \<and> list_all digit (show_nat n) \<and> show_nat n \<noteq> []"
proof (induction n rule: show_nat.induct)
  case (1 n)
  show ?case
  proof (cases "n < 10")
    case True
    then show ?thesis using of_char_digit[of n] digits_value_snoc[of "[]" "char_of (48 + n)"]
      by (simp add: show_nat.simps[of n]) (simp add: digits_value_def)
  next
    case False
    then have "digits_value (show_nat (n div 10)) = int (n div 10)" "list_all digit (show_nat (n div 10))"
      using 1 by simp_all
    then show ?thesis using False of_char_digit[of "n mod 10"]
      by (simp add: show_nat.simps[of n] digits_value_snoc zdiv_int zmod_int)
  qed
qed

lemma get_name_inject: "0 \<le> i \<Longrightarrow> 0 \<le> j \<Longrightarrow> get_name i = get_name j \<longleftrightarrow> i = j"
proof
  assume ij: "0 \<le> i" "0 \<le> j" and "get_name i = get_name j"
  then have "show_nat (nat i) = show_nat (nat j)" by (simp add: get_name_def decimal_def)
  then show "i = j" using digits_value_show[of "nat i"] digits_value_show[of "nat j"] ij by (metis nat_0_le)
qed simp

lemma block_path_inject:
  assumes "0 \<le> i" "0 \<le> j"
  shows "block_path d st i = block_path d' st' j \<longleftrightarrow>
    rs_base_path d = rs_base_path d' \<and> (st = BkFinalized \<longleftrightarrow> st' = BkFinalized) \<and> i = j"
  using get_name_inject[OF assms] by (auto simp: block_path_def split: blk_state.splits)

text \<open>The regular expression matches every string of digits.\<close>

definition word_ok :: "worker_os \<Rightarrow> bool" where
  "word_ok W \<longleftrightarrow> (\<forall>s. s \<noteq> [] \<longrightarrow> list_all digit s \<longrightarrow> os_word W s)"

lemma check_file_name:
  assumes "word_ok W" "0 \<le> i" "i < 2 ^ 63"
  shows "check_file W (get_name i) = Inr (Some i)"
proof -
  have "drop 4 (get_name i) = show_nat (nat i)" "take 4 (get_name i) = ''blk_''"
    using assms(2) by (simp_all add: get_name_def decimal_def)
  then show ?thesis using digits_value_show[of "nat i"] assms unfolding check_file_def word_ok_def by simp
qed

subsection \<open>The invariant\<close>

type_synonym blk_map = "i64 \<Rightarrow> blk_meta option"

definition tally :: "blk_map \<Rightarrow> (blk_meta \<Rightarrow> i64) \<Rightarrow> i64" where
  "tally M w = (\<Sum>i\<in>dom M. w (the (M i)))"

definition weight :: "bool \<Rightarrow> u32 \<Rightarrow> blk_meta \<Rightarrow> i64" where
  "weight is_final dir_id m =
     (if rs_dir_id (bk_dir m) = dir_id \<and> meta_is_final m = is_final then bk_len m else 0)"

abbreviation meta_path :: "blk_meta \<Rightarrow> file_path" where
  "meta_path m \<equiv> block_path (bk_dir m) (bk_state m) (bk_id m)"

definition dir_states :: "dir_list \<Rightarrow> (u32 \<times> dir_state) list" where
  "dir_states l = map (\<lambda>(i, d). (i, vd_state d)) (dl_dirs l)"

definition dirs_inv :: "dir_list \<Rightarrow> bool" where
  "dirs_inv l \<longleftrightarrow> distinct (map fst (dir_states l)) \<and> (\<forall>(i, s) \<in> set (dir_states l). rs_dir_id s = i) \<and>
     (\<forall>(i, s) \<in> set (dir_states l). \<forall>(j, t) \<in> set (dir_states l). rs_base_path s = rs_base_path t \<longrightarrow> i = j)"

definition block_ok :: "vfs_dataset \<Rightarrow> i64 \<Rightarrow> blk_meta \<Rightarrow> bool" where
  "block_ok ds i m \<longleftrightarrow> bk_id m = i \<and> 0 \<le> i \<and> i < 2 ^ 63 \<and> 0 \<le> bk_len m \<and> bk_state m \<noteq> BkRecovering \<and>
     map_option vd_state (get_dir (ds_dir_list ds) (rs_dir_id (bk_dir m))) = Some (bk_dir m) \<and>
     (\<exists>n. map_of (ds_disk ds) (meta_path m) = Some n \<and> 0 \<le> n \<and> (if meta_is_final m then n = bk_len m else n \<le> bk_len m))"

definition counters_ok :: "blk_map \<Rightarrow> vfs_dir \<Rightarrow> bool" where
  "counters_ok M d \<longleftrightarrow> vd_final_bytes d = tally M (weight True (vd_id d)) \<and>
     vd_tmp_bytes d = tally M (weight False (vd_id d)) \<and> vd_final_bytes d + vd_tmp_bytes d < 2 ^ 63"

definition store_inv :: "vfs_dataset \<Rightarrow> bool" where
  "store_inv ds \<longleftrightarrow> dirs_inv (ds_dir_list ds) \<and>
     (\<forall>i m. map_of (ds_block_map ds) i = Some m \<longrightarrow> block_ok ds i m) \<and>
     (\<forall>p n. map_of (ds_disk ds) p = Some n \<longrightarrow> (\<exists>i m. map_of (ds_block_map ds) i = Some m \<and> p = meta_path m)) \<and>
     (\<forall>i d. get_dir (ds_dir_list ds) i = Some d \<longrightarrow> counters_ok (map_of (ds_block_map ds)) d)"

lemma tally_put:
  assumes "finite (dom M)"
  shows "tally (M(i \<mapsto> m)) w = tally M w - (case M i of None \<Rightarrow> 0 | Some m' \<Rightarrow> w m') + w m"
proof -
  have "dom M = insert i (dom M - {i})" if "M i \<noteq> None" using that by auto
  then have "tally M w = (\<Sum>j\<in>dom M - {i}. w (the (M j))) + (case M i of None \<Rightarrow> 0 | Some m' \<Rightarrow> w m')"
    using assms unfolding tally_def
    by (cases "M i") (auto simp: sum.remove[of "dom M" i] domIff)
  moreover have "tally (M(i \<mapsto> m)) w = (\<Sum>j\<in>dom M - {i}. w (the (M j))) + w m"
    using assms unfolding tally_def by (simp add: sum.insert_remove)
  ultimately show ?thesis by simp
qed

lemma tally_drop:
  assumes "finite (dom M)"
  shows "tally (M(i := None)) w = tally M w - (case M i of None \<Rightarrow> 0 | Some m' \<Rightarrow> w m')"
proof -
  have "tally M w = (\<Sum>j\<in>dom M - {i}. w (the (M j))) + (case M i of None \<Rightarrow> 0 | Some m' \<Rightarrow> w m')"
    using assms unfolding tally_def
    by (cases "M i") (auto simp: sum.remove[of "dom M" i] domIff)
  moreover have "tally (M(i := None)) w = (\<Sum>j\<in>dom M - {i}. w (the (M j)))"
    unfolding tally_def by (intro sum.cong) auto
  ultimately show ?thesis by simp
qed

lemma tally_ge:
  assumes "finite (dom M)" "M i = Some m" "\<And>j x. M j = Some x \<Longrightarrow> 0 \<le> w x"
  shows "w m \<le> tally M w" "0 \<le> tally M w"
proof -
  have all: "\<forall>j\<in>dom M. 0 \<le> w (the (M j))" using assms(3) by auto
  then show "0 \<le> tally M w" unfolding tally_def by (simp add: sum_nonneg)
  show "w m \<le> tally M w" unfolding tally_def
    using member_le_sum[of i "dom M" "\<lambda>j. w (the (M j))"] assms(1,2) all by auto
qed

lemma store_invD:
  assumes "store_inv ds"
  shows "dirs_inv (ds_dir_list ds)"
    and "map_of (ds_block_map ds) i = Some m \<Longrightarrow> block_ok ds i m"
    and "map_of (ds_disk ds) p = Some n \<Longrightarrow> \<exists>i m. map_of (ds_block_map ds) i = Some m \<and> p = meta_path m"
    and "get_dir (ds_dir_list ds) k = Some d \<Longrightarrow> counters_ok (map_of (ds_block_map ds)) d"
  using assms unfolding store_inv_def by blast+

lemma get_dir_state: "get_dir l i = Some d \<Longrightarrow> (i, vd_state d) \<in> set (dir_states l)"
  unfolding get_dir_def dir_states_def by (force dest!: map_of_SomeD)

lemma get_dir_id: "dirs_inv l \<Longrightarrow> get_dir l i = Some d \<Longrightarrow> vd_id d = i"
  using get_dir_state[of l i d] unfolding dirs_inv_def by blast

lemma get_dir_base:
  assumes "dirs_inv l" "get_dir l i = Some d" "get_dir l j = Some e" "rs_base_path (vd_state d) = rs_base_path (vd_state e)"
  shows "d = e"
proof -
  have "i = j" using assms(1,4) get_dir_state[OF assms(2)] get_dir_state[OF assms(3)] unfolding dirs_inv_def by blast
  then show ?thesis using assms(2,3) by simp
qed

lemma get_dir_with_dir [simp]:
  "get_dir (ds_dir_list (with_dir k f ds)) j = map_option (\<lambda>d. if j = k then f d else d) (get_dir (ds_dir_list ds) j)"
proof -
  have "map_of (map (\<lambda>(i, dir). (i, if i = k then f dir else dir)) xs) j = map_option (\<lambda>d. if j = k then f d else d) (map_of xs j)" for xs
    by (induction xs) auto
  then show ?thesis by (simp add: get_dir_def with_dir_def)
qed

lemma with_dir_frame [simp]:
  "ds_block_map (with_dir k f ds) = ds_block_map ds" "ds_disk (with_dir k f ds) = ds_disk ds"
  "ds_block_map (put_block m ds) = bt_insert (bk_id m) m (ds_block_map ds)" "ds_disk (put_block m ds) = ds_disk ds"
  "ds_dir_list (put_block m ds) = ds_dir_list ds"
  by (simp_all add: with_dir_def put_block_def)

lemma dirs_inv_with_dir:
  assumes "dirs_inv (ds_dir_list ds)" "\<And>d. vd_state (f d) = vd_state d"
  shows "dirs_inv (ds_dir_list (with_dir k f ds))"
proof -
  have "dir_states (ds_dir_list (with_dir k f ds)) = dir_states (ds_dir_list ds)"
    using assms(2) by (simp add: dir_states_def with_dir_def split_beta cong: if_cong)
  then show ?thesis using assms(1) by (simp add: dirs_inv_def)
qed

lemma block_ok_cong:
  assumes "map_of (ds_disk ds') (meta_path m) = map_of (ds_disk ds) (meta_path m)"
    and "\<And>k. map_option vd_state (get_dir (ds_dir_list ds') k) = map_option vd_state (get_dir (ds_dir_list ds) k)"
  shows "block_ok ds' i m \<longleftrightarrow> block_ok ds i m"
  using assms by (simp add: block_ok_def)

lemma with_dir_states:
  "(\<And>d. vd_state (f d) = vd_state d) \<Longrightarrow> map_option vd_state (map_option (\<lambda>d. if b then f d else d) x) = map_option vd_state x"
  by (cases x) simp_all

text \<open>The path of a block tells the block.\<close>

lemma meta_path_inject:
  assumes "store_inv ds" "block_ok ds i m" "block_ok ds j m'" "meta_path m = meta_path m'"
  shows "i = j"
  using assms(2-4) block_path_inject[of i j] unfolding block_ok_def by metis

lemma block_map_finite [simp]: "finite (dom (map_of (ds_block_map ds)))"
  by (rule finite_dom_map_of)

text \<open>How the counters of a directory change with a block: what the old version of the block had is
  given back, what the new one needs is added.\<close>

definition old_weight :: "vfs_dataset \<Rightarrow> i64 \<Rightarrow> bool \<Rightarrow> u32 \<Rightarrow> i64" where
  "old_weight ds i is_final dir_id = (case map_of (ds_block_map ds) i of None \<Rightarrow> 0 | Some m \<Rightarrow> weight is_final dir_id m)"

definition recounted :: "vfs_dataset \<Rightarrow> i64 \<Rightarrow> (bool \<Rightarrow> i64) \<Rightarrow> vfs_dir \<Rightarrow> vfs_dir \<Rightarrow> bool" where
  "recounted ds i new d d' \<longleftrightarrow> vd_state d' = vd_state d \<and>
     vd_final_bytes d' = vd_final_bytes d - old_weight ds i True (vd_id d) + new True \<and>
     vd_tmp_bytes d' = vd_tmp_bytes d - old_weight ds i False (vd_id d) + new False \<and>
     vd_final_bytes d' + vd_tmp_bytes d' < 2 ^ 63"

definition without_old :: "vfs_dataset \<Rightarrow> i64 \<Rightarrow> file_path \<Rightarrow> i64 option" where
  "without_old ds i = (case map_of (ds_block_map ds) i of
     None \<Rightarrow> map_of (ds_disk ds) | Some m \<Rightarrow> (map_of (ds_disk ds))(meta_path m := None))"

lemma without_old_other:
  assumes "store_inv ds" "map_of (ds_block_map ds) j = Some m" "j \<noteq> i"
  shows "without_old ds i (meta_path m) = map_of (ds_disk ds) (meta_path m)"
proof (cases "map_of (ds_block_map ds) i")
  case (Some m0)
  then have "meta_path m0 \<noteq> meta_path m"
    using meta_path_inject[OF assms(1) store_invD(2)[OF assms(1) Some] store_invD(2)[OF assms(1,2)]] assms(3) by blast
  then show ?thesis by (simp add: without_old_def Some)
qed (simp add: without_old_def)

lemma without_old_files:
  assumes "store_inv ds" "without_old ds i p = Some n"
  shows "\<exists>j m. map_of (ds_block_map ds) j = Some m \<and> p = meta_path m \<and> j \<noteq> i"
proof -
  have "map_of (ds_disk ds) p = Some n"
    using assms(2) by (auto simp: without_old_def split: option.splits if_splits)
  then obtain j m where j: "map_of (ds_block_map ds) j = Some m" "p = meta_path m" using store_invD(3)[OF assms(1)] by blast
  moreover have "j \<noteq> i" using assms(2) j by (auto simp: without_old_def split: if_splits)
  ultimately show ?thesis by blast
qed

text \<open>A block is put into the map, with its file and the counters of its directory; an older version of it
  was in the same directory.\<close>

lemma store_inv_put:
  assumes inv: "store_inv ds" and d: "get_dir (ds_dir_list ds) k = Some d"
    and m: "bk_dir m = vd_state d" "0 \<le> bk_id m" "bk_id m < 2 ^ 63" "0 \<le> bk_len m" "bk_state m \<noteq> BkRecovering"
    and n: "0 \<le> n" "if meta_is_final m then n = bk_len m else n \<le> bk_len m"
    and old: "\<And>m0. map_of (ds_block_map ds) (bk_id m) = Some m0 \<Longrightarrow> bk_dir m0 = vd_state d"
    and disk: "map_of files = (without_old ds (bk_id m))(meta_path m \<mapsto> n)"
    and count: "recounted ds (bk_id m) (\<lambda>b. weight b k m) d (f d)" and keep: "\<And>e. vd_state (f e) = vd_state e"
  shows "store_inv (put_block m (with_dir k f (ds\<lparr>ds_disk := files\<rparr>)))" (is "store_inv ?ds")
proof -
  let ?M = "map_of (ds_block_map ds)"
  have k: "vd_id d = k" using get_dir_id[OF store_invD(1)[OF inv] d] .
  have new_path: "meta_path m \<noteq> meta_path m'" if "?M j = Some m'" "j \<noteq> bk_id m" for j m'
    using store_invD(2)[OF inv that(1)] that(2) block_path_inject[OF m(2), of j] unfolding block_ok_def by metis
  have other: "block_ok ?ds j m'" if "?M j = Some m'" "j \<noteq> bk_id m" for j m'
  proof -
    have ok: "block_ok ds j m'" by (rule store_invD(2)[OF inv that(1)])
    have "map_of files (meta_path m') = map_of (ds_disk ds) (meta_path m')"
      using disk new_path[OF that] without_old_other[OF inv that] by simp
    then show ?thesis using ok keep by (subst block_ok_cong[of _ _ ds]) (simp_all add: with_dir_states)
  qed
  have this_ok: "block_ok ?ds (bk_id m) m"
    using m n d k keep disk unfolding block_ok_def by simp
  have blocks: "\<forall>j m'. map_of (ds_block_map ?ds) j = Some m' \<longrightarrow> block_ok ?ds j m'"
    using other this_ok by (auto split: if_splits)
  have files: "\<exists>j m'. map_of (ds_block_map ?ds) j = Some m' \<and> p = meta_path m'" if "map_of (ds_disk ?ds) p = Some l" for p l
  proof (cases "p = meta_path m")
    case True
    then show ?thesis by (intro exI[of _ "bk_id m"] exI[of _ m]) simp
  next
    case False
    then have "without_old ds (bk_id m) p = Some l" using that disk by simp
    then obtain j m' where "?M j = Some m'" "p = meta_path m'" "j \<noteq> bk_id m" using without_old_files[OF inv] by blast
    then show ?thesis by (intro exI[of _ j] exI[of _ m']) simp
  qed
  have tally: "tally (?M(bk_id m \<mapsto> m)) (weight b j) = tally ?M (weight b j) - old_weight ds (bk_id m) b j + weight b j m" for b j
    using tally_put[of ?M "bk_id m" m "weight b j"] by (simp add: old_weight_def)
  have counters: "counters_ok (map_of (ds_block_map ?ds)) e'" if got: "get_dir (ds_dir_list ?ds) j = Some e'" for j e'
  proof -
    obtain e where e: "get_dir (ds_dir_list ds) j = Some e" "e' = (if j = k then f e else e)"
      using got by (cases "get_dir (ds_dir_list ds) j") simp_all
    have j: "vd_id e = j" using get_dir_id[OF store_invD(1)[OF inv] e(1)] .
    note ce = store_invD(4)[OF inv e(1)]
    show ?thesis
    proof (cases "j = k")
      case True
      then show ?thesis using e ce d count k keep by (simp add: counters_ok_def recounted_def tally)
    next
      case False
      then have "weight b j m = 0" "old_weight ds (bk_id m) b j = 0" for b
        using m(1) k old by (auto simp: weight_def old_weight_def split: option.splits)
      then show ?thesis using e ce False j by (simp add: counters_ok_def tally)
    qed
  qed
  have "dirs_inv (ds_dir_list ?ds)" using dirs_inv_with_dir[of "ds\<lparr>ds_disk := files\<rparr>" f k] store_invD(1)[OF inv] keep by simp
  then show ?thesis using blocks files counters unfolding store_inv_def by blast
qed

lemma store_inv_drop:
  assumes inv: "store_inv ds" and m: "map_of (ds_block_map ds) i = Some m" and d: "get_dir (ds_dir_list ds) k = Some d"
    and dir: "bk_dir m = vd_state d" and disk: "map_of files = without_old ds i"
    and count: "recounted ds i (\<lambda>b. 0) d (f d)" and keep: "\<And>e. vd_state (f e) = vd_state e"
  shows "store_inv (with_dir k f (ds\<lparr>ds_block_map := bt_remove i (ds_block_map ds), ds_disk := files\<rparr>))" (is "store_inv ?ds")
proof -
  let ?M = "map_of (ds_block_map ds)"
  have k: "vd_id d = k" using get_dir_id[OF store_invD(1)[OF inv] d] .
  have "block_ok ?ds j m'" if "?M j = Some m'" "j \<noteq> i" for j m'
    using store_invD(2)[OF inv that(1)] without_old_other[OF inv that] keep
    by (subst block_ok_cong[of _ _ ds]) (simp_all add: with_dir_states disk)
  then have blocks: "\<forall>j m'. map_of (ds_block_map ?ds) j = Some m' \<longrightarrow> block_ok ?ds j m'" by auto
  have files: "\<exists>j m'. map_of (ds_block_map ?ds) j = Some m' \<and> p = meta_path m'" if "map_of (ds_disk ?ds) p = Some l" for p l
    using without_old_files[OF inv, of i p l] that disk by auto
  have tally: "tally (?M(i := None)) (weight b j) = tally ?M (weight b j) - old_weight ds i b j" for b j
    using tally_drop[of ?M i "weight b j"] by (simp add: old_weight_def)
  have counters: "counters_ok (map_of (ds_block_map ?ds)) e'" if got: "get_dir (ds_dir_list ?ds) j = Some e'" for j e'
  proof -
    obtain e where e: "get_dir (ds_dir_list ds) j = Some e" "e' = (if j = k then f e else e)"
      using got by (cases "get_dir (ds_dir_list ds) j") simp_all
    have j: "vd_id e = j" using get_dir_id[OF store_invD(1)[OF inv] e(1)] .
    note ce = store_invD(4)[OF inv e(1)]
    show ?thesis
    proof (cases "j = k")
      case True
      then show ?thesis using e ce d count k keep by (simp add: counters_ok_def recounted_def tally)
    next
      case False
      then have "old_weight ds i b j = 0" for b using m dir k by (simp add: weight_def old_weight_def)
      then show ?thesis using e ce False j by (simp add: counters_ok_def tally)
    qed
  qed
  have "dirs_inv (ds_dir_list ?ds)"
    using dirs_inv_with_dir[of "ds\<lparr>ds_block_map := bt_remove i (ds_block_map ds), ds_disk := files\<rparr>" f k] store_invD(1)[OF inv] keep by simp
  then show ?thesis using blocks files counters unfolding store_inv_def by blast
qed

subsection \<open>Counting space\<close>

lemma release_exact:
  assumes "0 \<le> n" "n \<le> (if b then vd_final_bytes d else vd_tmp_bytes d)"
    and "(if b then vd_final_bytes d else vd_tmp_bytes d) < 2 ^ 63"
  shows "release_space b n d =
    (if b then d\<lparr>vd_final_bytes := vd_final_bytes d - n\<rparr> else d\<lparr>vd_tmp_bytes := vd_tmp_bytes d - n\<rparr>)"
proof -
  have "is_i64 ((if b then vd_final_bytes d else vd_tmp_bytes d) - n)" using assms by (auto simp: is_i64_def)
  then show ?thesis using assms by (cases "n = 0") (simp_all add: release_space_def split: if_splits)
qed

lemma reserve_exact:
  assumes "0 \<le> n" "0 \<le> (if b then vd_final_bytes d else vd_tmp_bytes d)"
    and "(if b then vd_final_bytes d else vd_tmp_bytes d) + n < 2 ^ 63"
  shows "reserve_space b n d =
    (if b then d\<lparr>vd_final_bytes := vd_final_bytes d + n\<rparr> else d\<lparr>vd_tmp_bytes := vd_tmp_bytes d + n\<rparr>)"
proof -
  have "is_i64 ((if b then vd_final_bytes d else vd_tmp_bytes d) + n)" using assms by (auto simp: is_i64_def)
  then show ?thesis using assms by (cases "n = 0") (simp_all add: reserve_space_def split: if_splits)
qed

lemma space_keeps_state [simp]:
  "vd_state (release_space b n d) = vd_state d" "vd_state (reserve_space b n d) = vd_state d"
  by (simp_all add: release_space_def reserve_space_def)

lemma weight_nonneg: "store_inv ds \<Longrightarrow> map_of (ds_block_map ds) i = Some m \<Longrightarrow> 0 \<le> weight b k m"
  using store_invD(2)[of ds i m] by (simp add: weight_def block_ok_def)

text \<open>A block of a directory is counted in it, and no counter is negative.\<close>

lemma counter_bounds:
  assumes "store_inv ds" "get_dir (ds_dir_list ds) k = Some d"
  shows "0 \<le> vd_final_bytes d" "0 \<le> vd_tmp_bytes d" "vd_final_bytes d + vd_tmp_bytes d < 2 ^ 63"
    and "map_of (ds_block_map ds) i = Some m \<Longrightarrow> rs_dir_id (bk_dir m) = k \<Longrightarrow>
      bk_len m \<le> (if meta_is_final m then vd_final_bytes d else vd_tmp_bytes d)"
proof -
  let ?M = "map_of (ds_block_map ds)"
  have k: "vd_id d = k" using get_dir_id[OF store_invD(1)[OF assms(1)] assms(2)] .
  note c = store_invD(4)[OF assms, unfolded counters_ok_def k]
  have nonneg: "0 \<le> tally ?M (weight b k)" for b
    unfolding tally_def using weight_nonneg[OF assms(1)] by (intro sum_nonneg) (auto simp: domIff)
  show "0 \<le> vd_final_bytes d" "0 \<le> vd_tmp_bytes d" "vd_final_bytes d + vd_tmp_bytes d < 2 ^ 63"
    using c nonneg[of True] nonneg[of False] by simp_all
  assume m: "?M i = Some m" "rs_dir_id (bk_dir m) = k"
  have "weight (meta_is_final m) k m \<le> tally ?M (weight (meta_is_final m) k)"
    using m(1) weight_nonneg[OF assms(1)] by (rule tally_ge(1)[OF block_map_finite]) blast+
  then show "bk_len m \<le> (if meta_is_final m then vd_final_bytes d else vd_tmp_bytes d)"
    using c m(2) by (auto simp: weight_def split: if_splits)
qed

text \<open>The counters when one version of a block is replaced by another, and when it goes away.\<close>

lemma recount_new:
  assumes "store_inv ds" "get_dir (ds_dir_list ds) k = Some d" "map_of (ds_block_map ds) (bk_id m) = None"
    and "bk_dir m = vd_state d" "0 \<le> bk_len m" "vd_final_bytes d + vd_tmp_bytes d + bk_len m < 2 ^ 63"
  shows "recounted ds (bk_id m) (\<lambda>b. weight b k m) d (reserve_space (meta_is_final m) (bk_len m) d)"
  using counter_bounds[OF assms(1,2)] assms get_dir_id[OF store_invD(1)[OF assms(1)] assms(2)]
    reserve_exact[of "bk_len m" "meta_is_final m" d]
  by (auto simp: recounted_def old_weight_def weight_def)

lemma recount_gone:
  assumes "store_inv ds" "get_dir (ds_dir_list ds) k = Some d" "map_of (ds_block_map ds) i = Some m" "bk_dir m = vd_state d"
  shows "recounted ds i (\<lambda>b. 0) d (release_space (meta_is_final m) (bk_len m) d)"
proof -
  have k: "rs_dir_id (bk_dir m) = k" "vd_id d = k" using get_dir_id[OF store_invD(1)[OF assms(1)] assms(2)] assms(4) by simp_all
  have "0 \<le> bk_len m" using store_invD(2)[OF assms(1,3)] by (simp add: block_ok_def)
  then show ?thesis
    using counter_bounds(1-3)[OF assms(1,2)] counter_bounds(4)[OF assms(1,2,3) k(1)] k assms(3)
      release_exact[of "bk_len m" "meta_is_final m" d]
    by (auto simp: recounted_def old_weight_def weight_def split: if_splits)
qed

lemma recount_changed:
  assumes "store_inv ds" "get_dir (ds_dir_list ds) k = Some d" "map_of (ds_block_map ds) (bk_id m') = Some m"
    and "bk_dir m = vd_state d" "bk_dir m' = vd_state d" "0 \<le> bk_len m'"
    and "vd_final_bytes d + vd_tmp_bytes d - bk_len m + bk_len m' < 2 ^ 63"
  shows "recounted ds (bk_id m') (\<lambda>b. weight b k m') d
    ((reserve_space (meta_is_final m') (bk_len m') \<circ> release_space (meta_is_final m) (bk_len m)) d)"
proof -
  have k: "rs_dir_id (bk_dir m) = k" "rs_dir_id (bk_dir m') = k" "vd_id d = k"
    using get_dir_id[OF store_invD(1)[OF assms(1)] assms(2)] assms(4,5) by simp_all
  have len: "0 \<le> bk_len m" using store_invD(2)[OF assms(1,3)] by (simp add: block_ok_def)
  note c = counter_bounds(1-3)[OF assms(1,2)] counter_bounds(4)[OF assms(1,2,3) k(1)]
  let ?d = "release_space (meta_is_final m) (bk_len m) d"
  have rel: "?d = (if meta_is_final m then d\<lparr>vd_final_bytes := vd_final_bytes d - bk_len m\<rparr> else d\<lparr>vd_tmp_bytes := vd_tmp_bytes d - bk_len m\<rparr>)"
    using c len by (intro release_exact) (auto split: if_splits)
  have "reserve_space (meta_is_final m') (bk_len m') ?d =
    (if meta_is_final m' then ?d\<lparr>vd_final_bytes := vd_final_bytes ?d + bk_len m'\<rparr> else ?d\<lparr>vd_tmp_bytes := vd_tmp_bytes ?d + bk_len m'\<rparr>)"
    using c len assms(6,7) by (intro reserve_exact) (auto simp: rel split: if_splits)
  then show ?thesis
    using c len k assms(3,6,7) by (auto simp: recounted_def old_weight_def weight_def rel)
qed

subsection \<open>The operations keep the invariant\<close>

lemma get_block_path_eq: "get_block_path W m = Inr p \<Longrightarrow> p = meta_path m"
  by (simp add: get_block_path_def Let_def split: if_splits)

lemma file_len_eq: "file_len W p k = Inr n \<Longrightarrow> map_of k p = Some n"
  by (simp add: file_len_def split: if_splits)

lemma rename_file_cases:
  assumes "rename_file W p q k = (r, k')"
  shows "(\<exists>e. r = Inl e \<and> k' = k) \<or> (\<exists>n. r = Inr () \<and> map_of k p = Some n \<and> map_of k' = (map_of k)(p := None, q \<mapsto> n))"
  using assms by (auto simp: rename_file_def fun_eq_iff split: option.splits if_splits)

lemma vfs_create_cases:
  assumes "vfs_create_block W d block k = (r, k')"
  shows "(\<exists>e. r = Inl e \<and> k' = k) \<or>
    r = Inr (meta_new (eb_id block) (eb_len block) d) \<and>
      map_of k' = (map_of k)(meta_path (meta_new (eb_id block) (eb_len block) d) \<mapsto> 0)"
  using assms
  by (auto simp: vfs_create_block_def Let_def bind_op_def create_file_at_def dest!: get_block_path_eq split: sum.splits if_splits)

lemma vfs_finalize_cases:
  assumes "vfs_finalize_block W m k = (r, k')"
  shows "(\<exists>e. r = Inl e \<and> k' = k) \<or>
    (\<exists>n. r = Inr (meta_with_final m n) \<and> map_of k (meta_path m) = Some n \<and>
       map_of k' = (map_of k)(meta_path m := None, meta_path (meta_with_final m n) \<mapsto> n))"
  using assms
  by (auto simp: vfs_finalize_block_def Let_def bind_op_def dest!: get_block_path_eq file_len_eq rename_file_cases
      split: sum.splits prod.splits)

lemma vfs_append_cases:
  assumes "vfs_append_block W d block m k = (r, k')"
  shows "(\<exists>e. r = Inl e \<and> k' = k) \<or>
    (\<exists>n. r = Inr (meta_new (bk_id m) (eb_len block) d) \<and> map_of k (meta_path m) = Some n \<and> n < eb_len block \<and>
       map_of k' = (map_of k)(meta_path m := None, meta_path (meta_new (bk_id m) (eb_len block) d) \<mapsto> n))"
  using assms
  by (auto simp: vfs_append_block_def Let_def bind_op_def fun_upd_idem dest!: get_block_path_eq file_len_eq rename_file_cases
      split: sum.splits prod.splits if_splits)

lemma get_next_dir_dirs: "get_next_dir W st n l = (r, l') \<Longrightarrow> dl_dirs l' = dl_dirs l"
  by (auto simp: get_next_dir_def Let_def split: if_splits option.splits)

lemma choose_dir_dirs:
  assumes "choose_dir W block l = (r, l')" shows "dl_dirs l' = dl_dirs l"
proof -
  obtain r1 l1 where 1: "get_next_dir W (eb_storage_type block) (eb_len block) l = (r1, l1)" by fastforce
  obtain r2 l2 where 2: "get_next_dir W Disk (eb_len block) l1 = (r2, l2)" by fastforce
  show ?thesis
    using assms get_next_dir_dirs[OF 1] get_next_dir_dirs[OF 2]
    by (auto simp: choose_dir_def bind_op_def 1 2 split: sum.splits if_splits)
qed

lemma store_inv_cur:
  assumes "store_inv ds" "dl_dirs l = dl_dirs (ds_dir_list ds)"
  shows "store_inv (ds\<lparr>ds_dir_list := l\<rparr>)"
proof -
  have "get_dir l = get_dir (ds_dir_list ds)" "dir_states l = dir_states (ds_dir_list ds)"
    using assms(2) by (simp_all add: get_dir_def fun_eq_iff dir_states_def)
  moreover from this have "dirs_inv l" using store_invD(1)[OF assms(1)] by (simp add: dirs_inv_def)
  moreover have "block_ok (ds\<lparr>ds_dir_list := l\<rparr>) i m \<longleftrightarrow> block_ok ds i m" for i m
    using calculation(1) by (intro block_ok_cong) simp_all
  ultimately show ?thesis using assms(1) unfolding store_inv_def by simp
qed

text \<open>A file call that fails leaves the directories as they are, up to the position of the chooser.\<close>

lemma on_disk_eq: "m (ds_disk ds) = (r, k) \<Longrightarrow> on_disk m ds = (r, ds\<lparr>ds_disk := k\<rparr>)"
  by (simp add: on_disk_def)

lemma block_dir:
  assumes "store_inv ds" "map_of (ds_block_map ds) i = Some m"
  obtains d where "get_dir (ds_dir_list ds) (vd_id d) = Some d" "bk_dir m = vd_state d"
proof -
  have "map_option vd_state (get_dir (ds_dir_list ds) (rs_dir_id (bk_dir m))) = Some (bk_dir m)"
    using store_invD(2)[OF assms] by (simp add: block_ok_def)
  then obtain d where d: "get_dir (ds_dir_list ds) (rs_dir_id (bk_dir m)) = Some d" "vd_state d = bk_dir m" by blast
  show thesis by (rule that[of d]) (simp_all add: d)
qed

lemma put_with_dir: "with_dir k f (put_block m ds) = put_block m (with_dir k f ds)"
  by (cases ds) (simp add: put_block_def with_dir_def)

lemma create_keeps_inv:
  assumes inv: "store_inv ds" and b: "0 \<le> eb_id block" "eb_id block < 2 ^ 63" "0 \<le> eb_len block"
    and fits: "\<And>k d. get_dir (ds_dir_list ds) k = Some d \<Longrightarrow> vd_final_bytes d + vd_tmp_bytes d + eb_len block < 2 ^ 63"
    and op: "ds_create_block W block ds = (r, ds')"
  shows "store_inv ds'"
proof (cases "map_of (ds_block_map ds) (eb_id block)")
  case None
  obtain r1 l where 1: "choose_dir W block (ds_dir_list ds) = (r1, l)" by fastforce
  let ?ds = "ds\<lparr>ds_dir_list := l\<rparr>"
  have inv1: "store_inv ?ds" using store_inv_cur[OF inv choose_dir_dirs[OF 1]] .
  have dirs: "get_dir l = get_dir (ds_dir_list ds)" using choose_dir_dirs[OF 1] by (simp add: get_dir_def fun_eq_iff)
  show ?thesis
  proof (cases "\<exists>k d. r1 = Inr k \<and> get_dir l k = Some d")
    case False
    then have "ds' = ?ds"
      using op None 1 by (cases r1) (auto simp: ds_create_block_def bind_op_def on_dirs_def find_dir_def split: option.splits)
    then show ?thesis using inv1 by simp
  next
    case True
    then obtain k d where kd: "r1 = Inr k" "get_dir l k = Some d" by blast
    let ?m = "meta_new (eb_id block) (eb_len block) d"
    obtain r2 files where 2: "vfs_create_block W d block (ds_disk ds) = (r2, files)" by fastforce
    have run: "(r, ds') = (case r2 of Inl e \<Rightarrow> (Inl e, ?ds\<lparr>ds_disk := files\<rparr>)
        | Inr m \<Rightarrow> (Inr m, with_dir k (reserve_space False (eb_len block)) (put_block m (?ds\<lparr>ds_disk := files\<rparr>))))"
      using op None 1 2 kd by (simp add: ds_create_block_def bind_op_def on_dirs_def find_dir_def on_disk_def split: sum.splits)
    have m: "bk_id ?m = eb_id block" "bk_len ?m = eb_len block" "bk_dir ?m = vd_state d" "bk_state ?m = BkWriting" "\<not> meta_is_final ?m"
      by (simp_all add: meta_new_def meta_is_final_def)
    from vfs_create_cases[OF 2] show ?thesis
    proof
      assume "\<exists>e. r2 = Inl e \<and> files = ds_disk ds"
      then show ?thesis using run inv1 by auto
    next
      assume ok: "r2 = Inr ?m \<and> map_of files = (map_of (ds_disk ds))(meta_path ?m \<mapsto> 0)"
      have "store_inv (put_block ?m (with_dir k (reserve_space False (eb_len block)) (?ds\<lparr>ds_disk := files\<rparr>)))"
      proof (rule store_inv_put[OF inv1])
        show "map_of files = (without_old ?ds (bk_id ?m))(meta_path ?m \<mapsto> 0)"
          using ok None m(1) by (simp add: without_old_def)
        show "recounted ?ds (bk_id ?m) (\<lambda>b. weight b k ?m) d (reserve_space False (eb_len block) d)"
          using recount_new[OF inv1, of k d ?m] kd(2) None b(3) fits[of k d] m dirs by simp
      qed (use kd(2) None b m in simp_all)
      then show ?thesis using run ok by (simp add: put_with_dir)
    qed
  qed
qed (use op inv in \<open>simp add: ds_create_block_def\<close>)

lemma finalize_keeps_inv:
  assumes inv: "store_inv ds" and op: "ds_finalize_block W block ds = (r, ds')"
  shows "store_inv ds'"
proof (cases "map_of (ds_block_map ds) (eb_id block)")
  case (Some m)
  show ?thesis
  proof (cases "bk_state m = BkWriting")
    case True
    obtain d where d: "get_dir (ds_dir_list ds) (vd_id d) = Some d" "bk_dir m = vd_state d"
      using inv Some by (rule block_dir)
    obtain r2 files where 2: "vfs_finalize_block W m (ds_disk ds) = (r2, files)" by fastforce
    have run: "(r, ds') = (case r2 of Inl e \<Rightarrow> (Inl e, ds\<lparr>ds_disk := files\<rparr>)
        | Inr m' \<Rightarrow> (Inr m', put_block m' (with_dir (vd_id d) (reserve_space True (bk_len m') \<circ> release_space False (bk_len m)) (ds\<lparr>ds_disk := files\<rparr>))))"
      using op Some True 2 d by (simp add: ds_finalize_block_def bind_op_def ds_get_block_check_def find_dir_def on_disk_def split: sum.splits)
    from vfs_finalize_cases[OF 2] show ?thesis
    proof
      assume "\<exists>e. r2 = Inl e \<and> files = ds_disk ds"
      then show ?thesis using run inv by auto
    next
      assume "\<exists>n. r2 = Inr (meta_with_final m n) \<and> map_of (ds_disk ds) (meta_path m) = Some n \<and>
        map_of files = (map_of (ds_disk ds))(meta_path m := None, meta_path (meta_with_final m n) \<mapsto> n)"
      then obtain n where n: "r2 = Inr (meta_with_final m n)" "map_of (ds_disk ds) (meta_path m) = Some n"
          "map_of files = (map_of (ds_disk ds))(meta_path m := None, meta_path (meta_with_final m n) \<mapsto> n)" by blast
      let ?m = "meta_with_final m n"
      have m: "bk_id m = eb_id block" "0 \<le> bk_id m" "bk_id m < 2 ^ 63" "0 \<le> n" "n \<le> bk_len m" "\<not> meta_is_final m"
        using store_invD(2)[OF inv Some] n(2) True by (auto simp: block_ok_def meta_is_final_def)
      have m': "bk_id ?m = eb_id block" "bk_len ?m = n" "bk_dir ?m = vd_state d" "bk_state ?m = BkFinalized" "meta_is_final ?m"
        using m(1) d(2) by (simp_all add: meta_with_final_def meta_is_final_def)
      have "store_inv (put_block ?m (with_dir (vd_id d) (reserve_space True n \<circ> release_space False (bk_len m)) (ds\<lparr>ds_disk := files\<rparr>)))"
      proof (rule store_inv_put[OF inv])
        show "map_of files = (without_old ds (bk_id ?m))(meta_path ?m \<mapsto> n)"
          using n(3) Some m'(1) by (simp add: without_old_def)
        show "recounted ds (bk_id ?m) (\<lambda>b. weight b (vd_id d) ?m) d ((reserve_space True n \<circ> release_space False (bk_len m)) d)"
          using recount_changed[OF inv, of "vd_id d" d ?m m] d Some m m' counter_bounds(3)[OF inv d(1)] by simp
      qed (use d Some m m' in auto)
      then show ?thesis using run n(1) by (simp add: meta_with_final_def)
    qed
  qed (use op inv Some in \<open>auto simp: ds_finalize_block_def bind_op_def ds_get_block_check_def\<close>)
qed (use op inv in \<open>auto simp: ds_finalize_block_def bind_op_def ds_get_block_check_def\<close>)

lemma append_keeps_inv:
  assumes inv: "store_inv ds" and op: "ds_append_block W expected_len block ds = (r, ds')" and b: "0 \<le> eb_len block"
    and fits: "\<And>k d. get_dir (ds_dir_list ds) k = Some d \<Longrightarrow> vd_final_bytes d + vd_tmp_bytes d + eb_len block < 2 ^ 63"
  shows "store_inv ds'"
proof (cases "map_of (ds_block_map ds) (eb_id block)")
  case (Some m)
  show ?thesis
  proof (cases "bk_len m = expected_len \<and> bk_state m \<noteq> BkRecovering")
    case True
    obtain d where d: "get_dir (ds_dir_list ds) (vd_id d) = Some d" "bk_dir m = vd_state d"
      using inv Some by (rule block_dir)
    obtain r2 files where 2: "vfs_append_block W d block m (ds_disk ds) = (r2, files)" by fastforce
    have run: "(r, ds') = (case r2 of Inl e \<Rightarrow> (Inl e, ds\<lparr>ds_disk := files\<rparr>)
        | Inr m' \<Rightarrow> (Inr m', put_block m' (with_dir (vd_id d) (reserve_space False (eb_len block) \<circ> release_space (meta_is_final m) (bk_len m)) (ds\<lparr>ds_disk := files\<rparr>))))"
      using op Some True 2 d by (auto simp: ds_append_block_def bind_op_def ds_get_block_check_def find_dir_def on_disk_def split: sum.splits)
    from vfs_append_cases[OF 2] show ?thesis
    proof
      assume "\<exists>e. r2 = Inl e \<and> files = ds_disk ds"
      then show ?thesis using run inv by auto
    next
      let ?m = "meta_new (bk_id m) (eb_len block) d"
      assume "\<exists>n. r2 = Inr ?m \<and> map_of (ds_disk ds) (meta_path m) = Some n \<and> n < eb_len block \<and>
        map_of files = (map_of (ds_disk ds))(meta_path m := None, meta_path ?m \<mapsto> n)"
      then obtain n where n: "r2 = Inr ?m" "map_of (ds_disk ds) (meta_path m) = Some n" "n < eb_len block"
          "map_of files = (map_of (ds_disk ds))(meta_path m := None, meta_path ?m \<mapsto> n)" by blast
      have m: "bk_id m = eb_id block" "0 \<le> bk_id m" "bk_id m < 2 ^ 63" "0 \<le> n" "0 \<le> bk_len m"
        using store_invD(2)[OF inv Some] n(2) by (auto simp: block_ok_def)
      have m': "bk_id ?m = eb_id block" "bk_len ?m = eb_len block" "bk_dir ?m = vd_state d" "bk_state ?m = BkWriting" "\<not> meta_is_final ?m"
        using m(1) by (simp_all add: meta_new_def meta_is_final_def)
      have "store_inv (put_block ?m (with_dir (vd_id d) (reserve_space False (eb_len block) \<circ> release_space (meta_is_final m) (bk_len m)) (ds\<lparr>ds_disk := files\<rparr>)))"
      proof (rule store_inv_put[OF inv])
        show "map_of files = (without_old ds (bk_id ?m))(meta_path ?m \<mapsto> n)"
          using n(4) Some m'(1) by (simp add: without_old_def)
        show "recounted ds (bk_id ?m) (\<lambda>b. weight b (vd_id d) ?m) d ((reserve_space False (eb_len block) \<circ> release_space (meta_is_final m) (bk_len m)) d)"
          using recount_changed[OF inv, of "vd_id d" d ?m m] d Some m m' b fits[OF d(1)] by simp
      qed (use d Some m m' n(3) b in auto)
      then show ?thesis using run n(1) by simp
    qed
  qed (use op inv Some in \<open>auto simp: ds_append_block_def bind_op_def ds_get_block_check_def split: if_splits\<close>)
qed (use op inv in \<open>auto simp: ds_append_block_def bind_op_def ds_get_block_check_def\<close>)

text \<open>Removing a block: the operation succeeds when the operating system performs its calls.\<close>

lemma removed_files:
  assumes inv: "store_inv ds" and m: "map_of (ds_block_map ds) i = Some m"
    and files: "map_of files = (map_of (ds_disk ds))(meta_path m := None)" and d: "get_dir (ds_dir_list ds) (vd_id d) = Some d" "bk_dir m = vd_state d"
  shows "store_inv (with_dir (vd_id d) (release_space (meta_is_final m) (bk_len m))
    (ds\<lparr>ds_block_map := bt_remove i (ds_block_map ds), ds_disk := files\<rparr>))"
  using recount_gone[OF inv d(1) m d(2)] m files
  by (intro store_inv_drop[OF inv m d]) (simp_all add: without_old_def)

lemma remove_file_cases:
  assumes "remove_file W p k = (r, k')"
  shows "(\<exists>e. r = Inl e \<and> k' = k \<and> (map_of k p = None \<or> \<not> os_performs W (RemoveFile p))) \<or>
    r = Inr () \<and> map_of k' = (map_of k)(p := None)"
  using assms by (auto simp: remove_file_def split: if_splits)

lemma abort_keeps_inv:
  assumes inv: "store_inv ds" and op: "ds_abort_block W i ds = (r, ds')" and os: "isl r \<Longrightarrow> \<forall>c. os_performs W c"
  shows "store_inv ds'"
proof (cases "map_of (ds_block_map ds) i")
  case (Some m)
  obtain d where d: "get_dir (ds_dir_list ds) (vd_id d) = Some d" "bk_dir m = vd_state d" using inv Some by (rule block_dir)
  obtain r2 files where 2: "remove_file W (meta_path m) (ds_disk ds) = (r2, files)" by fastforce
  have there: "map_of (ds_disk ds) (meta_path m) \<noteq> None" using store_invD(2)[OF inv Some] by (auto simp: block_ok_def)
  have path: "get_block_path W m = Inr (meta_path m)"
    using op os Some d by (cases "os_performs W (MakeDir (butlast (meta_path m)))")
      (auto simp: ds_abort_block_def bind_op_def find_dir_def get_block_path_def Let_def)
  have run: "(r, ds') = (case r2 of Inl e \<Rightarrow> (Inl e, ds\<lparr>ds_block_map := bt_remove i (ds_block_map ds), ds_disk := files\<rparr>)
      | Inr _ \<Rightarrow> (Inr (), with_dir (vd_id d) (release_space (meta_is_final m) (bk_len m)) (ds\<lparr>ds_block_map := bt_remove i (ds_block_map ds), ds_disk := files\<rparr>)))"
    using op Some d 2 path by (auto simp: ds_abort_block_def bind_op_def find_dir_def on_disk_def split: sum.splits)
  then have "r2 = Inr () \<and> map_of files = (map_of (ds_disk ds))(meta_path m := None)"
    using remove_file_cases[OF 2] there os by auto
  then show ?thesis using run removed_files[OF inv Some _ d] by simp
qed (use op inv in \<open>simp add: ds_abort_block_def\<close>)

lemma async_remove_keeps_inv:
  assumes inv: "store_inv ds" and op: "async_remove_block W i ds = (r, ds')" and os: "isl r \<Longrightarrow> \<forall>c. os_performs W c"
  shows "store_inv ds'"
proof (cases "map_of (ds_block_map ds) i")
  case (Some m)
  obtain d where d: "get_dir (ds_dir_list ds) (vd_id d) = Some d" "bk_dir m = vd_state d" using inv Some by (rule block_dir)
  obtain r2 files where 2: "remove_file W (meta_path m) (ds_disk ds) = (r2, files)" by fastforce
  have there: "map_of (ds_disk ds) (meta_path m) \<noteq> None" using store_invD(2)[OF inv Some] by (auto simp: block_ok_def)
  have path: "get_block_path W m = Inr (meta_path m)"
    using op os Some d by (cases "os_performs W (MakeDir (butlast (meta_path m)))")
      (auto simp: async_remove_block_def bind_op_def get_block_path_def Let_def)
  have run: "(r, ds') = (case r2 of Inl e \<Rightarrow> (Inl e, ds\<lparr>ds_block_map := bt_remove i (ds_block_map ds), ds_disk := files\<rparr>)
      | Inr _ \<Rightarrow> (Inr m, with_dir (vd_id d) (release_space (meta_is_final m) (bk_len m)) (ds\<lparr>ds_block_map := bt_remove i (ds_block_map ds), ds_disk := files\<rparr>)))"
    using op Some d 2 path there by (auto simp: async_remove_block_def bind_op_def find_dir_def on_disk_def split: sum.splits)
  then have "r2 = Inr () \<and> map_of files = (map_of (ds_disk ds))(meta_path m := None)"
    using remove_file_cases[OF 2] there os by auto
  then show ?thesis using run removed_files[OF inv Some _ d] by simp
qed (use op inv in \<open>simp add: async_remove_block_def\<close>)

text \<open>The file of a block that is written grows up to the size of the block.\<close>

lemma write_keeps_inv:
  assumes inv: "store_inv ds" and m: "map_of (ds_block_map ds) i = Some m" "bk_state m = BkWriting" "0 \<le> n" "n \<le> bk_len m"
    and files: "map_of files = (map_of (ds_disk ds))(meta_path m \<mapsto> n)"
  shows "store_inv (ds\<lparr>ds_disk := files\<rparr>)" (is "store_inv ?ds")
proof -
  have "block_ok ?ds j m'" if j: "map_of (ds_block_map ds) j = Some m'" for j m'
  proof (cases "j = i")
    case True
    then show ?thesis using store_invD(2)[OF inv m(1)] m j files by (auto simp: block_ok_def meta_is_final_def)
  next
    case False
    then have "meta_path m \<noteq> meta_path m'" using meta_path_inject[OF inv store_invD(2)[OF inv m(1)] store_invD(2)[OF inv j]] by blast
    then show ?thesis using store_invD(2)[OF inv j] files by (subst block_ok_cong[of _ _ ds]) simp_all
  qed
  moreover have "\<exists>j m'. map_of (ds_block_map ds) j = Some m' \<and> p = meta_path m'" if "map_of files p = Some l" for p l
    using that files m(1) store_invD(3)[OF inv, of p] by (cases "p = meta_path m") auto
  ultimately show ?thesis using inv unfolding store_inv_def by simp
qed

lemma check_keeps_inv:
  assumes inv: "store_inv ds" shows "store_inv (snd (get_and_check_storages W ds))" (is "store_inv ?ds")
proof -
  let ?g = "\<lambda>d. if os_check_dir W (rs_base_path (vd_state d)) then d else d\<lparr>vd_check_failed := True\<rparr>"
  have g: "get_dir (ds_dir_list ?ds) k = map_option ?g (get_dir (ds_dir_list ds) k)" for k
  proof -
    have "map_of (map (\<lambda>(i, d). (i, ?g d)) xs) k = map_option ?g (map_of xs k)" for xs by (induction xs) auto
    then show ?thesis by (simp add: get_and_check_storages_def get_dir_def)
  qed
  have "dir_states (ds_dir_list ?ds) = dir_states (ds_dir_list ds)"
    by (simp add: get_and_check_storages_def dir_states_def split_beta)
  then have "dirs_inv (ds_dir_list ?ds)" using store_invD(1)[OF inv] by (simp add: dirs_inv_def)
  moreover have same: "ds_block_map ?ds = ds_block_map ds" "ds_disk ?ds = ds_disk ds" by (simp_all add: get_and_check_storages_def)
  moreover have "block_ok ?ds i m \<longleftrightarrow> block_ok ds i m" for i m
  proof (rule block_ok_cong)
    show "map_option vd_state (get_dir (ds_dir_list ?ds) k) = map_option vd_state (get_dir (ds_dir_list ds) k)" for k
      unfolding g by (cases "get_dir (ds_dir_list ds) k") simp_all
  qed (simp add: same)
  moreover have "counters_ok M (d\<lparr>vd_check_failed := True\<rparr>) \<longleftrightarrow> counters_ok M d" for M d by (simp add: counters_ok_def)
  ultimately show ?thesis using inv unfolding store_inv_def by (auto simp: g)
qed

subsection \<open>The steps of a data set\<close>

text \<open>
  What a worker does to its data set, in any order: the operations with any answers of the operating
  system, and the client writing to the file of an open block. A removal whose system calls fail leaves a
  file without a block behind and is not a step.
\<close>

definition block_admissible :: "extended_block \<Rightarrow> vfs_dataset \<Rightarrow> bool" where
  "block_admissible block ds \<longleftrightarrow> 0 \<le> eb_id block \<and> eb_id block < 2 ^ 63 \<and> 0 \<le> eb_len block \<and>
     list_all (\<lambda>(_, d). vd_final_bytes d + vd_tmp_bytes d + eb_len block < 2 ^ 63) (dl_dirs (ds_dir_list ds))"

inductive store_step :: "vfs_dataset \<Rightarrow> vfs_dataset \<Rightarrow> bool" where
  create_step: "block_admissible block ds \<Longrightarrow> ds_create_block W block ds = (r, ds') \<Longrightarrow> store_step ds ds'"
| append_step: "block_admissible block ds \<Longrightarrow> ds_append_block W expected_len block ds = (r, ds') \<Longrightarrow> store_step ds ds'"
| finalize_step: "ds_finalize_block W block ds = (r, ds') \<Longrightarrow> store_step ds ds'"
| abort_step: "ds_abort_block W i ds = (r, ds') \<Longrightarrow> (isl r \<Longrightarrow> \<forall>c. os_performs W c) \<Longrightarrow> store_step ds ds'"
| remove_step: "async_remove_block W i ds = (r, ds') \<Longrightarrow> (isl r \<Longrightarrow> \<forall>c. os_performs W c) \<Longrightarrow> store_step ds ds'"
| write_step: "map_of (ds_block_map ds) i = Some m \<Longrightarrow> bk_state m = BkWriting \<Longrightarrow> 0 \<le> n \<Longrightarrow> n \<le> bk_len m \<Longrightarrow>
    store_step ds (ds\<lparr>ds_disk := bt_insert (meta_path m) n (ds_disk ds)\<rparr>)"
| check_step: "store_step ds (snd (get_and_check_storages W ds))"

definition empty_store :: "vfs_dataset \<Rightarrow> bool" where
  "empty_store ds \<longleftrightarrow> dirs_inv (ds_dir_list ds) \<and> ds_block_map ds = [] \<and> ds_disk ds = [] \<and>
     list_all (\<lambda>(_, d). vd_final_bytes d = 0 \<and> vd_tmp_bytes d = 0) (dl_dirs (ds_dir_list ds))"

abbreviation store_reach :: "vfs_dataset \<Rightarrow> vfs_dataset \<Rightarrow> bool" where
  "store_reach \<equiv> store_step\<^sup>*\<^sup>*"

lemma empty_data_inv:
  assumes "empty_store ds" shows "store_inv ds"
proof -
  have "vd_final_bytes d = 0 \<and> vd_tmp_bytes d = 0" if "get_dir (ds_dir_list ds) k = Some d" for k d
    using assms that unfolding get_dir_def empty_store_def list_all_iff by (auto dest!: map_of_SomeD)
  then show ?thesis using assms by (auto simp: store_inv_def empty_store_def counters_ok_def tally_def)
qed

lemma block_admissible_fits:
  assumes "block_admissible block ds" "get_dir (ds_dir_list ds) k = Some d"
  shows "vd_final_bytes d + vd_tmp_bytes d + eb_len block < 2 ^ 63"
proof -
  have "(k, d) \<in> set (dl_dirs (ds_dir_list ds))" using assms(2) unfolding get_dir_def by (rule map_of_SomeD)
  then show ?thesis using assms(1) unfolding block_admissible_def list_all_iff by blast
qed

lemma store_step_inv:
  assumes "store_step ds ds'" "store_inv ds" shows "store_inv ds'"
  using assms
proof (induction rule: store_step.induct)
  case (create_step block ds W r ds')
  then show ?case using create_keeps_inv[of ds block W r ds'] block_admissible_fits[of block ds] by (simp add: block_admissible_def)
next
  case (append_step block ds W expected_len r ds')
  then show ?case using append_keeps_inv[of ds W expected_len block r ds'] block_admissible_fits[of block ds] by (simp add: block_admissible_def)
next
  case (write_step ds i m n)
  then show ?case by (intro write_keeps_inv[of ds i m n]) simp_all
qed (blast intro: finalize_keeps_inv abort_keeps_inv async_remove_keeps_inv check_keeps_inv)+

interpretation store_system: invariant_system store_step store_inv
  by unfold_locales (rule store_step_inv)

end
