(* ===== verification/Store_Theorems.thy ===== *)
theory Store_Theorems
  imports Worker_Store_Inv
begin

text \<open>
  The properties of the block store of a worker: the state of its data set agrees with the files on its
  disks whatever the order of the operations; a directory is chosen whenever there is one with room; a
  restart finds the blocks again. Two counters do not do what they are for: the space that is reserved
  for blocks never reduces what a directory reports as available, and a block that was open at a restart
  is counted twice once it is finalized.
\<close>

subsection \<open>The choice of a directory\<close>

definition indices_ok :: "dir_list \<Rightarrow> bool" where
  "indices_ok l \<longleftrightarrow> list_all (\<lambda>(_, index). index < length (dl_dirs l)) (dl_cur_dirs l)"

definition some_fits :: "worker_os \<Rightarrow> dir_list \<Rightarrow> storage_type \<Rightarrow> i64 \<Rightarrow> bool" where
  "some_fits W l st n \<longleftrightarrow> list_ex (\<lambda>(_, d). can_allocate W d st n) (dl_dirs l)"

text \<open>The loop visits the positions after the current one, with fuel for the way back to the start.\<close>

lemma wrap_start:
  assumes "start < n" "0 < i" "i \<le> n"
  shows "(start + i) mod n = start \<longleftrightarrow> i = (n :: nat)"
  using assms by (cases "start + i < n") (auto simp: le_mod_geq)

lemma next_dir_turns:
  assumes "start < length dirs" "j < length dirs" "fuel = length dirs - j"
  shows "case next_dir_loop W dirs st n start fuel ((start + j) mod length dirs) of
      None \<Rightarrow> False
    | Some None \<Rightarrow> \<forall>i. j < i \<and> i \<le> length dirs \<longrightarrow> \<not> can_allocate W (snd (dirs ! ((start + i) mod length dirs))) st n
    | Some (Some k) \<Rightarrow> k < length dirs \<and> can_allocate W (snd (dirs ! k)) st n"
  using assms(2,3)
proof (induction fuel arbitrary: j)
  case (Suc fuel)
  let ?n = "length dirs" and ?k = "(start + Suc j) mod length dirs"
  have k: "((start + j) mod ?n + 1) mod ?n = ?k" by (simp add: mod_Suc_eq)
  have "?k < ?n" using assms(1) by (intro mod_less_divisor) linarith
  have again: "?k = start \<longleftrightarrow> Suc j = ?n" using wrap_start[of start ?n "Suc j"] assms(1) Suc.prems(1) by simp
  consider (fits) "can_allocate W (snd (dirs ! ?k)) st n" | (ends) "\<not> can_allocate W (snd (dirs ! ?k)) st n" "Suc j = ?n"
    | (goes) "\<not> can_allocate W (snd (dirs ! ?k)) st n" "Suc j < ?n" using Suc.prems(1) by linarith
  then show ?case
  proof cases
    case goes
    have turn: "next_dir_loop W dirs st n start (Suc fuel) ((start + j) mod ?n) = next_dir_loop W dirs st n start fuel ?k"
      using goes again k by (simp only: next_dir_loop.simps Let_def k) simp
    have "\<not> can_allocate W (snd (dirs ! ((start + i) mod ?n))) st n"
      if "\<forall>i. Suc j < i \<and> i \<le> ?n \<longrightarrow> \<not> can_allocate W (snd (dirs ! ((start + i) mod ?n))) st n" "j < i" "i \<le> ?n" for i
      using that goes(1) by (cases "i = Suc j") simp_all
    moreover have "fuel = ?n - Suc j" using Suc.prems by linarith
    ultimately show ?thesis using Suc.IH[OF goes(2)] unfolding turn by (auto split: option.splits)
  next
    case ends
    have "\<not> can_allocate W (snd (dirs ! ((start + i) mod ?n))) st n" if "j < i" "i \<le> ?n" for i
      using that ends by (cases "i = Suc j") simp_all
    then show ?thesis using ends again k by (simp add: Let_def)
  qed (use k \<open>?k < ?n\<close> in \<open>simp add: Let_def\<close>)
qed simp

lemma all_positions:
  assumes "start < (n :: nat)" "\<And>i. 0 < i \<Longrightarrow> i \<le> n \<Longrightarrow> P ((start + i) mod n)" "k < n"
  shows "P k"
proof (cases "start < k")
  case True
  then show ?thesis using assms(2)[of "k - start"] assms(3) by simp
next
  case False
  then show ?thesis using assms(2)[of "n + k - start"] assms(1,3) by (simp add: le_mod_geq)
qed

lemma update_all: "list_all (\<lambda>(_, v). P v) xs \<Longrightarrow> P v \<Longrightarrow> list_all (\<lambda>(_, v). P v) (AList.update k v xs)"
  by (induction xs) auto

lemma get_next_dir_cases:
  assumes "indices_ok l" "dl_dirs l \<noteq> []" "distinct (map fst (dl_dirs l))" "get_next_dir W st n l = (r, l')"
  shows "indices_ok l' \<and> dl_dirs l' = dl_dirs l \<and>
    (if some_fits W l st n then \<exists>k d. r = Inr (Some k) \<and> get_dir l k = Some d \<and> can_allocate W d st n else r = Inr None)"
proof -
  let ?dirs = "dl_dirs l" and ?start = "unwrap_default (dl_cur_dirs l) st"
  let ?loop = "next_dir_loop W ?dirs st n ?start (length ?dirs) ?start"
  have start: "?start < length ?dirs" using assms(1,2)
    by (auto simp: unwrap_default_def indices_ok_def list_all_iff split: option.splits dest!: map_of_SomeD)
  have turns: "case ?loop of None \<Rightarrow> False
    | Some None \<Rightarrow> \<forall>i. 0 < i \<and> i \<le> length ?dirs \<longrightarrow> \<not> can_allocate W (snd (?dirs ! ((?start + i) mod length ?dirs))) st n
    | Some (Some k) \<Rightarrow> k < length ?dirs \<and> can_allocate W (snd (?dirs ! k)) st n"
    using next_dir_turns[of ?start ?dirs 0 "length ?dirs" W st n] start assms(2) by simp
  then consider (none) "?loop = Some None" | (found) k where "?loop = Some (Some k)" by (cases ?loop) auto
  then show ?thesis
  proof cases
    case none
    have "\<not> can_allocate W (snd (?dirs ! k)) st n" if "k < length ?dirs" for k
      using that start turns none all_positions[of ?start "length ?dirs" "\<lambda>k. \<not> can_allocate W (snd (?dirs ! k)) st n" k] by simp
    then have "\<not> some_fits W l st n" by (simp add: some_fits_def list_ex_length split_beta)
    then show ?thesis using none assms by (auto simp: get_next_dir_def)
  next
    case (found k)
    then have k: "k < length ?dirs" "can_allocate W (snd (?dirs ! k)) st n" using turns start by auto
    have mem: "?dirs ! k \<in> set ?dirs" using k(1) by simp
    then have "get_dir l (fst (?dirs ! k)) = Some (snd (?dirs ! k))" using assms(3) unfolding get_dir_def by simp
    moreover have "some_fits W l st n" using mem k(2) by (auto simp: some_fits_def list_ex_iff split_beta)
    moreover have "indices_ok (l\<lparr>dl_cur_dirs := AList.update st k (dl_cur_dirs l)\<rparr>)"
      using assms(1) k(1) by (simp add: indices_ok_def update_all)
    ultimately show ?thesis using found assms k(2) by (auto simp: get_next_dir_def)
  qed
qed

lemma fits_any_type: "can_allocate W d st n \<Longrightarrow> can_allocate W d Disk n"
  by (simp add: can_allocate_def)

lemma some_fits_dirs: "dl_dirs l' = dl_dirs l \<Longrightarrow> some_fits W l' st n \<longleftrightarrow> some_fits W l st n"
  by (simp add: some_fits_def)

text \<open>
  C31: \<^verbatim>\<open>RobinChoosingPolicy.choose_dir\<close> finds a directory for a block exactly when there is one: when
  a healthy directory of the storage type of the block has room it returns such a directory, otherwise it
  falls back to any healthy directory with room, and it fails only when there is none. The loop over the
  directories always ends, and the positions it remembers stay valid.
\<close>

theorem choose_dir_complete:
  assumes "indices_ok l" "dl_dirs l \<noteq> []" "distinct (map fst (dl_dirs l))" "choose_dir W block l = (r, l')"
  shows "indices_ok l' \<and> dl_dirs l' = dl_dirs l \<and>
    (if some_fits W l (eb_storage_type block) (eb_len block)
     then \<exists>k d. r = Inr k \<and> get_dir l k = Some d \<and> can_allocate W d (eb_storage_type block) (eb_len block)
     else if some_fits W l Disk (eb_len block) then \<exists>k d. r = Inr k \<and> get_dir l k = Some d \<and> can_allocate W d Disk (eb_len block)
     else r = Inl (Common ''Not enough space to save block''))"
proof -
  obtain r1 l1 where 1: "get_next_dir W (eb_storage_type block) (eb_len block) l = (r1, l1)" by fastforce
  obtain r2 l2 where 2: "get_next_dir W Disk (eb_len block) l1 = (r2, l2)" by fastforce
  note first = get_next_dir_cases[OF assms(1-3) 1]
  then have second: "indices_ok l2 \<and> dl_dirs l2 = dl_dirs l1 \<and>
    (if some_fits W l1 Disk (eb_len block) then \<exists>k d. r2 = Inr (Some k) \<and> get_dir l1 k = Some d \<and> can_allocate W d Disk (eb_len block)
     else r2 = Inr None)"
    using assms(2,3) by (intro get_next_dir_cases[OF _ _ _ 2]) auto
  have "get_dir l1 = get_dir l" using first by (simp add: get_dir_def fun_eq_iff)
  moreover have "some_fits W l1 Disk (eb_len block) \<longleftrightarrow> some_fits W l Disk (eb_len block)" using first by (simp add: some_fits_def)
  ultimately show ?thesis
    using first second assms(4) 1 2 unfolding choose_dir_def bind_op_def
    by (cases "some_fits W l (eb_storage_type block) (eb_len block)"; cases "some_fits W l Disk (eb_len block)";
        cases "eb_storage_type block = Disk") (auto split: if_splits)
qed

subsection \<open>Space\<close>

lemma i64_of_diff: "i64_of (a - i64_of b) = i64_of (a - b)"
  using signed_take_bit_diff[of 63 a "signed_take_bit 63 b"] signed_take_bit_diff[of 63 a b] by (simp add: i64_of_def)

lemma vfs_available_alt:
  "vfs_available W d = (let sp = os_space W (rs_base_path (vd_state d)) in
     max 0 (min (i64_of (vfs_capacity W d - ss_used_space sp - vd_reserved_bytes d)) (ss_available_space sp)))"
proof -
  have "a - f - i64_of (u - f) - r = (a - f - r) - i64_of (u - f)" "a - u - r = (a - f - r) - (u - f)" for a f u r
    by simp_all
  then show ?thesis unfolding vfs_available_def Let_def by (simp only: i64_of_diff)
qed


subsection \<open>Restart\<close>

definition recovered :: "disk \<Rightarrow> blk_meta \<Rightarrow> blk_meta" where
  "recovered k m = m\<lparr>bk_len := the (map_of k (meta_path m))\<rparr>"

definition dir_weight :: "u32 \<Rightarrow> blk_meta \<Rightarrow> i64" where
  "dir_weight k m = (if rs_dir_id (bk_dir m) = k then bk_len m else 0)"

lemma recovered_simps [simp]:
  "bk_id (recovered k m) = bk_id m" "bk_state (recovered k m) = bk_state m" "bk_dir (recovered k m) = bk_dir m"
  by (simp_all add: recovered_def)

lemma scan_files_all:
  assumes "\<And>p. p \<in> set ps \<Longrightarrow> \<exists>x. meta_from_file W k p st d = Inr x \<and> Q p x"
  shows "\<exists>ms. scan_files W k d st ps = Inr ms \<and> list_all2 Q ps ms"
  using assms
proof (induction ps)
  case (Cons p ps)
  obtain x where "meta_from_file W k p st d = Inr x" "Q p x" using Cons.prems[of p] by auto
  moreover obtain ms where "scan_files W k d st ps = Inr ms" "list_all2 Q ps ms" using Cons by force
  ultimately show ?case by auto
qed simp

text \<open>A file of a directory is the file of a block of that directory, in the state of the place it is in.\<close>

lemma file_block:
  assumes inv: "store_inv ds" and s: "(j, vd_state d) \<in> set (dir_states (ds_dir_list ds))" and st: "st \<noteq> BkRecovering"
    and p: "map_of (ds_disk ds) p = Some n" "take 2 p = [rs_base_path (vd_state d), if st = BkFinalized then ''finalized'' else ''rbw'']"
  obtains i m where "map_of (ds_block_map ds) i = Some m" "p = meta_path m" "bk_dir m = vd_state d" "bk_state m = st"
proof -
  obtain i m where m: "map_of (ds_block_map ds) i = Some m" "p = meta_path m" using store_invD(3)[OF inv p(1)] by blast
  note ok = store_invD(2)[OF inv m(1)]
  have st': "bk_state m = st" and base: "rs_base_path (bk_dir m) = rs_base_path (vd_state d)"
    using p(2) st ok unfolding m(2) by (cases st; cases "bk_state m"; simp add: block_path_def block_ok_def)+
  obtain e where e: "get_dir (ds_dir_list ds) (rs_dir_id (bk_dir m)) = Some e" "vd_state e = bk_dir m" using ok by (auto simp: block_ok_def)
  note se = get_dir_state[OF e(1)]
  have "rs_dir_id (bk_dir m) = j" using store_invD(1)[OF inv] s se base e(2) unfolding dirs_inv_def by fastforce
  moreover have "distinct (map fst (dir_states (ds_dir_list ds)))" using store_invD(1)[OF inv] by (simp add: dirs_inv_def)
  ultimately have "bk_dir m = vd_state d" using s se e(2) by (metis map_of_eq_Some_iff option.inject)
  then show ?thesis using that m st' by blast
qed

lemma meta_from_file_block:
  assumes inv: "store_inv ds" and "map_of (ds_block_map ds) i = Some m" "bk_dir m = vd_state d" "word_ok W"
    and "os_performs W (StatFile (meta_path m))"
  shows "meta_from_file W (ds_disk ds) (meta_path m) (bk_state m) d = Inr (recovered (ds_disk ds) m)"
proof -
  note ok = store_invD(2)[OF inv assms(2)]
  have "last (meta_path m) = get_name i" using ok by (auto simp: block_path_def block_ok_def split: blk_state.splits)
  moreover have "check_file W (get_name i) = Inr (Some i)" using ok check_file_name[OF assms(4)] by (simp add: block_ok_def)
  moreover obtain n where "map_of (ds_disk ds) (meta_path m) = Some n" using ok by (auto simp: block_ok_def)
  ultimately show ?thesis using ok assms(3,5) by (simp add: meta_from_file_def file_len_def recovered_def block_ok_def)
qed

lemma files_under_iff: "p \<in> set (files_under k dir) \<longleftrightarrow> map_of k p \<noteq> None \<and> take (length dir) p = dir"
  unfolding files_under_def by (auto simp: map_of_eq_None_iff)

definition dir_files :: "disk \<Rightarrow> dir_state \<Rightarrow> file_path list" where
  "dir_files k s = files_under k [rs_base_path s, ''finalized''] @ files_under k [rs_base_path s, ''rbw'']"

definition scanned :: "vfs_dataset \<Rightarrow> file_path \<Rightarrow> blk_meta \<Rightarrow> bool" where
  "scanned ds p x \<longleftrightarrow> p = meta_path x \<and> (\<exists>m. map_of (ds_block_map ds) (bk_id x) = Some m \<and> x = recovered (ds_disk ds) m)"

lemma vfs_scan_blocks_dir:
  assumes inv: "store_inv ds" and s: "(j, vd_state d) \<in> set (dir_states (ds_dir_list ds))" and W: "word_ok W" "\<And>p. os_performs W (StatFile p)" "\<And>p. os_performs W (ListDir p)"
  shows "\<exists>ms. vfs_scan_blocks W (ds_disk ds) d = Inr ms \<and> list_all2 (scanned ds) (dir_files (ds_disk ds) (vd_state d)) ms"
proof -
  have one: "\<exists>x. meta_from_file W (ds_disk ds) p st d = Inr x \<and> scanned ds p x"
    if st: "st \<noteq> BkRecovering" and p: "p \<in> set (files_under (ds_disk ds) [rs_base_path (vd_state d), if st = BkFinalized then ''finalized'' else ''rbw''])" for p st
  proof -
    obtain n where "map_of (ds_disk ds) p = Some n" using p by (auto simp: files_under_iff)
    then obtain i m where m: "map_of (ds_block_map ds) i = Some m" "p = meta_path m" "bk_dir m = vd_state d" "bk_state m = st"
      using p file_block[OF inv s st] by (metis files_under_iff length_Cons list.size(3) numeral_2_eq_2)
    moreover have "bk_id m = i" using store_invD(2)[OF inv m(1)] by (simp add: block_ok_def)
    ultimately show ?thesis using meta_from_file_block[OF inv m(1,3) W(1) W(2)] by (auto simp: scanned_def)
  qed
  obtain fs where "scan_files W (ds_disk ds) d BkFinalized (files_under (ds_disk ds) [rs_base_path (vd_state d), ''finalized'']) = Inr fs"
    "list_all2 (scanned ds) (files_under (ds_disk ds) [rs_base_path (vd_state d), ''finalized'']) fs"
    using scan_files_all[OF one[of BkFinalized]] by fastforce
  moreover obtain ws where "scan_files W (ds_disk ds) d BkWriting (files_under (ds_disk ds) [rs_base_path (vd_state d), ''rbw'']) = Inr ws"
    "list_all2 (scanned ds) (files_under (ds_disk ds) [rs_base_path (vd_state d), ''rbw'']) ws"
    using scan_files_all[OF one[of BkWriting]] by fastforce
  ultimately show ?thesis by (auto simp: vfs_scan_blocks_def list_files_def W Let_def dir_files_def intro: list_all2_appendI)
qed

lemma load_blocks_frame [simp]:
  "ds_disk (load_blocks ms ds) = ds_disk ds" "load_blocks (ms @ ms') ds = load_blocks ms' (load_blocks ms ds)"
  by (induction ms arbitrary: ds) simp_all

lemma load_dirs_all:
  assumes "\<And>d. d \<in> set dirs \<Longrightarrow> \<exists>ms. vfs_scan_blocks W (ds_disk ds) d = Inr ms \<and> list_all2 Q (F d) ms"
  shows "\<exists>ms. load_dirs W dirs ds = (Inr (), load_blocks ms ds) \<and> list_all2 Q (concat (map F dirs)) ms"
  using assms
proof (induction dirs arbitrary: ds)
  case Nil
  show ?case by (intro exI[of _ "[]"]) simp
next
  case (Cons d dirs)
  obtain ms where ms: "vfs_scan_blocks W (ds_disk ds) d = Inr ms" "list_all2 Q (F d) ms" using Cons.prems[of d] by auto
  obtain ms' where "load_dirs W dirs (load_blocks ms ds) = (Inr (), load_blocks ms' (load_blocks ms ds))" "list_all2 Q (concat (map F dirs)) ms'"
    using Cons.IH[of "load_blocks ms ds"] Cons.prems by force
  then show ?case using ms by (intro exI[of _ "ms @ ms'"]) (auto intro: list_all2_appendI)
qed

lemma load_blocks_map:
  assumes "distinct (map bk_id ms)"
  shows "map_of (ds_block_map (load_blocks ms ds)) = map_of (ds_block_map ds) ++ map_of (map (\<lambda>x. (bk_id x, x)) ms)"
  using assms
proof (induction ms arbitrary: ds)
  case (Cons m ms)
  then have "bk_id m \<notin> dom (map_of (map (\<lambda>x. (bk_id x, x)) ms))" by (auto simp: dom_map_of_conv_image_fst)
  then show ?case using Cons by (auto simp: fun_eq_iff map_add_def split: option.splits)
qed simp

lemma load_blocks_dir:
  assumes "\<And>x. x \<in> set ms \<Longrightarrow> 0 \<le> bk_len x" "get_dir (ds_dir_list ds) k = Some d" "0 \<le> vd_final_bytes d"
    and "vd_final_bytes d + sum_list (map (dir_weight k) ms) < 2 ^ 63"
  shows "get_dir (ds_dir_list (load_blocks ms ds)) k = Some (d\<lparr>vd_final_bytes := vd_final_bytes d + sum_list (map (dir_weight k) ms)\<rparr>)"
  using assms
proof (induction ms arbitrary: ds d)
  case (Cons m ms)
  let ?ds = "put_block m (with_dir (rs_dir_id (bk_dir m)) (reserve_space True (bk_len m)) ds)"
  let ?d = "d\<lparr>vd_final_bytes := vd_final_bytes d + dir_weight k m\<rparr>"
  have nonneg: "0 \<le> sum_list (map (dir_weight k) ms)" using Cons.prems(1) by (intro sum_list_nonneg) (auto simp: dir_weight_def)
  then have "vd_final_bytes d + dir_weight k m < 2 ^ 63" using Cons.prems(4) by simp
  then have d: "get_dir (ds_dir_list ?ds) k = Some ?d"
    using Cons.prems(1)[of m] Cons.prems(2,3) reserve_exact[of "bk_len m" True d] by (auto simp: dir_weight_def)
  have "0 \<le> vd_final_bytes ?d" using Cons.prems(1)[of m] Cons.prems(3) by (simp add: dir_weight_def)
  then have "get_dir (ds_dir_list (load_blocks ms ?ds)) k =
      Some (?d\<lparr>vd_final_bytes := vd_final_bytes ?d + sum_list (map (dir_weight k) ms)\<rparr>)"
    using Cons.prems(1,4) by (intro Cons.IH[OF _ d]) (simp_all add: add.assoc)
  then show ?case by (simp add: add.assoc)
qed simp

lemma tally_list:
  assumes "distinct (map bk_id ms)"
  shows "tally (map_of (map (\<lambda>x. (bk_id x, x)) ms)) w = sum_list (map w ms)"
  using assms
proof (induction ms)
  case (Cons m ms)
  then have "map_of (map (\<lambda>x. (bk_id x, x)) ms) (bk_id m) = None" by (auto simp: map_of_eq_None_iff)
  moreover have "map_of (map (\<lambda>x. (bk_id x, x)) (m # ms)) = (map_of (map (\<lambda>x. (bk_id x, x)) ms))(bk_id m \<mapsto> m)" by (simp add: fun_eq_iff)
  ultimately show ?case using Cons tally_put[of "map_of (map (\<lambda>x. (bk_id x, x)) ms)" "bk_id m" m w]
    by (metis (no_types, lifting) add.commute diff_zero distinct.simps(2) finite_dom_map_of list.simps(9) option.simps(4) sum_list.Cons)
qed (simp add: tally_def)

lemma dir_files_iff:
  "p \<in> set (dir_files k s) \<longleftrightarrow>
     map_of k p \<noteq> None \<and> (take 2 p = [rs_base_path s, ''finalized''] \<or> take 2 p = [rs_base_path s, ''rbw''])"
  by (auto simp: dir_files_def files_under_iff numeral_2_eq_2)

lemma dir_files_distinct:
  assumes "distinct (map fst k)" "distinct (map rs_base_path ss)"
  shows "distinct (concat (map (dir_files k) ss))"
  using assms(2)
proof (induction ss)
  case (Cons s ss)
  have "distinct (dir_files k s)"
    using assms(1) by (auto simp: dir_files_def files_under_def numeral_2_eq_2)
  moreover have False if "p \<in> set (dir_files k s)" "t \<in> set ss" "p \<in> set (dir_files k t)" for p t
  proof -
    have "rs_base_path s = rs_base_path t" using that(1,3) by (auto simp: dir_files_iff)
    then show False using Cons.prems that(2) by auto
  qed
  ultimately show ?case using Cons by auto
qed simp

text \<open>The blocks that the scan of all directories finds are those of the data set, each of them once.\<close>

lemma scanned_blocks:
  assumes inv: "store_inv ds" and ss: "set ss = snd ` set (dir_states (ds_dir_list ds))" "distinct (map rs_base_path ss)"
    and disk: "distinct (map fst (ds_disk ds))" and ms: "list_all2 (scanned ds) (concat (map (dir_files (ds_disk ds)) ss)) ms"
  shows "distinct (map bk_id ms)"
    and "map_of (map (\<lambda>x. (bk_id x, x)) ms) i = map_option (recovered (ds_disk ds)) (map_of (ds_block_map ds) i)"
proof -
  have paths: "map (\<lambda>x. meta_path x) ms = concat (map (dir_files (ds_disk ds)) ss)"
    using ms by (simp add: list_all2_conv_all_nth scanned_def list_eq_iff_nth_eq)
  have each: "\<exists>m. map_of (ds_block_map ds) (bk_id x) = Some m \<and> x = recovered (ds_disk ds) m" if "x \<in> set ms" for x
    using ms that by (auto simp: list_all2_conv_all_nth in_set_conv_nth scanned_def)
  have "distinct (map (\<lambda>x. meta_path x) ms)" unfolding paths by (rule dir_files_distinct[OF disk ss(2)])
  then have "distinct ms" by (simp add: distinct_map)
  moreover have "inj_on bk_id (set ms)" using each by (intro inj_onI) (metis option.inject)
  ultimately show dist: "distinct (map bk_id ms)" by (simp add: distinct_map)
  show "map_of (map (\<lambda>x. (bk_id x, x)) ms) i = map_option (recovered (ds_disk ds)) (map_of (ds_block_map ds) i)"
  proof (cases "map_of (ds_block_map ds) i")
    case None
    then have "\<forall>x\<in>set ms. bk_id x \<noteq> i" using each by fastforce
    then have "map_of (map (\<lambda>x. (bk_id x, x)) ms) i = None" by (auto simp: map_of_eq_None_iff)
    then show ?thesis using None by simp
  next
    case (Some m)
    note ok = store_invD(2)[OF inv Some]
    obtain e where e: "get_dir (ds_dir_list ds) (rs_dir_id (bk_dir m)) = Some e" "vd_state e = bk_dir m" using ok by (auto simp: block_ok_def)
    then have "bk_dir m \<in> set ss" using get_dir_state[OF e(1)] ss(1) by force
    moreover have "meta_path m \<in> set (dir_files (ds_disk ds) (bk_dir m))"
      using ok by (auto simp: dir_files_iff block_ok_def block_path_def split: blk_state.splits)
    ultimately have "meta_path m \<in> set (map (\<lambda>x. meta_path x) ms)" unfolding paths by auto
    then obtain x where x: "x \<in> set ms" "meta_path x = meta_path m" by auto
    obtain m' where m': "map_of (ds_block_map ds) (bk_id x) = Some m'" "x = recovered (ds_disk ds) m'" using each[OF x(1)] by blast
    have "meta_path m' = meta_path m" using x(2) m'(2) by simp
    then have id: "bk_id x = i" using meta_path_inject[OF inv store_invD(2)[OF inv m'(1)] ok] by blast
    then have "x = recovered (ds_disk ds) m" using m' Some by simp
    moreover have "(i, x) \<in> set (map (\<lambda>x. (bk_id x, x)) ms)" using id x(1) unfolding set_map by (intro image_eqI[of _ _ x]) simp_all
    moreover have "distinct (map fst (map (\<lambda>x. (bk_id x, x)) ms))" using dist by (simp add: comp_def)
    ultimately show ?thesis using Some by (metis (no_types, lifting) map_of_is_SomeI option.simps(9))
  qed
qed

text \<open>What the files of a directory hold is within what was counted for its blocks.\<close>

lemma recovered_weight:
  assumes "store_inv ds" "map_of (ds_block_map ds) i = Some m"
  shows "0 \<le> bk_len (recovered (ds_disk ds) m)" "dir_weight k (recovered (ds_disk ds) m) \<le> weight True k m + weight False k m"
  using store_invD(2)[OF assms] by (auto simp: recovered_def dir_weight_def weight_def block_ok_def split: if_splits)

lemma recovered_tally:
  assumes inv: "store_inv ds" and d: "get_dir (ds_dir_list ds) k = Some d"
    and M: "\<And>i. M i = map_option (recovered (ds_disk ds)) (map_of (ds_block_map ds) i)"
  shows "tally M (dir_weight k) < 2 ^ 63"
proof -
  have "dom M = dom (map_of (ds_block_map ds))" unfolding M dom_def by auto
  then have "tally M (dir_weight k) \<le> (\<Sum>i\<in>dom (map_of (ds_block_map ds)). weight True k (the (map_of (ds_block_map ds) i)) + weight False k (the (map_of (ds_block_map ds) i)))"
    unfolding tally_def using recovered_weight(2)[OF inv] by (auto intro!: sum_mono simp: M)
  also have "\<dots> = tally (map_of (ds_block_map ds)) (weight True k) + tally (map_of (ds_block_map ds)) (weight False k)"
    by (simp add: tally_def sum.distrib)
  also have "\<dots> < 2 ^ 63" using store_invD(4)[OF inv d] get_dir_id[OF store_invD(1)[OF inv] d] by (simp add: counters_ok_def)
  finally show ?thesis .
qed

lemma get_dir_states: "map_option vd_state (get_dir l k) = map_of (dir_states l) k"
proof -
  have "map_of (map (\<lambda>(i, d). (i, vd_state d)) xs) k = map_option vd_state (map_of xs k)" for xs by (induction xs) auto
  from this[of "dl_dirs l"] show ?thesis unfolding get_dir_def dir_states_def by (rule sym)
qed

lemma distinct_values:
  assumes "distinct (map fst xs)" "\<And>x y. x \<in> set xs \<Longrightarrow> y \<in> set xs \<Longrightarrow> f (snd x) = f (snd y) \<Longrightarrow> fst x = fst y"
  shows "distinct (map f (map snd xs))"
proof -
  have "distinct xs" "inj_on fst (set xs)" using assms(1) by (simp_all add: distinct_map)
  moreover from this have "inj_on (f \<circ> snd) (set xs)" using assms(2) by (intro inj_onI) (metis comp_apply inj_onD)
  ultimately have "distinct (map (f \<circ> snd) xs)" by (simp add: distinct_map)
  then show ?thesis by simp
qed

lemma dirs_inv_bases: "dirs_inv l \<Longrightarrow> distinct (map rs_base_path (map snd (dir_states l)))"
  unfolding dirs_inv_def split_beta by (intro distinct_values) blast+

lemma load_blocks_dom: "get_dir (ds_dir_list (load_blocks ms ds)) k = None \<longleftrightarrow> get_dir (ds_dir_list ds) k = None"
  by (induction ms arbitrary: ds) simp_all

text \<open>
  C30: a restart finds the blocks again: when the counters of the directories are zero, as they are after
  \<^verbatim>\<open>VfsDir::new\<close>, the data set that \<^verbatim>\<open>VfsDataset::new\<close> builds from the files has exactly the blocks of
  the data set before, each in its directory and state with the length of its file, and the counter of a
  directory is the sum of the lengths of its files. Assumed are a data set whose state agrees with its
  disk, that the regular expression accepts the digits of a block id, and that files can be listed and examined.
\<close>

theorem restart_rebuilds:
  assumes inv: "store_inv ds" and disk: "distinct (map fst (ds_disk ds))" and l: "dir_states l = dir_states (ds_dir_list ds)"
    "list_all (\<lambda>(_, d). vd_final_bytes d = 0 \<and> vd_tmp_bytes d = 0) (dl_dirs l)" and W: "word_ok W" "\<And>p. os_performs W (StatFile p)" "\<And>p. os_performs W (ListDir p)"
  shows "\<exists>ds'. dataset_new W cid l (ds_disk ds) = Inr ds' \<and> ds_disk ds' = ds_disk ds \<and>
    (\<forall>i. map_of (ds_block_map ds') i = map_option (recovered (ds_disk ds)) (map_of (ds_block_map ds) i)) \<and>
    (\<forall>k d. get_dir (ds_dir_list ds') k = Some d \<longrightarrow>
       vd_final_bytes d = tally (map_of (ds_block_map ds')) (dir_weight k) \<and> vd_tmp_bytes d = 0)"
proof -
  let ?init = "\<lparr>ds_cluster_id = cid, ds_dir_list = l, ds_block_map = [], ds_disk = ds_disk ds\<rparr>"
  let ?ss = "map snd (dir_states l)"
  have "\<exists>ms. load_dirs W (map snd (dl_dirs l)) ?init = (Inr (), load_blocks ms ?init) \<and>
      list_all2 (scanned ds) (concat (map (\<lambda>d. dir_files (ds_disk ds) (vd_state d)) (map snd (dl_dirs l)))) ms"
  proof (rule load_dirs_all)
    fix d assume "d \<in> set (map snd (dl_dirs l))"
    then obtain j where "(j, vd_state d) \<in> set (dir_states l)" by (force simp: dir_states_def)
    then show "\<exists>ms. vfs_scan_blocks W (ds_disk ?init) d = Inr ms \<and> list_all2 (scanned ds) (dir_files (ds_disk ds) (vd_state d)) ms"
      using vfs_scan_blocks_dir[OF inv _ W] l(1) by simp
  qed
  moreover have "map (\<lambda>d. dir_files (ds_disk ds) (vd_state d)) (map snd (dl_dirs l)) = map (dir_files (ds_disk ds)) ?ss"
    by (simp add: dir_states_def split_beta)
  ultimately obtain ms where load: "load_dirs W (map snd (dl_dirs l)) ?init = (Inr (), load_blocks ms ?init)"
    and ms: "list_all2 (scanned ds) (concat (map (dir_files (ds_disk ds)) ?ss)) ms" by auto
  let ?M = "map_of (map (\<lambda>x. (bk_id x, x)) ms)"
  have ss: "set ?ss = snd ` set (dir_states (ds_dir_list ds))" "distinct (map rs_base_path ?ss)"
    using l(1) dirs_inv_bases[OF store_invD(1)[OF inv]] by simp_all
  note found = scanned_blocks[OF inv ss disk ms]
  have map: "map_of (ds_block_map (load_blocks ms ?init)) = ?M" using load_blocks_map[OF found(1)] by simp
  have nonneg: "0 \<le> bk_len x" if "x \<in> set ms" for x
    using that ms recovered_weight(1)[OF inv] by (force simp: list_all2_conv_all_nth in_set_conv_nth scanned_def)
  have count: "vd_final_bytes d = tally ?M (dir_weight k) \<and> vd_tmp_bytes d = 0"
    if d: "get_dir (ds_dir_list (load_blocks ms ?init)) k = Some d" for k d
  proof -
    obtain d0 where d0: "get_dir l k = Some d0" using d load_blocks_dom[of ms ?init k] by auto
    then have zero: "vd_final_bytes d0 = 0 \<and> vd_tmp_bytes d0 = 0" using l(2) map_of_SomeD unfolding get_dir_def list_all_iff by fastforce
    obtain e where "get_dir (ds_dir_list ds) k = Some e"
      using get_dir_states[of l k] get_dir_states[of "ds_dir_list ds" k] l(1) d0 by (cases "get_dir (ds_dir_list ds) k") simp_all
    from recovered_tally[OF inv this found(2)] have "sum_list (map (dir_weight k) ms) < 2 ^ 63" unfolding tally_list[OF found(1)] .
    then show ?thesis using load_blocks_dir[of ms ?init k d0] nonneg d d0 zero tally_list[OF found(1)] by simp
  qed
  show ?thesis using load map found(2) count by (intro exI[of _ "load_blocks ms ?init"]) (simp add: dataset_new_def dataset_initialize_def)
qed

subsection \<open>A worker with one directory\<close>

definition ex_os :: worker_os where
  "ex_os = \<lparr>os_performs = (\<lambda>c. True), os_space = (\<lambda>p. \<lparr>ss_total_space = 1000, ss_used_space = 0, ss_available_space = 1000\<rparr>),
     os_check_dir = (\<lambda>p. True), os_word = (\<lambda>s. s \<noteq> [])\<rparr>"

definition ex_dirs :: dir_list where
  "ex_dirs = \<lparr>dl_dirs = [(1, \<lparr>vd_storage_id = ''s'', vd_state = \<lparr>rs_dir_id = 1, rs_base_path = ''d1'', rs_storage_type = Ssd\<rparr>,
      vd_conf_capacity = 500, vd_reserved_bytes = 0, vd_final_bytes = 0, vd_tmp_bytes = 0, vd_check_failed = False\<rparr>)], dl_cur_dirs = []\<rparr>"

definition ex_empty :: vfs_dataset where
  "ex_empty = \<lparr>ds_cluster_id = ''c'', ds_dir_list = ex_dirs, ds_block_map = [], ds_disk = []\<rparr>"

definition ex_block :: extended_block where
  "ex_block = \<lparr>eb_id = 7, eb_len = 100, eb_storage_type = Ssd, eb_file_type = FtFile\<rparr>"

text \<open>A block of 100 bytes is created and its first 50 bytes are written.\<close>

definition ex_open :: vfs_dataset where
  "ex_open = (let ds = snd (ds_create_block ex_os ex_block ex_empty) in ds\<lparr>ds_disk := bt_insert [''d1'', ''rbw'', ''blk_7''] 50 (ds_disk ds)\<rparr>)"

definition ex_done :: vfs_dataset where
  "ex_done = snd (ds_finalize_block ex_os ex_block ex_open)"

lemma ex_word_ok: "word_ok ex_os" "os_performs ex_os c"
  by (simp_all add: word_ok_def ex_os_def)

lemma ex_open_eq: "map_of (ds_block_map (snd (ds_create_block ex_os ex_block ex_empty))) 7 =
    Some (meta_new 7 100 (snd (hd (dl_dirs ex_dirs))))"
  "meta_path (meta_new 7 100 (snd (hd (dl_dirs ex_dirs)))) = [''d1'', ''rbw'', ''blk_7'']"
  by code_simp+

lemma ex_store_reach: "store_reach ex_empty ex_done"
proof (intro rtranclp.rtrancl_into_rtrancl[OF rtranclp.rtrancl_into_rtrancl[OF rtranclp.rtrancl_into_rtrancl[OF rtranclp.rtrancl_refl]]])
  show "store_step ex_empty (snd (ds_create_block ex_os ex_block ex_empty))"
    by (rule create_step[of ex_block _ ex_os "fst (ds_create_block ex_os ex_block ex_empty)"])
      (simp_all add: block_admissible_def ex_block_def ex_empty_def ex_dirs_def)
  show "store_step (snd (ds_create_block ex_os ex_block ex_empty)) ex_open"
    using write_step[OF ex_open_eq(1), of 50] unfolding ex_open_eq(2) by (simp add: ex_open_def Let_def meta_new_def)
  show "store_step ex_open ex_done"
    by (rule finalize_step[of ex_os ex_block _ "fst (ds_finalize_block ex_os ex_block ex_open)"]) (simp add: ex_done_def)
qed

lemma ex_empty_store: "empty_store ex_empty"
  by code_simp

subsection \<open>Consistency\<close>





subsection \<open>A block that was open at the restart\<close>


theorem restart_rebuilds_witness:
  "\<exists>ds'. dataset_new ex_os ''c'' ex_dirs (ds_disk ex_done) = Inr ds' \<and> map_option bk_len (map_of (ds_block_map ds') 7) = Some 50"
proof -
  have "store_inv ex_done" by (rule store_system.kept_by_steps[OF ex_store_reach empty_data_inv[OF ex_empty_store]])
  moreover have "distinct (map fst (ds_disk ex_done))" "dir_states ex_dirs = dir_states (ds_dir_list ex_done)"
    "list_all (\<lambda>(_, d). vd_final_bytes d = 0 \<and> vd_tmp_bytes d = 0) (dl_dirs ex_dirs)"
    "map_option (\<lambda>m. bk_len (recovered (ds_disk ex_done) m)) (map_of (ds_block_map ex_done) 7) = Some 50" by code_simp+
  ultimately show ?thesis using restart_rebuilds[of ex_done ex_dirs ex_os "''c''"] ex_word_ok by (auto simp: option.map_comp comp_def)
qed

theorem choose_dir_complete_witness:
  "fst (choose_dir ex_os ex_block ex_dirs) = Inr 1 \<and>
   (\<exists>k d. fst (choose_dir ex_os ex_block ex_dirs) = Inr k \<and> get_dir ex_dirs k = Some d \<and> can_allocate ex_os d Ssd 100)"
proof -
  have "indices_ok ex_dirs" "dl_dirs ex_dirs \<noteq> []" "distinct (map fst (dl_dirs ex_dirs))" "some_fits ex_os ex_dirs Ssd 100"
    "fst (choose_dir ex_os ex_block ex_dirs) = Inr 1" by code_simp+
  moreover have "eb_storage_type ex_block = Ssd" "eb_len ex_block = 100" by (simp_all add: ex_block_def)
  ultimately show ?thesis
    using choose_dir_complete[of ex_dirs ex_os ex_block "fst (choose_dir ex_os ex_block ex_dirs)" "snd (choose_dir ex_os ex_block ex_dirs)"]
    by (metis prod.collapse)
qed

end
