(* ===== verification/Worker_Heartbeat.thy ===== *)
theory Worker_Heartbeat
  imports Worker_Store_Inv Master_Fs
begin

text \<open>
  \<^verbatim>\<open>HeartbeatTask\<close> (\<^verbatim>\<open>worker/block/heartbeat_task.rs\<close>): a worker reports its storages to the master, hands
  the deletions it is told to make to its executor and reports them. The two calls of the client are
  parameters, operations on the state of the other side that may fail; the executor may refuse a task,
  and the tasks it took are run later, in any order. A \<^verbatim>\<open>DashMap\<close> is a sorted association list; the order of
  the reported blocks is never observed.
\<close>

record heartbeat_task =
  ht_store :: vfs_dataset
  ht_report_blocks :: "(i64 \<times> block_report_info) list"
  ht_tasks :: "i64 list"

abbreviation with_deleted :: "i64 \<Rightarrow> block_report_info" where
  "with_deleted i \<equiv> \<lparr>br_id = i, br_status = Deleted, br_storage_type = Disk, br_block_size = 0\<rparr>"

definition delete_block_task :: "(i64 \<Rightarrow> bool) \<Rightarrow> worker_command list \<Rightarrow> heartbeat_task \<Rightarrow> heartbeat_task" where
  "delete_block_task spawns cmds t =
     foldl (\<lambda>t cmd. case cmd of DeleteBlock blocks \<Rightarrow>
       foldl (\<lambda>t block.
         if map_of (ht_report_blocks t) block \<noteq> None then t
         else t\<lparr>ht_report_blocks := bt_insert block (with_deleted block) (ht_report_blocks t),
                ht_tasks := ht_tasks t @ (if spawns block then [block] else [])\<rparr>) t blocks) t cmds"

definition get_report_blocks :: "heartbeat_task \<Rightarrow> block_report_info list \<times> heartbeat_task" where
  "get_report_blocks t = (map snd (ht_report_blocks t), t\<lparr>ht_report_blocks := []\<rparr>)"

definition put_missing_report :: "block_report_info list \<Rightarrow> heartbeat_task \<Rightarrow> heartbeat_task" where
  "put_missing_report blocks t =
     t\<lparr>ht_report_blocks := foldl (\<lambda>m block. bt_insert (br_id block) block m) (ht_report_blocks t) blocks\<rparr>"

definition heartbeat_run ::
  "worker_os \<Rightarrow> (i64 \<Rightarrow> bool) \<Rightarrow> (storage_info list \<Rightarrow> ('m, worker_command list) op) \<Rightarrow>
   (block_report_info list \<Rightarrow> ('m, unit) op) \<Rightarrow> (heartbeat_task \<times> 'm, unit) op" where
  "heartbeat_run W spawns send_heartbeat incr_block_report = (\<lambda>(t, m).
     let (info, ds) = get_and_check_storages W (ht_store t);
         t = t\<lparr>ht_store := ds\<rparr>
     in case send_heartbeat info m of
          (Inl e, m) \<Rightarrow> (Inr (), (t, m))
        | (Inr cmds, m) \<Rightarrow>
            let (report_blocks, t) = get_report_blocks (delete_block_task spawns cmds t)
            in if report_blocks = [] then (Inr (), (t, m))
               else case incr_block_report report_blocks m of
                      (Inr _, m) \<Rightarrow> (Inr (), (t, m))
                    | (Inl e, m) \<Rightarrow> (Inr (), (put_missing_report report_blocks t, m)))"

text \<open>The tasks of the executor, in the order in which it runs them.\<close>

definition run_tasks :: "worker_os \<Rightarrow> i64 list \<Rightarrow> vfs_dataset \<Rightarrow> vfs_dataset" where
  "run_tasks W order ds = fold (\<lambda>i ds. snd (async_remove_block W i ds)) order ds"

text \<open>The calls of a client that reaches the master.\<close>

definition heartbeat_call ::
  "int \<Rightarrow> string \<Rightarrow> worker_address \<Rightarrow> storage_info list \<Rightarrow> ('db master_fs, worker_command list) op" where
  "heartbeat_call now cluster_id addr info s =
     (let (r, wg) = heartbeat now cluster_id HbRunning addr info (mf_workers s) in (r, s\<lparr>mf_workers := wg\<rparr>))"

subsection \<open>What the steps do\<close>

lemma delete_block_task_effect:
  assumes "keys_sorted (ht_report_blocks t)" and t': "t' = delete_block_task spawns [DeleteBlock bs] t"
  shows "ht_store t' = ht_store t \<and> keys_sorted (ht_report_blocks t') \<and>
    map_of (ht_report_blocks t') = (\<lambda>b. if b \<in> set bs \<and> map_of (ht_report_blocks t) b = None then Some (with_deleted b)
      else map_of (ht_report_blocks t) b) \<and>
    set (ht_tasks t') = set (ht_tasks t) \<union> {b \<in> set bs. map_of (ht_report_blocks t) b = None \<and> spawns b}"
  using assms unfolding delete_block_task_def foldl.simps worker_command.case
proof (induction bs arbitrary: t t')
  case (Cons b bs)
  show ?case
  proof (cases "map_of (ht_report_blocks t) b")
    case None
    let ?t = "t\<lparr>ht_report_blocks := bt_insert b (with_deleted b) (ht_report_blocks t), ht_tasks := ht_tasks t @ (if spawns b then [b] else [])\<rparr>"
    have "keys_sorted (ht_report_blocks ?t)" using Cons.prems(1) by simp
    from Cons.IH[OF this refl] show ?thesis unfolding Cons.prems(2) foldl.simps using None by (auto simp: fun_eq_iff)
  next
    case (Some r)
    then show ?thesis unfolding Cons.prems(2) foldl.simps using Cons.IH[OF Cons.prems(1) refl] by (auto simp: fun_eq_iff)
  qed
qed (auto simp: fun_eq_iff)

lemma report_deleted:
  assumes "\<forall>x\<in>set items. br_status x = Deleted"
  shows "pending (wg_block_map (mf_workers (snd (report_loop E w items batch s)))) =
    pending (wg_block_map (mf_workers s)) - (\<lambda>x. (w, br_id x)) ` set items"
  using assms
proof (induction items arbitrary: batch s)
  case (Cons x items)
  then show ?case by (auto simp: Let_def manager_deleted_block_def pending_deleted_block)
qed simp

lemma block_report_deleted:
  assumes "\<forall>x\<in>set items. br_status x = Deleted"
  shows "pending (wg_block_map (mf_workers (snd (master_block_report E w items s)))) =
    pending (wg_block_map (mf_workers s)) - (\<lambda>x. (w, br_id x)) ` set items"
  using report_deleted[OF assms, of E w "[]" s]
  by (auto simp: master_block_report_def on_dir_def split_beta Let_def)

lemma run_tasks_blocks:
  "map_of (ds_block_map (run_tasks W order ds)) i = (if i \<in> set order then None else map_of (ds_block_map ds) i)"
proof -
  have one: "map_of (ds_block_map (snd (async_remove_block W j ds))) = (map_of (ds_block_map ds))(j := None)" for j ds
    by (auto simp: async_remove_block_def bind_op_def find_dir_def on_disk_def fun_upd_idem split: option.splits sum.splits prod.splits)
  show ?thesis unfolding run_tasks_def by (induction order arbitrary: ds) (simp_all add: one)
qed

lemma run_tasks_inv:
  assumes "store_inv ds" "\<And>c. os_performs W c"
  shows "store_inv (run_tasks W order ds)"
  using assms(1) unfolding run_tasks_def
proof (induction order arbitrary: ds)
  case (Cons i order)
  have "store_inv (snd (async_remove_block W i ds))"
    using async_remove_keeps_inv[OF Cons.prems, of W i "fst (async_remove_block W i ds)"] assms(2) by simp
  then show ?case using Cons.IH by simp
qed simp

end
