(* ===== verification/Deletion_Theorems.thy ===== *)
theory Deletion_Theorems
  imports Worker_Heartbeat Store_Theorems Worker_Theorems
begin

text \<open>
  Master and worker together: the deletions the master has pending for a worker, carried out by one
  heartbeat of the worker.
\<close>

lemma heartbeat_call_commands:
  assumes "manager_ok (mf_workers s)"
  shows "\<exists>s'. heartbeat_call now (wg_cluster_id (mf_workers s)) addr info s =
      (Inr (handle_heartbeat (wa_worker_id addr) (wg_block_map (mf_workers s))), s') \<and>
    wg_block_map (mf_workers s') = wg_block_map (mf_workers s)"
proof -
  let ?hb = "heartbeat now (wg_cluster_id (mf_workers s)) HbRunning addr info (mf_workers s)"
  have "fst ?hb = Inr (handle_heartbeat (wa_worker_id addr) (wg_block_map (mf_workers s)))"
    using insert_worker_Inr[of "wg_worker_map (mf_workers s)" now addr info] assms
    by (auto simp: heartbeat_def manager_ok_def Let_def split: prod.split)
  then show ?thesis by (simp add: heartbeat_call_def split_beta block_map_kept)
qed

text \<open>Whatever is commanded is deleted and reported.\<close>

lemma commands_carried_out:
  assumes "ht_report_blocks t = []" "ht_tasks t = []" "cmds = handle_heartbeat w bm"
    and "get_report_blocks (delete_block_task (\<lambda>b. True) cmds t) = (items, t')"
  shows "ht_store t' = ht_store t \<and> set (ht_tasks t') = {b. (w, b) \<in> pending bm} \<and>
    (\<forall>x\<in>set items. br_status x = Deleted) \<and> br_id ` set items = {b. (w, b) \<in> pending bm} \<and> ht_report_blocks t' = []"
proof (cases "map_of bm w")
  case None
  then show ?thesis using assms by (auto simp: handle_heartbeat_def delete_block_task_def get_report_blocks_def pending_def entry_or_default_def)
next
  case (Some bs)
  let ?t = "delete_block_task (\<lambda>b. True) [DeleteBlock bs] t"
  have cmds: "cmds = [DeleteBlock bs]" using assms(3) Some by (simp add: handle_heartbeat_def)
  have eff: "ht_store ?t = ht_store t" "keys_sorted (ht_report_blocks ?t)"
    "\<And>b. map_of (ht_report_blocks ?t) b = (if b \<in> set bs then Some (with_deleted b) else None)" "set (ht_tasks ?t) = set bs"
    using delete_block_task_effect[of t ?t "\<lambda>b. True" bs] assms(1,2) by simp_all
  have "(b, x) \<in> set (ht_report_blocks ?t) \<longleftrightarrow> b \<in> set bs \<and> x = with_deleted b" for b x
    using map_of_sorted_iff[OF eff(2), of b x] eff(3)[of b] by (auto split: if_splits)
  then have "snd ` set (ht_report_blocks ?t) = with_deleted ` set bs" by force
  moreover have "items = map snd (ht_report_blocks ?t)" "t' = ?t\<lparr>ht_report_blocks := []\<rparr>"
    using assms(4) cmds by (auto simp: get_report_blocks_def)
  moreover have "{b. (w, b) \<in> pending bm} = set bs" using Some by (simp add: pending_def entry_or_default_def)
  ultimately show ?thesis using eff by (auto simp: image_image)
qed

text \<open>
  C28: deletions are carried out. One heartbeat of a running worker with no report outstanding, sent to
  the master, takes all deletions the master has pending for the worker off its list and no others; and
  once the tasks the executor took have run, in any order, the worker has none of these blocks and all
  its other blocks, and its data set agrees with its disks again. Assumed are that the executor takes the
  tasks and that the calls of the operating system are performed.
\<close>

theorem deletions_carried_out:
  assumes "manager_ok (mf_workers s)" "store_inv (ht_store t)" "ht_report_blocks t = []" "ht_tasks t = []" "\<And>c. os_performs W c"
    and run: "heartbeat_run W (\<lambda>b. True) (heartbeat_call now (wg_cluster_id (mf_workers s)) addr)
      (master_block_report E (wa_worker_id addr)) (t, s) = (r, (t', s'))"
    and order: "set order = set (ht_tasks t')"
  defines "P \<equiv> pending (wg_block_map (mf_workers s))"
  shows "pending (wg_block_map (mf_workers s')) = {p \<in> P. fst p \<noteq> wa_worker_id addr} \<and>
    (\<forall>i. map_of (ds_block_map (run_tasks W order (ht_store t'))) i =
       (if (wa_worker_id addr, i) \<in> P then None else map_of (ds_block_map (ht_store t)) i)) \<and>
    store_inv (run_tasks W order (ht_store t'))"
proof -
  let ?w = "wa_worker_id addr" and ?ds = "snd (get_and_check_storages W (ht_store t))"
  let ?cmds = "handle_heartbeat ?w (wg_block_map (mf_workers s))"
  obtain s1 where s1: "heartbeat_call now (wg_cluster_id (mf_workers s)) addr (fst (get_and_check_storages W (ht_store t))) s = (Inr ?cmds, s1)"
    "wg_block_map (mf_workers s1) = wg_block_map (mf_workers s)" using heartbeat_call_commands[OF assms(1)] by blast
  obtain items t1 where g: "get_report_blocks (delete_block_task (\<lambda>b. True) ?cmds (t\<lparr>ht_store := ?ds\<rparr>)) = (items, t1)" by fastforce
  note made = commands_carried_out[OF _ _ refl g, simplified, OF assms(3,4)]
  have after: "ht_store t' = ?ds \<and> ht_tasks t' = ht_tasks t1 \<and> s' = (if items = [] then s1 else snd (master_block_report E ?w items s1))"
    using run s1(1) g made unfolding heartbeat_run_def
    by (auto simp: split_beta Let_def put_missing_report_def split: if_splits sum.splits)
  have "pending (wg_block_map (mf_workers s')) = P - Pair ?w ` br_id ` set items"
    using after block_report_deleted[of items E ?w s1] made s1(2) unfolding P_def by (auto simp: image_image)
  then have "pending (wg_block_map (mf_workers s')) = {p \<in> P. fst p \<noteq> ?w}" using made unfolding P_def by auto
  moreover have "store_inv (run_tasks W order (ht_store t'))"
    using after run_tasks_inv[OF check_keeps_inv[OF assms(2)] assms(5)] by simp
  moreover have "ds_block_map ?ds = ds_block_map (ht_store t)" by (simp add: get_and_check_storages_def)
  ultimately show ?thesis using after made order unfolding P_def by (simp add: run_tasks_blocks)
qed

subsection \<open>A worker with a block to delete\<close>

text \<open>The example master has a deletion of block 7 pending for worker 1, which holds that block.\<close>

definition ex_deleting :: "blob mem_db master_fs" where
  "ex_deleting = ex_master\<lparr>mf_workers := manager_remove_block 1 7 ex_workers\<rparr>"

definition ex_task :: heartbeat_task where
  "ex_task = \<lparr>ht_store = ex_done, ht_report_blocks = [], ht_tasks = []\<rparr>"

theorem deletions_carried_out_witness:
  "\<exists>t' s'. snd (heartbeat_run ex_os (\<lambda>b. True) (heartbeat_call 2000 (wg_cluster_id (mf_workers ex_deleting)) ex_address)
      (master_block_report ex_env 1) (ex_task, ex_deleting)) = (t', s') \<and>
    pending (wg_block_map (mf_workers ex_deleting)) = {(1, 7)} \<and> pending (wg_block_map (mf_workers s')) = {} \<and>
    map_of (ds_block_map ex_done) 7 \<noteq> None \<and> map_of (ds_block_map (run_tasks ex_os (ht_tasks t') (ht_store t'))) 7 = None"
proof -
  let ?run = "heartbeat_run ex_os (\<lambda>b. True) (heartbeat_call 2000 (wg_cluster_id (mf_workers ex_deleting)) ex_address)
    (master_block_report ex_env (wa_worker_id ex_address)) (ex_task, ex_deleting)"
  have w: "wa_worker_id ex_address = 1" by (simp add: ex_address_def)
  have "wg_block_map ex_workers = []" by code_simp
  moreover have "pending [] = {}" by (simp add: pending_def entry_or_default_def)
  ultimately have p: "pending (wg_block_map (mf_workers ex_deleting)) = {(1, 7)}"
    by (simp add: ex_deleting_def manager_remove_block_def pending_remove_block)
  have ok: "manager_ok (mf_workers ex_deleting)" using ex_workers_ok by (simp add: ex_deleting_def manager_remove_block_def manager_ok_def)
  have inv: "store_inv (ht_store ex_task)"
    using store_system.kept_by_steps[OF ex_store_reach empty_data_inv[OF ex_empty_store]] by (simp add: ex_task_def)
  have "map_of (ds_block_map ex_done) 7 \<noteq> None" by code_simp
  moreover have "?run = (fst ?run, (fst (snd ?run), snd (snd ?run)))" by simp
  note deletions_carried_out[OF ok inv _ _ ex_word_ok(2) this refl]
  ultimately show ?thesis by (auto simp: p w ex_task_def intro!: exI[of _ "fst (snd ?run)"] exI[of _ "snd (snd ?run)"])
qed

end
